(* ===== verification/Xnu_Prelude.thy ===== *)
theory Xnu_Prelude
  imports Main "HOL-Library.Word" "HOL-Library.Monad_Syntax"
begin

text \<open>
  Shared vocabulary of the development: names for the machine integer widths of the C sources,
  C strings as NUL-terminated byte lists, the error numbers the BSD system calls return, and the
  generic facts about lists and words that the component theories rely on.
\<close>

unbundle bit_operations_syntax

section \<open>Machine integers\<close>

type_synonym u8 = "8 word"
type_synonym u16 = "16 word"
type_synonym u32 = "32 word"
type_synonym u64 = "64 word"

section \<open>Collections of facts\<close>

named_theorems frame_simps \<open>fields an operation leaves unchanged\<close>
named_theorems inv_intros \<open>operations that preserve a component invariant\<close>

section \<open>C strings\<close>

definition cstr :: "string \<Rightarrow> u8 list" where
  "cstr s = map of_char s @ [0]"

section \<open>Lists\<close>

lemma nth_list_update_if:
  "i < length xs \<Longrightarrow> (xs[i := v]) ! j = (if j = i then v else xs ! j)"
  by simp

lemma take_drop_split:
  "a + b \<le> length xs \<Longrightarrow> xs = take a xs @ take b (drop a xs) @ drop (a + b) xs"
  by (metis add.commute append_take_drop_id drop_drop)

lemma map_nth_upt_take_drop:
  "a + n \<le> length xs \<Longrightarrow> map (\<lambda>i. xs ! (a + i)) [0..<n] = take n (drop a xs)"
  by (rule nth_equalityI) auto

section \<open>Words\<close>

lemma and_push_bit_1_eq_0:
  "(x :: 'a::len word) AND push_bit n 1 = 0 \<longleftrightarrow> \<not> (n < LENGTH('a) \<and> bit x n)"
  unfolding bit_eq_iff [of "x AND push_bit n 1" 0] by (auto simp: bit_simps)

section \<open>Loops\<close>

text \<open>A \<open>for\<close> loop over a list of indices whose body may fail.\<close>

fun for_each :: "('i \<Rightarrow> 's \<Rightarrow> 's option) \<Rightarrow> 'i list \<Rightarrow> 's \<Rightarrow> 's option" where
  "for_each f [] s = Some s"
| "for_each f (i # is) s = do { s \<leftarrow> f i s; for_each f is s }"

lemma for_each_append:
  "for_each f (xs @ ys) s = do { s \<leftarrow> for_each f xs s; for_each f ys s }"
  by (induction xs arbitrary: s) (auto split: bind_splits)

lemma for_each_map: "for_each f (map g xs) s = for_each (\<lambda>x. f (g x)) xs s"
  by (induction xs arbitrary: s) (auto split: bind_splits)

lemma for_each_upt_invariant:
  assumes "P 0 s" "\<And>i s. i < n \<Longrightarrow> P i s \<Longrightarrow> \<exists>s'. f i s = Some s' \<and> P (Suc i) s'"
  shows "\<exists>s'. for_each f [0..<n] s = Some s' \<and> P n s'"
  using assms(2)
proof (induction n)
  case 0
  then show ?case using assms(1) by simp
next
  case (Suc n)
  then obtain s1 where "for_each f [0..<n] s = Some s1" "P n s1"
    by (meson less_SucI)
  with Suc.prems [of n s1] show ?case
    by (auto simp: for_each_append)
qed

end
