(* ===== verification/Xnuxx_Probes.thy ===== *)
theory Xnuxx_Probes
  imports Xnu_Prelude
begin

text \<open>
  The inline functions of the interface headers \<^verbatim>\<open>src/include/xnu++/compat.h\<close> and
  \<^verbatim>\<open>src/include/xnu++/features.h\<close>: capability and feature probes.  A null pointer is \<open>None\<close>; the exception
  thrown by \<open>xnuxx_require_capability\<close> is a left value that carries the name it reports.
\<close>

section \<open>Capabilities\<close>

definition XNUXX_COMPAT_API_VERSION :: u32 where "XNUXX_COMPAT_API_VERSION = 1"

record xnuxx_capabilities =
  cap_bits :: u64
  cap_api_version :: u32

definition xnuxx_has_capability :: "xnuxx_capabilities option \<Rightarrow> u64 \<Rightarrow> bool" where
  "xnuxx_has_capability c b = (case c of
     None \<Rightarrow> False
   | Some c \<Rightarrow> cap_api_version c = XNUXX_COMPAT_API_VERSION \<and> cap_bits c AND b \<noteq> 0)"

definition xnuxx_require_capability :: "xnuxx_capabilities option \<Rightarrow> u64 \<Rightarrow> string \<Rightarrow> string + unit" where
  "xnuxx_require_capability c b cap_name =
     (if \<not> xnuxx_has_capability c b then Inl cap_name else Inr ())"

section \<open>Features\<close>

definition XNUXX_FEATURES_API_VERSION :: u32 where "XNUXX_FEATURES_API_VERSION = 1"

record xnuxx_feature_set =
  feat_api_version :: u32
  feat_reserved :: u32
  feat_enabled :: u64
  feat_required :: u64

definition xnuxx_features_satisfy :: "xnuxx_feature_set option \<Rightarrow> bool" where
  "xnuxx_features_satisfy fs = (case fs of
     None \<Rightarrow> False
   | Some fs \<Rightarrow> feat_api_version fs = XNUXX_FEATURES_API_VERSION \<and>
       feat_enabled fs AND feat_required fs = feat_required fs)"

section \<open>What the probes decide\<close>

lemma and_eq_right_bits: "x AND y = y \<longleftrightarrow> (\<forall>i < 64. bit y i \<longrightarrow> bit x i)" for x y :: u64
  by (auto simp: bit_eq_iff bit_simps)

lemma and_nonzero_bits: "x AND y \<noteq> 0 \<longleftrightarrow> (\<exists>i < 64. bit x i \<and> bit y i)" for x y :: u64
  by (auto simp: bit_eq_iff bit_simps)

text \<open>The probes fail closed and read the masks bit by bit: a feature set satisfies exactly when it is
  there, has the version of the interface and enables each of the 64 features it requires; requiring a
  capability raises exactly when the structure is missing, has another version or shares no bit with
  the request.\<close>
theorem probes_decide:
  "(xnuxx_features_satisfy fs \<longleftrightarrow>
     (\<exists>s. fs = Some s \<and> feat_api_version s = 1 \<and> (\<forall>i. i < 64 \<longrightarrow> bit (feat_required s) i \<longrightarrow> bit (feat_enabled s) i))) \<and>
   (xnuxx_require_capability c b cap_name = Inr () \<longleftrightarrow>
     (\<exists>s i. c = Some s \<and> cap_api_version s = 1 \<and> i < 64 \<and> bit (cap_bits s) i \<and> bit b i))"
  by (auto simp: xnuxx_features_satisfy_def xnuxx_require_capability_def xnuxx_has_capability_def
      XNUXX_FEATURES_API_VERSION_def XNUXX_COMPAT_API_VERSION_def and_eq_right_bits and_nonzero_bits split: option.splits)

theorem probes_decide_witness:
  "xnuxx_features_satisfy (Some \<lparr>feat_api_version = 1, feat_reserved = 0, feat_enabled = 5, feat_required = 4\<rparr>) \<and>
   xnuxx_require_capability (Some \<lparr>cap_bits = 0x30, cap_api_version = 1\<rparr>) 0x20 ''ROLLBACK'' = Inr ()"
proof -
  have "bit (5 :: u64) i" if "bit (4 :: u64) i" for i
  proof -
    have "bit (5 AND 4 :: u64) i = bit (4 :: u64) i" by simp
    then show ?thesis using that by (simp only: bit_and_iff) simp
  qed
  moreover have "bit (0x30 :: u64) 5" "bit (0x20 :: u64) 5" by (simp_all add: bit_numeral_rec)
  ultimately show ?thesis
    using probes_decide [of "Some \<lparr>feat_api_version = 1, feat_reserved = 0, feat_enabled = 5, feat_required = 4\<rparr>"
        "Some \<lparr>cap_bits = 0x30, cap_api_version = 1\<rparr>" "0x20" "''ROLLBACK''"] by (auto intro: exI [of _ 5])
qed

end
