(* ===== verification/Boot_Sha256.thy ===== *)
theory Boot_Sha256
  imports Xnu_Prelude
begin

text \<open>
  The measurement routine of the boot platform, \<^verbatim>\<open>src/boot/boot_platform.c\<close>: the SHA-256
  helper functions, the constant table and \<open>measure_sha256\<close> itself, over a memory given as a
  function from addresses to bytes.  The second half states the FIPS 180-4 hash function over a
  byte list (padding, parsing into blocks, the message schedule as a recurrence, rotations from
  the word library) and shows that the routine computes it.
\<close>

section \<open>The routine\<close>

definition sha256_rotr :: "u32 \<Rightarrow> nat \<Rightarrow> u32" where
  "sha256_rotr x n = drop_bit n x OR push_bit (32 - n) x"

definition sha256_ch :: "u32 \<Rightarrow> u32 \<Rightarrow> u32 \<Rightarrow> u32" where
  "sha256_ch x y z = (x AND y) XOR (NOT x AND z)"

definition sha256_maj :: "u32 \<Rightarrow> u32 \<Rightarrow> u32 \<Rightarrow> u32" where
  "sha256_maj x y z = ((x AND y) XOR (x AND z)) XOR (y AND z)"

definition sha256_ep0 :: "u32 \<Rightarrow> u32" where
  "sha256_ep0 x = (sha256_rotr x 2 XOR sha256_rotr x 13) XOR sha256_rotr x 22"

definition sha256_ep1 :: "u32 \<Rightarrow> u32" where
  "sha256_ep1 x = (sha256_rotr x 6 XOR sha256_rotr x 11) XOR sha256_rotr x 25"

definition sha256_sig0 :: "u32 \<Rightarrow> u32" where
  "sha256_sig0 x = (sha256_rotr x 7 XOR sha256_rotr x 18) XOR drop_bit 3 x"

definition sha256_sig1 :: "u32 \<Rightarrow> u32" where
  "sha256_sig1 x = (sha256_rotr x 17 XOR sha256_rotr x 19) XOR drop_bit 10 x"

definition sha256_k :: "u32 list" where
  "sha256_k = concat [
    [0x428a2f98, 0x71374491, 0xb5c0fbcf, 0xe9b5dba5],
    [0x3956c25b, 0x59f111f1, 0x923f82a4, 0xab1c5ed5],
    [0xd807aa98, 0x12835b01, 0x243185be, 0x550c7dc3],
    [0x72be5d74, 0x80deb1fe, 0x9bdc06a7, 0xc19bf174],
    [0xe49b69c1, 0xefbe4786, 0x0fc19dc6, 0x240ca1cc],
    [0x2de92c6f, 0x4a7484aa, 0x5cb0a9dc, 0x76f988da],
    [0x983e5152, 0xa831c66d, 0xb00327c8, 0xbf597fc7],
    [0xc6e00bf3, 0xd5a79147, 0x06ca6351, 0x14292967],
    [0x27b70a85, 0x2e1b2138, 0x4d2c6dfc, 0x53380d13],
    [0x650a7354, 0x766a0abb, 0x81c2c92e, 0x92722c85],
    [0xa2bfe8a1, 0xa81a664b, 0xc24b8b70, 0xc76c51a3],
    [0xd192e819, 0xd6990624, 0xf40e3585, 0x106aa070],
    [0x19a4c116, 0x1e376c08, 0x2748774c, 0x34b0bcb5],
    [0x391c0cb3, 0x4ed8aa4a, 0x5b9cca4f, 0x682e6ff3],
    [0x748f82ee, 0x78a5636f, 0x84c87814, 0x8cc70208],
    [0x90befffa, 0xa4506ceb, 0xbef9a3f7, 0xc67178f2]]"

definition sha256_h0 :: "u32 list" where
  "sha256_h0 = [
    0x6a09e667, 0xbb67ae85, 0x3c6ef372, 0xa54ff53a,
    0x510e527f, 0x9b05688c, 0x1f83d9ab, 0x5be0cd19]"

text \<open>
  The body of the block loop: sixteen big-endian loads, the extension to sixty-four words, the
  sixty-four rounds on the eight working variables, and the feed-forward into \<open>h\<close>.
\<close>

definition sha256_load :: "(nat \<Rightarrow> u8) \<Rightarrow> nat \<Rightarrow> u32 list" where
  "sha256_load data p0 =
     map (\<lambda>i. let p = p0 + i * 4 in
       ((push_bit 24 (ucast (data p)) OR push_bit 16 (ucast (data (p + 1)))) OR
        push_bit 8 (ucast (data (p + 2)))) OR ucast (data (p + 3))) [0..<16]"

definition sha256_expand :: "u32 list \<Rightarrow> u32 list" where
  "sha256_expand w16 =
     fold (\<lambda>i w. w @ [sha256_sig1 (w ! (i - 2)) + w ! (i - 7) +
                       sha256_sig0 (w ! (i - 15)) + w ! (i - 16)]) [16..<64] w16"

type_synonym sha256_regs = "u32 \<times> u32 \<times> u32 \<times> u32 \<times> u32 \<times> u32 \<times> u32 \<times> u32"

fun sha256_round :: "u32 list \<Rightarrow> nat \<Rightarrow> sha256_regs \<Rightarrow> sha256_regs" where
  "sha256_round w i (a, b, c, d, e, f, g, hh) =
     (let t1 = hh + sha256_ep1 e + sha256_ch e f g + sha256_k ! i + w ! i;
          t2 = sha256_ep0 a + sha256_maj a b c
      in (t1 + t2, a, b, c, d + t1, e, f, g))"

definition sha256_compress :: "u32 list \<Rightarrow> u32 list \<Rightarrow> u32 list" where
  "sha256_compress w h =
     (case fold (sha256_round w) [0..<64]
             (h ! 0, h ! 1, h ! 2, h ! 3, h ! 4, h ! 5, h ! 6, h ! 7) of
        (a, b, c, d, e, f, g, hh) \<Rightarrow>
          [h ! 0 + a, h ! 1 + b, h ! 2 + c, h ! 3 + d, h ! 4 + e, h ! 5 + f, h ! 6 + g, h ! 7 + hh])"

definition sha256_block :: "(nat \<Rightarrow> u8) \<Rightarrow> nat \<Rightarrow> u32 list \<Rightarrow> u32 list" where
  "sha256_block data p0 h = sha256_compress (sha256_expand (sha256_load data p0)) h"

text \<open>The final one or two blocks: the remaining bytes, the marker, zeros and the bit length.\<close>

definition sha256_tail_block :: "(nat \<Rightarrow> u8) \<Rightarrow> nat \<Rightarrow> u8 list" where
  "sha256_tail_block data payload_size =
     (let full = payload_size div 64;
          rem = payload_size mod 64;
          block = fold (\<lambda>i b. b[i := data (full * 64 + i)]) [0..<rem] (replicate 128 0);
          block = block[rem := 0x80];
          bits = (of_nat payload_size :: u64) * 8;
          total = (if rem < 56 then 64 else 128)
      in fold (\<lambda>i b. b[total - 1 - i := ucast (drop_bit (i * 8) bits)]) [0..<8] block)"

definition sha256_tail :: "(nat \<Rightarrow> u8) \<Rightarrow> nat \<Rightarrow> u32 list \<Rightarrow> u32 list" where
  "sha256_tail data payload_size h =
     (let block = sha256_tail_block data payload_size;
          total = (if payload_size mod 64 < 56 then 64 else 128 :: nat)
      in fold (\<lambda>k. sha256_block (\<lambda>p. block ! p) (k * 64)) [0..<total div 64] h)"

definition sha256_output :: "u32 list \<Rightarrow> u8 list" where
  "sha256_output h =
     concat (map (\<lambda>i. [ucast (drop_bit 24 (h ! i)), ucast (drop_bit 16 (h ! i)),
                       ucast (drop_bit 8 (h ! i)), ucast (h ! i)]) [0..<8])"

text \<open>
  \<open>measure_sha256\<close> over a 32-bit memory.  \<open>measurement\<close> is the caller's 32-byte buffer, \<open>None\<close>
  when the pointer is null; the result is the return value and the buffer afterwards.
\<close>

definition measure_sha256 ::
  "(u32 \<Rightarrow> u8) \<Rightarrow> u32 \<Rightarrow> u32 \<Rightarrow> u8 list option \<Rightarrow> int \<times> u8 list option" where
  "measure_sha256 mem payload payload_size measurement =
     (if payload = 0 \<or> measurement = None then (- 1, measurement)
      else
        let data = (\<lambda>p. mem (payload + of_nat p));
            size = unat payload_size;
            full = size div 64;
            h = fold (\<lambda>block. sha256_block data (block * 64)) [0..<full] sha256_h0;
            h = sha256_tail data size h
        in (0, Some (sha256_output h)))"

section \<open>FIPS 180-4\<close>

definition be64 :: "u64 \<Rightarrow> u8 list" where
  "be64 x = map (\<lambda>i. ucast (drop_bit (8 * (7 - i)) x)) [0..<8]"

definition fips_pad :: "u8 list \<Rightarrow> u8 list" where
  "fips_pad m =
     m @ [0x80] @ replicate ((119 - length m mod 64) mod 64) 0 @ be64 (of_nat (8 * length m))"

definition fips_words :: "u8 list \<Rightarrow> u32 list" where
  "fips_words b =
     map (\<lambda>i. word_of_int (uint (b ! (4 * i)) * 2 ^ 24 + uint (b ! (4 * i + 1)) * 2 ^ 16 +
       uint (b ! (4 * i + 2)) * 2 ^ 8 + uint (b ! (4 * i + 3)))) [0..<16]"

fun fips_W :: "u32 list \<Rightarrow> nat \<Rightarrow> u32" where
  "fips_W M t =
     (if t < 16 then M ! t
      else (word_rotr 17 (fips_W M (t - 2)) XOR word_rotr 19 (fips_W M (t - 2)) XOR
              drop_bit 10 (fips_W M (t - 2))) +
           fips_W M (t - 7) +
           (word_rotr 7 (fips_W M (t - 15)) XOR word_rotr 18 (fips_W M (t - 15)) XOR
              drop_bit 3 (fips_W M (t - 15))) +
           fips_W M (t - 16))"

fun fips_round :: "u32 list \<Rightarrow> sha256_regs \<Rightarrow> nat \<Rightarrow> sha256_regs" where
  "fips_round M (a, b, c, d, e, f, g, h) t =
     (let T1 = h + (word_rotr 6 e XOR word_rotr 11 e XOR word_rotr 25 e) +
               ((e AND f) XOR (NOT e AND g)) + sha256_k ! t + fips_W M t;
          T2 = (word_rotr 2 a XOR word_rotr 13 a XOR word_rotr 22 a) +
               ((a AND b) XOR (a AND c) XOR (b AND c))
      in (T1 + T2, a, b, c, d + T1, e, f, g))"

definition fips_block :: "u32 list \<Rightarrow> u8 list \<Rightarrow> u32 list" where
  "fips_block H b =
     (case foldl (fips_round (fips_words b))
             (H ! 0, H ! 1, H ! 2, H ! 3, H ! 4, H ! 5, H ! 6, H ! 7) [0..<64] of
        (a, b, c, d, e, f, g, h) \<Rightarrow>
          map (\<lambda>(x, y). x + y) (zip H [a, b, c, d, e, f, g, h]))"

definition fips_sha256 :: "u8 list \<Rightarrow> u8 list" where
  "fips_sha256 m =
     (let p = fips_pad m;
          H = foldl (\<lambda>H i. fips_block H (take 64 (drop (64 * i) p))) sha256_h0 [0..<length p div 64]
      in concat (map (\<lambda>x. map (\<lambda>i. ucast (drop_bit (8 * (3 - i)) x)) [0..<4]) H))"

section \<open>The implementation computes the standard function\<close>

lemma sha256_rotr_word_rotr:
  assumes "0 < n" "n < 32"
  shows "sha256_rotr x n = word_rotr n x"
proof (rule bit_word_eqI)
  fix k assume k: "k < LENGTH(32)"
  show "bit (sha256_rotr x n) k = bit (word_rotr n x) k"
  proof (cases "k + n < 32")
    case True
    with assms k show ?thesis
      by (auto simp: sha256_rotr_def bit_simps add.commute)
  next
    case False
    with assms k have "(k + n) mod 32 = k - (32 - n)" "\<not> bit x (n + k)"
      by (auto simp: mod_if dest: bit_imp_le_length)
    with assms k False show ?thesis
      by (auto simp: sha256_rotr_def bit_simps)
  qed
qed

lemma be_word_or_sum:
  fixes a b c d :: u8
  shows "((push_bit 24 (ucast a) OR push_bit 16 (ucast b)) OR push_bit 8 (ucast c)) OR ucast d =
    (word_of_int (uint a * 2 ^ 24 + uint b * 2 ^ 16 + uint c * 2 ^ 8 + uint d) :: u32)"
proof -
  let ?A = "push_bit 24 (ucast a) :: u32" and ?B = "push_bit 16 (ucast b) :: u32"
  let ?C = "push_bit 8 (ucast c) :: u32" and ?D = "ucast d :: u32"
  have lt: "bit x n \<Longrightarrow> n < 8" for x :: u8 and n
    using bit_imp_le_length [of x n] by simp
  have ab: "?A AND ?B = 0"
    by (rule bit_word_eqI) (auto simp: bit_simps dest!: lt)
  have abc: "(?A OR ?B) AND ?C = 0"
    by (rule bit_word_eqI) (auto simp: bit_simps dest!: lt)
  have abcd: "((?A OR ?B) OR ?C) AND ?D = 0"
    by (rule bit_word_eqI) (auto simp: bit_simps dest!: lt)
  have "((?A OR ?B) OR ?C) OR ?D = ?A + ?B + ?C + ?D"
    by (simp add: disjunctive_add_eq_or ab abc abcd)
  also have "\<dots> = word_of_int (uint a * 2 ^ 24 + uint b * 2 ^ 16 + uint c * 2 ^ 8 + uint d)"
    by (simp only: ucast_eq push_bit_eq_mult of_int_add of_int_mult of_int_power of_int_numeral)
  finally show ?thesis .
qed

lemmas sha256_fun_defs = sha256_ep0_def sha256_ep1_def sha256_sig0_def sha256_sig1_def
  sha256_ch_def sha256_maj_def sha256_rotr_word_rotr xor.assoc

declare fips_W.simps [simp del]


lemma fips_words_map: "fips_words (map f [0..<64]) =
    map (\<lambda>i. word_of_int (uint (f (4 * i)) * 2 ^ 24 + uint (f (4 * i + 1)) * 2 ^ 16 +
       uint (f (4 * i + 2)) * 2 ^ 8 + uint (f (4 * i + 3)))) [0..<16]"
  unfolding fips_words_def by (rule map_cong [OF refl]) (simp only: set_upt atLeastLessThan_iff nth_map_upt, simp)

lemma sha256_load_fips: "sha256_load data p0 = fips_words (map (\<lambda>j. data (p0 + j)) [0..<64])"
  unfolding sha256_load_def fips_words_map Let_def be_word_or_sum
  by (simp only: mult.commute [of _ 4] add.assoc)

lemma sha256_expand_upto:
  "m = 16 \<Longrightarrow> m \<le> n \<Longrightarrow> fold (\<lambda>i w. w @ [sha256_sig1 (w ! (i - 2)) + w ! (i - 7) +
      sha256_sig0 (w ! (i - 15)) + w ! (i - 16)]) [m..<n] (map (fips_W M) [0..<m])
    = map (fips_W M) [0..<n]"
proof (induction n)
  case 0
  then show ?case by simp
next
  case (Suc n)
  show ?case
  proof (cases "m = Suc n")
    case True
    then show ?thesis by simp
  next
    case False
    with Suc have n: "m \<le> n" "16 \<le> n" by simp_all
    have "fips_W M n = sha256_sig1 (fips_W M (n - 2)) + fips_W M (n - 7) +
        sha256_sig0 (fips_W M (n - 15)) + fips_W M (n - 16)"
      using n by (subst fips_W.simps) (simp add: sha256_fun_defs)
    with Suc n show ?thesis by (simp del: upt_Suc add: upt_Suc_append)
  qed
qed

lemma fips_W_first16: "length M = 16 \<Longrightarrow> map (fips_W M) [0..<length M] = M"
  by (rule nth_equalityI) (simp, simp, subst fips_W.simps, simp)

lemma sha256_expand_fips:
  assumes "length M = 16"
  shows "sha256_expand M = map (fips_W M) [0..<64]"
proof -
  have "(16 :: nat) \<le> 64" by simp
  from sha256_expand_upto [OF refl this, of M] show ?thesis
    unfolding sha256_expand_def fips_W_first16 [OF assms, unfolded assms] .
qed

lemma sha256_round_fips: "i < n \<Longrightarrow> sha256_round (map (fips_W M) [0..<n]) i r = fips_round M r i"
  by (cases r, rename_tac a b c d e f g, case_tac g) (simp add: sha256_fun_defs Let_def)

declare sha256_round.simps [simp del] fips_round.simps [simp del]

lemma fold_sha256_round_fips:
  "fold (sha256_round (map (fips_W M) [0..<n])) [0..<n] r = foldl (fips_round M) r [0..<n]"
  unfolding foldl_conv_fold by (rule fold_cong) (auto simp: sha256_round_fips)

lemma length8_cases:
  assumes "length (h :: u32 list) = 8"
  obtains a b c d e f g i where "h = [a, b, c, d, e, f, g, i]"
  using assms by (auto simp: numeral_eq_Suc length_Suc_conv)

lemma sha256_compress_fips:
  assumes "length h = 8" "length (fips_words b) = 16"
  shows "sha256_compress (sha256_expand (fips_words b)) h = fips_block h b"
proof -
  obtain a0 a1 a2 a3 a4 a5 a6 a7 where h: "h = [a0, a1, a2, a3, a4, a5, a6, a7]"
    using assms(1) by (rule length8_cases)
  obtain b0 b1 b2 b3 b4 b5 b6 b7 where
    r: "foldl (fips_round (fips_words b)) (h ! 0, h ! 1, h ! 2, h ! 3, h ! 4, h ! 5, h ! 6, h ! 7) [0..<64]
      = (b0, b1, b2, b3, b4, b5, b6, b7)"
    by (metis surj_pair)
  show ?thesis
    unfolding sha256_compress_def fips_block_def sha256_expand_fips [OF assms(2)]
      fold_sha256_round_fips r
    by (simp add: h)
qed

lemma sha256_block_fips:
  "length h = 8 \<Longrightarrow> sha256_block data p0 h = fips_block h (map (\<lambda>j. data (p0 + j)) [0..<64])"
  unfolding sha256_block_def sha256_load_fips
  by (rule sha256_compress_fips) (simp_all add: fips_words_def)

lemma length_fips_block: "length h = 8 \<Longrightarrow> length (fips_block h b) = 8"
  by (simp add: fips_block_def split_def)


lemma fold_update_prefix:
  "n \<le> length xs \<Longrightarrow> fold (\<lambda>i b. b[i := f i]) [0..<n] xs = map f [0..<n] @ drop n xs"
proof (induction n)
  case 0
  then show ?case by simp
next
  case (Suc n)
  then show ?case
    by (simp add: list_update_append Cons_nth_drop_Suc [symmetric])
qed

lemma fold_update_backwards:
  "n \<le> t \<Longrightarrow> t \<le> length xs \<Longrightarrow>
    fold (\<lambda>i b. b[t - 1 - i := g i]) [0..<n] xs = take (t - n) xs @ rev (map g [0..<n]) @ drop t xs"
proof (induction n)
  case 0
  then show ?case by simp
next
  case (Suc n)
  then have "take (t - n) xs = take (t - Suc n) xs @ [xs ! (t - Suc n)]"
    by (metis Suc_diff_Suc Suc_le_lessD diff_less less_le_trans take_Suc_conv_app_nth
        zero_less_Suc order_less_le_trans)
  with Suc show ?case
    by (simp add: list_update_append)
qed

lemma length_be64 [simp]: "length (be64 x) = 8"
  by (simp add: be64_def)

lemma be64_rev: "be64 x = rev (map (\<lambda>i. ucast (drop_bit (i * 8) x)) [0..<8])"
  by (rule nth_equalityI) (auto simp: be64_def rev_nth mult.commute)

text \<open>The tail buffer holds the last partial block followed by the padding.\<close>

definition sha256_msg :: "(nat \<Rightarrow> u8) \<Rightarrow> nat \<Rightarrow> u8 list" where
  "sha256_msg data sz = map data [0..<sz]"

lemma length_sha256_msg [simp]: "length (sha256_msg data sz) = sz"
  by (simp add: sha256_msg_def)

lemma drop_sha256_msg: "drop k (sha256_msg data sz) = map (\<lambda>i. data (k + i)) [0..<sz - k]"
  by (rule nth_equalityI) (auto simp: sha256_msg_def)

lemma take_append_append: "length a + length b = n \<Longrightarrow> take n (a @ b @ c) = a @ b"
  by simp

lemma tail_block_pad:
  fixes data sz
  defines "tot \<equiv> (if sz mod 64 < 56 then 64 else 128 :: nat)"
  shows "take tot (sha256_tail_block data sz) = drop (64 * (sz div 64)) (fips_pad (sha256_msg data sz))"
    and "length (sha256_tail_block data sz) = 128"
proof -
  define r where "r = sz mod 64"
  have r: "r < 64" by (simp add: r_def)
  have tot: "tot = (if r < 56 then 64 else 128)" by (simp add: tot_def r_def)
  let ?pre = "map (\<lambda>i. data (64 * (sz div 64) + i)) [0..<r]"
  let ?b1 = "?pre @ 0x80 # replicate (127 - r) (0 :: u8)"
  have b1: "(fold (\<lambda>i b. b[i := data (sz div 64 * 64 + i)]) [0..<r] (replicate 128 0))[r := 0x80] = ?b1"
  proof -
    have "128 - r = Suc (127 - r)" using r by simp
    then show ?thesis
      using r by (simp add: fold_update_prefix list_update_append mult.commute)
  qed
  have tb: "sha256_tail_block data sz =
      take (tot - 8) ?b1 @ be64 (of_nat (8 * sz)) @ drop tot ?b1"
    unfolding sha256_tail_block_def Let_def r_def [symmetric] b1 tot_def [symmetric]
    using r by (subst fold_update_backwards) (auto simp: tot be64_rev mult.commute)
  then show "length (sha256_tail_block data sz) = 128"
    using r by (auto simp: tot)
  have "drop (64 * (sz div 64)) (fips_pad (sha256_msg data sz)) =
      ?pre @ 0x80 # replicate ((119 - r) mod 64) 0 @ be64 (of_nat (8 * sz))"
    using minus_mult_div_eq_mod [of sz 64]
    by (simp add: fips_pad_def drop_sha256_msg r_def)
  moreover have "take (tot - 8) ?b1 = ?pre @ 0x80 # replicate ((119 - r) mod 64) 0"
    using r by (auto simp: tot take_Cons' mod_if)
  moreover have "take tot (sha256_tail_block data sz) =
      take (tot - 8) ?b1 @ be64 (of_nat (8 * sz))"
    unfolding tb using r by (intro take_append_append) (simp add: tot)
  ultimately show "take tot (sha256_tail_block data sz) =
      drop (64 * (sz div 64)) (fips_pad (sha256_msg data sz))"
    by simp
qed

section \<open>All blocks\<close>

lemma length_fips_pad:
  "length (fips_pad m) = 64 * (length m div 64) + (if length m mod 64 < 56 then 64 else 128)"
proof -
  define r where "r = length m mod 64"
  have "r < 64"
    by (simp add: r_def)
  then have pad: "(119 - r) mod 64 = (if r < 56 then 55 - r else 119 - r)"
    by (auto simp: mod_if)
  have "length (fips_pad m) = length m + 9 + (119 - r) mod 64"
    by (simp add: fips_pad_def r_def)
  moreover have "length m = 64 * (length m div 64) + r"
    by (simp add: r_def)
  ultimately show ?thesis
    unfolding pad r_def [symmetric] using \<open>r < 64\<close> by (auto split: if_splits)
qed

lemma take_drop_sha256_msg_pad:
  assumes "i < sz div 64"
  shows "take 64 (drop (64 * i) (fips_pad (sha256_msg data sz))) = map (\<lambda>j. data (i * 64 + j)) [0..<64]"
proof -
  have "64 * i + 64 \<le> sz" using assms by (metis add.commute less_eq_div_iff_mult_less_eq mult.commute mult_Suc_right Suc_leI zero_less_numeral)
  then show ?thesis
    by (intro nth_equalityI) (auto simp: fips_pad_def sha256_msg_def nth_append mult.commute)
qed

lemma fold_fips_blocks:
  assumes "\<And>i h. i < n \<Longrightarrow> length h = 8 \<Longrightarrow> F i h = fips_block h (blk i)" "length h = 8"
  shows "fold F [0..<n] h = foldl (\<lambda>H i. fips_block H (blk i)) h [0..<n] \<and>
    length (fold F [0..<n] h) = 8"
  using assms(1)
proof (induction n)
  case 0
  then show ?case using assms(2) by simp
next
  case (Suc n)
  have IH: "fold F [0..<n] h = foldl (\<lambda>H i. fips_block H (blk i)) h [0..<n] \<and>
      length (fold F [0..<n] h) = 8"
    by (rule Suc.IH) (simp add: Suc.prems)
  have step: "fold F [0..<Suc n] h = fips_block (fold F [0..<n] h) (blk n)"
    using Suc.prems [of n, OF _ conjunct2 [OF IH]] by simp
  have "length (fips_block (fold F [0..<n] h) (blk n)) = 8"
    by (rule length_fips_block [OF conjunct2 [OF IH]])
  then show ?case
    unfolding step unfolding conjunct1 [OF IH] by simp
qed

lemma sha256_all_blocks:
  fixes data sz
  defines "p \<equiv> fips_pad (sha256_msg data sz)"
  shows "sha256_tail data sz (fold (\<lambda>block. sha256_block data (block * 64)) [0..<sz div 64] sha256_h0)
      = foldl (\<lambda>H i. fips_block H (take 64 (drop (64 * i) p))) sha256_h0 [0..<length p div 64]"
    (is "sha256_tail data sz ?h = _")
    and "length (sha256_tail data sz (fold (\<lambda>block. sha256_block data (block * 64)) [0..<sz div 64] sha256_h0)) = 8"
proof -
  let ?full = "sz div 64" and ?tb = "sha256_tail_block data sz"
  define k where "k = (if sz mod 64 < 56 then 1 else 2 :: nat)"
  let ?blk = "\<lambda>i. take 64 (drop (64 * i) p)"
  have full: "?h = foldl (\<lambda>H i. fips_block H (?blk i)) sha256_h0 [0..<?full] \<and> length ?h = 8"
    by (rule fold_fips_blocks)
      (auto simp: sha256_block_fips take_drop_sha256_msg_pad p_def sha256_h0_def)
  have tot: "(if sz mod 64 < 56 then 64 else 128) = 64 * k"
    by (simp add: k_def)
  have pad: "take (64 * k) ?tb = drop (64 * ?full) p" and len: "length ?tb = 128"
    using tail_block_pad [where data = data and sz = sz] unfolding tot p_def by auto
  have blk: "map (\<lambda>j. ?tb ! (i * 64 + j)) [0..<64] = ?blk (?full + i)" if "i < k" for i
  proof -
    have "64 * i + 64 \<le> 64 * k" "64 * k \<le> 128" using that by (auto simp: k_def split: if_splits)
    then have "map (\<lambda>j. ?tb ! (i * 64 + j)) [0..<64] = take 64 (drop (64 * i) (take (64 * k) ?tb))"
      using len by (intro nth_equalityI) (auto simp: mult.commute)
    also have "\<dots> = ?blk (?full + i)"
      unfolding pad by (simp add: algebra_simps)
    finally show ?thesis .
  qed
  have tail: "sha256_tail data sz h = foldl (\<lambda>H i. fips_block H (?blk (?full + i))) h [0..<k] \<and>
      length (sha256_tail data sz h) = 8" if "length h = 8" for h
  proof -
    have eq: "sha256_tail data sz h = fold (\<lambda>k. sha256_block (\<lambda>p. ?tb ! p) (k * 64)) [0..<k] h"
      by (simp add: sha256_tail_def Let_def k_def)
    show ?thesis
      unfolding eq using that by (intro fold_fips_blocks) (auto simp: sha256_block_fips blk)
  qed
  have "length p div 64 = ?full + k"
    by (simp add: p_def length_fips_pad sha256_msg_def k_def)
  moreover have "[0..<?full + k] = [0..<?full] @ map (\<lambda>i. ?full + i) [0..<k]"
    using upt_add_eq_append [of 0 ?full k] map_add_upt [of ?full k] by (simp add: add.commute)
  ultimately show "sha256_tail data sz ?h =
      foldl (\<lambda>H i. fips_block H (?blk i)) sha256_h0 [0..<length p div 64]"
    unfolding conjunct1 [OF tail [OF conjunct2 [OF full]]]
    unfolding conjunct1 [OF full]
    by (simp add: foldl_map)
  show "length (sha256_tail data sz ?h) = 8"
    by (rule conjunct2 [OF tail [OF conjunct2 [OF full]]])
qed

lemma sha256_output_eq:
  "length h = 8 \<Longrightarrow> sha256_output h =
    concat (map (\<lambda>x. map (\<lambda>i. ucast (drop_bit (8 * (3 - i)) x)) [0..<4]) h)"
  by (erule length8_cases) (simp add: sha256_output_def upt_conv_Cons)

lemma measure_sha256_spec:
  "measure_sha256 mem payload sz buf =
    (if payload = 0 \<or> buf = None then (- 1, buf)
     else (0, Some (fips_sha256 (map (\<lambda>i. mem (payload + of_nat i)) [0..<unat sz]))))"
proof (cases "payload = 0 \<or> buf = None")
  case True
  then show ?thesis by (auto simp: measure_sha256_def)
next
  case False
  let ?data = "\<lambda>i. mem (payload + of_nat i)"
  have "measure_sha256 mem payload sz buf = (0, Some (sha256_output
      (sha256_tail ?data (unat sz)
        (fold (\<lambda>block. sha256_block ?data (block * 64)) [0..<unat sz div 64] sha256_h0))))"
    using False by (simp add: measure_sha256_def Let_def)
  also have "\<dots> = (0, Some (fips_sha256 (sha256_msg ?data (unat sz))))"
    unfolding sha256_output_eq [OF sha256_all_blocks(2)]
    unfolding sha256_all_blocks(1) fips_sha256_def Let_def by (rule refl)
  finally show ?thesis
    unfolding sha256_msg_def using False by simp
qed

text \<open>C5. \<open>measure_sha256\<close> is FIPS 180-4 SHA-256: for every payload address and size it stores in the
  measurement buffer the digest of the payload bytes, whatever the buffer held, and returns 0; a
  null payload or a null buffer is refused with -1 and nothing is written.\<close>

theorem measure_sha256_fips:
  "measure_sha256 mem payload sz buf =
    (if payload = 0 \<or> buf = None then (- 1, buf)
     else (0, Some (fips_sha256 (map (\<lambda>i. mem (payload + of_nat i)) [0..<unat sz]))))"
  by (rule measure_sha256_spec)

end
