(* ===== verification/Boot_String.thy ===== *)
theory Boot_String
  imports Xnu_Prelude
begin

text \<open>
  The freestanding memory and string routines of the boot image: \<^verbatim>\<open>src/boot/string.c\<close>
  (\<open>strlen\<close>, \<open>memcmp\<close>, \<open>memset\<close>, \<open>memcpy\<close>) and the private copies at the top of
  \<^verbatim>\<open>src/security/bootloader.c\<close>.  A buffer is the list of the bytes that may be accessed
  through its pointer; an access outside of it is the result \<open>None\<close>.  The interface
  \<open>mem_compare\<close> states what a comparison routine promises, and both copies satisfy it.
\<close>

section \<open>\<^verbatim>\<open>boot/string.c\<close>\<close>

function strlen_loop :: "u8 list \<Rightarrow> nat \<Rightarrow> nat option" where
  "strlen_loop s n =
     (if n < length s then (if s ! n \<noteq> 0 then strlen_loop s (Suc n) else Some n) else None)"
  by pat_completeness auto
termination
  by (relation "measure (\<lambda>(s, n). length s - n)") auto

definition c_strlen :: "u8 list \<Rightarrow> nat option" where
  "c_strlen s = strlen_loop s 0"

function memcmp_loop :: "u8 list \<Rightarrow> u8 list \<Rightarrow> nat \<Rightarrow> nat \<Rightarrow> int option" where
  "memcmp_loop x y n i =
     (if i < n then
        (if i < length x \<and> i < length y then
           (if x ! i \<noteq> y ! i then Some (if x ! i < y ! i then - 1 else 1)
            else memcmp_loop x y n (Suc i))
         else None)
      else Some 0)"
  by pat_completeness auto
termination
  by (relation "measure (\<lambda>(x, y, n, i). n - i)") auto

definition c_memcmp :: "u8 list \<Rightarrow> u8 list \<Rightarrow> nat \<Rightarrow> int option" where
  "c_memcmp a b n = memcmp_loop a b n 0"

function memset_loop :: "u8 list \<Rightarrow> u8 \<Rightarrow> nat \<Rightarrow> nat \<Rightarrow> u8 list option" where
  "memset_loop p v n i =
     (if i < n then (if i < length p then memset_loop (p[i := v]) v n (Suc i) else None)
      else Some p)"
  by pat_completeness auto
termination
  by (relation "measure (\<lambda>(p, v, n, i). n - i)") auto

definition c_memset :: "u8 list \<Rightarrow> int \<Rightarrow> nat \<Rightarrow> u8 list option" where
  "c_memset ptr value n = memset_loop ptr (word_of_int value) n 0"

function memcpy_loop :: "u8 list \<Rightarrow> u8 list \<Rightarrow> nat \<Rightarrow> nat \<Rightarrow> u8 list option" where
  "memcpy_loop d s n i =
     (if i < n then
        (if i < length d \<and> i < length s then memcpy_loop (d[i := s ! i]) s n (Suc i) else None)
      else Some d)"
  by pat_completeness auto
termination
  by (relation "measure (\<lambda>(d, s, n, i). n - i)") auto

definition c_memcpy :: "u8 list \<Rightarrow> u8 list \<Rightarrow> nat \<Rightarrow> u8 list option" where
  "c_memcpy dest src n = memcpy_loop dest src n 0"

section \<open>The copies in \<^verbatim>\<open>security/bootloader.c\<close>\<close>

function boot_strlen_loop :: "u8 list \<Rightarrow> nat \<Rightarrow> nat option" where
  "boot_strlen_loop s n =
     (if n < length s then (if s ! n \<noteq> 0 then boot_strlen_loop s (n + 1) else Some n) else None)"
  by pat_completeness auto
termination
  by (relation "measure (\<lambda>(s, n). length s - n)") auto

definition boot_strlen :: "u8 list \<Rightarrow> nat option" where
  "boot_strlen s = boot_strlen_loop s 0"

function boot_memset_loop :: "u8 list \<Rightarrow> u8 \<Rightarrow> nat \<Rightarrow> nat \<Rightarrow> u8 list option" where
  "boot_memset_loop p v n i =
     (if i < n then (if i < length p then boot_memset_loop (p[i := v]) v n (i + 1) else None)
      else Some p)"
  by pat_completeness auto
termination
  by (relation "measure (\<lambda>(p, v, n, i). n - i)") auto

definition boot_memset :: "u8 list \<Rightarrow> u8 \<Rightarrow> nat \<Rightarrow> u8 list option" where
  "boot_memset dst value n = boot_memset_loop dst value n 0"

function boot_memcmp_loop :: "u8 list \<Rightarrow> u8 list \<Rightarrow> nat \<Rightarrow> nat \<Rightarrow> int option" where
  "boot_memcmp_loop x y n i =
     (if i < n then
        (if i < length x \<and> i < length y then
           (if x ! i \<noteq> y ! i then Some (if x ! i < y ! i then - 1 else 1)
            else boot_memcmp_loop x y n (i + 1))
         else None)
      else Some 0)"
  by pat_completeness auto
termination
  by (relation "measure (\<lambda>(x, y, n, i). n - i)") auto

definition boot_memcmp :: "u8 list \<Rightarrow> u8 list \<Rightarrow> nat \<Rightarrow> int option" where
  "boot_memcmp a b n = boot_memcmp_loop a b n 0"

declare strlen_loop.simps [simp del] memcmp_loop.simps [simp del] memset_loop.simps [simp del]
  memcpy_loop.simps [simp del] boot_strlen_loop.simps [simp del] boot_memset_loop.simps [simp del]
  boot_memcmp_loop.simps [simp del]

section \<open>The interface of a comparison routine\<close>

text \<open>
  A byte comparison over \<open>n\<close> bytes: defined whenever both buffers hold \<open>n\<close> bytes, zero exactly
  on equal prefixes, and otherwise the sign of the first differing byte.
\<close>

locale mem_compare =
  fixes cmp :: "u8 list \<Rightarrow> u8 list \<Rightarrow> nat \<Rightarrow> int option"
  assumes cmp_equal:
    "n \<le> length a \<Longrightarrow> n \<le> length b \<Longrightarrow> take n a = take n b \<Longrightarrow> cmp a b n = Some 0"
  assumes cmp_differ:
    "k < n \<Longrightarrow> n \<le> length a \<Longrightarrow> n \<le> length b \<Longrightarrow> take k a = take k b \<Longrightarrow> a ! k \<noteq> b ! k
      \<Longrightarrow> cmp a b n = Some (if a ! k < b ! k then - 1 else 1)"
begin

lemma first_difference:
  assumes "n \<le> length a" "n \<le> length b" "take n a \<noteq> take n b"
  obtains k where "k < n" "take k a = take k b" "a ! k \<noteq> b ! k"
proof -
  define P where "P k \<longleftrightarrow> k < n \<and> a ! k \<noteq> b ! k" for k
  from assms have ex: "\<exists>k. P k"
    by (auto simp: P_def list_eq_iff_nth_eq)
  define k where "k = (LEAST k. P k)"
  from ex have P: "P k"
    unfolding k_def by (rule LeastI_ex)
  have "a ! j = b ! j" if "j < k" for j
    using that not_less_Least [of j P] P by (auto simp: k_def P_def)
  then have "take k a = take k b"
    using P assms(1,2) by (auto simp: P_def list_eq_iff_nth_eq)
  with P that show ?thesis
    by (auto simp: P_def)
qed

lemma cmp_zero_iff:
  assumes "n \<le> length a" "n \<le> length b"
  shows "cmp a b n = Some 0 \<longleftrightarrow> take n a = take n b"
proof (cases "take n a = take n b")
  case True
  with assms show ?thesis by (simp add: cmp_equal)
next
  case False
  then obtain k where "k < n" "take k a = take k b" "a ! k \<noteq> b ! k"
    using assms first_difference by blast
  with assms False show ?thesis by (simp add: cmp_differ)
qed

lemma cmp_defined:
  assumes "n \<le> length a" "n \<le> length b"
  obtains r where "cmp a b n = Some r" "r = 0 \<longleftrightarrow> take n a = take n b"
proof (cases "take n a = take n b")
  case True
  with assms that show ?thesis by (simp add: cmp_equal)
next
  case False
  then obtain k where "k < n" "take k a = take k b" "a ! k \<noteq> b ! k"
    using assms first_difference by blast
  with assms False that show ?thesis by (auto simp: cmp_differ)
qed

lemma cmp_antisym:
  assumes "n \<le> length a" "n \<le> length b"
  shows "cmp b a n = map_option uminus (cmp a b n)"
proof (cases "take n a = take n b")
  case True
  with assms show ?thesis by (simp add: cmp_equal)
next
  case False
  then obtain k where k: "k < n" "take k a = take k b" "a ! k \<noteq> b ! k"
    using assms first_difference by blast
  with assms show ?thesis
    using cmp_differ [of k n a b] cmp_differ [of k n b a] by auto
qed

end

section \<open>Correctness of the loops\<close>

lemma strlen_loop_first_zero:
  "n \<le> k \<Longrightarrow> k < length s \<Longrightarrow> s ! k = 0 \<Longrightarrow> \<forall>j. n \<le> j \<and> j < k \<longrightarrow> s ! j \<noteq> 0
    \<Longrightarrow> strlen_loop s n = Some k"
proof (induction s n rule: strlen_loop.induct)
  case (1 s n)
  show ?case
  proof (cases "n = k")
    case True
    with "1.prems" show ?thesis by (subst strlen_loop.simps) simp
  next
    case False
    with "1.prems" have "s ! n \<noteq> 0" "n < length s" by auto
    with "1" False show ?thesis by (simp add: strlen_loop.simps [of s n])
  qed
qed

lemma memcmp_loop_equal:
  "n \<le> length x \<Longrightarrow> n \<le> length y \<Longrightarrow> \<forall>j. i \<le> j \<and> j < n \<longrightarrow> x ! j = y ! j
    \<Longrightarrow> memcmp_loop x y n i = Some 0"
proof (induction x y n i rule: memcmp_loop.induct)
  case (1 x y n i)
  then show ?case by (simp add: memcmp_loop.simps [of x y n i])
qed

lemma memcmp_loop_differ:
  "i \<le> k \<Longrightarrow> k < n \<Longrightarrow> n \<le> length x \<Longrightarrow> n \<le> length y \<Longrightarrow>
    \<forall>j. i \<le> j \<and> j < k \<longrightarrow> x ! j = y ! j \<Longrightarrow> x ! k \<noteq> y ! k
    \<Longrightarrow> memcmp_loop x y n i = Some (if x ! k < y ! k then - 1 else 1)"
proof (induction x y n i rule: memcmp_loop.induct)
  case (1 x y n i)
  show ?case
  proof (cases "i = k")
    case True
    with "1.prems" show ?thesis by (subst memcmp_loop.simps) simp
  next
    case False
    with "1.prems" have "x ! i = y ! i" "Suc i \<le> k" by auto
    with "1" False show ?thesis by (simp add: memcmp_loop.simps [of x y n i])
  qed
qed

lemma memset_loop_eq:
  "n \<le> length p \<Longrightarrow> i \<le> n \<Longrightarrow>
    memset_loop p v n i = Some (take i p @ replicate (n - i) v @ drop n p)"
proof (induction p v n i rule: memset_loop.induct)
  case (1 p v n i)
  show ?case
  proof (cases "i < n")
    case True
    with "1" have "memset_loop p v n i =
        Some (take (Suc i) (p[i := v]) @ replicate (n - Suc i) v @ drop n (p[i := v]))"
      by (simp add: memset_loop.simps [of p v n i])
    also have "take (Suc i) (p[i := v]) = take i p @ [v]"
      using True "1.prems" by (simp add: take_Suc_conv_app_nth)
    also have "n - i = Suc (n - Suc i)"
      using True by simp
    ultimately show ?thesis
      using True by (simp add: drop_update_cancel)
  next
    case False
    with "1.prems" show ?thesis by (subst memset_loop.simps) simp
  qed
qed

lemma memcpy_loop_eq:
  "n \<le> length d \<Longrightarrow> n \<le> length s \<Longrightarrow> i \<le> n \<Longrightarrow>
    memcpy_loop d s n i = Some (take i d @ drop i (take n s) @ drop n d)"
proof (induction d s n i rule: memcpy_loop.induct)
  case (1 d s n i)
  show ?case
  proof (cases "i < n")
    case True
    with "1" have "memcpy_loop d s n i =
        Some (take (Suc i) (d[i := s ! i]) @ drop (Suc i) (take n s) @ drop n (d[i := s ! i]))"
      by (simp add: memcpy_loop.simps [of d s n i])
    also have "take (Suc i) (d[i := s ! i]) = take i d @ [s ! i]"
      using True "1.prems" by (simp add: take_Suc_conv_app_nth)
    also have "drop i (take n s) = s ! i # drop (Suc i) (take n s)"
      using True "1.prems" by (simp add: Cons_nth_drop_Suc [symmetric])
    ultimately show ?thesis
      using True by simp
  next
    case False
    with "1.prems" show ?thesis by (subst memcpy_loop.simps) simp
  qed
qed

text \<open>The bootloader's private loops are the ones of \<^verbatim>\<open>boot/string.c\<close>.\<close>

lemma boot_strlen_loop_eq: "boot_strlen_loop s n = strlen_loop s n"
proof (induction s n rule: strlen_loop.induct)
  case (1 s n)
  then show ?case
    by (simp add: strlen_loop.simps [of s n] boot_strlen_loop.simps [of s n])
qed

lemma boot_memset_loop_eq: "boot_memset_loop p v n i = memset_loop p v n i"
proof (induction p v n i rule: memset_loop.induct)
  case (1 p v n i)
  then show ?case
    by (simp add: memset_loop.simps [of p v n i] boot_memset_loop.simps [of p v n i])
qed

lemma boot_memcmp_loop_eq: "boot_memcmp_loop x y n i = memcmp_loop x y n i"
proof (induction x y n i rule: memcmp_loop.induct)
  case (1 x y n i)
  then show ?case
    by (simp add: memcmp_loop.simps [of x y n i] boot_memcmp_loop.simps [of x y n i])
qed

interpretation string_cmp: mem_compare c_memcmp
proof
  show "c_memcmp a b n = Some 0"
    if "n \<le> length a" "n \<le> length b" "take n a = take n b" for n a b
    using that unfolding c_memcmp_def
    by (intro memcmp_loop_equal) (auto dest!: arg_cong [where f = "\<lambda>l. l ! _"] simp: list_eq_iff_nth_eq)
  show "c_memcmp a b n = Some (if a ! k < b ! k then - 1 else 1)"
    if "k < n" "n \<le> length a" "n \<le> length b" "take k a = take k b" "a ! k \<noteq> b ! k" for k n a b
    using that unfolding c_memcmp_def
    by (intro memcmp_loop_differ) (auto simp: list_eq_iff_nth_eq)
qed

lemma boot_memcmp_c_memcmp: "boot_memcmp = c_memcmp"
  by (simp add: fun_eq_iff boot_memcmp_def c_memcmp_def boot_memcmp_loop_eq)

interpretation boot_cmp: mem_compare boot_memcmp
  unfolding boot_memcmp_c_memcmp by (rule string_cmp.mem_compare_axioms)

lemma boot_strlen_cstr [simp]:
  "\<forall>c \<in> set s. of_char c \<noteq> (0 :: u8) \<Longrightarrow> boot_strlen (cstr s) = Some (length s)"
  unfolding boot_strlen_def boot_strlen_loop_eq cstr_def
  by (intro strlen_loop_first_zero) (auto simp: nth_append)

lemma boot_memset_eq: "n \<le> length p \<Longrightarrow> boot_memset p v n = Some (replicate n v @ drop n p)"
  by (simp add: boot_memset_def boot_memset_loop_eq memset_loop_eq)

lemma c_memcpy_eq:
  "n \<le> length d \<Longrightarrow> n \<le> length s \<Longrightarrow> c_memcpy d s n = Some (take n s @ drop n d)"
  by (simp add: c_memcpy_def memcpy_loop_eq)

lemma c_memset_eq:
  "n \<le> length p \<Longrightarrow> c_memset p v n = Some (replicate n (word_of_int v) @ drop n p)"
  by (simp add: c_memset_def memset_loop_eq)

end
