(* ===== verification/Bootloader.thy ===== *)
theory Bootloader
  imports Boot_String
begin

text \<open>
  The secure bootloader: the structures of \<^verbatim>\<open>src/include/xnu++/bootloader.h\<close> and the
  boot decision of \<^verbatim>\<open>src/security/bootloader.c\<close>.  The platform callbacks are function
  pointers; a null pointer is \<open>None\<close>, and a callback is a transformer of the state \<open>'w\<close> of the
  machine it runs on.  The locals the C code leaves uninitialised are arguments of the model, so
  that every statement holds for whatever the stack contained.  Addresses and \<open>size_t\<close> have the
  32 bits of the i386 build.  The result \<open>None\<close> is an access outside a buffer.
\<close>

section \<open>Data\<close>

definition XNUXX_BOOTLOADER_API_VERSION :: u16 where
  "XNUXX_BOOTLOADER_API_VERSION = 1"

definition XNUXX_BOOTLOADER_MAGIC :: u32 where
  "XNUXX_BOOTLOADER_MAGIC = 0x584E5542"

definition XNUXX_BOOTLOADER_MAX_IMAGE_SIZE :: u32 where
  "XNUXX_BOOTLOADER_MAX_IMAGE_SIZE = 1024 * 1024 * 1024"

definition XNUXX_BOOT_REQUIRE_SIGNATURE :: u32 where
  "XNUXX_BOOT_REQUIRE_SIGNATURE = push_bit 0 1"

definition XNUXX_BOOT_REQUIRE_MEASUREMENT :: u32 where
  "XNUXX_BOOT_REQUIRE_MEASUREMENT = push_bit 1 1"

definition XNUXX_BOOT_REQUIRE_ROLLBACK_PROTECTION :: u32 where
  "XNUXX_BOOT_REQUIRE_ROLLBACK_PROTECTION = push_bit 2 1"

definition XNUXX_BOOT_REQUIRE_LAYER_CAPABILITIES :: u32 where
  "XNUXX_BOOT_REQUIRE_LAYER_CAPABILITIES = push_bit 4 1"

definition XNUXX_BOOT_CAP_KERNEL_PROVIDER :: u64 where
  "XNUXX_BOOT_CAP_KERNEL_PROVIDER = push_bit 0 1"

definition XNUXX_BOOT_CAP_SECURITY_LAYER :: u64 where
  "XNUXX_BOOT_CAP_SECURITY_LAYER = push_bit 1 1"

definition XNUXX_BOOT_CAP_UPDATE_LAYER :: u64 where
  "XNUXX_BOOT_CAP_UPDATE_LAYER = push_bit 2 1"

definition XNUXX_BOOT_CAP_DEVICE_LAYER :: u64 where
  "XNUXX_BOOT_CAP_DEVICE_LAYER = push_bit 3 1"

definition XNUXX_BOOT_CAP_RECOVERY :: u64 where
  "XNUXX_BOOT_CAP_RECOVERY = push_bit 4 1"

record xnuxx_boot_image =
  magic :: u32
  version :: u16
  header_size :: u16
  generation :: u64
  required_capabilities :: u64
  payload :: u32
  payload_size :: u32
  signature :: u32
  signature_size :: u32
  expected_measurement :: "u8 list option"

definition sizeof_xnuxx_boot_image :: u32 where
  "sizeof_xnuxx_boot_image = 4 + 2 + 2 + 8 + 8 + 4 + 4 + 4 + 4 + 4"

datatype xnuxx_boot_result =
    XNUXX_BOOT_OK
  | XNUXX_BOOT_INVALID_ARGUMENT
  | XNUXX_BOOT_INVALID_IMAGE
  | XNUXX_BOOT_UNSUPPORTED
  | XNUXX_BOOT_SIGNATURE_REJECTED
  | XNUXX_BOOT_MEASUREMENT_REJECTED
  | XNUXX_BOOT_ROLLBACK_REJECTED
  | XNUXX_BOOT_CAPABILITY_REJECTED
  | XNUXX_BOOT_LOAD_FAILED
  | XNUXX_BOOT_RECOVERY_FAILED

record 'w xnuxx_boot_platform =
  capabilities :: u64
  ansi_console :: int
  verify_signature :: "(u32 \<Rightarrow> u32 \<Rightarrow> u32 \<Rightarrow> u32 \<Rightarrow> 'w \<Rightarrow> int \<times> 'w) option"
  measure_sha256 :: "(u32 \<Rightarrow> u32 \<Rightarrow> u8 list \<Rightarrow> 'w \<Rightarrow> int \<times> u8 list \<times> 'w) option"
  read_minimum_generation :: "(u64 \<Rightarrow> 'w \<Rightarrow> int \<times> u64 \<times> 'w) option"
  load_kernel :: "(u32 \<Rightarrow> u32 \<Rightarrow> 'w \<Rightarrow> int \<times> 'w) option"
  enter_recovery :: "(xnuxx_boot_result \<Rightarrow> 'w \<Rightarrow> int \<times> 'w) option"
  write_console :: "(u8 list \<Rightarrow> nat \<Rightarrow> 'w \<Rightarrow> 'w) option"

section \<open>Operations\<close>

definition ANSI_BLUE_WHITE :: "u8 list" where
  "ANSI_BLUE_WHITE = 27 # cstr ''[44;37m''"

definition ANSI_RESET :: "u8 list" where
  "ANSI_RESET = 27 # cstr ''[0m''"

definition boot_log :: "'w xnuxx_boot_platform \<Rightarrow> u8 list \<Rightarrow> 'w \<Rightarrow> 'w option" where
  "boot_log p text w =
     (case write_console p of
        None \<Rightarrow> Some w
      | Some write \<Rightarrow> do { n \<leftarrow> boot_strlen text; Some (write text n w) })"

definition boot_fail :: "'w xnuxx_boot_platform \<Rightarrow> xnuxx_boot_result \<Rightarrow> 'w \<Rightarrow> 'w" where
  "boot_fail p result w =
     (case enter_recovery p of None \<Rightarrow> w | Some recover \<Rightarrow> snd (recover result w))"

definition boot_reject ::
  "'w xnuxx_boot_platform \<Rightarrow> xnuxx_boot_result \<Rightarrow> 'w \<Rightarrow> (xnuxx_boot_result \<times> 'w) option" where
  "boot_reject p result w = Some (result, boot_fail p result w)"

text \<open>
  \<open>xnuxx_bootloader_start\<close> in the order of its gates.  \<open>bootloader_handoff\<close> is the part from the
  rollback check to the return, \<open>bootloader_measure\<close> the measurement gate before it and
  \<open>bootloader_verify\<close> the capability and signature gates; \<open>actual_measurement\<close> and \<open>minimum_generation\<close> are the uninitialised locals.
\<close>

definition bootloader_handoff ::
  "'w xnuxx_boot_platform \<Rightarrow> xnuxx_boot_image \<Rightarrow> u32 \<Rightarrow> u64 \<Rightarrow> 'w \<Rightarrow> (xnuxx_boot_result \<times> 'w) option"
where
  "bootloader_handoff p img policy minimum_generation w =
     (if policy AND XNUXX_BOOT_REQUIRE_ROLLBACK_PROTECTION = 0 then
        boot_reject p XNUXX_BOOT_ROLLBACK_REJECTED w
      else case read_minimum_generation p of
        None \<Rightarrow> boot_reject p XNUXX_BOOT_ROLLBACK_REJECTED w
      | Some read_minimum \<Rightarrow>
          (case read_minimum minimum_generation w of (rc, minimum_generation, w) \<Rightarrow>
             if rc \<noteq> 0 \<or> generation img < minimum_generation then
               boot_reject p XNUXX_BOOT_ROLLBACK_REJECTED w
             else case load_kernel p of
               None \<Rightarrow> boot_reject p XNUXX_BOOT_LOAD_FAILED w
             | Some load \<Rightarrow>
                 (case load (payload img) (payload_size img) w of (rc, w) \<Rightarrow>
                    if rc \<noteq> 0 then boot_reject p XNUXX_BOOT_LOAD_FAILED w
                    else do {
                      w \<leftarrow> boot_log p (cstr ''secure verification complete; transferring control\<newline>'') w;
                      w \<leftarrow> (if ansi_console p \<noteq> 0 then boot_log p ANSI_RESET w else Some w);
                      Some (XNUXX_BOOT_OK, w)
                    })))"

definition bootloader_measure ::
  "'w xnuxx_boot_platform \<Rightarrow> xnuxx_boot_image \<Rightarrow> u32 \<Rightarrow> u8 list \<Rightarrow> u64 \<Rightarrow> 'w \<Rightarrow>
   (xnuxx_boot_result \<times> 'w) option" where
  "bootloader_measure p img policy actual_measurement minimum_generation w =
     (if policy AND XNUXX_BOOT_REQUIRE_MEASUREMENT = 0 then
        boot_reject p XNUXX_BOOT_MEASUREMENT_REJECTED w
      else case measure_sha256 p of
        None \<Rightarrow> boot_reject p XNUXX_BOOT_MEASUREMENT_REJECTED w
      | Some measure_cb \<Rightarrow>
          (case measure_cb (payload img) (payload_size img) actual_measurement w of
             (rc, actual_measurement, w) \<Rightarrow> do {
               differs \<leftarrow> (if rc \<noteq> 0 then Some 1
                 else boot_memcmp actual_measurement (the (expected_measurement img)) 32);
               _ \<leftarrow> boot_memset actual_measurement 0 32;
               if differs \<noteq> 0 then boot_reject p XNUXX_BOOT_MEASUREMENT_REJECTED w
               else bootloader_handoff p img policy minimum_generation w
             }))"

definition bootloader_verify ::
  "'w xnuxx_boot_platform \<Rightarrow> xnuxx_boot_image \<Rightarrow> u32 \<Rightarrow> u8 list \<Rightarrow> u64 \<Rightarrow> 'w \<Rightarrow>
   (xnuxx_boot_result \<times> 'w) option" where
  "bootloader_verify p img policy actual_measurement minimum_generation w =
     (if policy AND XNUXX_BOOT_REQUIRE_LAYER_CAPABILITIES \<noteq> 0 \<and>
         required_capabilities img AND NOT (capabilities p) \<noteq> 0 then
        boot_reject p XNUXX_BOOT_CAPABILITY_REJECTED w
      else if policy AND XNUXX_BOOT_REQUIRE_SIGNATURE = 0 then
        boot_reject p XNUXX_BOOT_SIGNATURE_REJECTED w
      else case verify_signature p of
        None \<Rightarrow> boot_reject p XNUXX_BOOT_SIGNATURE_REJECTED w
      | Some verify \<Rightarrow>
          (case verify (payload img) (payload_size img) (signature img) (signature_size img) w of
             (verified, w) \<Rightarrow>
               if verified \<noteq> 0 then boot_reject p XNUXX_BOOT_SIGNATURE_REJECTED w
               else bootloader_measure p img policy actual_measurement minimum_generation w))"

definition xnuxx_bootloader_start ::
  "'w xnuxx_boot_platform option \<Rightarrow> xnuxx_boot_image option \<Rightarrow> u32 \<Rightarrow> u8 list \<Rightarrow> u64 \<Rightarrow> 'w \<Rightarrow>
   (xnuxx_boot_result \<times> 'w) option" where
  "xnuxx_bootloader_start p img policy actual_measurement minimum_generation w =
     (case (p, img) of
        (Some p, Some img) \<Rightarrow>
          if payload img = 0 \<or> payload_size img = 0 \<or>
             payload_size img > XNUXX_BOOTLOADER_MAX_IMAGE_SIZE \<or> write_console p = None then
            Some (XNUXX_BOOT_INVALID_ARGUMENT, w)
          else do {
            w \<leftarrow> (if ansi_console p \<noteq> 0 then boot_log p ANSI_BLUE_WHITE w else Some w);
            w \<leftarrow> boot_log p (cstr ''xnu++ secure bootloader\<newline>'') w;
            if magic img \<noteq> XNUXX_BOOTLOADER_MAGIC \<or>
               version img \<noteq> XNUXX_BOOTLOADER_API_VERSION \<or>
               ucast (header_size img) < sizeof_xnuxx_boot_image \<or>
               signature img = 0 \<or> signature_size img = 0 \<or>
               expected_measurement img = None then
              boot_reject p XNUXX_BOOT_INVALID_IMAGE w
            else bootloader_verify p img policy actual_measurement minimum_generation w
          }
      | _ \<Rightarrow> Some (XNUXX_BOOT_INVALID_ARGUMENT, w))"

end
