(* ===== verification/Bootloader_Gates.thy ===== *)
theory Bootloader_Gates
  imports Bootloader
begin

text \<open>
  What the secure bootloader guarantees.  The platform is instrumented with a log of the callbacks
  it receives; an automaton over that log is the abstract boot protocol, and every run of
  \<open>xnuxx_bootloader_start\<close> is a run of the automaton.  The properties about the order of the gates,
  about fail-closed behaviour and about acceptance follow.
\<close>

section \<open>Calls the bootloader makes\<close>

text \<open>
  The platform instrumented with a log: every callback also appends the call, its arguments and
  its result.  Nothing else changes, which \<open>traced_start\<close> below states.
\<close>

datatype boot_call =
    Verify u32 u32 u32 u32 int
  | Measure u32 u32 int "u8 list"
  | ReadGeneration int u64
  | LoadKernel u32 u32 int
  | Recovery xnuxx_boot_result int
  | WriteConsole "u8 list" nat

fun gate_call :: "boot_call \<Rightarrow> bool" where
  "gate_call (Recovery _ _) = False"
| "gate_call (WriteConsole _ _) = False"
| "gate_call _ = True"

fun recovery_call :: "boot_call \<Rightarrow> bool" where
  "recovery_call (Recovery _ _) = True"
| "recovery_call _ = False"

definition traced :: "'w xnuxx_boot_platform \<Rightarrow> ('w \<times> boot_call list) xnuxx_boot_platform" where
  "traced p =
     \<lparr> capabilities = capabilities p,
       ansi_console = ansi_console p,
       verify_signature = map_option (\<lambda>f a n s k (w, tr).
         case f a n s k w of (rc, w) \<Rightarrow> (rc, w, tr @ [Verify a n s k rc])) (verify_signature p),
       measure_sha256 = map_option (\<lambda>f a n m (w, tr).
         case f a n m w of (rc, m, w) \<Rightarrow> (rc, m, w, tr @ [Measure a n rc m])) (measure_sha256 p),
       read_minimum_generation = map_option (\<lambda>f g (w, tr).
         case f g w of (rc, g, w) \<Rightarrow> (rc, g, w, tr @ [ReadGeneration rc g])) (read_minimum_generation p),
       load_kernel = map_option (\<lambda>f a n (w, tr).
         case f a n w of (rc, w) \<Rightarrow> (rc, w, tr @ [LoadKernel a n rc])) (load_kernel p),
       enter_recovery = map_option (\<lambda>f r (w, tr).
         case f r w of (rc, w) \<Rightarrow> (rc, w, tr @ [Recovery r rc])) (enter_recovery p),
       write_console = map_option (\<lambda>f text n (w, tr).
         (f text n w, tr @ [WriteConsole text n])) (write_console p) \<rparr>"

lemma traced_sel [simp]:
  "capabilities (traced p) = capabilities p"
  "ansi_console (traced p) = ansi_console p"
  "verify_signature (traced p) = map_option (\<lambda>f a n s k (w, tr).
         case f a n s k w of (rc, w) \<Rightarrow> (rc, w, tr @ [Verify a n s k rc])) (verify_signature p)"
  "measure_sha256 (traced p) = map_option (\<lambda>f a n m (w, tr).
         case f a n m w of (rc, m, w) \<Rightarrow> (rc, m, w, tr @ [Measure a n rc m])) (measure_sha256 p)"
  "read_minimum_generation (traced p) = map_option (\<lambda>f g (w, tr).
         case f g w of (rc, g, w) \<Rightarrow> (rc, g, w, tr @ [ReadGeneration rc g])) (read_minimum_generation p)"
  "load_kernel (traced p) = map_option (\<lambda>f a n (w, tr).
         case f a n w of (rc, w) \<Rightarrow> (rc, w, tr @ [LoadKernel a n rc])) (load_kernel p)"
  "enter_recovery (traced p) = map_option (\<lambda>f r (w, tr).
         case f r w of (rc, w) \<Rightarrow> (rc, w, tr @ [Recovery r rc])) (enter_recovery p)"
  "write_console (traced p) = map_option (\<lambda>f text n (w, tr).
         (f text n w, tr @ [WriteConsole text n])) (write_console p)"
  by (simp_all add: traced_def)

section \<open>Buffers\<close>

text \<open>What the header requires of the caller: the expected measurement and the measurement
  callback work on 32 bytes.\<close>

definition boot_buffers :: "'w xnuxx_boot_platform \<Rightarrow> xnuxx_boot_image \<Rightarrow> bool" where
  "boot_buffers p img \<longleftrightarrow>
     (\<forall>e. expected_measurement img = Some e \<longrightarrow> length e = 32) \<and>
     (\<forall>f. measure_sha256 p = Some f \<longrightarrow>
        (\<forall>a n m w. length m = 32 \<longrightarrow> length (fst (snd (f a n m w))) = 32))"

lemma boot_strlen_ansi [simp]:
  "boot_strlen ANSI_BLUE_WHITE = Some 8" "boot_strlen ANSI_RESET = Some 4"
  by code_simp+

lemma boot_strlen_banners [simp]:
  "boot_strlen (cstr ''secure verification complete; transferring control\<newline>'') = Some 51"
  "boot_strlen (cstr ''xnu++ secure bootloader\<newline>'') = Some 24"
  by code_simp+

lemma boot_memcmp_32:
  "length a = 32 \<Longrightarrow> length b = 32 \<Longrightarrow> \<exists>r. boot_memcmp a b 32 = Some r \<and> (r = 0 \<longleftrightarrow> a = b)"
  using boot_cmp.cmp_defined [of 32 a b] by (metis le_refl take_all)

lemma boot_memset_32: "length m = 32 \<Longrightarrow> boot_memset m v 32 = Some (replicate 32 v)"
  by (simp add: boot_memset_eq)

section \<open>The order of the gates\<close>

text \<open>
  The abstract specification is an automaton over the calls.  A call is admitted only in the stage
  the boot protocol allows it in, with the arguments of this image, and only when the policy asks
  for the gate.
\<close>

datatype boot_stage =
  Checking | Verified | Measured | Fresh | Loaded | Failing xnuxx_boot_result | Rejected xnuxx_boot_result

definition boot_image_ok :: "xnuxx_boot_image \<Rightarrow> bool" where
  "boot_image_ok img \<longleftrightarrow>
     magic img = 0x584E5542 \<and> version img = 1 \<and> 44 \<le> header_size img \<and>
     payload img \<noteq> 0 \<and> 0 < payload_size img \<and> payload_size img \<le> 0x40000000 \<and>
     signature img \<noteq> 0 \<and> 0 < signature_size img \<and> expected_measurement img \<noteq> None"

definition boot_caps_ok :: "u64 \<Rightarrow> xnuxx_boot_image \<Rightarrow> u32 \<Rightarrow> bool" where
  "boot_caps_ok caps img policy \<longleftrightarrow>
     (bit policy 4 \<longrightarrow> (\<forall>i < 64. bit (required_capabilities img) i \<longrightarrow> bit caps i))"

fun boot_monitor :: "u64 \<Rightarrow> xnuxx_boot_image \<Rightarrow> u32 \<Rightarrow> boot_stage \<Rightarrow> boot_call \<Rightarrow> boot_stage option" where
  "boot_monitor caps img policy s (WriteConsole t n) = Some s"
| "boot_monitor caps img policy Checking (Verify a n sg k rc) =
     (if boot_image_ok img \<and> boot_caps_ok caps img policy \<and> bit policy 0 \<and>
         (a, n, sg, k) = (payload img, payload_size img, signature img, signature_size img)
      then Some (if rc = 0 then Verified else Failing XNUXX_BOOT_SIGNATURE_REJECTED) else None)"
| "boot_monitor caps img policy Verified (Measure a n rc d) =
     (if bit policy 1 \<and> (a, n) = (payload img, payload_size img)
      then Some (if rc = 0 \<and> Some d = expected_measurement img then Measured
                 else Failing XNUXX_BOOT_MEASUREMENT_REJECTED) else None)"
| "boot_monitor caps img policy Measured (ReadGeneration rc g) =
     (if bit policy 2
      then Some (if rc = 0 \<and> g \<le> generation img then Fresh
                 else Failing XNUXX_BOOT_ROLLBACK_REJECTED) else None)"
| "boot_monitor caps img policy Fresh (LoadKernel a n rc) =
     (if (a, n) = (payload img, payload_size img)
      then Some (if rc = 0 then Loaded else Failing XNUXX_BOOT_LOAD_FAILED) else None)"
| "boot_monitor caps img policy s (Recovery r rc) =
     (case s of Loaded \<Rightarrow> None | Rejected _ \<Rightarrow> None
      | Failing r' \<Rightarrow> if r = r' then Some (Rejected r) else None
      | _ \<Rightarrow> if r = XNUXX_BOOT_OK \<or> r = XNUXX_BOOT_INVALID_ARGUMENT then None else Some (Rejected r))"
| "boot_monitor caps img policy _ _ = None"

fun monitor_run :: "u64 \<Rightarrow> xnuxx_boot_image \<Rightarrow> u32 \<Rightarrow> boot_call list \<Rightarrow> boot_stage \<Rightarrow> boot_stage option" where
  "monitor_run caps img policy [] s = Some s"
| "monitor_run caps img policy (c # cs) s =
     Option.bind (boot_monitor caps img policy s c) (monitor_run caps img policy cs)"

lemma monitor_run_append [simp]:
  "monitor_run caps img policy (xs @ ys) s =
     Option.bind (monitor_run caps img policy xs s) (monitor_run caps img policy ys)"
  by (induction xs arbitrary: s) (auto split: bind_splits)

text \<open>How a run that returns \<open>r\<close> leaves the automaton.\<close>

definition boot_end :: "'w xnuxx_boot_platform \<Rightarrow> xnuxx_boot_result \<Rightarrow> boot_stage \<Rightarrow> bool" where
  "boot_end p r s \<longleftrightarrow>
     (if r = XNUXX_BOOT_OK then s = Loaded
      else if enter_recovery p = None \<or> r = XNUXX_BOOT_INVALID_ARGUMENT
      then s \<noteq> Loaded \<and> (\<forall>r'. s \<noteq> Rejected r') \<and> (\<forall>r'. s = Failing r' \<longrightarrow> r = r')
      else s = Rejected r)"

definition boot_run_ok ::
  "'w xnuxx_boot_platform \<Rightarrow> xnuxx_boot_image \<Rightarrow> u32 \<Rightarrow> xnuxx_boot_result \<Rightarrow> boot_call list \<Rightarrow> bool" where
  "boot_run_ok p img policy r tr \<longleftrightarrow>
     (case monitor_run (capabilities p) img policy tr Checking of
        None \<Rightarrow> False | Some s \<Rightarrow> boot_end p r s)"

fun may_reject :: "xnuxx_boot_result \<Rightarrow> boot_stage \<Rightarrow> bool" where
  "may_reject r Loaded = False"
| "may_reject r (Rejected _) = False"
| "may_reject r (Failing r') = (r = r')"
| "may_reject r _ = True"

lemma boot_reject_monitor:
  assumes "boot_reject (traced p) r (w, tr) = Some (r', w', tr')"
    and "case monitor_run (capabilities p) img policy tr Checking of None \<Rightarrow> False | Some s \<Rightarrow> may_reject r s"
    and "r \<notin> {XNUXX_BOOT_OK, XNUXX_BOOT_INVALID_ARGUMENT}"
  shows "boot_run_ok p img policy r' tr'"
proof -
  from assms(2) obtain s where s: "monitor_run (capabilities p) img policy tr Checking = Some s" "may_reject r s"
    by (auto split: option.splits)
  with assms(1,3) show ?thesis
    by (cases s) (auto simp: boot_reject_def boot_fail_def boot_end_def boot_run_ok_def
        split: option.splits prod.splits if_splits)
qed

lemma boot_policy_bits [simp]:
  "policy AND XNUXX_BOOT_REQUIRE_SIGNATURE = 0 \<longleftrightarrow> \<not> bit policy 0"
  "policy AND XNUXX_BOOT_REQUIRE_MEASUREMENT = 0 \<longleftrightarrow> \<not> bit policy 1"
  "policy AND XNUXX_BOOT_REQUIRE_ROLLBACK_PROTECTION = 0 \<longleftrightarrow> \<not> bit policy 2"
  "policy AND XNUXX_BOOT_REQUIRE_LAYER_CAPABILITIES = 0 \<longleftrightarrow> \<not> bit policy 4"
  unfolding XNUXX_BOOT_REQUIRE_SIGNATURE_def XNUXX_BOOT_REQUIRE_MEASUREMENT_def
    XNUXX_BOOT_REQUIRE_ROLLBACK_PROTECTION_def XNUXX_BOOT_REQUIRE_LAYER_CAPABILITIES_def
    and_push_bit_1_eq_0 by simp_all

lemma boot_caps_missing:
  "(required_capabilities img AND NOT caps = 0) \<longleftrightarrow>
     (\<forall>i < 64. bit (required_capabilities img) i \<longrightarrow> bit caps i)"
  unfolding bit_eq_iff [of "required_capabilities img AND NOT caps" 0] by (auto simp: bit_simps)

lemma boot_end_ok:
  "boot_run_ok p img policy XNUXX_BOOT_OK tr \<longleftrightarrow>
     monitor_run (capabilities p) img policy tr Checking = Some Loaded"
  by (auto simp: boot_run_ok_def boot_end_def split: option.splits)

lemma handoff_monitor:
  assumes "bootloader_handoff (traced p) img policy g (w, tr) = Some (r, w', tr')" "write_console p \<noteq> None"
    and "monitor_run (capabilities p) img policy tr Checking = Some Measured"
  shows "boot_run_ok p img policy r tr'"
  using assms unfolding bootloader_handoff_def
  by (auto simp: boot_log_def not_less boot_end_ok
      elim!: boot_reject_monitor split: if_splits option.splits prod.splits bind_splits)

lemma measurement_check:
  assumes "length d = 32" "length e = 32"
  shows "do { differs \<leftarrow> (if rc \<noteq> (0 :: int) then Some 1 else boot_memcmp d e 32);
              _ \<leftarrow> boot_memset d 0 32;
              if differs \<noteq> 0 then A else B } = (if rc = 0 \<and> d = e then B else A)"
proof -
  obtain r where "boot_memcmp d e 32 = Some r" "r = 0 \<longleftrightarrow> d = e"
    using boot_memcmp_32 [OF assms] by blast
  then show ?thesis
    using assms(1) by (auto simp: boot_memset_32)
qed

lemma measure_monitor:
  assumes "bootloader_measure (traced p) img policy m g (w, tr) = Some (r, w', tr')"
    and "write_console p \<noteq> None" "boot_buffers p img" "boot_image_ok img" "length m = 32"
    and "monitor_run (capabilities p) img policy tr Checking = Some Verified"
  shows "boot_run_ok p img policy r tr'"
proof (cases "bit policy 1 \<and> measure_sha256 p \<noteq> None")
  case False
  then show ?thesis
    using assms unfolding bootloader_measure_def
    by (auto elim!: boot_reject_monitor split: if_splits option.splits)
next
  case True
  obtain e where e: "expected_measurement img = Some e" "length e = 32"
    using assms(3,4) by (auto simp: boot_buffers_def boot_image_ok_def)
  obtain f rc d w1 where f: "measure_sha256 p = Some f"
    "f (payload img) (payload_size img) m w = (rc, d, w1)"
    using True by (metis option.exhaust surj_pair)
  then have d: "length d = 32"
    using assms(3,5) unfolding boot_buffers_def by (metis fst_conv snd_conv)
  let ?tr = "tr @ [Measure (payload img) (payload_size img) rc d]"
  have run: "(if rc = 0 \<and> d = e then bootloader_handoff (traced p) img policy g (w1, ?tr)
     else boot_reject (traced p) XNUXX_BOOT_MEASUREMENT_REJECTED (w1, ?tr)) = Some (r, w', tr')"
    using assms(1) True f e unfolding bootloader_measure_def
    by (simp add: measurement_check [OF d e(2)] cong del: if_weak_cong)
  show ?thesis
  proof (cases "rc = 0 \<and> d = e")
    case T: True
    show ?thesis
      by (rule handoff_monitor [of p img policy g w1 ?tr r w']) (use run T assms(2,6) e True in auto)
  next
    case F: False
    show ?thesis
      by (rule boot_reject_monitor [of p _ w1 ?tr r w']) (use run F assms(2,6) e True in auto)
  qed
qed

lemma verify_monitor:
  assumes "bootloader_verify (traced p) img policy m g (w, tr) = Some (r, w', tr')"
    and "write_console p \<noteq> None" "boot_buffers p img" "boot_image_ok img" "length m = 32"
    and "monitor_run (capabilities p) img policy tr Checking = Some Checking"
  shows "boot_run_ok p img policy r tr'"
  using assms unfolding bootloader_verify_def
  by (auto simp: boot_caps_missing boot_caps_ok_def
      elim!: boot_reject_monitor measure_monitor split: if_splits option.splits prod.splits)

definition boot_args_ok :: "'w xnuxx_boot_platform \<Rightarrow> xnuxx_boot_image \<Rightarrow> bool" where
  "boot_args_ok p img \<longleftrightarrow>
     payload img \<noteq> 0 \<and> 0 < payload_size img \<and> payload_size img \<le> 0x40000000 \<and> write_console p \<noteq> None"

definition boot_banner :: "'w xnuxx_boot_platform \<Rightarrow> 'w \<Rightarrow> 'w" where
  "boot_banner p w =
     (let write = the (write_console p);
          w = (if ansi_console p \<noteq> 0 then write ANSI_BLUE_WHITE 8 w else w)
      in write (cstr ''xnu++ secure bootloader\<newline>'') 24 w)"

lemma word_less_44_iff: "ucast (h :: u16) < (44 :: u32) \<longleftrightarrow> \<not> 44 \<le> h"
proof -
  have "unat h < 2 ^ LENGTH(16)"
    by (rule unsigned_less)
  then show ?thesis
    by (simp add: word_less_nat_alt word_le_nat_alt unsigned_ucast_eq take_bit_nat_eq_self not_le)
qed

lemma start_eq:
  "xnuxx_bootloader_start (Some p) (Some img) policy m g w =
     (if \<not> boot_args_ok p img then Some (XNUXX_BOOT_INVALID_ARGUMENT, w)
      else if \<not> boot_image_ok img then boot_reject p XNUXX_BOOT_INVALID_IMAGE (boot_banner p w)
      else bootloader_verify p img policy m g (boot_banner p w))"
proof (cases "boot_args_ok p img")
  case False
  then show ?thesis
    by (auto simp: xnuxx_bootloader_start_def boot_args_ok_def XNUXX_BOOTLOADER_MAX_IMAGE_SIZE_def
        not_less word_gt_0)
next
  case True
  then have "boot_image_ok img \<longleftrightarrow> magic img = XNUXX_BOOTLOADER_MAGIC \<and>
      version img = XNUXX_BOOTLOADER_API_VERSION \<and>
      \<not> ucast (header_size img) < sizeof_xnuxx_boot_image \<and>
      signature img \<noteq> 0 \<and> signature_size img \<noteq> 0 \<and> expected_measurement img \<noteq> None"
    by (simp add: boot_image_ok_def boot_args_ok_def XNUXX_BOOTLOADER_MAGIC_def word_less_44_iff
        XNUXX_BOOTLOADER_API_VERSION_def sizeof_xnuxx_boot_image_def word_gt_0)
  with True show ?thesis
    by (auto simp: xnuxx_bootloader_start_def boot_args_ok_def boot_log_def boot_banner_def
        XNUXX_BOOTLOADER_MAX_IMAGE_SIZE_def Let_def word_gt_0)
qed

lemma boot_banner_traced:
  assumes "write_console p \<noteq> None"
  obtains t where "boot_banner (traced p) (w, []) = (boot_banner p w, t)"
    "monitor_run caps img policy t Checking = Some Checking"
  using assms that by (cases "ansi_console p = 0") (auto simp: boot_banner_def)

lemma start_monitor:
  assumes "xnuxx_bootloader_start (Some (traced p)) (Some img) policy m g (w, []) = Some (r, w', tr)"
    and "boot_buffers p img" "length m = 32"
  shows "boot_run_ok p img policy r tr"
proof (cases "boot_args_ok p img")
  case True
  then have wc: "write_console p \<noteq> None" "boot_args_ok (traced p) img"
    by (auto simp: boot_args_ok_def)
  obtain t where t: "boot_banner (traced p) (w, []) = (boot_banner p w, t)"
      "monitor_run (capabilities p) img policy t Checking = Some Checking"
    using boot_banner_traced [OF wc(1)] .
  show ?thesis
  proof (cases "boot_image_ok img")
    case True
    with assms wc t show ?thesis
      by (intro verify_monitor [of p img policy m g "boot_banner p w" t r w']) (auto simp: start_eq)
  next
    case False
    with assms wc t show ?thesis
      by (intro boot_reject_monitor [of p _ "boot_banner p w" t r w']) (auto simp: start_eq)
  qed
next
  case False
  then have "\<not> boot_args_ok (traced p) img"
    by (auto simp: boot_args_ok_def)
  with assms show ?thesis
    by (auto simp: start_eq boot_run_ok_def boot_end_def)
qed

section \<open>What the automaton guarantees\<close>

text \<open>The calls up to and including the hand-off, when every gate has passed.\<close>

definition boot_gate_calls :: "xnuxx_boot_image \<Rightarrow> u64 \<Rightarrow> boot_call list" where
  "boot_gate_calls img g =
     [Verify (payload img) (payload_size img) (signature img) (signature_size img) 0,
      Measure (payload img) (payload_size img) 0 (the (expected_measurement img)),
      ReadGeneration 0 g]"

definition boot_gates_open :: "u64 \<Rightarrow> xnuxx_boot_image \<Rightarrow> u32 \<Rightarrow> boot_call list \<Rightarrow> int \<Rightarrow> bool" where
  "boot_gates_open caps img policy calls rc \<longleftrightarrow>
     boot_image_ok img \<and> boot_caps_ok caps img policy \<and> bit policy 0 \<and> bit policy 1 \<and> bit policy 2 \<and>
     (\<exists>g. g \<le> generation img \<and>
        calls = boot_gate_calls img g @ [LoadKernel (payload img) (payload_size img) rc])"

fun stage_shape :: "u64 \<Rightarrow> xnuxx_boot_image \<Rightarrow> u32 \<Rightarrow> boot_stage \<Rightarrow> boot_call list \<Rightarrow> bool" where
  "stage_shape caps img policy Checking cs = (cs = [])"
| "stage_shape caps img policy Verified cs =
     (boot_image_ok img \<and> boot_caps_ok caps img policy \<and> bit policy 0 \<and> cs = take 1 (boot_gate_calls img 0))"
| "stage_shape caps img policy Measured cs =
     (boot_image_ok img \<and> boot_caps_ok caps img policy \<and> bit policy 0 \<and> bit policy 1 \<and>
      cs = take 2 (boot_gate_calls img 0))"
| "stage_shape caps img policy Fresh cs =
     (boot_image_ok img \<and> boot_caps_ok caps img policy \<and> bit policy 0 \<and> bit policy 1 \<and> bit policy 2 \<and>
      (\<exists>g. g \<le> generation img \<and> cs = boot_gate_calls img g))"
| "stage_shape caps img policy Loaded cs = boot_gates_open caps img policy cs 0"
| "stage_shape caps img policy _ cs =
     (\<forall>a n rc. LoadKernel a n rc \<in> set cs \<longrightarrow> rc \<noteq> 0 \<and> boot_gates_open caps img policy cs rc)"

lemma stage_shape_step:
  assumes "boot_monitor caps img policy s c = Some s'" "stage_shape caps img policy s cs"
  shows "stage_shape caps img policy s' (if gate_call c then cs @ [c] else cs)"
  using assms
  by (cases c; cases s)
    (auto simp: boot_gate_calls_def boot_gates_open_def boot_image_ok_def split: if_splits)

lemma monitor_shape:
  "monitor_run caps img policy tr Checking = Some s \<Longrightarrow> stage_shape caps img policy s (filter gate_call tr)"
proof (induction tr arbitrary: s rule: rev_induct)
  case (snoc c tr)
  then obtain s1 where s1: "monitor_run caps img policy tr Checking = Some s1"
    "boot_monitor caps img policy s1 c = Some s"
    by (auto split: bind_splits)
  show ?case
    using stage_shape_step [OF s1(2) snoc.IH [OF s1(1)]] by auto
qed simp

lemma stage_shape_load:
  assumes "stage_shape caps img policy s cs" "LoadKernel a n rc \<in> set cs"
  shows "boot_gates_open caps img policy cs rc \<and> (s = Loaded \<longleftrightarrow> rc = 0)"
  using assms by (cases s) (auto simp: boot_gates_open_def boot_gate_calls_def)

fun recoveries :: "boot_stage \<Rightarrow> boot_call list \<Rightarrow> bool" where
  "recoveries (Rejected r) cs = (\<exists>rc. cs = [Recovery r rc])"
| "recoveries _ cs = (cs = [])"

lemma monitor_recoveries:
  "monitor_run caps img policy tr Checking = Some s \<Longrightarrow> recoveries s (filter recovery_call tr)"
proof (induction tr arbitrary: s rule: rev_induct)
  case (snoc c tr)
  then obtain s1 where s1: "monitor_run caps img policy tr Checking = Some s1"
    "boot_monitor caps img policy s1 c = Some s"
    by (auto split: bind_splits)
  show ?case
    using s1(2) snoc.IH [OF s1(1)] by (cases c; cases s1) (auto split: if_splits)
qed simp

section \<open>Results\<close>

lemma boot_reject_total: "\<exists>w'. boot_reject p r w = Some (r, w')"
  by (simp add: boot_reject_def)

lemma boot_log_total: "boot_strlen text = Some n \<Longrightarrow> \<exists>w'. boot_log p text w = Some w'"
  by (simp add: boot_log_def split: option.splits)

lemma traced_reject [simp]:
  "map_option (\<lambda>(r, w, tr). (r, w)) (boot_reject (traced p) r (w, tr)) = boot_reject p r w"
  by (auto simp: boot_reject_def boot_fail_def split: option.splits prod.splits)

lemma traced_handoff [simp]:
  "map_option (\<lambda>(r, w, tr). (r, w)) (bootloader_handoff (traced p) img policy g (w, tr)) =
     bootloader_handoff p img policy g w"
  by (simp add: bootloader_handoff_def boot_log_def split: option.splits prod.splits)

lemma traced_measure [simp]:
  "map_option (\<lambda>(r, w, tr). (r, w)) (bootloader_measure (traced p) img policy m g (w, tr)) =
     bootloader_measure p img policy m g w"
  by (simp add: bootloader_measure_def map_option_bind split: option.splits prod.splits bind_splits)

lemma traced_verify [simp]:
  "map_option (\<lambda>(r, w, tr). (r, w)) (bootloader_verify (traced p) img policy m g (w, tr)) =
     bootloader_verify p img policy m g w"
  by (simp add: bootloader_verify_def split: option.splits prod.splits)

lemma handoff_total: "\<exists>r w'. bootloader_handoff p img policy g w = Some (r, w') \<and>
    r \<in> {XNUXX_BOOT_OK, XNUXX_BOOT_ROLLBACK_REJECTED, XNUXX_BOOT_LOAD_FAILED}"
  by (auto simp: bootloader_handoff_def boot_log_def boot_reject_def split: option.splits prod.splits)

lemma measure_total:
  assumes "boot_buffers p img" "expected_measurement img = Some e" "length m = 32"
  shows "\<exists>r w'. bootloader_measure p img policy m g w = Some (r, w') \<and> r \<in> {XNUXX_BOOT_OK,
    XNUXX_BOOT_MEASUREMENT_REJECTED, XNUXX_BOOT_ROLLBACK_REJECTED, XNUXX_BOOT_LOAD_FAILED}"
proof (cases "bit policy 1 \<and> measure_sha256 p \<noteq> None")
  case False
  then show ?thesis
    by (auto simp: bootloader_measure_def boot_reject_def split: option.splits)
next
  case True
  obtain f rc d w1 where f: "measure_sha256 p = Some f"
    "f (payload img) (payload_size img) m w = (rc, d, w1)"
    using True by (metis option.exhaust surj_pair)
  have d: "length d = 32" and e: "length e = 32"
    using assms f unfolding boot_buffers_def by (metis fst_conv snd_conv)+
  show ?thesis
    using True f assms(2) handoff_total [of p img policy g w1]
    by (auto simp: bootloader_measure_def measurement_check [OF d e] boot_reject_def cong del: if_weak_cong)
qed

text \<open>A small platform on which the statements below are evaluated: its callbacks all succeed and
  measure 32 bytes of value 7.\<close>

definition sample_platform :: "unit xnuxx_boot_platform" where
  "sample_platform =
     \<lparr> capabilities = 0x1F, ansi_console = 1,
       verify_signature = Some (\<lambda>a n s k w. (0, w)),
       measure_sha256 = Some (\<lambda>a n m w. (0, replicate 32 7, w)),
       read_minimum_generation = Some (\<lambda>g w. (0, 3, w)),
       load_kernel = Some (\<lambda>a n w. (0, w)),
       enter_recovery = Some (\<lambda>r w. (- 1, w)),
       write_console = Some (\<lambda>text n w. w) \<rparr>"

definition sample_image :: xnuxx_boot_image where
  "sample_image =
     \<lparr> magic = 0x584E5542, version = 1, header_size = 44, generation = 3,
       required_capabilities = 0xB, payload = 0x100000, payload_size = 4096, signature = 0x2000,
       signature_size = 2, expected_measurement = Some (replicate 32 7) \<rparr>"

lemma sample_buffers: "boot_buffers sample_platform (sample_image\<lparr>generation := n\<rparr>)"
  by (simp add: boot_buffers_def sample_platform_def sample_image_def)

text \<open>C1. Nothing is handed to the kernel loader unless every gate has been passed first: if
  \<open>load_kernel\<close> is ever called, the image header was valid, the capabilities it requires were
  present, the policy required signature, measurement and rollback protection, and the calls so
  far were, in this order and once each, a successful signature check, a measurement equal to the
  expected one and a minimum generation not above the image's, all on the payload that is then
  loaded; and the bootloader returns OK exactly when the loader succeeded.\<close>

theorem load_kernel_guarded:
  assumes "boot_buffers p img" "length m = 32"
    and "xnuxx_bootloader_start (Some (traced p)) (Some img) policy m g (w, []) = Some (r, w', tr)"
    and "LoadKernel a n rc \<in> set tr"
  shows "boot_gates_open (capabilities p) img policy (filter gate_call tr) rc \<and>
    (r = XNUXX_BOOT_OK \<longleftrightarrow> rc = 0)"
proof -
  obtain s where s: "monitor_run (capabilities p) img policy tr Checking = Some s" "boot_end p r s"
    using start_monitor [OF assms(3,1,2)] by (auto simp: boot_run_ok_def split: option.splits)
  have "LoadKernel a n rc \<in> set (filter gate_call tr)"
    using assms(4) by simp
  with stage_shape_load [OF monitor_shape [OF s(1)]] s(2) show ?thesis
    by (auto simp: boot_end_def split: if_splits)
qed

theorem load_kernel_guarded_witness:
  "\<exists>tr. xnuxx_bootloader_start (Some (traced sample_platform)) (Some (sample_image\<lparr>generation := 3\<rparr>))
      7 (replicate 32 0) 0 ((), []) = Some (XNUXX_BOOT_OK, (), tr) \<and>
    boot_gates_open (capabilities sample_platform) (sample_image\<lparr>generation := 3\<rparr>) 7
      (filter gate_call tr) 0"
proof -
  let ?run = "xnuxx_bootloader_start (Some (traced sample_platform))
    (Some (sample_image\<lparr>generation := 3\<rparr>)) 7 (replicate 32 0) 0 ((), [])"
  have "?run = Some (XNUXX_BOOT_OK, (), snd (snd (the ?run)))"
    and "LoadKernel 0x100000 4096 0 \<in> set (snd (snd (the ?run)))"
    by code_simp+
  with load_kernel_guarded [OF sample_buffers _ this] show ?thesis
    by auto
qed

text \<open>C2. The bootloader fails closed: when it returns anything but OK no successful hand-off has
  happened; a rejected image is reported to the recovery callback exactly once and with the result
  that is returned; and the recovery callback is never called for an accepted image or for invalid
  arguments.\<close>

theorem bootloader_fails_closed:
  assumes "boot_buffers p img" "length m = 32"
    and "xnuxx_bootloader_start (Some (traced p)) (Some img) policy m g (w, []) = Some (r, w', tr)"
  shows "(r \<noteq> XNUXX_BOOT_OK \<longrightarrow> (\<forall>a n. LoadKernel a n 0 \<notin> set tr)) \<and>
    (if r = XNUXX_BOOT_OK \<or> r = XNUXX_BOOT_INVALID_ARGUMENT \<or> enter_recovery p = None
     then filter recovery_call tr = [] else \<exists>rc. filter recovery_call tr = [Recovery r rc])"
proof -
  obtain s where s: "monitor_run (capabilities p) img policy tr Checking = Some s" "boot_end p r s"
    using start_monitor [OF assms(3,1,2)] by (auto simp: boot_run_ok_def split: option.splits)
  have "s = Loaded" if "LoadKernel a n 0 \<in> set tr" for a n
    using that stage_shape_load [OF monitor_shape [OF s(1)], of a n 0] by simp
  moreover have "recoveries s (filter recovery_call tr)"
    by (rule monitor_recoveries [OF s(1)])
  ultimately show ?thesis
    using s(2) by (cases s) (auto simp: boot_end_def split: if_splits)
qed

theorem bootloader_fails_closed_witness:
  "\<exists>tr. xnuxx_bootloader_start (Some (traced sample_platform)) (Some (sample_image\<lparr>generation := 2\<rparr>))
      7 (replicate 32 0) 0 ((), []) = Some (XNUXX_BOOT_ROLLBACK_REJECTED, (), tr) \<and>
    (\<exists>rc. filter recovery_call tr = [Recovery XNUXX_BOOT_ROLLBACK_REJECTED rc])"
proof -
  let ?run = "xnuxx_bootloader_start (Some (traced sample_platform))
    (Some (sample_image\<lparr>generation := 2\<rparr>)) 7 (replicate 32 0) 0 ((), [])"
  have "?run = Some (XNUXX_BOOT_ROLLBACK_REJECTED, (), snd (snd (the ?run)))"
    by code_simp
  with bootloader_fails_closed [OF sample_buffers _ this] show ?thesis
    by (auto simp: sample_platform_def)
qed

text \<open>The instrumentation is transparent: with the call log erased, the logged run is the run of
  the original platform, result and machine state included.\<close>

theorem traced_start:
  "map_option (\<lambda>(r, w, tr). (r, w)) (xnuxx_bootloader_start (Some (traced p)) img policy m g (w, tr)) =
     xnuxx_bootloader_start (Some p) img policy m g w"
proof (cases img)
  case (Some i)
  have "boot_args_ok (traced p) i = boot_args_ok p i"
    by (simp add: boot_args_ok_def)
  moreover have "fst (boot_banner (traced p) (w, tr)) = boot_banner p w" if "boot_args_ok p i"
    using that by (auto simp: boot_banner_def boot_args_ok_def Let_def)
  ultimately show ?thesis
    using Some by (cases "boot_banner (traced p) (w, tr)") (auto simp: start_eq)
qed (simp add: xnuxx_bootloader_start_def)

text \<open>C4. The bootloader never reads or writes outside its buffers and always returns: for every
  platform, image, policy and stack contents, null pointers included, it produces a result, and
  never one of the two results it has no code for.\<close>

theorem bootloader_returns:
  assumes "\<And>p' img'. p = Some p' \<Longrightarrow> img = Some img' \<Longrightarrow> boot_buffers p' img'" "length m = 32"
  shows "\<exists>r w'. xnuxx_bootloader_start p img policy m g w = Some (r, w') \<and>
    r \<notin> {XNUXX_BOOT_UNSUPPORTED, XNUXX_BOOT_RECOVERY_FAILED}"
proof (cases "p = None \<or> img = None")
  case True
  then show ?thesis
    by (auto simp: xnuxx_bootloader_start_def split: option.splits)
next
  case False
  then obtain p' img' where [simp]: "p = Some p'" "img = Some img'"
    by auto
  show ?thesis
  proof (cases "boot_args_ok p' img' \<and> boot_image_ok img'")
    case True
    then obtain e where e: "expected_measurement img' = Some e"
      by (auto simp: boot_image_ok_def)
    show ?thesis
      using True measure_total [OF assms(1) [OF \<open>p = _\<close> \<open>img = _\<close>] e assms(2), of policy g]
      by (fastforce simp: start_eq bootloader_verify_def boot_reject_def split: option.splits prod.splits)
  qed (auto simp: start_eq boot_reject_def)
qed

theorem bootloader_returns_witness:
  "\<exists>r w'. xnuxx_bootloader_start (Some sample_platform) (Some (sample_image\<lparr>generation := 3\<rparr>))
      0 (replicate 32 0) 0 () = Some (r, w') \<and>
    r \<notin> {XNUXX_BOOT_UNSUPPORTED, XNUXX_BOOT_RECOVERY_FAILED}"
  by (rule bootloader_returns) (use sample_buffers in auto)

section \<open>Acceptance\<close>

definition boot_all_pass :: "'w xnuxx_boot_platform \<Rightarrow> xnuxx_boot_image \<Rightarrow> u8 list \<Rightarrow> u64 \<Rightarrow> 'w \<Rightarrow> bool" where
  "boot_all_pass p img m g w \<longleftrightarrow>
     (\<exists>verify measure_cb read_minimum load w1 w2 w3 w4 g'.
        verify_signature p = Some verify \<and> measure_sha256 p = Some measure_cb \<and>
        read_minimum_generation p = Some read_minimum \<and> load_kernel p = Some load \<and>
        verify (payload img) (payload_size img) (signature img) (signature_size img) w = (0, w1) \<and>
        measure_cb (payload img) (payload_size img) m w1 = (0, the (expected_measurement img), w2) \<and>
        read_minimum g w2 = (0, g', w3) \<and> g' \<le> generation img \<and>
        load (payload img) (payload_size img) w3 = (0, w4))"

lemma handoff_accepts:
  "(\<exists>w'. bootloader_handoff p img policy g w = Some (XNUXX_BOOT_OK, w')) \<longleftrightarrow> bit policy 2 \<and>
     (\<exists>read_minimum load w3 w4 g'. read_minimum_generation p = Some read_minimum \<and>
        load_kernel p = Some load \<and> read_minimum g w = (0, g', w3) \<and> g' \<le> generation img \<and>
        load (payload img) (payload_size img) w3 = (0, w4))"
  by (auto simp: bootloader_handoff_def boot_reject_def boot_log_def not_less
      split: option.splits prod.splits if_splits)

lemma measure_accepts:
  assumes "boot_buffers p img" "boot_image_ok img" "length m = 32"
  shows "(\<exists>w'. bootloader_measure p img policy m g w = Some (XNUXX_BOOT_OK, w')) \<longleftrightarrow> bit policy 1 \<and>
     (\<exists>measure_cb w2. measure_sha256 p = Some measure_cb \<and>
        measure_cb (payload img) (payload_size img) m w = (0, the (expected_measurement img), w2) \<and>
        (\<exists>w'. bootloader_handoff p img policy g w2 = Some (XNUXX_BOOT_OK, w')))"
proof (cases "bit policy 1 \<and> measure_sha256 p \<noteq> None")
  case False
  then show ?thesis
    by (auto simp: bootloader_measure_def boot_reject_def split: option.splits)
next
  case True
  obtain f rc d w1 where f: "measure_sha256 p = Some f"
    "f (payload img) (payload_size img) m w = (rc, d, w1)"
    using True by (metis option.exhaust surj_pair)
  obtain e where e: "expected_measurement img = Some e" "length e = 32"
    using assms(1,2) by (auto simp: boot_buffers_def boot_image_ok_def)
  have d: "length d = 32"
    using assms f unfolding boot_buffers_def by (metis fst_conv snd_conv)+
  show ?thesis
    using True f e
    by (auto simp: bootloader_measure_def measurement_check [OF d e(2)] boot_reject_def cong del: if_weak_cong)
qed

lemma verify_accepts:
  "(\<exists>w'. bootloader_verify p img policy m g w = Some (XNUXX_BOOT_OK, w')) \<longleftrightarrow>
     boot_caps_ok (capabilities p) img policy \<and> bit policy 0 \<and>
     (\<exists>verify w1. verify_signature p = Some verify \<and>
        verify (payload img) (payload_size img) (signature img) (signature_size img) w = (0, w1) \<and>
        (\<exists>w'. bootloader_measure p img policy m g w1 = Some (XNUXX_BOOT_OK, w')))"
  by (auto simp: bootloader_verify_def boot_reject_def boot_caps_ok_def boot_caps_missing
      split: option.splits prod.splits if_splits)

text \<open>C3. The bootloader accepts an image exactly when it should: the arguments and the header are
  valid, the required capabilities are present, the policy has the three mandatory bits, every
  callback is installed, and in sequence the signature check, the measurement, the generation read
  and the load all succeed with the expected measurement and a generation that is not a rollback.
  So a good image is never refused.\<close>

theorem bootloader_accepts_iff:
  assumes "boot_buffers p img" "length m = 32"
  shows "(\<exists>w'. xnuxx_bootloader_start (Some p) (Some img) policy m g w = Some (XNUXX_BOOT_OK, w')) \<longleftrightarrow>
    write_console p \<noteq> None \<and> boot_image_ok img \<and> boot_caps_ok (capabilities p) img policy \<and>
    bit policy 0 \<and> bit policy 1 \<and> bit policy 2 \<and> boot_all_pass p img m g (boot_banner p w)"
proof (cases "write_console p \<noteq> None \<and> boot_image_ok img")
  case True
  then have "boot_args_ok p img"
    by (auto simp: boot_args_ok_def boot_image_ok_def)
  then have "(\<exists>w'. xnuxx_bootloader_start (Some p) (Some img) policy m g w = Some (XNUXX_BOOT_OK, w')) =
      (\<exists>w'. bootloader_verify p img policy m g (boot_banner p w) = Some (XNUXX_BOOT_OK, w'))"
    using True by (simp add: start_eq)
  also have "\<dots> \<longleftrightarrow> boot_caps_ok (capabilities p) img policy \<and>
    bit policy 0 \<and> bit policy 1 \<and> bit policy 2 \<and> boot_all_pass p img m g (boot_banner p w)"
    using measure_accepts [OF assms(1) _ assms(2)] True
    by (simp add: verify_accepts handoff_accepts boot_all_pass_def) blast
  finally show ?thesis
    using True by simp
qed (auto simp: start_eq boot_args_ok_def boot_reject_def)

theorem bootloader_accepts_iff_witness:
  "(\<exists>w'. xnuxx_bootloader_start (Some sample_platform) (Some (sample_image\<lparr>generation := 3\<rparr>)) 7
      (replicate 32 0) 0 () = Some (XNUXX_BOOT_OK, w')) \<and>
   boot_all_pass sample_platform (sample_image\<lparr>generation := 3\<rparr>) (replicate 32 0) 0
     (boot_banner sample_platform ())"
proof -
  have "xnuxx_bootloader_start (Some sample_platform) (Some (sample_image\<lparr>generation := 3\<rparr>)) 7
      (replicate 32 0) 0 () = Some (XNUXX_BOOT_OK, ())"
    by code_simp
  with bootloader_accepts_iff [OF sample_buffers, of "replicate 32 0" 3 7 0 "()"] show ?thesis
    by auto
qed

end
