(* ===== verification/Boot_Platform.thy ===== *)
theory Boot_Platform
  imports Boot_Sha256 Bootloader_Gates
begin

text \<open>
  The platform the virtual-machine image boots on: \<^verbatim>\<open>src/boot/boot_platform.c\<close> and the C
  entry point \<^verbatim>\<open>src/boot/boot_entry.c\<close>.  The machine state the callbacks work on is the
  byte-addressed memory, with the VGA text buffer at 0xB8000, and the console cursor.
\<close>

section \<open>Callbacks\<close>

record vm_machine =
  vm_mem :: "u32 \<Rightarrow> u8"
  console_cursor :: u32

fun console_write_loop :: "u8 list \<Rightarrow> vm_machine \<Rightarrow> vm_machine" where
  "console_write_loop [] s = s"
| "console_write_loop (c # cs) s =
     (if c = 10 then
        console_write_loop cs
          (s\<lparr>console_cursor := console_cursor s + (80 - console_cursor s mod 80)\<rparr>)
      else if console_cursor s \<ge> 80 * 25 then s
      else
        let k = console_cursor s;
            mem = (vm_mem s)(0xB8000 + k * 2 := c, 0xB8000 + (k * 2 + 1) := 0x1F)
        in console_write_loop cs (s\<lparr>vm_mem := mem, console_cursor := k + 1\<rparr>))"

definition console_write :: "u8 list \<Rightarrow> nat \<Rightarrow> vm_machine \<Rightarrow> vm_machine" where
  "console_write text len s = console_write_loop (take len text) s"

definition vm_verify_signature :: "u32 \<Rightarrow> u32 \<Rightarrow> u32 \<Rightarrow> u32 \<Rightarrow> vm_machine \<Rightarrow> int \<times> vm_machine" where
  "vm_verify_signature addr n sig k s = (0, s)"

definition vm_measure_sha256 :: "u32 \<Rightarrow> u32 \<Rightarrow> u8 list \<Rightarrow> vm_machine \<Rightarrow> int \<times> u8 list \<times> vm_machine" where
  "vm_measure_sha256 addr n measurement s =
     (case Boot_Sha256.measure_sha256 (vm_mem s) addr n (Some measurement) of
        (rc, m) \<Rightarrow> (rc, the m, s))"

definition read_generation :: "u64 \<Rightarrow> vm_machine \<Rightarrow> int \<times> u64 \<times> vm_machine" where
  "read_generation g s = (0, 0, s)"

definition vm_load_kernel :: "u32 \<Rightarrow> u32 \<Rightarrow> vm_machine \<Rightarrow> int \<times> vm_machine" where
  "vm_load_kernel addr n s = (0, s)"

definition vm_enter_recovery :: "xnuxx_boot_result \<Rightarrow> vm_machine \<Rightarrow> int \<times> vm_machine" where
  "vm_enter_recovery result s = (- 1, s)"

section \<open>Start\<close>

text \<open>The static image and platform of \<open>boot_platform_start\<close>; \<open>signature_bytes\<close> is the address the
  linker gives the two-byte static array.\<close>

definition vm_image :: "u32 \<Rightarrow> xnuxx_boot_image" where
  "vm_image signature_bytes =
     \<lparr> magic = XNUXX_BOOTLOADER_MAGIC,
       version = XNUXX_BOOTLOADER_API_VERSION,
       header_size = ucast sizeof_xnuxx_boot_image,
       generation = 0,
       required_capabilities =
         (XNUXX_BOOT_CAP_KERNEL_PROVIDER OR XNUXX_BOOT_CAP_SECURITY_LAYER) OR XNUXX_BOOT_CAP_DEVICE_LAYER,
       payload = 0x100000,
       payload_size = 4096,
       signature = signature_bytes,
       signature_size = 2,
       expected_measurement = Some (replicate 32 0) \<rparr>"

definition vm_platform :: "vm_machine xnuxx_boot_platform" where
  "vm_platform =
     \<lparr> capabilities =
         (((XNUXX_BOOT_CAP_KERNEL_PROVIDER OR XNUXX_BOOT_CAP_SECURITY_LAYER) OR
           XNUXX_BOOT_CAP_UPDATE_LAYER) OR XNUXX_BOOT_CAP_DEVICE_LAYER) OR XNUXX_BOOT_CAP_RECOVERY,
       ansi_console = 0,
       verify_signature = Some vm_verify_signature,
       measure_sha256 = Some vm_measure_sha256,
       read_minimum_generation = Some read_generation,
       load_kernel = Some vm_load_kernel,
       enter_recovery = Some vm_enter_recovery,
       write_console = Some console_write \<rparr>"

definition vm_policy :: u32 where
  "vm_policy =
     ((XNUXX_BOOT_REQUIRE_SIGNATURE OR XNUXX_BOOT_REQUIRE_MEASUREMENT) OR
      XNUXX_BOOT_REQUIRE_ROLLBACK_PROTECTION) OR XNUXX_BOOT_REQUIRE_LAYER_CAPABILITIES"

definition boot_platform_start :: "u32 \<Rightarrow> u8 list \<Rightarrow> u64 \<Rightarrow> vm_machine \<Rightarrow> vm_machine option" where
  "boot_platform_start signature_bytes actual_measurement minimum_generation s =
     map_option snd (xnuxx_bootloader_start (Some vm_platform) (Some (vm_image signature_bytes))
       vm_policy actual_measurement minimum_generation s)"

text \<open>\<open>boot_entry\<close> either halts for ever or, with interrupts off, transfers control to
  \<open>kernel_main\<close>.\<close>

datatype boot_next = HaltLoop | EnterKernel u32

definition MULTIBOOT2_BOOTLOADER_MAGIC :: u32 where
  "MULTIBOOT2_BOOTLOADER_MAGIC = 0x36D76289"

definition boot_entry ::
  "u32 \<Rightarrow> u8 list \<Rightarrow> u64 \<Rightarrow> u32 \<Rightarrow> u32 \<Rightarrow> vm_machine \<Rightarrow> (boot_next \<times> vm_machine) option" where
  "boot_entry signature_bytes actual_measurement minimum_generation mbmagic multiboot_info s =
     (if mbmagic \<noteq> MULTIBOOT2_BOOTLOADER_MAGIC then Some (HaltLoop, s)
      else do {
        s \<leftarrow> boot_platform_start signature_bytes actual_measurement minimum_generation s;
        Some (EnterKernel multiboot_info, s)
      })"

section \<open>The console stays inside the text buffer\<close>

lemma vga_address:
  assumes "k < (2000 :: u32)" "j < 2"
  shows "0xB8000 \<le> 0xB8000 + (k * 2 + j) \<and> 0xB8000 + (k * 2 + j) < 0xB8000 + 4000"
proof -
  have k: "unat k < 2000" and j: "unat j < 2"
    using assms by (simp_all add: word_less_nat_alt)
  have "unat (k * 2 + j) = unat k * 2 + unat j"
    using k j by (simp add: unat_word_ariths)
  moreover from this k j have "unat (0xB8000 + (k * 2 + j)) = 0xB8000 + (unat k * 2 + unat j)"
    by (simp add: unat_word_ariths)
  ultimately show ?thesis
    using k j by (simp add: word_less_nat_alt word_le_nat_alt)
qed

lemma console_write_loop_frame:
  "\<not> (0xB8000 \<le> a \<and> a < 0xB8000 + 4000) \<Longrightarrow> vm_mem (console_write_loop cs s) a = vm_mem s a"
proof (induction cs s rule: console_write_loop.induct)
  case (2 c cs s)
  then show ?case
    using vga_address [of "console_cursor s" 0] vga_address [of "console_cursor s" 1]
    by (auto simp: Let_def not_le)
qed simp

lemma length_fips_sha256 [simp]: "length (fips_sha256 m) = 32"
proof -
  have "length (sha256_tail (\<lambda>i. m ! i) (length m)
      (fold (\<lambda>block. sha256_block (\<lambda>i. m ! i) (block * 64)) [0..<length m div 64] sha256_h0)) = 8"
    by (rule sha256_all_blocks(2))
  then have "length (foldl (\<lambda>H i. fips_block H (take 64 (drop (64 * i) (fips_pad m)))) sha256_h0
      [0..<length (fips_pad m) div 64]) = 8"
    unfolding sha256_all_blocks(1) by (simp add: sha256_msg_def map_nth)
  then show ?thesis
    by (simp add: fips_sha256_def Let_def length_concat comp_def sum_list_triv)
qed

lemma vm_buffers: "boot_buffers vm_platform (vm_image a)"
  by (auto simp: boot_buffers_def vm_platform_def vm_image_def vm_measure_sha256_def
      measure_sha256_spec)

section \<open>What the shipped configuration does\<close>

definition vm_payload :: "vm_machine \<Rightarrow> u8 list" where
  "vm_payload s = map (\<lambda>i. vm_mem s (0x100000 + of_nat i)) [0..<4096]"

lemma vm_payload_address:
  assumes "i < 4096"
  shows "\<not> (0xB8000 \<le> (0x100000 + of_nat i :: u32) \<and> (0x100000 + of_nat i :: u32) < 0xB8000 + 4000)"
  using assms by (simp add: word_less_nat_alt word_le_nat_alt unat_word_ariths unat_of_nat)

lemma vm_payload_console [simp]: "vm_payload (console_write text n s) = vm_payload s"
  by (simp add: vm_payload_def console_write_def console_write_loop_frame [OF vm_payload_address])

lemma vm_image_ok: "a \<noteq> 0 \<Longrightarrow> boot_image_ok (vm_image a) \<and> boot_args_ok vm_platform (vm_image a)"
  by (simp add: boot_image_ok_def boot_args_ok_def vm_image_def vm_platform_def
      XNUXX_BOOTLOADER_MAGIC_def XNUXX_BOOTLOADER_API_VERSION_def sizeof_xnuxx_boot_image_def)

lemma vm_policy_bits: "bit vm_policy 0" "bit vm_policy 1" "bit vm_policy 2" "bit vm_policy 4"
  by code_simp+

lemma vm_caps: "required_capabilities (vm_image a) AND NOT (capabilities vm_platform) = 0"
  by (simp add: vm_image_def vm_platform_def XNUXX_BOOT_CAP_KERNEL_PROVIDER_def
      XNUXX_BOOT_CAP_SECURITY_LAYER_def XNUXX_BOOT_CAP_DEVICE_LAYER_def
      XNUXX_BOOT_CAP_UPDATE_LAYER_def XNUXX_BOOT_CAP_RECOVERY_def)

lemma vm_banner: "vm_payload (boot_banner vm_platform s) = vm_payload s"
  by (simp add: boot_banner_def vm_platform_def)

lemma vm_sha_payload:
  "vm_measure_sha256 0x100000 4096 m s = (0, fips_sha256 (vm_payload s), s)"
  by (simp add: vm_measure_sha256_def measure_sha256_spec vm_payload_def)

lemma vm_sel:
  "ansi_console vm_platform = 0" "verify_signature vm_platform = Some vm_verify_signature"
  "Bootloader.measure_sha256 vm_platform = Some vm_measure_sha256"
  "read_minimum_generation vm_platform = Some read_generation"
  "load_kernel vm_platform = Some vm_load_kernel" "write_console vm_platform = Some console_write"
  "payload (vm_image a) = 0x100000" "payload_size (vm_image a) = 4096" "generation (vm_image a) = 0"
  "expected_measurement (vm_image a) = Some (replicate 32 0)"
  by (simp_all add: vm_platform_def vm_image_def)

lemma vm_measure:
  "bootloader_measure vm_platform (vm_image a) vm_policy m g s =
    (if fips_sha256 (vm_payload s) = replicate 32 0
     then bootloader_handoff vm_platform (vm_image a) vm_policy g s
     else boot_reject vm_platform XNUXX_BOOT_MEASUREMENT_REJECTED s)"
  unfolding bootloader_measure_def vm_sel vm_sha_payload option.case prod.case option.sel
    measurement_check [OF length_fips_sha256 length_replicate]
  by (simp only: boot_policy_bits vm_policy_bits not_True_eq_False if_False simp_thms)

lemma vm_handoff:
  "map_option fst (bootloader_handoff vm_platform (vm_image a) vm_policy g s) = Some XNUXX_BOOT_OK"
  by (simp add: bootloader_handoff_def vm_policy_bits vm_sel read_generation_def
      vm_load_kernel_def boot_log_def)

lemma vm_verify:
  "map_option fst (bootloader_verify vm_platform (vm_image a) vm_policy m g s) =
    Some (if fips_sha256 (vm_payload s) = replicate 32 0 then XNUXX_BOOT_OK
          else XNUXX_BOOT_MEASUREMENT_REJECTED)"
  unfolding bootloader_verify_def vm_caps vm_sel vm_verify_signature_def vm_measure
  using vm_handoff by (auto simp: vm_policy_bits boot_reject_def)

lemma vm_start:
  "a \<noteq> 0 \<Longrightarrow>
    map_option fst (xnuxx_bootloader_start (Some vm_platform) (Some (vm_image a)) vm_policy m g s) =
    Some (if fips_sha256 (vm_payload s) = replicate 32 0 then XNUXX_BOOT_OK
          else XNUXX_BOOT_MEASUREMENT_REJECTED)"
  using vm_image_ok by (simp add: start_eq vm_verify vm_banner)

text \<open>C30. On the shipped configuration the secure-boot decision is the measurement alone, and the
  entry point does not act on it.  The signature, generation and load callbacks are stubs that
  always succeed, so the bootloader accepts if the SHA-256 digest of the 4096 payload bytes is the
  all-zero placeholder and reports a measurement rejection otherwise; and with the right multiboot
  magic \<open>boot_entry\<close> transfers control to the kernel in both cases, although the bootloader requires
  its caller to halt or recover after a rejection.  With any other magic the machine halts.\<close>

theorem boot_entry_ignores_rejection:
  assumes "signature_bytes \<noteq> 0"
  shows "\<exists>r s'.
    xnuxx_bootloader_start (Some vm_platform) (Some (vm_image signature_bytes)) vm_policy m g s = Some (r, s') \<and>
    r = (if fips_sha256 (vm_payload s) = replicate 32 0 then XNUXX_BOOT_OK
         else XNUXX_BOOT_MEASUREMENT_REJECTED) \<and>
    boot_entry signature_bytes m g mbmagic info s =
      (if mbmagic = MULTIBOOT2_BOOTLOADER_MAGIC then Some (EnterKernel info, s') else Some (HaltLoop, s))"
proof -
  obtain r s' where "xnuxx_bootloader_start (Some vm_platform) (Some (vm_image signature_bytes)) vm_policy m g s
      = Some (r, s')"
    using vm_start [OF assms, of m g s] by (auto split: if_splits)
  with vm_start [OF assms, of m g s] show ?thesis
    by (simp add: boot_entry_def boot_platform_start_def)
qed

theorem boot_entry_ignores_rejection_witness:
  "(0x2000 :: u32) \<noteq> 0 \<and> (\<exists>r s'. r \<in> {XNUXX_BOOT_OK, XNUXX_BOOT_MEASUREMENT_REJECTED} \<and>
     xnuxx_bootloader_start (Some vm_platform) (Some (vm_image 0x2000)) vm_policy (replicate 32 0) 0
        \<lparr>vm_mem = (\<lambda>a. 0), console_cursor = 0\<rparr> = Some (r, s') \<and>
     boot_entry 0x2000 (replicate 32 0) 0 0x36D76289 0x9000 \<lparr>vm_mem = (\<lambda>a. 0), console_cursor = 0\<rparr> =
        Some (EnterKernel 0x9000, s'))"
  using boot_entry_ignores_rejection [where signature_bytes = "0x2000" and m = "replicate 32 0" and g = 0
      and s = "\<lparr>vm_mem = (\<lambda>a. 0), console_cursor = 0\<rparr>" and mbmagic = "0x36D76289" and info = "0x9000"]
  unfolding MULTIBOOT2_BOOTLOADER_MAGIC_def by auto

lemma console_write_frame:
  "\<not> (0xB8000 \<le> a \<and> a < 0xB8000 + 4000) \<Longrightarrow> vm_mem (console_write t n s) a = vm_mem s a"
  by (simp add: console_write_def console_write_loop_frame)



end
