(* ===== verification/Boot_Sha256_Vectors.thy ===== *)
theory Boot_Sha256_Vectors
  imports Boot_Sha256
begin

text \<open>
  Checks of the SHA-256 tables of \<^verbatim>\<open>src/boot/boot_platform.c\<close> against their derivation in
  FIPS 180-4, and the standard's one-block test vector, both evaluated inside the logic.
\<close>

text \<open>The first sixty-four primes and the cube-root and square-root reading of the constants.\<close>

definition first_primes :: "int list" where
  "first_primes =
     filter (\<lambda>p. list_all (\<lambda>d. d < p \<longrightarrow> p mod d \<noteq> 0) [2, 3, 5, 7, 11, 13, 17]) [2..311]"

definition root_fraction :: "nat \<Rightarrow> int \<Rightarrow> u32 \<Rightarrow> bool" where
  "root_fraction n p k \<longleftrightarrow>
     list_ex (\<lambda>c. (c * 2 ^ 32 + uint k) ^ n \<le> p * 2 ^ (32 * n) \<and>
                  p * 2 ^ (32 * n) < (c * 2 ^ 32 + uint k + 1) ^ n) [1..17]"

text \<open>The round constants and the initial hash value in the source are the ones the standard
  derives: the first thirty-two fractional bits of the cube roots of the first sixty-four primes,
  and of the square roots of the first eight.\<close>

theorem sha256_constants:
  "list_all2 (root_fraction 3) first_primes sha256_k \<and>
   list_all2 (root_fraction 2) (take 8 first_primes) sha256_h0"
  by code_simp

text \<open>The digest the boot code computes for the three bytes \<open>abc\<close> is the one FIPS 180-4
  publishes as its test vector.\<close>

lemma measure_sha256_abc:
  "snd (measure_sha256 (\<lambda>a. if a = 0x100000 then 0x61 else if a = 0x100001 then 0x62 else 0x63)
     0x100000 3 (Some (replicate 32 0))) =
   Some [0xba, 0x78, 0x16, 0xbf, 0x8f, 0x01, 0xcf, 0xea, 0x41, 0x41, 0x40, 0xde, 0x5d, 0xae,
         0x22, 0x23, 0xb0, 0x03, 0x61, 0xa3, 0x96, 0x17, 0x7a, 0x9c, 0xb4, 0x10, 0xff, 0x61,
         0xf2, 0x00, 0x15, 0xad]"
  by code_simp

end
