(* ===== verification/Vga_Console.thy ===== *)
theory Vga_Console
  imports Xnu_Prelude
begin

text \<open>
  The VGA text console of the native kernel (\<^verbatim>\<open>src/kernel/kernel.c\<close>, first part; the 64-bit
  kernel has the same text).  The video memory is the list of its 2000 cells and every store
  checks its index: a store outside of the buffer is the result \<open>None\<close>.  The console invariant
  bounds the cursor, every operation preserves it and never stores out of bounds, and scrolling
  refines the row view of the screen.
\<close>

section \<open>State\<close>

definition VGA_WIDTH :: nat where
  "VGA_WIDTH = 80"

definition VGA_HEIGHT :: nat where
  "VGA_HEIGHT = 25"

record terminal =
  vga :: "u16 list"
  cursor_x :: nat
  cursor_y :: nat
  terminal_color :: u8

definition vga_entry :: "u8 \<Rightarrow> u8 \<Rightarrow> u16" where
  "vga_entry c color = ucast c OR push_bit 8 (ucast color)"

text \<open>The assignment \<open>vga[i] = v\<close> and the read \<open>vga[i]\<close>.\<close>

definition vga_store :: "nat \<Rightarrow> u16 \<Rightarrow> terminal \<Rightarrow> terminal option" where
  "vga_store i v t = (if i < length (vga t) then Some (t\<lparr>vga := (vga t)[i := v]\<rparr>) else None)"

definition vga_load :: "nat \<Rightarrow> terminal \<Rightarrow> u16 option" where
  "vga_load i t = (if i < length (vga t) then Some (vga t ! i) else None)"

definition vga_blank :: "terminal \<Rightarrow> u16" where
  "vga_blank t = vga_entry 32 (terminal_color t)"

section \<open>Operations\<close>

definition terminal_clear :: "terminal \<Rightarrow> terminal option" where
  "terminal_clear t = do {
     t \<leftarrow> for_each (\<lambda>y. for_each (\<lambda>x t. vga_store (y * VGA_WIDTH + x) (vga_blank t) t) [0..<VGA_WIDTH])
            [0..<VGA_HEIGHT] t;
     Some (t\<lparr>cursor_x := 0, cursor_y := 0\<rparr>)
   }"

definition terminal_scroll :: "terminal \<Rightarrow> terminal option" where
  "terminal_scroll t =
     (if cursor_y t < VGA_HEIGHT then Some t
      else do {
        t \<leftarrow> for_each (\<lambda>y. for_each (\<lambda>x t. do {
                 v \<leftarrow> vga_load (y * VGA_WIDTH + x) t;
                 vga_store ((y - 1) * VGA_WIDTH + x) v t
               }) [0..<VGA_WIDTH]) [1..<VGA_HEIGHT] t;
        t \<leftarrow> for_each (\<lambda>x t. vga_store ((VGA_HEIGHT - 1) * VGA_WIDTH + x) (vga_blank t) t)
               [0..<VGA_WIDTH] t;
        Some (t\<lparr>cursor_y := VGA_HEIGHT - 1\<rparr>)
      })"

definition terminal_putchar :: "u8 \<Rightarrow> terminal \<Rightarrow> terminal option" where
  "terminal_putchar c t =
     (if c = 10 then terminal_scroll (t\<lparr>cursor_x := 0, cursor_y := cursor_y t + 1\<rparr>)
      else if c = 13 then Some (t\<lparr>cursor_x := 0\<rparr>)
      else if c = 8 then
        (if cursor_x t > 0 then
           let t = t\<lparr>cursor_x := cursor_x t - 1\<rparr>
           in vga_store (cursor_y t * VGA_WIDTH + cursor_x t) (vga_blank t) t
         else Some t)
      else do {
        t \<leftarrow> vga_store (cursor_y t * VGA_WIDTH + cursor_x t) (vga_entry c (terminal_color t)) t;
        let t = t\<lparr>cursor_x := cursor_x t + 1\<rparr>;
            t = (if cursor_x t \<ge> VGA_WIDTH then t\<lparr>cursor_x := 0, cursor_y := cursor_y t + 1\<rparr> else t)
        in terminal_scroll t
      })"

text \<open>\<open>terminal_write\<close> takes a possibly null C string; a string without terminator reads past its
  end.\<close>

fun terminal_write_loop :: "u8 list \<Rightarrow> terminal \<Rightarrow> terminal option" where
  "terminal_write_loop [] t = None"
| "terminal_write_loop (c # cs) t =
     (if c = 0 then Some t else do { t \<leftarrow> terminal_putchar c t; terminal_write_loop cs t })"

definition terminal_write :: "u8 list option \<Rightarrow> terminal \<Rightarrow> terminal option" where
  "terminal_write text t = (case text of None \<Rightarrow> Some t | Some s \<Rightarrow> terminal_write_loop s t)"

definition hex_digits :: "u8 list" where
  "hex_digits = cstr ''0123456789ABCDEF''"

definition terminal_hex :: "u32 \<Rightarrow> terminal \<Rightarrow> terminal option" where
  "terminal_hex value t = do {
     t \<leftarrow> terminal_write (Some (cstr ''0x'')) t;
     for_each (\<lambda>i. terminal_putchar (hex_digits ! unat (drop_bit (i * 4) value AND 0xF)))
       (rev [0..<8]) t
   }"

text \<open>The digit loop of \<open>terminal_uint\<close> fills a buffer of ten characters from its low end;
  \<open>buffer\<close> holds the characters written so far, the last one first.\<close>

function terminal_uint_digits :: "u32 \<Rightarrow> u8 list \<Rightarrow> u8 list" where
  "terminal_uint_digits value buffer =
     (if value \<noteq> 0 \<and> length buffer < 10
      then terminal_uint_digits (value div 10) (ucast (0x30 + value mod 10) # buffer)
      else buffer)"
  by pat_completeness auto
termination
  by (relation "measure (\<lambda>(v, b). 10 - length b)") auto

definition terminal_uint :: "u32 \<Rightarrow> terminal \<Rightarrow> terminal option" where
  "terminal_uint value t =
     (if value = 0 then terminal_putchar 0x30 t
      else for_each terminal_putchar (terminal_uint_digits value []) t)"

section \<open>Loops over rows\<close>

lemma take_Suc_update:
  "i < length v \<Longrightarrow> take (Suc i) (v[i := x]) = take i v @ [x]"
  by (simp add: take_Suc_conv_app_nth)

lemma store_row:
  assumes "b + n \<le> length (vga t)"
  shows "for_each (\<lambda>x t. vga_store (b + x) (vga_blank t) t) [0..<n] t =
    Some (t\<lparr>vga := take b (vga t) @ replicate n (vga_blank t) @ drop (b + n) (vga t)\<rparr>)"
proof -
  define P where "P k s \<longleftrightarrow> s = t\<lparr>vga := take b (vga t) @ replicate k (vga_blank t) @ drop (b + k) (vga t)\<rparr>" for k s
  have "\<exists>s'. for_each (\<lambda>x t. vga_store (b + x) (vga_blank t) t) [0..<n] t = Some s' \<and> P n s'"
  proof (rule for_each_upt_invariant)
    show "P 0 t" by (simp add: P_def)
    fix i s assume i: "i < n" and P: "P i s"
    have "drop (b + i) (vga t) = vga t ! (b + i) # drop (Suc (b + i)) (vga t)"
      using i assms by (simp add: Cons_nth_drop_Suc)
    then show "\<exists>s'. vga_store (b + i) (vga_blank s) s = Some s' \<and> P (Suc i) s'"
      using i assms P unfolding P_def
      by (simp add: vga_store_def vga_blank_def list_update_append replicate_append_same)
  qed
  then show ?thesis by (auto simp: P_def)
qed

lemma copy_row:
  assumes "b + n \<le> a" "a + n \<le> length (vga t)"
  shows "for_each (\<lambda>x t. do { v \<leftarrow> vga_load (a + x) t; vga_store (b + x) v t }) [0..<n] t =
    Some (t\<lparr>vga := take b (vga t) @ take n (drop a (vga t)) @ drop (b + n) (vga t)\<rparr>)"
proof -
  define P where "P k s \<longleftrightarrow> s = t\<lparr>vga := take b (vga t) @ take k (drop a (vga t)) @ drop (b + k) (vga t)\<rparr>" for k s
  have "\<exists>s'. for_each (\<lambda>x t. do { v \<leftarrow> vga_load (a + x) t; vga_store (b + x) v t }) [0..<n] t = Some s' \<and> P n s'"
  proof (rule for_each_upt_invariant)
    show "P 0 t" by (simp add: P_def)
    fix i s assume i: "i < n" and P: "P i s"
    have "drop (b + i) (vga t) = vga t ! (b + i) # drop (Suc (b + i)) (vga t)"
      "take (Suc i) (drop a (vga t)) = take i (drop a (vga t)) @ [vga t ! (a + i)]"
      using i assms by (simp_all add: Cons_nth_drop_Suc take_Suc_conv_app_nth)
    then show "\<exists>s'. (do { v \<leftarrow> vga_load (a + i) s; vga_store (b + i) v s }) = Some s' \<and> P (Suc i) s'"
      using i assms P unfolding P_def
      by (simp add: vga_store_def vga_load_def list_update_append nth_append) (auto simp: add.commute)
  qed
  then show ?thesis by (auto simp: P_def)
qed

section \<open>The row view of the screen\<close>

definition console_inv :: "terminal \<Rightarrow> bool" where
  "console_inv t \<longleftrightarrow> length (vga t) = VGA_WIDTH * VGA_HEIGHT \<and> cursor_x t < VGA_WIDTH \<and> cursor_y t < VGA_HEIGHT"

definition rows :: "terminal \<Rightarrow> u16 list list" where
  "rows t = map (\<lambda>y. take VGA_WIDTH (drop (y * VGA_WIDTH) (vga t))) [0..<VGA_HEIGHT]"

lemma scroll_up:
  assumes "length (vga t) = 2000"
  shows "for_each (\<lambda>y. for_each (\<lambda>x t. do {
             v \<leftarrow> vga_load (y * VGA_WIDTH + x) t;
             vga_store ((y - 1) * VGA_WIDTH + x) v t
           }) [0..<VGA_WIDTH]) [1..<VGA_HEIGHT] t =
     Some (t\<lparr>vga := drop 80 (vga t) @ drop 1920 (vga t)\<rparr>)"
proof -
  let ?f = "\<lambda>y. for_each (\<lambda>x t. do {
             v \<leftarrow> vga_load (y * VGA_WIDTH + x) t; vga_store ((y - 1) * VGA_WIDTH + x) v t }) [0..<VGA_WIDTH]"
  define P where "P k s \<longleftrightarrow> s = t\<lparr>vga := take (k * 80) (drop 80 (vga t)) @ drop (k * 80) (vga t)\<rparr>" for k s
  have "\<exists>s'. for_each (\<lambda>y. ?f (Suc y)) [0..<24] t = Some s' \<and> P 24 s'"
  proof (rule for_each_upt_invariant)
    show "P 0 t" by (simp add: P_def)
    fix i s assume i: "i < 24" and P: "P i s"
    then have "?f (Suc i) s = Some (s\<lparr>vga := take (i * 80) (vga s) @ take 80 (drop (Suc i * 80) (vga s)) @
        drop (i * 80 + 80) (vga s)\<rparr>)"
      using assms copy_row [of "i * 80" 80 "Suc i * 80" s] by (simp add: VGA_WIDTH_def P_def)
    moreover have "take (Suc i * 80) (drop 80 (vga t)) =
        take (i * 80) (drop 80 (vga t)) @ take 80 (drop (Suc i * 80) (vga t))"
      using i assms take_add [of "i * 80" 80 "drop 80 (vga t)"] by (simp add: add.commute)
    ultimately show "\<exists>s'. ?f (Suc i) s = Some s' \<and> P (Suc i) s'"
      using i assms P unfolding P_def by (simp add: min_def add.commute)
  qed
  moreover have "for_each ?f [1..<VGA_HEIGHT] s = for_each (\<lambda>y. ?f (Suc y)) [0..<24] s" for s
    using for_each_map [of ?f Suc "[0..<24]" s] by (simp add: VGA_HEIGHT_def map_Suc_upt)
  ultimately show ?thesis using assms by (auto simp: P_def)
qed

lemma scroll_eq:
  assumes "length (vga t) = 2000" "\<not> cursor_y t < VGA_HEIGHT"
  shows "terminal_scroll t =
    Some (t\<lparr>vga := drop 80 (vga t) @ replicate 80 (vga_blank t), cursor_y := 24\<rparr>)"
proof -
  let ?t = "t\<lparr>vga := drop 80 (vga t) @ drop 1920 (vga t)\<rparr>"
  have "for_each (\<lambda>x t. vga_store ((VGA_HEIGHT - 1) * VGA_WIDTH + x) (vga_blank t) t) [0..<VGA_WIDTH] ?t =
      Some (?t\<lparr>vga := drop 80 (vga t) @ replicate 80 (vga_blank t)\<rparr>)"
    using assms(1) store_row [of 1920 80 ?t] by (simp add: VGA_HEIGHT_def VGA_WIDTH_def vga_blank_def)
  then show ?thesis
    using assms scroll_up [OF assms(1)] by (simp add: terminal_scroll_def VGA_HEIGHT_def)
qed

lemma rows_nth: "y < 25 \<Longrightarrow> rows t ! y = take 80 (drop (y * 80) (vga t))"
  by (simp add: rows_def VGA_HEIGHT_def VGA_WIDTH_def)

lemma length_rows [simp]: "length (rows t) = 25"
  by (simp add: rows_def VGA_HEIGHT_def)

lemma rows_scroll:
  assumes "length (vga t) = 2000"
  shows "rows (t\<lparr>vga := drop 80 (vga t) @ replicate 80 b, cursor_y := c\<rparr>) = tl (rows t) @ [replicate 80 b]"
proof (rule nth_equalityI)
  fix y assume "y < length (rows (t\<lparr>vga := drop 80 (vga t) @ replicate 80 b, cursor_y := c\<rparr>))"
  then have y: "y < 25" by simp
  show "rows (t\<lparr>vga := drop 80 (vga t) @ replicate 80 b, cursor_y := c\<rparr>) ! y =
      (tl (rows t) @ [replicate 80 b]) ! y"
  proof (cases "y < 24")
    case True
    then show ?thesis
      using assms y by (simp add: rows_nth nth_append nth_tl add.commute)
  next
    case False
    with y have "y = 24" by simp
    then show ?thesis using assms by (simp add: rows_nth nth_append)
  qed
qed simp

lemma rows_store:
  assumes "y < 25" "x < 80" "length (vga t) = 2000"
  shows "rows (t\<lparr>vga := (vga t)[y * 80 + x := v]\<rparr>) = (rows t)[y := (rows t ! y)[x := v]]"
proof (rule nth_equalityI)
  fix j assume "j < length (rows (t\<lparr>vga := (vga t)[y * 80 + x := v]\<rparr>))"
  then have j: "j < 25" by simp
  consider "j < y" | "j = y" | "y < j" by linarith
  then show "rows (t\<lparr>vga := (vga t)[y * 80 + x := v]\<rparr>) ! j = (rows t)[y := (rows t ! y)[x := v]] ! j"
  proof cases
    case 1
    then have "j * 80 + 80 \<le> y * 80 + x" by linarith
    with 1 j show ?thesis by (simp add: rows_nth drop_update_swap take_update_cancel)
  next
    case 2
    then show ?thesis using j by (simp add: rows_nth drop_update_swap take_update_swap)
  next
    case 3
    then have "y * 80 + x < j * 80" using assms by linarith
    with 3 j show ?thesis by (simp add: rows_nth drop_update_cancel)
  qed
qed simp

type_synonym screen = "u16 list list \<times> nat \<times> nat"

definition screen_of :: "terminal \<Rightarrow> screen" where
  "screen_of t = (rows t, cursor_x t, cursor_y t)"

fun screen_newline :: "u8 \<Rightarrow> screen \<Rightarrow> screen" where
  "screen_newline color (R, x, y) =
     (if y = 24 then (tl R @ [replicate 80 (vga_entry 32 color)], 0, 24) else (R, 0, y + 1))"

fun screen_put :: "u8 \<Rightarrow> u8 \<Rightarrow> screen \<Rightarrow> screen" where
  "screen_put color c (R, x, y) =
     (if c = 10 then screen_newline color (R, x, y)
      else if c = 13 then (R, 0, y)
      else if c = 8 then
        (if x = 0 then (R, x, y) else (R[y := (R ! y)[x - 1 := vga_entry 32 color]], x - 1, y))
      else
        let R = R[y := (R ! y)[x := vga_entry c color]]
        in if x = 79 then screen_newline color (R, x, y) else (R, x + 1, y))"

lemma console_invD:
  assumes "console_inv t"
  shows "length (vga t) = 2000" "cursor_x t < 80" "cursor_y t < 25" "cursor_y t * 80 + cursor_x t < 2000"
  using assms by (auto simp: console_inv_def VGA_WIDTH_def VGA_HEIGHT_def)

lemma scroll_screen:
  assumes "length (vga t) = 2000" "cursor_x t < 80" "cursor_y t \<le> 25"
  shows "\<exists>t'. terminal_scroll t = Some t' \<and> console_inv t' \<and> terminal_color t' = terminal_color t \<and>
    screen_of t' = (if cursor_y t = 25
      then (tl (rows t) @ [replicate 80 (vga_entry 32 (terminal_color t))], cursor_x t, 24) else screen_of t)"
proof (cases "cursor_y t = 25")
  case True
  then show ?thesis
    using assms scroll_eq [of t] rows_scroll [where t = t and b = "vga_blank t" and c = 24]
    by (auto simp: console_inv_def VGA_WIDTH_def VGA_HEIGHT_def screen_of_def vga_blank_def)
next
  case False
  then show ?thesis
    using assms by (auto simp: terminal_scroll_def console_inv_def VGA_WIDTH_def VGA_HEIGHT_def)
qed

lemma rows_cursor [simp]:
  "rows (t\<lparr>cursor_x := x\<rparr>) = rows t" "rows (t\<lparr>cursor_y := y\<rparr>) = rows t"
  by (simp_all add: rows_def)

lemma rows_vga_cursor [simp]:
  "rows (t\<lparr>cursor_x := x, vga := v\<rparr>) = rows (t\<lparr>vga := v\<rparr>)"
  "rows (t\<lparr>vga := v, cursor_x := x\<rparr>) = rows (t\<lparr>vga := v\<rparr>)"
  "rows (t\<lparr>vga := v, cursor_x := x, cursor_y := y\<rparr>) = rows (t\<lparr>vga := v\<rparr>)"
  by (simp_all add: rows_def)

lemma putchar_newline:
  assumes "console_inv t"
  shows "\<exists>t'. terminal_scroll (t\<lparr>cursor_x := 0, cursor_y := cursor_y t + 1\<rparr>) = Some t' \<and> console_inv t' \<and>
    terminal_color t' = terminal_color t \<and> screen_of t' = screen_newline (terminal_color t) (screen_of t)"
  using scroll_screen [of "t\<lparr>cursor_x := 0, cursor_y := cursor_y t + 1\<rparr>"] console_invD [OF assms]
  by (auto simp: screen_of_def split: if_splits)

lemma putchar_graphic:
  assumes "console_inv t" "c \<notin> {8, 10, 13}"
  shows "\<exists>t'. terminal_putchar c t = Some t' \<and> console_inv t' \<and> terminal_color t' = terminal_color t \<and>
    screen_of t' = screen_put (terminal_color t) c (screen_of t)"
proof -
  note inv = console_invD [OF assms(1)]
  let ?t = "t\<lparr>vga := (vga t)[cursor_y t * 80 + cursor_x t := vga_entry c (terminal_color t)]\<rparr>"
  have rows: "rows ?t = (rows t)[cursor_y t := (rows t ! cursor_y t)[cursor_x t := vga_entry c (terminal_color t)]]"
    by (rule rows_store [OF inv(3,2,1)])
  have inv': "console_inv ?t"
    using assms(1) by (simp add: console_inv_def)
  show ?thesis
  proof (cases "cursor_x t = 79")
    case True
    then have "terminal_putchar c t = terminal_scroll (?t\<lparr>cursor_x := 0, cursor_y := cursor_y ?t + 1\<rparr>)"
      using assms inv by (simp add: terminal_putchar_def vga_store_def VGA_WIDTH_def)
    then show ?thesis
      using putchar_newline [OF inv'] True assms(2) rows by (auto simp: screen_of_def split: if_splits)
  next
    case False
    then have "terminal_putchar c t = Some (?t\<lparr>cursor_x := cursor_x t + 1\<rparr>)"
      using assms inv by (simp add: terminal_putchar_def vga_store_def VGA_WIDTH_def terminal_scroll_def
          VGA_HEIGHT_def)
    then show ?thesis
      using False inv assms rows by (simp add: console_inv_def screen_of_def VGA_WIDTH_def)
  qed
qed

lemma putchar_screen:
  assumes "console_inv t"
  shows "\<exists>t'. terminal_putchar c t = Some t' \<and> console_inv t' \<and> terminal_color t' = terminal_color t \<and>
    screen_of t' = screen_put (terminal_color t) c (screen_of t)"
proof -
  note inv = console_invD [OF assms]
  consider "c = 10" | "c = 13" | "c = 8" | "c \<notin> {8, 10, 13}" by auto
  then show ?thesis
  proof cases
    case 1
    then show ?thesis
      using putchar_newline [OF assms] by (simp add: terminal_putchar_def screen_of_def)
  next
    case 2
    then show ?thesis
      using assms by (simp add: terminal_putchar_def screen_of_def console_inv_def VGA_WIDTH_def)
  next
    case 3
    show ?thesis
    proof (cases "cursor_x t = 0")
      case True
      then show ?thesis
        using 3 assms by (simp add: terminal_putchar_def screen_of_def)
    next
      case False
      let ?t = "t\<lparr>cursor_x := cursor_x t - 1,
        vga := (vga t)[cursor_y t * 80 + (cursor_x t - 1) := vga_entry 32 (terminal_color t)]\<rparr>"
      have "terminal_putchar c t = Some ?t"
        using 3 False inv by (simp add: terminal_putchar_def Let_def vga_store_def VGA_WIDTH_def vga_blank_def)
      then show ?thesis
        using 3 False assms inv rows_store [of "cursor_y t" "cursor_x t - 1" t "vga_entry 32 (terminal_color t)"]
        by (auto simp: screen_of_def console_inv_def VGA_WIDTH_def)
    qed
  next
    case 4
    then show ?thesis using putchar_graphic [OF assms] by simp
  qed
qed

section \<open>The console as a character device\<close>

text \<open>What the rest of the kernel relies on: printing a character cannot fail, keeps the device in
  its invariant and draws the character on what the device shows.\<close>

locale char_device =
  fixes put :: "u8 \<Rightarrow> 's \<Rightarrow> 's option"
    and inv :: "'s \<Rightarrow> bool"
    and view :: "'s \<Rightarrow> 'v"
    and draw :: "u8 \<Rightarrow> 'v \<Rightarrow> 'v"
  assumes put_draws: "inv s \<Longrightarrow> \<exists>s'. put c s = Some s' \<and> inv s' \<and> view s' = draw c (view s)"
begin

lemma put_all:
  "inv s \<Longrightarrow> \<exists>s'. for_each put cs s = Some s' \<and> inv s' \<and> view s' = fold draw cs (view s)"
proof (induction cs arbitrary: s)
  case (Cons c cs)
  obtain s1 where "put c s = Some s1" "inv s1" "view s1 = draw c (view s)"
    using put_draws [OF Cons.prems] by blast
  with Cons.IH [of s1] show ?case by simp
qed simp

lemma put_then:
  assumes "inv s"
    and "\<And>s'. inv s' \<Longrightarrow> view s' = fold draw cs (view s) \<Longrightarrow>
      \<exists>s''. k s' = Some s'' \<and> inv s'' \<and> view s'' = fold draw cs' (view s')"
  shows "\<exists>s''. Option.bind (for_each put cs s) k = Some s'' \<and> inv s'' \<and> view s'' = fold draw (cs @ cs') (view s)"
  using put_all [OF assms(1), of cs] assms(2) by fastforce

end

definition terminal_view :: "terminal \<Rightarrow> u8 \<times> screen" where
  "terminal_view t = (terminal_color t, screen_of t)"

fun terminal_draw :: "u8 \<Rightarrow> u8 \<times> screen \<Rightarrow> u8 \<times> screen" where
  "terminal_draw c (color, scr) = (color, screen_put color c scr)"

interpretation console: char_device terminal_putchar console_inv terminal_view terminal_draw
  by unfold_locales (use putchar_screen in \<open>fastforce simp: terminal_view_def\<close>)

lemma write_loop_puts:
  "0 \<notin> set s \<Longrightarrow> terminal_write_loop (s @ 0 # rest) t = for_each terminal_putchar s t"
  by (induction s arbitrary: t) (auto split: bind_splits)

lemma terminal_write_cstr:
  "\<forall>c \<in> set s. of_char c \<noteq> (0 :: u8) \<Longrightarrow>
    terminal_write (Some (cstr s)) t = for_each terminal_putchar (map of_char s) t"
  unfolding terminal_write_def cstr_def option.case by (rule write_loop_puts) force

text \<open>C32. The console refines the row view of the screen: starting from a state where the buffer has
  its 2000 cells and the cursor is on the screen, writing a NUL-terminated string never stores
  outside the video memory, ends in such a state again, and changes the 25 rows exactly as the
  row-level terminal does for the characters in turn (printing, newline with scrolling, carriage
  return, backspace), the colour being kept; a null string does nothing.\<close>

theorem terminal_write_screen:
  assumes "console_inv t" "0 \<notin> set s"
  shows "(\<exists>t'. terminal_write (Some (s @ 0 # rest)) t = Some t' \<and> console_inv t' \<and>
      terminal_color t' = terminal_color t \<and>
      screen_of t' = fold (screen_put (terminal_color t)) s (screen_of t)) \<and>
    terminal_write None t = Some t"
proof -
  have "fold terminal_draw s (color, scr) = (color, fold (screen_put color) s scr)" for color scr
    by (induction s arbitrary: scr) auto
  then show ?thesis
    using console.put_all [OF assms(1), of s] write_loop_puts [OF assms(2)]
    by (auto simp: terminal_write_def terminal_view_def)
qed

definition sample_terminal :: terminal where
  "sample_terminal = \<lparr>vga = replicate 2000 0, cursor_x = 78, cursor_y = 24, terminal_color = 0x1F\<rparr>"

lemma sample_terminal_inv: "console_inv sample_terminal"
  by (simp add: sample_terminal_def console_inv_def VGA_WIDTH_def VGA_HEIGHT_def)

theorem terminal_write_screen_witness:
  "\<exists>t'. terminal_write (Some [0x41, 0x42, 10, 0x43, 0]) sample_terminal = Some t' \<and> console_inv t' \<and>
     screen_of t' = fold (screen_put 0x1F) [0x41, 0x42, 10, 0x43] (screen_of sample_terminal)"
  using terminal_write_screen [OF sample_terminal_inv, of "[0x41, 0x42, 10, 0x43]" "[]"]
  by (auto simp: sample_terminal_def)

lemma clear_rows:
  assumes "length (vga t) = 2000"
  shows "for_each (\<lambda>y. for_each (\<lambda>x t. vga_store (y * VGA_WIDTH + x) (vga_blank t) t) [0..<VGA_WIDTH])
    [0..<VGA_HEIGHT] t = Some (t\<lparr>vga := replicate 2000 (vga_blank t)\<rparr>)"
proof -
  define P where "P k s \<longleftrightarrow> s = t\<lparr>vga := replicate (k * 80) (vga_blank t) @ drop (k * 80) (vga t)\<rparr>" for k s
  let ?f = "\<lambda>y. for_each (\<lambda>x t. vga_store (y * VGA_WIDTH + x) (vga_blank t) t) [0..<VGA_WIDTH]"
  have "\<exists>s'. for_each ?f [0..<25] t = Some s' \<and> P 25 s'"
  proof (rule for_each_upt_invariant)
    show "P 0 t" by (simp add: P_def)
    fix i s assume i: "i < 25" and P: "P i s"
    have "?f i s = Some (s\<lparr>vga := take (i * 80) (vga s) @ replicate 80 (vga_blank s) @ drop (i * 80 + 80) (vga s)\<rparr>)"
      using assms i P store_row [of "i * 80" 80 s] by (simp add: VGA_WIDTH_def P_def)
    moreover have "replicate (Suc i * 80) (vga_blank t) = replicate (i * 80) (vga_blank t) @ replicate 80 (vga_blank t)"
      by (simp add: replicate_add [symmetric] add.commute)
    ultimately show "\<exists>s'. ?f i s = Some s' \<and> P (Suc i) s'"
      using i assms P unfolding P_def by (simp add: vga_blank_def add.commute)
  qed
  then show ?thesis
    using assms by (auto simp: P_def VGA_HEIGHT_def)
qed

text \<open>Clearing works from any cursor position: as long as the buffer has its 2000 cells, all of
  them become blanks in the current colour, the cursor returns to the top left corner and the
  console invariant holds afterwards.\<close>

theorem terminal_clear_screen:
  assumes "length (vga t) = 2000"
  shows "\<exists>t'. terminal_clear t = Some t' \<and> console_inv t' \<and> terminal_color t' = terminal_color t \<and>
    screen_of t' = (replicate 25 (replicate 80 (vga_entry 32 (terminal_color t))), 0, 0)"
proof -
  let ?t = "t\<lparr>vga := replicate 2000 (vga_blank t), cursor_x := 0, cursor_y := 0\<rparr>"
  have "terminal_clear t = Some ?t"
    using clear_rows [OF assms] by (simp add: terminal_clear_def)
  moreover have "rows ?t = replicate 25 (replicate 80 (vga_blank t))"
    by (rule nth_equalityI) (auto simp: rows_nth min_def)
  ultimately show ?thesis
    by (simp add: screen_of_def console_inv_def VGA_WIDTH_def VGA_HEIGHT_def vga_blank_def)
qed

theorem terminal_clear_screen_witness:
  "\<exists>t'. terminal_clear (sample_terminal\<lparr>cursor_y := 99\<rparr>) = Some t' \<and> console_inv t' \<and>
     screen_of t' = (replicate 25 (replicate 80 (vga_entry 32 0x1F)), 0, 0)"
  using terminal_clear_screen [of "sample_terminal\<lparr>cursor_y := 99\<rparr>"]
  by (auto simp: sample_terminal_def)

section \<open>Numbers\<close>

definition decimal :: "u8 list \<Rightarrow> nat" where
  "decimal ds = foldl (\<lambda>n d. n * 10 + (unat d - 48)) 0 ds"

lemma decimal_Cons: "decimal (d # ds) = (unat d - 48) * 10 ^ length ds + decimal ds"
proof -
  have "foldl (\<lambda>n d. n * 10 + (unat d - 48)) a ds = a * 10 ^ length ds + foldl (\<lambda>n d. n * 10 + (unat d - 48)) 0 ds"
    for a :: nat and ds :: "u8 list"
  proof (induction ds arbitrary: a)
    case (Cons d ds)
    show ?case
      using Cons.IH [of "a * 10 + (unat d - 48)"] Cons.IH [of "unat d - 48"]
      by (simp add: algebra_simps)
  qed simp
  from this [of "unat d - 48" ds] show ?thesis
    by (simp add: decimal_def)
qed

lemma digit_char:
  "unat (ucast (0x30 + value mod 10 :: u32) :: u8) = 48 + unat value mod 10"
proof -
  have "unat (value mod 10) = unat value mod 10"
    by (simp add: unat_mod_distrib)
  moreover have "unat value mod 10 < 10" by simp
  ultimately have "unat (0x30 + value mod 10) = 48 + unat value mod 10"
    by (simp add: unat_word_ariths)
  then show ?thesis
    by (simp add: unsigned_ucast_eq take_bit_eq_mod)
qed

declare terminal_uint_digits.simps [simp del]

lemma uint_digits:
  assumes "unat v < 10 ^ (10 - length buf)" "length buf \<le> 10"
  shows "decimal (terminal_uint_digits v buf) = unat v * 10 ^ length buf + decimal buf \<and>
    length (terminal_uint_digits v buf) \<le> 10 \<and>
    (v \<noteq> 0 \<longrightarrow> terminal_uint_digits v buf \<noteq> [] \<and> unat (hd (terminal_uint_digits v buf)) \<noteq> 48) \<and>
    (\<forall>c \<in> set (terminal_uint_digits v buf). c \<in> set buf \<or> 48 \<le> unat c \<and> unat c \<le> 57)"
  using assms
proof (induction v buf rule: terminal_uint_digits.induct)
  case (1 v buf)
  show ?case
  proof (cases "v = 0")
    case True
    then show ?thesis
      using "1.prems" by (simp add: terminal_uint_digits.simps)
  next
    case False
    then have nz: "unat v \<noteq> 0"
      by (simp add: unat_eq_0)
    with "1.prems" have len: "length buf < 10"
      by (cases "length buf = 10") auto
    let ?c = "ucast (0x30 + v mod 10) :: u8"
    have div: "unat (v div 10) = unat v div 10"
      by (simp add: unat_div_distrib)
    have "10 - length buf = Suc (9 - length buf)"
      using len by simp
    then have "unat (v div 10) < 10 ^ (10 - length (?c # buf))"
      using "1.prems"(1) len unfolding div by (simp add: div_less_iff_less_mult mult.commute)
    with "1.IH" False len have IH:
      "decimal (terminal_uint_digits (v div 10) (?c # buf)) =
         unat (v div 10) * 10 ^ length (?c # buf) + decimal (?c # buf)"
      "length (terminal_uint_digits (v div 10) (?c # buf)) \<le> 10"
      "v div 10 \<noteq> 0 \<longrightarrow> terminal_uint_digits (v div 10) (?c # buf) \<noteq> [] \<and>
         unat (hd (terminal_uint_digits (v div 10) (?c # buf))) \<noteq> 48"
      "\<forall>c \<in> set (terminal_uint_digits (v div 10) (?c # buf)). c \<in> set (?c # buf) \<or> 48 \<le> unat c \<and> unat c \<le> 57"
      by auto
    have step: "terminal_uint_digits v buf = terminal_uint_digits (v div 10) (?c # buf)"
      using False len by (subst terminal_uint_digits.simps) simp
    have "unat v div 10 * 10 ^ Suc (length buf) + unat v mod 10 * 10 ^ length buf =
        (unat v div 10 * 10 + unat v mod 10) * 10 ^ length buf"
      by (simp only: power_Suc add_mult_distrib mult.assoc)
    then have "decimal (terminal_uint_digits v buf) = unat v * 10 ^ length buf + decimal buf"
      unfolding step IH(1) decimal_Cons digit_char div by simp
    moreover have "terminal_uint_digits v buf \<noteq> [] \<and> unat (hd (terminal_uint_digits v buf)) \<noteq> 48"
    proof (cases "v div 10 = 0")
      case True
      then have "unat v div 10 = 0" using div by simp
      then have "unat v mod 10 \<noteq> 0" using nz by simp
      with True show ?thesis
        unfolding step by (simp add: terminal_uint_digits.simps [of 0] digit_char)
    qed (use IH(3) step in simp)
    moreover have "48 \<le> unat ?c \<and> unat ?c \<le> 57"
      using mod_less_divisor [of 10 "unat v"] unfolding digit_char by linarith
    ultimately show ?thesis
      using IH(2,4) unfolding step by auto
  qed
qed

lemma terminal_uint_puts:
  "terminal_uint v t = for_each terminal_putchar (if v = 0 then [48] else terminal_uint_digits v []) t"
  by (simp add: terminal_uint_def split: bind_splits)

text \<open>C33. \<open>terminal_uint\<close> prints the decimal representation: the characters it puts on the console
  depend only on the value, are decimal digits, have no superfluous leading zero, fit the ten-byte
  buffer, and read back as the value.\<close>

theorem terminal_uint_decimal:
  "\<exists>ds. (\<forall>t. terminal_uint v t = for_each terminal_putchar ds t) \<and> decimal ds = unat v \<and>
     ds \<noteq> [] \<and> length ds \<le> 10 \<and> list_all (\<lambda>d. 48 \<le> d \<and> d \<le> 57) ds \<and> (hd ds = 48 \<longleftrightarrow> ds = [48])"
proof (cases "v = 0")
  case True
  show ?thesis
    by (rule exI [of _ "[48]"]) (simp add: True terminal_uint_puts decimal_def)
next
  case False
  have "unat v < 10 ^ 10"
    by (rule less_le_trans [OF unsigned_less [of v]]) simp
  then show ?thesis
    using False uint_digits [of v "[]"]
    by (intro exI [of _ "terminal_uint_digits v []"])
      (auto simp: terminal_uint_puts decimal_def list_all_iff word_le_nat_alt)
qed

end
