(* ===== verification/Descriptor_Tables.thy ===== *)
theory Descriptor_Tables
  imports Xnu_Prelude
begin

text \<open>
  The segment and interrupt descriptors of the native kernel (\<^verbatim>\<open>src/kernel/kernel.c\<close>, GDT
  and IDT parts): the packed entries, the functions that fill them in, and the inverse reading the
  processor makes of them.  Writing an entry and reading it back gives the base, the twenty limit
  bits and the flags that were requested, and touches no other entry.
\<close>

section \<open>Global descriptor table\<close>

record gdt_entry =
  gdt_limit_low :: u16
  gdt_base_low :: u16
  gdt_base_middle :: u8
  gdt_access :: u8
  gdt_granularity :: u8
  gdt_base_high :: u8

record gdt_ptr =
  gdt_limit :: u16
  gdt_base :: u32

text \<open>\<open>gdt\<close> has three entries; an index outside of it is the result \<open>None\<close>.\<close>

definition gdt_set_entry ::
  "int \<Rightarrow> u32 \<Rightarrow> u32 \<Rightarrow> u8 \<Rightarrow> u8 \<Rightarrow> gdt_entry list \<Rightarrow> gdt_entry list option" where
  "gdt_set_entry index base limit access granularity gdt =
     (if 0 \<le> index \<and> nat index < length gdt then
        let e = gdt ! nat index;
            e = e\<lparr>gdt_base_low := ucast (base AND 0xFFFF)\<rparr>;
            e = e\<lparr>gdt_base_middle := ucast (drop_bit 16 base AND 0xFF)\<rparr>;
            e = e\<lparr>gdt_base_high := ucast (drop_bit 24 base AND 0xFF)\<rparr>;
            e = e\<lparr>gdt_limit_low := ucast (limit AND 0xFFFF)\<rparr>;
            e = e\<lparr>gdt_granularity := ucast (drop_bit 16 limit AND 0x0F)\<rparr>;
            e = e\<lparr>gdt_granularity := gdt_granularity e OR (granularity AND 0xF0)\<rparr>;
            e = e\<lparr>gdt_access := access\<rparr>
        in Some (gdt[nat index := e])
      else None)"

text \<open>The entries as the processor reads them: the scattered base, the twenty-bit limit, and the
  limit in bytes after the granularity flag.\<close>

definition gdt_entry_base :: "gdt_entry \<Rightarrow> u32" where
  "gdt_entry_base e =
     (ucast (gdt_base_low e) OR push_bit 16 (ucast (gdt_base_middle e))) OR
     push_bit 24 (ucast (gdt_base_high e))"

definition gdt_entry_limit :: "gdt_entry \<Rightarrow> u32" where
  "gdt_entry_limit e = ucast (gdt_limit_low e) OR push_bit 16 (ucast (gdt_granularity e AND 0x0F))"

definition gdt_entry_bytes :: "gdt_entry \<Rightarrow> nat" where
  "gdt_entry_bytes e =
     (if bit (gdt_granularity e) 7 then (unat (gdt_entry_limit e) + 1) * 4096
      else unat (gdt_entry_limit e) + 1)"

section \<open>Interrupt descriptor table\<close>

record idt_entry =
  idt_base_low :: u16
  idt_selector :: u16
  idt_zero :: u8
  idt_flags :: u8
  idt_base_high :: u16

record idt_ptr =
  idt_limit :: u16
  idt_base :: u32

definition IDT_ENTRIES :: nat where
  "IDT_ENTRIES = 256"

definition idt_set_gate ::
  "u8 \<Rightarrow> u32 \<Rightarrow> u16 \<Rightarrow> u8 \<Rightarrow> idt_entry list \<Rightarrow> idt_entry list option" where
  "idt_set_gate number base selector flags idt =
     (if unat number < length idt then
        let e = idt ! unat number;
            e = e\<lparr>idt_base_low := ucast (base AND 0xFFFF)\<rparr>;
            e = e\<lparr>idt_base_high := ucast (drop_bit 16 base AND 0xFFFF)\<rparr>;
            e = e\<lparr>idt_selector := selector, idt_zero := 0, idt_flags := flags\<rparr>
        in Some (idt[unat number := e])
      else None)"

definition idt_entry_handler :: "idt_entry \<Rightarrow> u32" where
  "idt_entry_handler e = ucast (idt_base_low e) OR push_bit 16 (ucast (idt_base_high e))"

section \<open>Reading back what was written\<close>

lemma word_masks:
  "(0xFFFF :: u32) = mask 16" "(0xFF :: u32) = mask 8" "(0x0F :: u32) = mask 4"
  "(0xFFFFF :: u32) = mask 20" "(0x0F :: u8) = mask 4" "(0xF0 :: u8) = push_bit 4 (mask 4)"
  by (simp_all add: mask_eq_exp_minus_1)

lemma split_base:
  "((ucast (ucast (b AND 0xFFFF) :: u16) OR push_bit 16 (ucast (ucast (drop_bit 16 b AND 0xFF) :: u8))) OR
    push_bit 24 (ucast (ucast (drop_bit 24 b AND 0xFF) :: u8)) :: u32) = b"
proof (rule bit_word_eqI)
  fix n assume "n < LENGTH(32)"
  then consider "n < 16" | "16 \<le> n" "n < 24" | "24 \<le> n" "n < 32" by auto linarith
  then show "bit ((ucast (ucast (b AND 0xFFFF) :: u16) OR
      push_bit 16 (ucast (ucast (drop_bit 16 b AND 0xFF) :: u8))) OR
    push_bit 24 (ucast (ucast (drop_bit 24 b AND 0xFF) :: u8)) :: u32) n = bit b n"
    unfolding word_masks by cases (auto simp: bit_simps)
qed

lemma split_base_16:
  "(ucast (ucast (b AND 0xFFFF) :: u16) OR push_bit 16 (ucast (ucast (drop_bit 16 b AND 0xFFFF) :: u16)) :: u32) = b"
  unfolding word_masks by (rule bit_word_eqI) (auto simp: bit_simps)

lemma split_limit:
  "(ucast (ucast (l AND 0xFFFF) :: u16) OR
    push_bit 16 (ucast ((ucast (drop_bit 16 l AND 0x0F) OR (g AND 0xF0)) AND 0x0F :: u8)) :: u32) = l AND 0xFFFFF"
  unfolding word_masks by (rule bit_word_eqI) (auto simp: bit_simps)

lemma merge_granularity:
  "(ucast (drop_bit 16 l AND 0x0F :: u32) OR (g AND 0xF0)) AND 0xF0 = (g AND 0xF0 :: u8)"
  unfolding word_masks by (rule bit_word_eqI) (auto simp: bit_simps)

text \<open>A segment descriptor reads back as it was set: after \<open>gdt_set_entry\<close> the entry decodes to
  the given base, to the low twenty bits of the limit, to the access byte and to the upper four
  granularity flags; the other entries keep their value, and an index outside the table is
  refused.\<close>

theorem gdt_set_entry_roundtrip:
  "if 0 \<le> index \<and> nat index < length gdt
   then \<exists>e. gdt_set_entry index base limit access granularity gdt = Some (gdt[nat index := e]) \<and>
     gdt_entry_base e = base \<and> gdt_entry_limit e = limit AND 0xFFFFF \<and> gdt_access e = access \<and>
     gdt_granularity e AND 0xF0 = granularity AND 0xF0
   else gdt_set_entry index base limit access granularity gdt = None"
  by (auto simp: gdt_set_entry_def Let_def gdt_entry_base_def gdt_entry_limit_def split_base split_limit
      merge_granularity)

text \<open>C34. An interrupt gate reads back as it was set: the handler address, the selector and the flags
  of the vector are the ones given, the reserved byte is zero, and no other vector changes.  With
  the 256 entries of the table no vector is out of range.\<close>

theorem idt_set_gate_roundtrip:
  assumes "length idt = IDT_ENTRIES"
  shows "\<exists>e. idt_set_gate number base selector flags idt = Some (idt[unat number := e]) \<and>
    idt_entry_handler e = base \<and> idt_selector e = selector \<and> idt_zero e = 0 \<and> idt_flags e = flags"
proof -
  have "unat number < 2 ^ LENGTH(8)"
    by (rule unsigned_less)
  then show ?thesis
    using assms
    by (auto simp: idt_set_gate_def Let_def IDT_ENTRIES_def idt_entry_handler_def split_base_16)
qed

theorem idt_set_gate_roundtrip_witness:
  "\<exists>e. idt_set_gate 0x21 0x12345678 8 0x8E (replicate 256 \<lparr>idt_base_low = 0, idt_selector = 0,
       idt_zero = 0, idt_flags = 0, idt_base_high = 0\<rparr>) =
     Some ((replicate 256 \<lparr>idt_base_low = 0, idt_selector = 0, idt_zero = 0, idt_flags = 0,
       idt_base_high = 0\<rparr>)[unat (0x21 :: u8) := e]) \<and> idt_entry_handler e = 0x12345678"
  using idt_set_gate_roundtrip [of "replicate 256 \<lparr>idt_base_low = 0, idt_selector = 0, idt_zero = 0,
      idt_flags = 0, idt_base_high = 0\<rparr>" "0x21" "0x12345678" 8 "0x8E"]
  by (auto simp: IDT_ENTRIES_def)

end
