(* ===== verification/Native_Kernel.thy ===== *)
theory Native_Kernel
  imports Vga_Console Descriptor_Tables
begin

text \<open>
  The native kernel around the console: port input and output, descriptor tables, interrupt
  controller, keyboard, bump allocator, the two providers and \<open>kernel_main\<close>
  (\<^verbatim>\<open>src/kernel/kernel.c\<close>).  The processor's effects are a log of events; a port read is
  answered by the device function of the environment, which sees the log.  The XNU provider is not
  part of the image: its weak symbols are optional functions of the environment.
\<close>

section \<open>State\<close>

datatype cpu_event =
  Outb u16 u8 | Inb u16 u8 | Lgdt gdt_ptr | Lidt idt_ptr | Cli | Sti | Hlt

datatype xnuxx_provider_type =
  XNUXX_PROVIDER_NONE | XNUXX_PROVIDER_XNU | XNUXX_PROVIDER_NATIVE

record native_kernel =
  kterminal :: terminal
  gdt :: "gdt_entry list"
  gdt_descriptor :: gdt_ptr
  idt :: "idt_entry list"
  idt_descriptor :: idt_ptr
  heap_current :: u32
  heap_end :: u32
  mem32 :: "u32 \<Rightarrow> u32"
  active_provider :: xnuxx_provider_type
  events :: "cpu_event list"

record kernel_env =
  device :: "cpu_event list \<Rightarrow> u16 \<Rightarrow> u8"
  gdt_address :: u32
  idt_address :: u32
  xnuxx_xnu_provider_available :: "(native_kernel \<Rightarrow> int \<times> native_kernel) option"
  xnuxx_xnu_provider_init :: "(native_kernel \<Rightarrow> int \<times> native_kernel) option"
  xnuxx_xnu_provider_start :: "(native_kernel \<Rightarrow> int \<times> native_kernel) option"
  xnuxx_xnu_provider_idle :: "(native_kernel \<Rightarrow> native_kernel) option"

section \<open>Processor and ports\<close>

definition cpu_event :: "cpu_event \<Rightarrow> native_kernel \<Rightarrow> native_kernel" where
  "cpu_event e k = k\<lparr>events := events k @ [e]\<rparr>"

definition outb :: "u16 \<Rightarrow> u8 \<Rightarrow> native_kernel \<Rightarrow> native_kernel" where
  "outb port v k = cpu_event (Outb port v) k"

definition inb :: "kernel_env \<Rightarrow> u16 \<Rightarrow> native_kernel \<Rightarrow> u8 \<times> native_kernel" where
  "inb env port k = (let v = device env (events k) port in (v, cpu_event (Inb port v) k))"

definition io_wait :: "native_kernel \<Rightarrow> native_kernel" where
  "io_wait k = outb 0x80 0 k"

definition cpu_cli :: "native_kernel \<Rightarrow> native_kernel" where
  "cpu_cli k = cpu_event Cli k"

definition cpu_sti :: "native_kernel \<Rightarrow> native_kernel" where
  "cpu_sti k = cpu_event Sti k"

definition cpu_hlt :: "native_kernel \<Rightarrow> native_kernel" where
  "cpu_hlt k = cpu_event Hlt k"

definition kterm :: "(terminal \<Rightarrow> terminal option) \<Rightarrow> native_kernel \<Rightarrow> native_kernel option" where
  "kterm f k = map_option (\<lambda>t. k\<lparr>kterminal := t\<rparr>) (f (kterminal k))"

definition kprint :: "string \<Rightarrow> native_kernel \<Rightarrow> native_kernel option" where
  "kprint s k = kterm (terminal_write (Some (cstr s))) k"

section \<open>Descriptor tables\<close>

definition gdt_init :: "kernel_env \<Rightarrow> native_kernel \<Rightarrow> native_kernel option" where
  "gdt_init env k = do {
     let k = k\<lparr>gdt_descriptor := \<lparr>gdt_limit = of_nat (8 * length (gdt k)) - 1, gdt_base = gdt_address env\<rparr>\<rparr>;
     g \<leftarrow> gdt_set_entry 0 0 0 0 0 (gdt k);
     g \<leftarrow> gdt_set_entry 1 0 0xFFFFFFFF 0x9A 0xCF g;
     g \<leftarrow> gdt_set_entry 2 0 0xFFFFFFFF 0x92 0xCF g;
     let k = k\<lparr>gdt := g\<rparr>;
     Some (cpu_event (Lgdt (gdt_descriptor k)) k)
   }"

definition idt_init :: "kernel_env \<Rightarrow> native_kernel \<Rightarrow> native_kernel option" where
  "idt_init env k = do {
     let k = k\<lparr>idt_descriptor := \<lparr>idt_limit = of_nat (8 * length (idt k)) - 1, idt_base = idt_address env\<rparr>\<rparr>;
     t \<leftarrow> for_each (\<lambda>i. idt_set_gate (of_nat i) 0 0x08 0x8E) [0..<IDT_ENTRIES] (idt k);
     let k = k\<lparr>idt := t\<rparr>;
     Some (cpu_event (Lidt (idt_descriptor k)) k)
   }"

section \<open>Interrupt controller\<close>

definition PIC1_COMMAND :: u16 where "PIC1_COMMAND = 0x20"
definition PIC1_DATA :: u16 where "PIC1_DATA = 0x21"
definition PIC2_COMMAND :: u16 where "PIC2_COMMAND = 0xA0"
definition PIC2_DATA :: u16 where "PIC2_DATA = 0xA1"
definition PIC_EOI :: u8 where "PIC_EOI = 0x20"

definition pic_init :: "kernel_env \<Rightarrow> native_kernel \<Rightarrow> native_kernel" where
  "pic_init env k =
     (let (master_mask, k) = inb env PIC1_DATA k;
          (slave_mask, k) = inb env PIC2_DATA k;
          k = io_wait (outb PIC1_COMMAND 0x11 k);
          k = io_wait (outb PIC2_COMMAND 0x11 k);
          k = io_wait (outb PIC1_DATA 0x20 k);
          k = io_wait (outb PIC2_DATA 0x28 k);
          k = io_wait (outb PIC1_DATA 0x04 k);
          k = io_wait (outb PIC2_DATA 0x02 k);
          k = io_wait (outb PIC1_DATA 0x01 k);
          k = io_wait (outb PIC2_DATA 0x01 k);
          k = outb PIC1_DATA master_mask k
      in outb PIC2_DATA slave_mask k)"

definition pic_eoi :: "u8 \<Rightarrow> native_kernel \<Rightarrow> native_kernel" where
  "pic_eoi irq k =
     (let k = (if irq \<ge> 8 then outb PIC2_COMMAND PIC_EOI k else k)
      in outb PIC1_COMMAND PIC_EOI k)"

section \<open>Keyboard\<close>

definition KBD_DATA :: u16 where "KBD_DATA = 0x60"
definition KBD_STATUS :: u16 where "KBD_STATUS = 0x64"

definition keyboard_map :: "u8 list" where
  "keyboard_map =
     (let m = [0, 27] @ map of_char ''1234567890-='' @ [8, 9] @ map of_char ''qwertyuiop[]'' @ [10, 0] @
              map of_char ''asdfghjkl;'' @ [39, 96, 0, 92] @ map of_char ''zxcvbnm,./'' @
              [0, 42, 0, 32]
      in m @ replicate (128 - length m) 0)"

definition keyboard_read :: "kernel_env \<Rightarrow> u8 option \<Rightarrow> native_kernel \<Rightarrow> (int \<times> u8 option) \<times> native_kernel" where
  "keyboard_read env character k =
     (if character = None then ((0, character), k)
      else let (status, k) = inb env KBD_STATUS k in
        if status AND 1 = 0 then ((0, character), k)
        else let (scancode, k) = inb env KBD_DATA k in
          if scancode AND 0x80 \<noteq> 0 then ((0, character), k)
          else if unat scancode \<ge> length keyboard_map then ((0, character), k)
          else if keyboard_map ! unat scancode = 0 then ((0, character), k)
          else ((1, Some (keyboard_map ! unat scancode)), k))"

section \<open>Native memory layer\<close>

definition HEAP_START :: u32 where "HEAP_START = 0x00100000"
definition HEAP_SIZE :: u32 where "HEAP_SIZE = 0x00100000"

definition native_alloc :: "u32 \<Rightarrow> native_kernel \<Rightarrow> u32 \<times> native_kernel" where
  "native_alloc sz k =
     (if sz = 0 then (0, k)
      else let aligned = (sz + 15) AND NOT 15 in
        if heap_current k + aligned > heap_end k then (0, k)
        else let address = heap_current k
             in (address, k\<lparr>heap_current := heap_current k + aligned\<rparr>))"

definition native_free :: "u32 \<Rightarrow> native_kernel \<Rightarrow> native_kernel" where
  "native_free ptr k = k"

section \<open>Providers\<close>

definition native_provider_init :: "kernel_env \<Rightarrow> native_kernel \<Rightarrow> (int \<times> native_kernel) option" where
  "native_provider_init env k = do {
     k \<leftarrow> gdt_init env k;
     k \<leftarrow> idt_init env k;
     Some (0, pic_init env k)
   }"

definition native_provider_start :: "native_kernel \<Rightarrow> int \<times> native_kernel" where
  "native_provider_start k =
     (let (test, k) = native_alloc 4 k in
        if test = 0 then (- 1, k)
        else let k = k\<lparr>mem32 := (mem32 k)(test := 0xDEADBEEF)\<rparr> in
          if mem32 k test \<noteq> 0xDEADBEEF then (- 1, k)
          else (0, native_free test k))"

definition xnu_provider_available :: "kernel_env \<Rightarrow> native_kernel \<Rightarrow> bool \<times> native_kernel" where
  "xnu_provider_available env k =
     (case xnuxx_xnu_provider_available env of
        None \<Rightarrow> (False, k)
      | Some available \<Rightarrow> (case available k of (rc, k) \<Rightarrow> (rc = 0, k)))"

definition xnu_provider_init :: "kernel_env \<Rightarrow> native_kernel \<Rightarrow> int \<times> native_kernel" where
  "xnu_provider_init env k =
     (case xnuxx_xnu_provider_init env of None \<Rightarrow> (- 1, k) | Some init \<Rightarrow> init k)"

definition xnu_provider_start :: "kernel_env \<Rightarrow> native_kernel \<Rightarrow> int \<times> native_kernel" where
  "xnu_provider_start env k =
     (case xnuxx_xnu_provider_start env of None \<Rightarrow> (- 1, k) | Some start \<Rightarrow> start k)"

definition provider_init :: "kernel_env \<Rightarrow> native_kernel \<Rightarrow> (int \<times> native_kernel) option" where
  "provider_init env k =
     (let (available, k) = xnu_provider_available env k;
          (rc, k) = (if available then xnu_provider_init env k else (- 1, k))
      in if available \<and> rc = 0 then Some (0, k\<lparr>active_provider := XNUXX_PROVIDER_XNU\<rparr>)
         else do {
           (rc, k) \<leftarrow> native_provider_init env k;
           if rc = 0 then Some (0, k\<lparr>active_provider := XNUXX_PROVIDER_NATIVE\<rparr>)
           else Some (- 1, k\<lparr>active_provider := XNUXX_PROVIDER_NONE\<rparr>)
         })"

definition provider_start :: "kernel_env \<Rightarrow> native_kernel \<Rightarrow> int \<times> native_kernel" where
  "provider_start env k =
     (case active_provider k of
        XNUXX_PROVIDER_XNU \<Rightarrow> xnu_provider_start env k
      | XNUXX_PROVIDER_NATIVE \<Rightarrow> native_provider_start k
      | XNUXX_PROVIDER_NONE \<Rightarrow> (- 1, k))"

section \<open>Kernel entry\<close>

text \<open>\<open>kernel_main\<close> does not return: its outcome is the endless loop it reaches.\<close>

datatype kernel_loop = PanicHalt | XnuIdle | XnuHalt | NativeConsole

definition kernel_panic :: "string \<Rightarrow> native_kernel \<Rightarrow> (kernel_loop \<times> native_kernel) option" where
  "kernel_panic message k = do {
     k \<leftarrow> kprint ''\<newline>\<newline>xnu++ KERNEL PANIC\<newline>'' (cpu_cli k);
     k \<leftarrow> kprint message k;
     k \<leftarrow> kprint ''\<newline>'' k;
     Some (PanicHalt, k)
   }"

text \<open>The part of \<open>kernel_main\<close> after a successful \<open>provider_init\<close>.\<close>

definition kernel_start :: "kernel_env \<Rightarrow> native_kernel \<Rightarrow> (kernel_loop \<times> native_kernel) option" where
  "kernel_start env k = do {
     k \<leftarrow> (if active_provider k = XNUXX_PROVIDER_XNU
           then kprint ''provider: XNU\<newline>XNU provider: active\<newline>'' k
           else kprint ''provider: native\<newline>XNU provider: unavailable\<newline>'' k);
     k \<leftarrow> kprint ''\<newline>starting provider...\<newline>'' k;
     let (rc, k) = provider_start env k;
     if rc \<noteq> 0 then kernel_panic ''provider start failed'' k
     else do {
       k \<leftarrow> kprint ''provider started\<newline>xnu++ platform initialized\<newline>'' k;
       if active_provider k = XNUXX_PROVIDER_XNU then
         Some (if xnuxx_xnu_provider_idle env \<noteq> None then XnuIdle else XnuHalt, k)
       else Some (NativeConsole, cpu_sti k)
     }
   }"

definition kernel_main :: "kernel_env \<Rightarrow> native_kernel \<Rightarrow> (kernel_loop \<times> native_kernel) option" where
  "kernel_main env k = do {
     k \<leftarrow> kterm terminal_clear k;
     k \<leftarrow> kprint ''xnu++ platform\<newline>==============\<newline>version: 0.2.0\<newline>architecture: i386\<newline>provider architecture: XNU + native\<newline>\<newline>'' k;
     k \<leftarrow> kprint ''initializing provider...\<newline>'' k;
     (rc, k) \<leftarrow> provider_init env k;
     if rc \<noteq> 0 then kernel_panic ''provider initialization failed'' k
     else kernel_start env k
   }"

text \<open>One iteration of each endless loop.\<close>

definition kernel_loop_step :: "kernel_env \<Rightarrow> kernel_loop \<Rightarrow> u8 \<Rightarrow> native_kernel \<Rightarrow> native_kernel option" where
  "kernel_loop_step env loop character k =
     (case loop of
        PanicHalt \<Rightarrow> Some (cpu_hlt k)
      | XnuIdle \<Rightarrow> Some (the (xnuxx_xnu_provider_idle env) k)
      | XnuHalt \<Rightarrow> Some (cpu_hlt k)
      | NativeConsole \<Rightarrow>
          (case keyboard_read env (Some character) k of ((rc, c), k) \<Rightarrow> do {
             k \<leftarrow> (if rc \<noteq> 0 then kterm (terminal_putchar (the c)) k else Some k);
             Some (cpu_hlt k)
           }))"

end
