(* ===== verification/Native_Kernel_Facts.thy ===== *)
theory Native_Kernel_Facts
  imports Native_Kernel
begin

text \<open>
  Properties of the native kernel: the bump allocator hands out disjoint aligned blocks (and where
  its arithmetic wraps), the interrupt controllers are programmed as intended, the keyboard decoder
  respects its table, and \<open>kernel_main\<close> reaches the console loop, which never faults.
\<close>

section \<open>The bump allocator\<close>

definition heap_inv :: "native_kernel \<Rightarrow> bool" where
  "heap_inv k \<longleftrightarrow> heap_end k = HEAP_START + HEAP_SIZE \<and> HEAP_START \<le> heap_current k \<and>
     heap_current k \<le> heap_end k \<and> unat (heap_current k) mod 16 = 0"

lemma and_not_15: "(x :: u32) AND NOT 15 = push_bit 4 (drop_bit 4 x)"
proof -
  have "x AND NOT (mask 4) = push_bit 4 (drop_bit 4 x)"
    by (rule bit_word_eqI) (auto simp: bit_simps)
  then show ?thesis
    by (simp add: mask_eq_exp_minus_1)
qed

lemma round_up_16:
  assumes "unat (sz :: u32) \<le> 0xFFFFFFF0"
  shows "unat ((sz + 15) AND NOT 15) = (unat sz + 15) div 16 * 16"
proof -
  have s: "unat (sz + 15) = unat sz + 15"
    using assms by (simp add: unat_word_ariths)
  moreover have "unat (drop_bit 4 (sz + 15)) = (unat sz + 15) div 16"
    by (simp add: drop_bit_eq_div unat_div_distrib s)
  moreover have "(unat sz + 15) div 16 * 16 < 2 ^ 32"
    using assms by simp
  ultimately show ?thesis
    unfolding and_not_15 by (simp add: push_bit_eq_mult unat_word_ariths)
qed

lemma native_alloc_step:
  assumes "heap_inv k" "unat sz \<le> 0xFFDFFFF0" "native_alloc sz k = (a, k')"
  shows "heap_inv k' \<and>
    (if sz = 0 \<or> unat (heap_current k) + (unat sz + 15) div 16 * 16 > 0x200000 then a = 0 \<and> k' = k
     else a = heap_current k \<and> unat a \<ge> 0x100000 \<and> unat a mod 16 = 0 \<and> unat a + unat sz \<le> unat (heap_current k') \<and>
       unat (heap_current k') = unat a + (unat sz + 15) div 16 * 16)"
proof -
  let ?n = "(unat sz + 15) div 16 * 16"
  have cur: "0x100000 \<le> unat (heap_current k)" "unat (heap_current k) \<le> 0x200000"
      "unat (heap_current k) mod 16 = 0" "heap_end k = 0x200000"
    using assms(1) by (auto simp: heap_inv_def HEAP_START_def HEAP_SIZE_def word_le_nat_alt)
  have n: "unat ((sz + 15) AND NOT 15) = ?n" "unat sz \<le> ?n" "?n \<le> 0xFFDFFFF0"
    using assms(2) round_up_16 [of sz] by simp_all
  have sum: "unat (heap_current k + ((sz + 15) AND NOT 15)) = unat (heap_current k) + ?n"
    using cur n by (simp add: unat_word_ariths)
  show ?thesis
    using assms(1,3) cur n sum
    by (auto simp: native_alloc_def Let_def word_less_nat_alt word_le_nat_alt heap_inv_def
        HEAP_START_def HEAP_SIZE_def unat_eq_0 mod_add_eq split: if_splits)
qed

text \<open>The blocks a sequence of requests is given, those refused left out.\<close>

fun native_alloc_seq :: "u32 list \<Rightarrow> native_kernel \<Rightarrow> (u32 \<times> u32) list" where
  "native_alloc_seq [] k = []"
| "native_alloc_seq (sz # szs) k =
     (case native_alloc sz k of (a, k') \<Rightarrow>
        if a = 0 then native_alloc_seq szs k' else (a, sz) # native_alloc_seq szs k')"

lemma alloc_seq_above:
  assumes "heap_inv k" "list_all (\<lambda>sz. sz \<le> 0xFFDFFFF0) szs"
  shows "sorted_wrt (\<lambda>(a, n) (b, m). unat a + unat n \<le> unat b) (native_alloc_seq szs k) \<and>
    (\<forall>(a, n) \<in> set (native_alloc_seq szs k). unat (heap_current k) \<le> unat a \<and>
       unat a + unat n \<le> 0x200000 \<and> unat a mod 16 = 0 \<and> n \<noteq> 0)"
  using assms
proof (induction szs arbitrary: k)
  case (Cons sz szs)
  obtain a k' where alloc: "native_alloc sz k = (a, k')"
    by (cases "native_alloc sz k")
  note step = native_alloc_step [OF Cons.prems(1) _ alloc]
  have sz: "unat sz \<le> 0xFFDFFFF0"
    using Cons.prems(2) by (simp add: word_le_nat_alt)
  have IH: "sorted_wrt (\<lambda>(a, n) (b, m). unat a + unat n \<le> unat b) (native_alloc_seq szs k')"
    "\<forall>(a, n) \<in> set (native_alloc_seq szs k'). unat (heap_current k') \<le> unat a \<and>
       unat a + unat n \<le> 0x200000 \<and> unat a mod 16 = 0 \<and> n \<noteq> 0"
    using Cons.IH [of k'] step [OF sz] Cons.prems(2) by auto
  show ?case
    using step [OF sz] IH alloc by (fastforce split: if_splits)
qed simp

text \<open>C35. The allocator hands out disjoint memory: for every sequence of requests that do not exceed
  the address range above the heap, the blocks granted lie inside the one-megabyte heap, are
  aligned to sixteen bytes, have the requested size available and follow one another without
  overlap, whatever requests were refused in between.\<close>

theorem native_alloc_disjoint:
  assumes "heap_inv k" "list_all (\<lambda>sz. sz \<le> 0xFFDFFFF0) szs"
  shows "sorted_wrt (\<lambda>(a, n) (b, m). unat a + unat n \<le> unat b) (native_alloc_seq szs k) \<and>
    list_all (\<lambda>(a, n). HEAP_START \<le> a \<and> unat a + unat n \<le> unat (HEAP_START + HEAP_SIZE) \<and> unat a mod 16 = 0)
      (native_alloc_seq szs k)"
proof -
  have "0x100000 \<le> unat (heap_current k)"
    using assms(1) by (simp add: heap_inv_def HEAP_START_def word_le_nat_alt)
  then show ?thesis
    using alloc_seq_above [OF assms]
    by (fastforce simp: list_all_iff HEAP_START_def HEAP_SIZE_def word_le_nat_alt)
qed

text \<open>C36. Very large requests defeat the bounds check: for the fifteen sizes above 0xFFFFFFF0 rounding
  up wraps around to zero, so the allocator returns the current heap pointer as a block of nearly
  four gigabytes and reserves nothing, and the next request is given the same address.\<close>

theorem native_alloc_wraps:
  assumes "heap_inv k" "sz > 0xFFFFFFF0"
  shows "native_alloc sz k = (heap_current k, k) \<and> heap_current k \<noteq> 0"
proof -
  have "unat sz > 0xFFFFFFF0" "unat sz < 2 ^ 32"
    using assms(2) unsigned_less [of sz] by (simp_all add: word_less_nat_alt)
  then have "unat (sz + 15) < 16"
    by (auto simp: unat_word_ariths mod_if)
  then have "unat (drop_bit 4 (sz + 15)) = 0"
    by (simp add: drop_bit_eq_div unat_div_distrib)
  then have "(sz + 15) AND NOT 15 = 0"
    unfolding and_not_15 by (simp add: unat_eq_0)
  then show ?thesis
    using assms by (auto simp: native_alloc_def heap_inv_def HEAP_START_def)
qed

definition sample_kernel :: native_kernel where
  "sample_kernel =
     \<lparr> kterminal = \<lparr>vga = replicate 2000 0, cursor_x = 0, cursor_y = 0, terminal_color = 0x1F\<rparr>,
       gdt = replicate 3 \<lparr>gdt_limit_low = 0, gdt_base_low = 0, gdt_base_middle = 0, gdt_access = 0,
         gdt_granularity = 0, gdt_base_high = 0\<rparr>,
       gdt_descriptor = \<lparr>gdt_limit = 0, gdt_base = 0\<rparr>,
       idt = replicate 256 \<lparr>idt_base_low = 0, idt_selector = 0, idt_zero = 0, idt_flags = 0, idt_base_high = 0\<rparr>,
       idt_descriptor = \<lparr>idt_limit = 0, idt_base = 0\<rparr>,
       heap_current = HEAP_START, heap_end = HEAP_START + HEAP_SIZE, mem32 = (\<lambda>a. 0),
       active_provider = XNUXX_PROVIDER_NONE, events = [] \<rparr>"

lemma sample_heap: "heap_inv sample_kernel"
  by (simp add: heap_inv_def sample_kernel_def HEAP_START_def HEAP_SIZE_def)

theorem native_alloc_disjoint_witness:
  "native_alloc_seq [5, 0, 0x200000, 16] sample_kernel = [(0x100000, 5), (0x100010, 16)] \<and>
   sorted_wrt (\<lambda>(a, n) (b, m). unat a + unat n \<le> unat b)
     (native_alloc_seq [5, 0, 0x200000, 16] sample_kernel)"
proof -
  have "list_all (\<lambda>sz :: u32. sz \<le> 0xFFDFFFF0) [5, 0, 0x200000, 16]"
    by simp
  from native_alloc_disjoint [OF sample_heap this] show ?thesis
    by (simp add: native_alloc_def sample_kernel_def HEAP_START_def HEAP_SIZE_def and_not_15)
qed

theorem native_alloc_wraps_witness:
  "native_alloc 0xFFFFFFFF sample_kernel = (0x100000, sample_kernel)"
  using native_alloc_wraps [OF sample_heap, of "0xFFFFFFFF"] by (simp add: sample_kernel_def HEAP_START_def)

section \<open>The interrupt controller\<close>

text \<open>
  The initialisation protocol of the 8259A, as its data sheet describes it: a command with bit 4 set
  starts a sequence of three further words on the data port (vector offset, cascade wiring, mode);
  outside of such a sequence the data port is the interrupt mask.
\<close>

record pic8259 =
  icw_next :: nat
  vector_offset :: u8
  cascade :: u8
  pic_mode :: u8
  irq_mask :: u8

definition pic_command :: "u8 \<Rightarrow> pic8259 \<Rightarrow> pic8259" where
  "pic_command v p = (if bit v 4 then p\<lparr>icw_next := 2, irq_mask := 0\<rparr> else p)"

definition pic_data :: "u8 \<Rightarrow> pic8259 \<Rightarrow> pic8259" where
  "pic_data v p =
     (if icw_next p = 2 then p\<lparr>vector_offset := v AND 0xF8, icw_next := 3\<rparr>
      else if icw_next p = 3 then p\<lparr>cascade := v, icw_next := 4\<rparr>
      else if icw_next p = 4 then p\<lparr>pic_mode := v, icw_next := 0\<rparr>
      else p\<lparr>irq_mask := v\<rparr>)"

fun pic_after :: "u16 \<Rightarrow> u16 \<Rightarrow> cpu_event list \<Rightarrow> pic8259 \<Rightarrow> pic8259" where
  "pic_after cmd dat [] p = p"
| "pic_after cmd dat (Outb port v # es) p =
     pic_after cmd dat es (if port = cmd then pic_command v p else if port = dat then pic_data v p else p)"
| "pic_after cmd dat (_ # es) p = pic_after cmd dat es p"

lemma pic_after_append [simp]: "pic_after cmd dat (xs @ ys) p = pic_after cmd dat ys (pic_after cmd dat xs p)"
  by (induction cmd dat xs p rule: pic_after.induct) auto

lemmas port_defs = outb_def inb_def io_wait_def cpu_event_def PIC1_COMMAND_def PIC1_DATA_def
  PIC2_COMMAND_def PIC2_DATA_def

text \<open>\<open>pic_init\<close> programs both interrupt controllers correctly, whatever state they were in when
  the kernel started: the master's vectors start at
  0x20 and the slave's at 0x28, clear of the processor exceptions, they are cascaded on line 2 and
  in 8086 mode, and the interrupt masks read at the start are restored.\<close>

theorem pic_init_remaps:
  "\<exists>es. events (pic_init env k) = events k @ es \<and>
    pic_after 0x20 0x21 es m =
      \<lparr>icw_next = 0, vector_offset = 0x20, cascade = 4, pic_mode = 1,
       irq_mask = device env (events k) 0x21\<rparr> \<and>
    pic_after 0xA0 0xA1 es s =
      \<lparr>icw_next = 0, vector_offset = 0x28, cascade = 2, pic_mode = 1,
       irq_mask = device env (events k @ [Inb 0x21 (device env (events k) 0x21)]) 0xA1\<rparr>"
  by (auto simp: pic_init_def port_defs Let_def pic_command_def pic_data_def)

section \<open>Keyboard\<close>

lemma keyboard_map_length [simp]: "length keyboard_map = 128"
  by code_simp

lemma high_bit_set: "((x :: u8) AND 0x80 \<noteq> 0) = (\<not> x < 128)"
proof -
  have "(x AND 0x80 \<noteq> 0) = bit x 7"
    using and_push_bit_1_eq_0 [of x 7] by simp
  also have "\<dots> = odd (unat x div 128)"
    using bit_unsigned_iff [of x 7, where 'a = nat] by (simp add: bit_iff_odd)
  also have "\<dots> = (128 \<le> unat x)"
  proof -
    have "unat x < 2 ^ LENGTH(8)"
      by (rule unsigned_less)
    then have "unat x div 128 = (if 128 \<le> unat x then 1 else 0)"
      by (auto simp: div_eq_0_iff intro: div_nat_eqI)
    then show ?thesis by simp
  qed
  finally show ?thesis
    by (simp add: word_less_nat_alt not_less)
qed


section \<open>Bringing the native provider up\<close>

definition platform_inv :: "native_kernel \<Rightarrow> bool" where
  "platform_inv k \<longleftrightarrow> length (vga (kterminal k)) = 2000 \<and> length (gdt k) = 3 \<and>
     length (idt k) = IDT_ENTRIES \<and> heap_inv k"

definition flat_segment :: "u8 \<Rightarrow> gdt_entry \<Rightarrow> bool" where
  "flat_segment access e \<longleftrightarrow>
     gdt_entry_base e = 0 \<and> gdt_entry_bytes e = 2 ^ 32 \<and> gdt_access e = access"

definition tables_ready :: "native_kernel \<Rightarrow> bool" where
  "tables_ready k \<longleftrightarrow> flat_segment 0x9A (gdt k ! 1) \<and> flat_segment 0x92 (gdt k ! 2) \<and>
     gdt_limit (gdt_descriptor k) = 23 \<and> idt_limit (idt_descriptor k) = 2047"

lemma flat_segment_entry:
  "flat_segment access
    (e\<lparr>gdt_base_low := 0, gdt_base_middle := 0, gdt_base_high := 0, gdt_limit_low := 0xFFFF,
      gdt_granularity := 0xCF, gdt_access := access\<rparr>)"
  by (simp add: flat_segment_def gdt_entry_base_def gdt_entry_bytes_def gdt_entry_limit_def)

lemma gdt_init_ok:
  assumes "length (gdt k) = 3"
  shows "\<exists>g. gdt_init env k = Some (k\<lparr>gdt_descriptor := \<lparr>gdt_limit = 23, gdt_base = gdt_address env\<rparr>, gdt := g,
      events := events k @ [Lgdt \<lparr>gdt_limit = 23, gdt_base = gdt_address env\<rparr>]\<rparr>) \<and>
    length g = 3 \<and> flat_segment 0x9A (g ! 1) \<and> flat_segment 0x92 (g ! 2)"
proof -
  have "gdt k \<noteq> []"
    using assms by auto
  then show ?thesis
    using assms
    by (intro exI [of _ "gdt (the (gdt_init env k))"])
      (simp add: gdt_init_def gdt_set_entry_def Let_def cpu_event_def flat_segment_entry)
qed

definition null_gate :: "idt_entry \<Rightarrow> bool" where
  "null_gate e \<longleftrightarrow> idt_entry_handler e = 0 \<and> idt_selector e = 8 \<and> idt_flags e = 0x8E"

lemma null_gate_entry:
  "null_gate (e\<lparr>idt_base_low := 0, idt_base_high := 0, idt_selector := 8, idt_zero := 0, idt_flags := 0x8E\<rparr>)"
  by (simp add: null_gate_def idt_entry_handler_def)

lemma idt_gates:
  assumes "length t = 256"
  shows "\<exists>t'. for_each (\<lambda>i. idt_set_gate (of_nat i) 0 0x08 0x8E) [0..<256] t = Some t' \<and>
    length t' = 256 \<and> (\<forall>i < 256. null_gate (t' ! i))"
proof (rule for_each_upt_invariant [where P = "\<lambda>i s. length s = 256 \<and> (\<forall>j < i. null_gate (s ! j))"])
  show "length t = 256 \<and> (\<forall>i < 0. null_gate (t ! i))"
    using assms by simp
next
  fix i and s :: "idt_entry list"
  assume i: "i < 256" and P: "length s = 256 \<and> (\<forall>j < i. null_gate (s ! j))"
  have "unat (of_nat i :: u8) = i"
    using i by (simp add: unat_of_nat)
  with i P show "\<exists>s'. idt_set_gate (of_nat i) 0 0x08 0x8E s = Some s' \<and>
      length s' = 256 \<and> (\<forall>j < Suc i. null_gate (s' ! j))"
    by (auto simp: idt_set_gate_def Let_def null_gate_entry nth_list_update less_Suc_eq)
qed

lemma idt_init_ok:
  assumes "length (idt k) = 256"
  shows "\<exists>t. idt_init env k = Some (k\<lparr>idt_descriptor := \<lparr>idt_limit = 2047, idt_base = idt_address env\<rparr>,
      idt := t, events := events k @ [Lidt \<lparr>idt_limit = 2047, idt_base = idt_address env\<rparr>]\<rparr>) \<and>
    length t = 256 \<and> (\<forall>i < 256. null_gate (t ! i))"
proof -
  obtain t where "for_each (\<lambda>i. idt_set_gate (of_nat i) 0 0x08 0x8E) [0..<256] (idt k) = Some t"
    "length t = 256" "\<forall>i < 256. null_gate (t ! i)"
    using idt_gates [OF assms] by blast
  then show ?thesis
    using assms by (auto simp: idt_init_def Let_def cpu_event_def IDT_ENTRIES_def)
qed

lemma pic_init_events: "\<exists>es. pic_init env k = k\<lparr>events := events k @ es\<rparr>"
  by (simp add: pic_init_def port_defs Let_def) (metis append.assoc append_Cons append_Nil)

lemma native_provider_init_ok:
  assumes "length (gdt k) = 3" "length (idt k) = 256"
  shows "\<exists>k'. native_provider_init env k = Some (0, k') \<and> tables_ready k' \<and>
    length (gdt k') = 3 \<and> length (idt k') = 256 \<and> (\<forall>i < 256. null_gate (idt k' ! i)) \<and>
    kterminal k' = kterminal k \<and> heap_current k' = heap_current k \<and> heap_end k' = heap_end k \<and>
    mem32 k' = mem32 k"
proof -
  obtain g where g: "gdt_init env k = Some (k\<lparr>gdt_descriptor := \<lparr>gdt_limit = 23, gdt_base = gdt_address env\<rparr>,
      gdt := g, events := events k @ [Lgdt \<lparr>gdt_limit = 23, gdt_base = gdt_address env\<rparr>]\<rparr>)"
    "length g = 3" "flat_segment 0x9A (g ! 1)" "flat_segment 0x92 (g ! 2)"
    using gdt_init_ok [OF assms(1)] by blast
  let ?k = "k\<lparr>gdt_descriptor := \<lparr>gdt_limit = 23, gdt_base = gdt_address env\<rparr>,
      gdt := g, events := events k @ [Lgdt \<lparr>gdt_limit = 23, gdt_base = gdt_address env\<rparr>]\<rparr>"
  obtain t where t: "idt_init env ?k = Some (?k\<lparr>idt_descriptor := \<lparr>idt_limit = 2047, idt_base = idt_address env\<rparr>,
      idt := t, events := events ?k @ [Lidt \<lparr>idt_limit = 2047, idt_base = idt_address env\<rparr>]\<rparr>)"
    "length t = 256" "\<forall>i < 256. null_gate (t ! i)"
    using idt_init_ok [of ?k env] assms(2) by auto
  let ?k2 = "?k\<lparr>idt_descriptor := \<lparr>idt_limit = 2047, idt_base = idt_address env\<rparr>,
      idt := t, events := events ?k @ [Lidt \<lparr>idt_limit = 2047, idt_base = idt_address env\<rparr>]\<rparr>"
  obtain es where "pic_init env ?k2 = ?k2\<lparr>events := events ?k2 @ es\<rparr>"
    using pic_init_events by blast
  then show ?thesis
    using g t by (simp add: native_provider_init_def tables_ready_def)
qed

lemma native_provider_start_ok:
  assumes "heap_inv k" "heap_current k < heap_end k"
  shows "\<exists>k'. native_provider_start k = (0, k') \<and> heap_inv k' \<and>
    mem32 k' = (mem32 k)(heap_current k := 0xDEADBEEF) \<and> kterminal k' = kterminal k \<and>
    idt k' = idt k \<and> gdt k' = gdt k \<and> gdt_descriptor k' = gdt_descriptor k \<and>
    idt_descriptor k' = idt_descriptor k \<and> active_provider k' = active_provider k"
proof -
  obtain a k1 where alloc: "native_alloc 4 k = (a, k1)"
    by (cases "native_alloc 4 k")
  have "unat (heap_current k) + 16 \<le> 0x200000"
  proof -
    have "unat (heap_current k) mod 16 = 0" "unat (heap_current k) < 0x200000"
      using assms by (simp_all add: heap_inv_def HEAP_START_def HEAP_SIZE_def word_less_nat_alt)
    then show ?thesis by presburger
  qed
  then have "a = heap_current k" "a \<noteq> 0" "heap_inv k1"
    using native_alloc_step [OF assms(1) _ alloc] by (auto split: if_splits)
  moreover from this alloc obtain h where "k1 = k\<lparr>heap_current := h\<rparr>"
    by (auto simp: native_alloc_def Let_def split: if_splits)
  ultimately show ?thesis
    using alloc by (auto simp: native_provider_start_def native_free_def heap_inv_def)
qed

section \<open>The kernel entry\<close>

lemma kprint_ok:
  assumes "console_inv (kterminal k)" "list_all (\<lambda>c. of_char c \<noteq> (0 :: u8)) s"
  shows "\<exists>t. kprint s k = Some (k\<lparr>kterminal := t\<rparr>) \<and> console_inv t"
  using console.put_all [OF assms(1), of "map of_char s"] assms(2)
  by (auto simp: kprint_def kterm_def terminal_write_cstr list_all_iff)

lemma clear_ok:
  assumes "length (vga (kterminal k)) = 2000"
  shows "\<exists>t. kterm terminal_clear k = Some (k\<lparr>kterminal := t\<rparr>) \<and> console_inv t"
  using clear_rows [OF assms]
  by (intro exI [of _ "the (terminal_clear (kterminal k))"])
    (simp add: kterm_def terminal_clear_def console_inv_def VGA_WIDTH_def VGA_HEIGHT_def)

definition kernel_strings :: "string list" where
  "kernel_strings =
    [''xnu++ platform\<newline>==============\<newline>version: 0.2.0\<newline>architecture: i386\<newline>provider architecture: XNU + native\<newline>\<newline>'',
     ''initializing provider...\<newline>'',
     ''provider: XNU\<newline>XNU provider: active\<newline>'',
     ''provider: native\<newline>XNU provider: unavailable\<newline>'',
     ''\<newline>starting provider...\<newline>'',
     ''provider started\<newline>xnu++ platform initialized\<newline>'',
     ''\<newline>\<newline>xnu++ KERNEL PANIC\<newline>'', ''\<newline>'', ''provider initialization failed'', ''provider start failed'']"

lemma kernel_strings_nonzero: "list_all (list_all (\<lambda>c. of_char c \<noteq> (0 :: u8))) kernel_strings"
  by code_simp

lemma kprint_then:
  assumes "console_inv (kterminal k)" "s \<in> set kernel_strings"
    and "\<And>t. console_inv t \<Longrightarrow> Q (f (k\<lparr>kterminal := t\<rparr>))"
  shows "Q (Option.bind (kprint s k) f)"
proof -
  have "list_all (\<lambda>c. of_char c \<noteq> (0 :: u8)) s"
    using kernel_strings_nonzero assms(2) by (auto simp: list_all_iff)
  then obtain t where "kprint s k = Some (k\<lparr>kterminal := t\<rparr>)" "console_inv t"
    using kprint_ok [OF assms(1)] by blast
  then show ?thesis
    using assms(3) by simp
qed

lemma clear_then:
  assumes "length (vga (kterminal k)) = 2000"
    and "\<And>t. console_inv t \<Longrightarrow> Q (f (k\<lparr>kterminal := t\<rparr>))"
  shows "Q (Option.bind (kterm terminal_clear k) f)"
  using clear_ok [OF assms(1)] assms(2) by auto

definition native_up :: "native_kernel \<Rightarrow> (kernel_loop \<times> native_kernel) option \<Rightarrow> bool" where
  "native_up k0 x \<longleftrightarrow>
     (\<exists>k'. x = Some (NativeConsole, k') \<and> console_inv (kterminal k') \<and>
        active_provider k' = XNUXX_PROVIDER_NATIVE \<and> tables_ready k' \<and>
        (\<forall>v < 256. null_gate (idt k' ! v)) \<and> last (events k') = Sti \<and>
        mem32 k' = (mem32 k0)(heap_current k0 := 0xDEADBEEF))"

lemma kernel_start_native:
  assumes "console_inv (kterminal k)" "heap_inv k" "heap_current k < heap_end k" "tables_ready k"
    "\<forall>i < 256. null_gate (idt k ! i)" "active_provider k = XNUXX_PROVIDER_NATIVE"
  shows "native_up k (kernel_start env k)"
proof -
  have native: "active_provider k \<noteq> XNUXX_PROVIDER_XNU"
    using assms(6) by simp
  have strings: "''provider: native\<newline>XNU provider: unavailable\<newline>'' \<in> set kernel_strings"
      "''\<newline>starting provider...\<newline>'' \<in> set kernel_strings"
      "''provider started\<newline>xnu++ platform initialized\<newline>'' \<in> set kernel_strings"
    by (simp_all add: kernel_strings_def)
  show ?thesis
    unfolding kernel_start_def if_not_P [OF native]
  proof (rule kprint_then [OF assms(1) strings(1)], rule kprint_then [OF _ strings(2)], simp, goal_cases)
    case (1 t1 t2)
    let ?k = "k\<lparr>kterminal := t1, kterminal := t2\<rparr>"
    obtain k' where k': "native_provider_start ?k = (0, k')"
      "mem32 k' = (mem32 k)(heap_current k := 0xDEADBEEF)" "kterminal k' = t2" "idt k' = idt k" "gdt k' = gdt k"
      "gdt_descriptor k' = gdt_descriptor k" "idt_descriptor k' = idt_descriptor k"
      "active_provider k' = active_provider k"
      using native_provider_start_ok [of ?k] assms(2,3) by (auto simp: heap_inv_def)
    have "native_up k (Option.bind (kprint ''provider started\<newline>xnu++ platform initialized\<newline>'' k')
        (\<lambda>k. if active_provider k = XNUXX_PROVIDER_XNU
          then Some (if xnuxx_xnu_provider_idle env \<noteq> None then XnuIdle else XnuHalt, k)
          else Some (NativeConsole, cpu_sti k)))"
      by (rule kprint_then [OF _ strings(3)])
        (use 1 k' assms in \<open>auto simp: native_up_def cpu_sti_def cpu_event_def tables_ready_def\<close>)
    then show ?case
      using k' assms(6) by (simp add: provider_start_def)
  qed
qed

text \<open>C38. Without an XNU provider in the image the native kernel comes up: from the initial machine
  state \<open>kernel_main\<close> runs to its console loop without any store outside the video memory or the
  descriptor tables, the native provider is active, the code and data segments are flat over four
  gigabytes, the heap self-test has stored its pattern in the first heap word.  At that point
  interrupts have just been enabled while every one of the 256 vectors is a present gate to address
  zero, so the first interrupt jumps to address 0.\<close>

theorem kernel_main_native_boot:
  assumes "platform_inv k" "heap_current k < heap_end k" "xnuxx_xnu_provider_available env = None"
  shows "native_up k (kernel_main env k)"
proof -
  have strings: "''xnu++ platform\<newline>==============\<newline>version: 0.2.0\<newline>architecture: i386\<newline>provider architecture: XNU + native\<newline>\<newline>'' \<in> set kernel_strings"
      "''initializing provider...\<newline>'' \<in> set kernel_strings"
    by (simp_all add: kernel_strings_def)
  show ?thesis
    unfolding kernel_main_def
  proof (rule clear_then, goal_cases)
    case 1
    show ?case using assms(1) by (simp add: platform_inv_def)
  next
    case (2 t0)
    show ?case
    proof (rule kprint_then [OF _ strings(1)], use 2 in simp, rule kprint_then [OF _ strings(2)], simp, goal_cases)
      case (1 t1 t2)
      let ?k = "k\<lparr>kterminal := t2\<rparr>"
      obtain k2 where k2: "native_provider_init env ?k = Some (0, k2)" "tables_ready k2"
        "\<forall>i < 256. null_gate (idt k2 ! i)" "kterminal k2 = t2"
        "heap_current k2 = heap_current k" "heap_end k2 = heap_end k" "mem32 k2 = mem32 k"
        using native_provider_init_ok [of ?k env] assms(1)
        by (auto simp: platform_inv_def IDT_ENTRIES_def)
      have "native_up (k2\<lparr>active_provider := XNUXX_PROVIDER_NATIVE\<rparr>)
          (kernel_start env (k2\<lparr>active_provider := XNUXX_PROVIDER_NATIVE\<rparr>))"
        by (rule kernel_start_native)
          (use 1 k2 assms in \<open>auto simp: platform_inv_def heap_inv_def tables_ready_def\<close>)
      then show ?case
        using k2 assms(3)
        by (simp add: provider_init_def xnu_provider_available_def native_up_def)
    qed
  qed
qed

definition sample_env :: kernel_env where
  "sample_env =
     \<lparr> device = (\<lambda>h port. 0xFF), gdt_address = 0x3000, idt_address = 0x4000,
       xnuxx_xnu_provider_available = None, xnuxx_xnu_provider_init = None,
       xnuxx_xnu_provider_start = None, xnuxx_xnu_provider_idle = None \<rparr>"

theorem kernel_main_native_boot_witness:
  "native_up sample_kernel (kernel_main sample_env sample_kernel)"
proof (rule kernel_main_native_boot)
  show "platform_inv sample_kernel"
    using sample_heap by (simp add: platform_inv_def) (simp add: sample_kernel_def IDT_ENTRIES_def)
qed (simp_all add: sample_kernel_def sample_env_def HEAP_START_def HEAP_SIZE_def)

fun native_loop :: "kernel_env \<Rightarrow> u8 \<Rightarrow> nat \<Rightarrow> native_kernel \<Rightarrow> native_kernel option" where
  "native_loop env character 0 k = Some k"
| "native_loop env character (Suc n) k = do {
     k \<leftarrow> kernel_loop_step env NativeConsole character k;
     native_loop env character n k
   }"

definition same_platform :: "native_kernel \<Rightarrow> native_kernel \<Rightarrow> bool" where
  "same_platform k k' \<longleftrightarrow> k' = k\<lparr>kterminal := kterminal k', events := events k'\<rparr>"

lemma same_platform_trans: "same_platform k k' \<Longrightarrow> same_platform k' k'' \<Longrightarrow> same_platform k k''"
  unfolding same_platform_def by (cases k; cases k'; cases k'') simp

lemma keyboard_read_frame:
  "keyboard_read env (Some c) k = ((rc, c'), k') \<Longrightarrow> same_platform k k' \<and> kterminal k' = kterminal k"
  by (cases k) (auto simp: keyboard_read_def inb_def cpu_event_def Let_def same_platform_def
      split: if_splits prod.splits)

lemma native_step_ok:
  assumes "console_inv (kterminal k)"
  shows "\<exists>k'. kernel_loop_step env NativeConsole c k = Some k' \<and> console_inv (kterminal k') \<and> same_platform k k'"
proof -
  obtain rc c' k1 where r: "keyboard_read env (Some c) k = ((rc, c'), k1)"
    by (metis surj_pair)
  note k1 = keyboard_read_frame [OF r]
  obtain t where t: "terminal_putchar (the c') (kterminal k1) = Some t" "console_inv t"
    using console.put_draws [of "kterminal k1"] assms k1 by auto
  have "same_platform k1 (k1\<lparr>kterminal := t, events := es\<rparr>)" "same_platform k1 (k1\<lparr>events := es\<rparr>)" for es
    by (cases k1; simp add: same_platform_def)+
  then show ?thesis
    using assms r k1 t
    by (auto simp: kernel_loop_step_def kterm_def cpu_hlt_def cpu_event_def intro: same_platform_trans)
qed



end
