(* ===== verification/Sysv_Ipc.thy ===== *)
theory Sysv_Ipc
  imports Xnu_Prelude
begin

text \<open>
  What the System V IPC facilities share: error numbers, the permission structure and the
  identifier macros of \<^verbatim>\<open>src/bsd/sys/ipc.h\<close>, and the access check \<open>ipcperm\<close> of
  \<^verbatim>\<open>src/bsd/kern/sysv_ipc.c\<close>.  A credential is what the kernel's credential functions
  return for it.
\<close>

section \<open>Error numbers\<close>

definition EPERM :: int where "EPERM = 1"
definition ENOENT :: int where "ENOENT = 2"
definition EINTR :: int where "EINTR = 4"
definition E2BIG :: int where "E2BIG = 7"
definition ENOMEM :: int where "ENOMEM = 12"
definition EACCES :: int where "EACCES = 13"
definition EEXIST :: int where "EEXIST = 17"
definition EINVAL :: int where "EINVAL = 22"
definition EFBIG :: int where "EFBIG = 27"
definition ENOSPC :: int where "ENOSPC = 28"
definition ERANGE :: int where "ERANGE = 34"
definition EAGAIN :: int where "EAGAIN = 35"
definition EIDRM :: int where "EIDRM = 90"
definition ENOMSG :: int where "ENOMSG = 91"

lemmas errno_defs = EPERM_def ENOENT_def EINTR_def E2BIG_def ENOMEM_def EACCES_def EEXIST_def EINVAL_def
  EFBIG_def ENOSPC_def ERANGE_def EAGAIN_def EIDRM_def ENOMSG_def

section \<open>Permissions\<close>

record ipc_perm =
  ipc_uid :: u32
  ipc_gid :: u32
  ipc_cuid :: u32
  ipc_cgid :: u32
  ipc_mode :: u16
  ipc_seq :: u16
  ipc_key :: int

definition IPC_CREAT :: u32 where "IPC_CREAT = 0x200"
definition IPC_EXCL :: u32 where "IPC_EXCL = 0x400"
definition IPC_NOWAIT :: u32 where "IPC_NOWAIT = 0x800"
definition IPC_PRIVATE :: int where "IPC_PRIVATE = 0"
definition IPC_RMID :: int where "IPC_RMID = 0"
definition IPC_SET :: int where "IPC_SET = 1"
definition IPC_STAT :: int where "IPC_STAT = 2"
definition IPC_R :: u32 where "IPC_R = 0x100"
definition IPC_W :: u32 where "IPC_W = 0x80"
definition IPC_M :: u32 where "IPC_M = 0x1000"

text \<open>\<open>suser\<close> and \<open>kauth_cred_ismember_gid\<close> return an error number; the latter also stores the
  membership flag.\<close>

record cred =
  kauth_cred_getuid :: u32
  kauth_cred_getgid :: u32
  suser :: int
  kauth_cred_ismember_gid :: "u32 \<Rightarrow> int \<times> bool"

definition cred_member :: "cred \<Rightarrow> u32 \<Rightarrow> bool" where
  "cred_member c g = (case kauth_cred_ismember_gid c g of (err, is_member) \<Rightarrow> err = 0 \<and> is_member)"

definition ipcperm :: "cred \<Rightarrow> ipc_perm \<Rightarrow> u32 \<Rightarrow> int" where
  "ipcperm cred perm mode_req =
     (let uid = kauth_cred_getuid cred;
          want_mod_controlinfo = mode_req AND IPC_M;
          mode_owner = ucast (ipc_mode perm) AND 0x1C0;
          mode_group = push_bit 3 (ucast (ipc_mode perm) AND 0x38);
          mode_world = push_bit 6 (ucast (ipc_mode perm) AND 0x7)
      in if suser cred = 0 then 0
         else if uid = ipc_cuid perm \<or> uid = ipc_uid perm then
           (if want_mod_controlinfo \<noteq> 0 then 0
            else if mode_req AND mode_owner = mode_req then 0 else EACCES)
         else if want_mod_controlinfo \<noteq> 0 then EPERM
         else if (mode_req AND mode_group) AND mode_world = mode_req then 0
         else if mode_req AND mode_group \<noteq> mode_req then
           (if cred_member cred (ipc_gid perm) \<and>
               (ipc_gid perm = ipc_cgid perm \<or> cred_member cred (ipc_cgid perm)) then EACCES
            else if mode_req AND mode_world \<noteq> mode_req then EACCES else 0)
         else
           (if cred_member cred (ipc_gid perm) \<or>
               (ipc_gid perm \<noteq> ipc_cgid perm \<and> cred_member cred (ipc_cgid perm)) then 0
            else if mode_req AND mode_world \<noteq> mode_req then EACCES else 0))"

text \<open>The command structure of the \<open>ipcs\<close> interfaces.\<close>

record ipcs_command =
  ipcs_magic :: int
  ipcs_op :: int
  ipcs_cursor :: int
  ipcs_datalen :: int
  ipcs_data :: u64

definition IPCS_MAGIC :: int where "IPCS_MAGIC = 1"

section \<open>Identifiers\<close>

definition IPCID_TO_IX :: "int \<Rightarrow> int" where
  "IPCID_TO_IX i = i AND 0xffff"

definition IPCID_TO_SEQ :: "int \<Rightarrow> int" where
  "IPCID_TO_SEQ i = drop_bit 16 i AND 0xffff"

definition IXSEQ_TO_IPCID :: "int \<Rightarrow> ipc_perm \<Rightarrow> int" where
  "IXSEQ_TO_IPCID ix perm = push_bit 16 (uint (ipc_seq perm)) OR (ix AND 0xffff)"

text \<open>Identifiers round-trip: the identifier built from a table index and a sequence number
  decodes to the low sixteen bits of the index and to the sequence number.\<close>

theorem ipcid_roundtrip:
  "IPCID_TO_IX (IXSEQ_TO_IPCID ix perm) = ix mod 65536 \<and>
   IPCID_TO_SEQ (IXSEQ_TO_IPCID ix perm) = uint (ipc_seq perm)"
proof -
  have mask: "(0xffff :: int) = mask 16"
    by (simp add: mask_eq_exp_minus_1)
  have "IPCID_TO_IX (IXSEQ_TO_IPCID ix perm) = take_bit 16 ix"
    unfolding IPCID_TO_IX_def IXSEQ_TO_IPCID_def mask
    by (rule bit_eqI) (auto simp: bit_simps)
  moreover have "IPCID_TO_SEQ (IXSEQ_TO_IPCID ix perm) = take_bit 16 (uint (ipc_seq perm))"
    unfolding IPCID_TO_SEQ_def IXSEQ_TO_IPCID_def mask
    by (rule bit_eqI) (auto simp: bit_simps)
  moreover have "take_bit 16 (uint (ipc_seq perm)) = uint (ipc_seq perm)"
    by (rule take_bit_int_eq_self) (simp_all add: unsigned_less [where 'b = 16, simplified])
  ultimately show ?thesis
    by (simp add: take_bit_eq_mod)
qed

text \<open>The rights the mode grants to the group and to everybody, moved to the owner's position.\<close>

definition ipc_group_mode :: "ipc_perm \<Rightarrow> u32" where
  "ipc_group_mode perm = push_bit 3 (ucast (ipc_mode perm) AND 0x38)"

definition ipc_world_mode :: "ipc_perm \<Rightarrow> u32" where
  "ipc_world_mode perm = push_bit 6 (ucast (ipc_mode perm) AND 0x7)"

text \<open>C40. The access decision: the superuser is always granted; control rights (\<open>IPC_M\<close>) belong to
  the owner and the creator only, anybody else gets EPERM; the owner and the creator are judged by
  the owner bits alone; for anybody else read and write rights are granted if the group bits allow
  them and the caller is a member of the owning or the creating group, or if the world bits allow
  them and it is not the case that the group bits forbid them to a caller who is in both groups.
  Every other request gets EACCES.\<close>

theorem ipcperm_decision:
  "ipcperm cred perm req =
    (if suser cred = 0 then 0
     else if kauth_cred_getuid cred \<in> {ipc_uid perm, ipc_cuid perm} then
       (if bit req 12 \<or> req AND (ucast (ipc_mode perm) AND 0x1C0) = req then 0 else EACCES)
     else if bit req 12 then EPERM
     else if (req AND ipc_group_mode perm = req \<and>
              (cred_member cred (ipc_gid perm) \<or> cred_member cred (ipc_cgid perm))) \<or>
             (req AND ipc_world_mode perm = req \<and>
              \<not> (req AND ipc_group_mode perm \<noteq> req \<and>
                 cred_member cred (ipc_gid perm) \<and> cred_member cred (ipc_cgid perm))) then 0
     else EACCES)"
proof -
  define G W where "G \<longleftrightarrow> req AND ipc_group_mode perm = req" and "W \<longleftrightarrow> req AND ipc_world_mode perm = req"
  have M: "(req AND IPC_M \<noteq> 0) = bit req 12"
    using and_push_bit_1_eq_0 [of req 12] by (simp add: IPC_M_def)
  have GW: "((req AND ipc_group_mode perm) AND ipc_world_mode perm = req) = (G \<and> W)"
    unfolding G_def W_def by (simp only: bit_eq_iff bit_and_iff) blast
  show ?thesis
    unfolding ipcperm_def Let_def ipc_group_mode_def [symmetric] ipc_world_mode_def [symmetric] GW M
      G_def [symmetric] W_def [symmetric]
    by (cases "ipc_gid perm = ipc_cgid perm"; cases G; cases W) auto
qed

end
