(* ===== verification/Sysv_Sem.thy ===== *)
theory Sysv_Sem
  imports Sysv_Ipc
begin

text \<open>
  System V semaphores: \<^verbatim>\<open>src/bsd/kern/sysv_sem.c\<close> with the structures of
  \<^verbatim>\<open>src/bsd/sys/sem.h\<close> and \<^verbatim>\<open>src/bsd/sys/sem_internal.h\<close>.  The subsystem state
  is one record; every system call runs under the subsystem lock, except that \<open>semop\<close> releases it
  while it sleeps, so a sleeping call is split into the part before and the part after the sleep.
  Pointers into the semaphore pool are indices into it, undo entries form a list per structure, and
  the active undo structures are linked by index as in the source.  The result \<open>None\<close> is a kernel
  crash: a call of \<open>panic\<close>, a null pointer or an access outside an array.  What the rest of the
  kernel answers (credentials, policy hooks, user memory, allocation, time) is an environment
  record.
\<close>

section \<open>Data\<close>

record sem =
  semval :: u16
  sempid :: int
  semncnt :: u16
  semzcnt :: u16

record sembuf =
  sem_num :: u16
  sem_op :: u16
  sem_flg :: u16

record seminfo =
  semmap :: int
  semmni :: int
  semmns :: int
  semmnu :: int
  semmsl :: int
  semopm :: int
  semume :: int
  semusz :: int
  semvmx :: int
  semaem :: int

record user_semid_ds =
  sem_perm :: ipc_perm
  sem_base :: nat
  sem_nsems :: u16
  sem_otime :: int
  sem_ctime :: int

record undo =
  une_adjval :: u16
  une_num :: u16
  une_id :: int

record sem_undo =
  un_next_idx :: int
  un_proc :: "nat option"
  un_cnt :: nat
  un_ent :: "undo list"

text \<open>The structure that crosses the user boundary, for both pointer sizes; \<open>ds_base\<close> is the
  truncated pointer.\<close>

record ext_semid_ds =
  ds_perm :: ipc_perm
  ds_base :: int
  ds_nsems :: u16
  ds_otime :: int
  ds_ctime :: int

definition SEM_ALLOC :: u16 where "SEM_ALLOC = 0x200"
definition SEM_UNDO :: u16 where "SEM_UNDO = 0x1000"
definition SEM_NOWAIT :: u16 where "SEM_NOWAIT = 0x800"
definition SEM_A :: u32 where "SEM_A = 0x80"
definition SEM_R :: u32 where "SEM_R = 0x100"
definition SEMVMX :: int where "SEMVMX = 32767"
definition SEMAEM :: int where "SEMAEM = 16384"
definition SEMMNI_INC :: nat where "SEMMNI_INC = 32"
definition SEMMNS_INC :: int where "SEMMNS_INC = 64"
definition SEMMNU_INC :: int where "SEMMNU_INC = 32"
definition SEMMNS :: int where "SEMMNS = 1048576 div 12"
definition SEMMNI :: int where "SEMMNI = SEMMNS"
definition SEMMNU :: int where "SEMMNU = SEMMNS"
definition SEMMSL :: int where "SEMMSL = SEMMNS"
definition SEMUME :: int where "SEMUME = 10"
definition SEMOPM :: int where "SEMOPM = 5"
definition SEMMAP :: int where "SEMMAP = 30"
definition SEMUSZ :: int where "SEMUSZ = 32"

definition init_limitseminfo :: seminfo where
  "init_limitseminfo =
     \<lparr> semmap = SEMMAP, semmni = SEMMNI, semmns = SEMMNS, semmnu = SEMMNU, semmsl = SEMMSL,
       semopm = SEMOPM, semume = SEMUME, semusz = SEMUSZ, semvmx = SEMVMX, semaem = SEMAEM \<rparr>"

definition init_seminfo :: seminfo where
  "init_seminfo =
     \<lparr> semmap = SEMMAP, semmni = 0, semmns = 0, semmnu = 0, semmsl = SEMMSL,
       semopm = SEMOPM, semume = SEMUME, semusz = SEMUSZ, semvmx = SEMVMX, semaem = SEMAEM \<rparr>"

text \<open>The identifier table is an array of blocks of 32 entries; a null pool or array is the empty
  list.  \<open>woken\<close> logs the channels passed to \<open>wakeup\<close> and \<open>user_out\<close> what has been copied out to
  user addresses.\<close>

datatype sem_out = OutDs ext_semid_ds | OutShort u16 | OutInfo seminfo

record sem_state =
  limitseminfo :: seminfo
  seminfo :: seminfo
  semtot :: int
  semas :: "user_semid_ds list list"
  sem_pool :: "sem list"
  semu_list_idx :: int
  semu :: "sem_undo list"
  woken :: "int list"
  user_out :: "(u64 \<times> sem_out) list"

definition sem_boot_state :: sem_state where
  "sem_boot_state =
     \<lparr> limitseminfo = init_limitseminfo, seminfo = init_seminfo, semtot = 0, semas = [], sem_pool = [],
       semu_list_idx = - 1, semu = [], woken = [], user_out = [] \<rparr>"

record sem_env =
  env_proc :: nat
  env_pid :: int
  env_cred :: cred
  env_is64 :: bool
  env_time :: int
  env_pool_addr :: int
  env_realloc :: bool
  mac_sysvsem_check_semctl :: "user_semid_ds \<Rightarrow> int \<Rightarrow> int"
  mac_sysvsem_check_semget :: "user_semid_ds \<Rightarrow> int"
  mac_sysvsem_check_semop :: "user_semid_ds \<Rightarrow> u32 \<Rightarrow> int"
  copyin_ds :: "u64 \<Rightarrow> int \<times> ext_semid_ds"
  copyin_short :: "u64 \<Rightarrow> int \<times> u16"
  copyout :: "u64 \<Rightarrow> int"
  copyin_sops :: "u64 \<Rightarrow> nat \<Rightarrow> int \<times> sembuf list"

section \<open>Access to the tables\<close>

definition zero_perm :: ipc_perm where
  "zero_perm = \<lparr>ipc_uid = 0, ipc_gid = 0, ipc_cuid = 0, ipc_cgid = 0, ipc_mode = 0, ipc_seq = 0, ipc_key = 0\<rparr>"

definition zero_semid :: user_semid_ds where
  "zero_semid = \<lparr>sem_perm = zero_perm, sem_base = 0, sem_nsems = 0, sem_otime = 0, sem_ctime = 0\<rparr>"

definition zero_sem :: sem where
  "zero_sem = \<lparr>semval = 0, sempid = 0, semncnt = 0, semzcnt = 0\<rparr>"

definition zero_undo :: sem_undo where
  "zero_undo = \<lparr>un_next_idx = 0, un_proc = None, un_cnt = 0, un_ent = []\<rparr>"

definition sem_allocated :: "user_semid_ds \<Rightarrow> bool" where
  "sem_allocated k \<longleftrightarrow> ipc_mode (sem_perm k) AND SEM_ALLOC \<noteq> 0"

definition sema_get_by_id :: "nat \<Rightarrow> sem_state \<Rightarrow> user_semid_ds option" where
  "sema_get_by_id i s =
     (if i div SEMMNI_INC < length (semas s) \<and> i mod SEMMNI_INC < length (semas s ! (i div SEMMNI_INC))
      then Some (semas s ! (i div SEMMNI_INC) ! (i mod SEMMNI_INC)) else None)"

definition sema_update :: "nat \<Rightarrow> (user_semid_ds \<Rightarrow> user_semid_ds) \<Rightarrow> sem_state \<Rightarrow> sem_state" where
  "sema_update i f s =
     s\<lparr>semas := (semas s)[i div SEMMNI_INC :=
         (semas s ! (i div SEMMNI_INC))[i mod SEMMNI_INC :=
           f (semas s ! (i div SEMMNI_INC) ! (i mod SEMMNI_INC))]]\<rparr>"

text \<open>The element \<open>sem_base[n]\<close> of a set.\<close>

definition sem_load :: "user_semid_ds \<Rightarrow> int \<Rightarrow> sem_state \<Rightarrow> sem option" where
  "sem_load k n s =
     (let i = int (sem_base k) + n
      in if 0 \<le> i \<and> nat i < length (sem_pool s) then Some (sem_pool s ! nat i) else None)"

definition sem_modify :: "user_semid_ds \<Rightarrow> int \<Rightarrow> (sem \<Rightarrow> sem) \<Rightarrow> sem_state \<Rightarrow> sem_state option" where
  "sem_modify k n f s = do {
     x \<leftarrow> sem_load k n s;
     Some (s\<lparr>sem_pool := (sem_pool s)[nat (int (sem_base k) + n) := f x]\<rparr>)
   }"

definition sem_wakeup :: "int \<Rightarrow> sem_state \<Rightarrow> sem_state" where
  "sem_wakeup semid s = s\<lparr>woken := woken s @ [semid]\<rparr>"

section \<open>User-visible structure\<close>

definition semid_ds_kernelto32 :: "int \<Rightarrow> user_semid_ds \<Rightarrow> ext_semid_ds" where
  "semid_ds_kernelto32 pool_addr k =
     \<lparr> ds_perm = sem_perm k, ds_base = signed_take_bit 31 (pool_addr + 12 * int (sem_base k)),
       ds_nsems = sem_nsems k, ds_otime = signed_take_bit 31 (sem_otime k),
       ds_ctime = signed_take_bit 31 (sem_ctime k) \<rparr>"

definition semid_ds_kernelto64 :: "int \<Rightarrow> user_semid_ds \<Rightarrow> ext_semid_ds" where
  "semid_ds_kernelto64 pool_addr k =
     \<lparr> ds_perm = sem_perm k, ds_base = signed_take_bit 31 (pool_addr + 12 * int (sem_base k)),
       ds_nsems = sem_nsems k, ds_otime = sem_otime k, ds_ctime = sem_ctime k \<rparr>"

definition semid_ds_32tokernel :: "ext_semid_ds \<Rightarrow> ext_semid_ds" where
  "semid_ds_32tokernel d =
     \<lparr> ds_perm = ds_perm d, ds_base = ds_base d, ds_nsems = ds_nsems d, ds_otime = ds_otime d,
       ds_ctime = ds_ctime d \<rparr>"

definition semid_ds_64tokernel :: "ext_semid_ds \<Rightarrow> ext_semid_ds" where
  "semid_ds_64tokernel d =
     \<lparr> ds_perm = ds_perm d, ds_base = ds_base d, ds_nsems = ds_nsems d, ds_otime = ds_otime d,
       ds_ctime = ds_ctime d \<rparr>"

section \<open>Growing the tables\<close>

definition grow_semu_array :: "sem_env \<Rightarrow> sem_state \<Rightarrow> bool \<times> sem_state" where
  "grow_semu_array env s =
     (let old_size = semmnu (seminfo s) in
        if old_size \<ge> semmnu (limitseminfo s) then (False, s)
        else
          let new_size = min ((old_size + 1 + (SEMMNU_INC - 1)) div SEMMNU_INC * SEMMNU_INC)
                             (semmnu (limitseminfo s))
          in if \<not> env_realloc env then (False, s)
             else (True, s\<lparr>semu := semu s @ replicate (nat (new_size - old_size)) zero_undo,
                           seminfo := (seminfo s)\<lparr>semmnu := new_size\<rparr>\<rparr>))"

definition grow_sema_array :: "sem_env \<Rightarrow> sem_state \<Rightarrow> bool \<times> sem_state" where
  "grow_sema_array env s =
     (let old_size = semmni (seminfo s) in
        if old_size \<ge> semmni (limitseminfo s) then (False, s)
        else if \<not> env_realloc env then (False, s)
        else (True, s\<lparr>semas := semas s @ [replicate SEMMNI_INC zero_semid],
                      seminfo := (seminfo s)\<lparr>semmni := old_size + int SEMMNI_INC\<rparr>\<rparr>))"

text \<open>With indices for pointers, rebasing \<open>sem_base\<close> on the moved pool is the identity.\<close>

definition grow_sem_pool :: "sem_env \<Rightarrow> int \<Rightarrow> sem_state \<Rightarrow> bool \<times> sem_state" where
  "grow_sem_pool env new_pool_size s =
     (if new_pool_size < semtot s then (False, s)
      else if new_pool_size > semmns (limitseminfo s) then (False, s)
      else
        let new_pool_size = (new_pool_size div SEMMNS_INC + 1) * SEMMNS_INC;
            new_pool_size = (if new_pool_size > semmns (limitseminfo s)
                             then semmns (limitseminfo s) else new_pool_size)
        in if \<not> env_realloc env then (False, s)
           else (True, s\<lparr>sem_pool := take (nat new_pool_size) (sem_pool s) @
                                    replicate (nat (new_pool_size - semmns (seminfo s))) zero_sem,
                         seminfo := (seminfo s)\<lparr>semmns := new_pool_size\<rparr>\<rparr>))"

section \<open>Undo structures\<close>

text \<open>The cell that holds the index of the next active structure: the list head for \<open>-1\<close>, the
  \<open>un_next_idx\<close> field of a structure otherwise.\<close>

definition semu_cell :: "int \<Rightarrow> sem_state \<Rightarrow> int" where
  "semu_cell prev s = (if prev = - 1 then semu_list_idx s else un_next_idx (semu s ! nat prev))"

definition set_semu_cell :: "int \<Rightarrow> int \<Rightarrow> sem_state \<Rightarrow> sem_state" where
  "set_semu_cell prev v s =
     (if prev = - 1 then s\<lparr>semu_list_idx := v\<rparr>
      else s\<lparr>semu := (semu s)[nat prev := (semu s ! nat prev)\<lparr>un_next_idx := v\<rparr>]\<rparr>)"

definition semu_modify :: "int \<Rightarrow> (sem_undo \<Rightarrow> sem_undo) \<Rightarrow> sem_state \<Rightarrow> sem_state" where
  "semu_modify i f s = s\<lparr>semu := (semu s)[nat i := f (semu s ! nat i)]\<rparr>"

definition semu_valid :: "int \<Rightarrow> sem_state \<Rightarrow> bool" where
  "semu_valid i s \<longleftrightarrow> 0 \<le> i \<and> nat i < length (semu s)"

text \<open>The purge loop of \<open>semu_alloc\<close>: unlink and free the structures without entries.  The fuel
  bounds the number of list steps by the number of structures.\<close>

fun semu_purge :: "nat \<Rightarrow> int \<Rightarrow> bool \<Rightarrow> sem_state \<Rightarrow> (bool \<times> sem_state) option" where
  "semu_purge 0 prev did s = None"
| "semu_purge (Suc fuel) prev did s =
     (let cur = semu_cell prev s in
        if cur = - 1 then Some (did, s)
        else if \<not> semu_valid cur s then None
        else if un_cnt (semu s ! nat cur) = 0 then
          let s = semu_modify cur (\<lambda>u. u\<lparr>un_proc := None\<rparr>) s;
              s = set_semu_cell prev (un_next_idx (semu s ! nat cur)) s
          in semu_purge fuel prev True s
        else semu_purge fuel cur did s)"

fun semu_find_free :: "nat \<Rightarrow> sem_undo list \<Rightarrow> nat option" where
  "semu_find_free i [] = None"
| "semu_find_free i (u # us) = (if un_proc u = None then Some i else semu_find_free (Suc i) us)"

definition semu_take :: "nat \<Rightarrow> nat \<Rightarrow> sem_state \<Rightarrow> sem_state" where
  "semu_take p i s =
     s\<lparr>semu := (semu s)[i := \<lparr>un_next_idx = semu_list_idx s, un_proc = Some p, un_cnt = 0, un_ent = []\<rparr>],
       semu_list_idx := int i\<rparr>"

definition semu_alloc :: "sem_env \<Rightarrow> nat \<Rightarrow> sem_state \<Rightarrow> (int \<times> sem_state) option" where
  "semu_alloc env p s =
     (case semu_find_free 0 (take (nat (semmnu (seminfo s))) (semu s)) of
        Some i \<Rightarrow> Some (int i, semu_take p i s)
      | None \<Rightarrow> do {
          (did_something, s) \<leftarrow> semu_purge (Suc (length (semu s))) (- 1) False s;
          let (grown, s) = (if did_something then (True, s) else grow_semu_array env s);
          if \<not> grown then Some (- 1, s)
          else case semu_find_free 0 (take (nat (semmnu (seminfo s))) (semu s)) of
            Some i \<Rightarrow> Some (int i, semu_take p i s)
          | None \<Rightarrow> None
        })"

fun semu_find :: "nat \<Rightarrow> nat \<Rightarrow> int \<Rightarrow> sem_state \<Rightarrow> int option" where
  "semu_find 0 p i s = None"
| "semu_find (Suc fuel) p i s =
     (if i = - 1 then Some (- 1)
      else if \<not> semu_valid i s then None
      else if un_proc (semu s ! nat i) = Some p then Some i
      else semu_find fuel p (un_next_idx (semu s ! nat i)) s)"

text \<open>The search of \<open>semundo_adjust\<close> through the first \<open>n\<close> entries of a structure; the result says
  whether the entry was found, and the list and the count afterwards.\<close>

fun undo_adjust_loop ::
  "nat \<Rightarrow> int \<Rightarrow> int \<Rightarrow> int \<Rightarrow> undo list \<Rightarrow> (bool \<times> bool \<times> undo list) option" where
  "undo_adjust_loop 0 semid semnum adjval es = Some (False, False, es)"
| "undo_adjust_loop (Suc n) semid semnum adjval [] = None"
| "undo_adjust_loop (Suc n) semid semnum adjval (e # es) =
     (if une_id e \<noteq> semid \<or> sint (une_num e) \<noteq> semnum then do {
        (found, removed, es) \<leftarrow> undo_adjust_loop n semid semnum adjval es;
        Some (found, removed, e # es)
      }
      else
        let e = e\<lparr>une_adjval := (if adjval = 0 then 0 else une_adjval e + word_of_int adjval)\<rparr>
        in if une_adjval e = 0 then Some (True, True, es) else Some (True, False, e # es))"

definition undo_entry_adjust ::
  "int \<Rightarrow> int \<Rightarrow> int \<Rightarrow> int \<Rightarrow> sem_state \<Rightarrow> (int \<times> sem_state) option" where
  "undo_entry_adjust suidx semid semnum adjval s =
     (let u = semu s ! nat suidx in do {
        (found, removed, es) \<leftarrow> undo_adjust_loop (un_cnt u) semid semnum adjval (un_ent u);
        if found then
          Some (0, semu_modify suidx
            (\<lambda>u. u\<lparr>un_ent := es, un_cnt := (if removed then un_cnt u - 1 else un_cnt u)\<rparr>) s)
        else if adjval = 0 then Some (0, s)
        else if int (un_cnt u) = semume (limitseminfo s) then Some (EINVAL, s)
        else Some (0, semu_modify suidx
          (\<lambda>u. u\<lparr>un_ent := \<lparr>une_adjval = word_of_int adjval, une_num = word_of_int semnum, une_id = semid\<rparr> #
                              un_ent u,
                 un_cnt := un_cnt u + 1\<rparr>) s)
      })"

definition semundo_adjust ::
  "sem_env \<Rightarrow> nat \<Rightarrow> int \<Rightarrow> int \<Rightarrow> int \<Rightarrow> int \<Rightarrow> sem_state \<Rightarrow> (int \<times> int \<times> sem_state) option" where
  "semundo_adjust env p supidx semid semnum adjval s = do {
     suidx \<leftarrow> (if supidx = - 1 then semu_find (Suc (length (semu s))) p (semu_list_idx s) s
               else Some supidx);
     if suidx = - 1 \<and> adjval = 0 then Some (0, - 1, s)
     else do {
       (suidx, s) \<leftarrow> (if suidx = - 1 then semu_alloc env p s else Some (suidx, s));
       if suidx = - 1 then Some (ENOSPC, - 1, s)
       else do {
         (eval, s) \<leftarrow> undo_entry_adjust suidx semid semnum adjval s;
         Some (eval, suidx, s)
       }
     }
   }"

fun undo_clear_loop :: "nat \<Rightarrow> int \<Rightarrow> int \<Rightarrow> undo list \<Rightarrow> undo list option" where
  "undo_clear_loop 0 semid semnum es = Some es"
| "undo_clear_loop (Suc n) semid semnum [] = None"
| "undo_clear_loop (Suc n) semid semnum (e # es) =
     (if une_id e = semid then
        (if semnum = - 1 \<or> sint (une_num e) = semnum then undo_clear_loop n semid semnum es
         else Some (e # es))
      else do { es \<leftarrow> undo_clear_loop n semid semnum es; Some (e # es) })"

fun semundo_clear_walk :: "nat \<Rightarrow> int \<Rightarrow> int \<Rightarrow> int \<Rightarrow> sem_state \<Rightarrow> sem_state option" where
  "semundo_clear_walk 0 suidx semid semnum s = None"
| "semundo_clear_walk (Suc fuel) suidx semid semnum s =
     (if suidx = - 1 then Some s
      else if \<not> semu_valid suidx s then None
      else let u = semu s ! nat suidx in do {
        es \<leftarrow> undo_clear_loop (un_cnt u) semid semnum (un_ent u);
        let s = semu_modify suidx
          (\<lambda>u. u\<lparr>un_cnt := un_cnt u - (length (un_ent u) - length es), un_ent := es\<rparr>) s;
        semundo_clear_walk fuel (un_next_idx u) semid semnum s
      })"

definition semundo_clear :: "int \<Rightarrow> int \<Rightarrow> sem_state \<Rightarrow> sem_state option" where
  "semundo_clear semid semnum s = semundo_clear_walk (Suc (length (semu s))) (semu_list_idx s) semid semnum s"

end
