(* ===== verification/Sysv_Sem_Calls.thy ===== *)
theory Sysv_Sem_Calls
  imports Sysv_Sem
begin

text \<open>
  The semaphore system calls of \<^verbatim>\<open>src/bsd/kern/sysv_sem.c\<close>: \<open>semctl\<close>, \<open>semget\<close>,
  \<open>semop\<close> with its sleep, and the exit hook \<open>semexit\<close>.  A call returns the error number, the value
  stored through \<open>retval\<close> if any, and the new state.
\<close>

type_synonym sem_result = "(int \<times> int option \<times> sem_state) option"

definition sem_fail :: "int \<Rightarrow> sem_state \<Rightarrow> sem_result" where
  "sem_fail eval s = Some (eval, None, s)"

definition sem_return :: "int \<Rightarrow> int \<Rightarrow> sem_state \<Rightarrow> sem_result" where
  "sem_return eval rval s = Some (eval, if eval = 0 then Some rval else None, s)"

section \<open>semctl\<close>

definition GETNCNT :: int where "GETNCNT = 3"
definition GETPID :: int where "GETPID = 4"
definition GETVAL :: int where "GETVAL = 5"
definition GETALL :: int where "GETALL = 6"
definition GETZCNT :: int where "GETZCNT = 7"
definition SETVAL :: int where "SETVAL = 8"
definition SETALL :: int where "SETALL = 9"

text \<open>\<open>IPC_RMID\<close>: close the gap in the pool, rebase the sets above it, free the identifier.\<close>

definition rmid_shift :: "nat \<Rightarrow> nat \<Rightarrow> sem_state \<Rightarrow> sem_state option" where
  "rmid_shift nsems i s =
     (if i + nsems < length (sem_pool s)
      then Some (s\<lparr>sem_pool := (sem_pool s)[i := sem_pool s ! (i + nsems)]\<rparr>) else None)"

definition rmid_rebase :: "nat \<Rightarrow> nat \<Rightarrow> nat \<Rightarrow> sem_state \<Rightarrow> sem_state option" where
  "rmid_rebase base nsems i s = do {
     k2 \<leftarrow> sema_get_by_id i s;
     Some (if sem_allocated k2 \<and> sem_base k2 > base
           then sema_update i (\<lambda>k. k\<lparr>sem_base := sem_base k - nsems\<rparr>) s else s)
   }"

definition rmid_compact :: "user_semid_ds \<Rightarrow> sem_state \<Rightarrow> sem_state option" where
  "rmid_compact k s = do {
     let nsems = unat (sem_nsems k);
     let s = s\<lparr>semtot := semtot s - int nsems\<rparr>;
     s \<leftarrow> for_each (rmid_shift nsems) [sem_base k..<nat (semtot s)] s;
     for_each (rmid_rebase (sem_base k) nsems) [0..<nat (semmni (seminfo s))] s
   }"

definition sem_rmid :: "sem_env \<Rightarrow> nat \<Rightarrow> sem_state \<Rightarrow> sem_result" where
  "sem_rmid env semid s = do {
     k \<leftarrow> sema_get_by_id semid s;
     let eval = ipcperm (env_cred env) (sem_perm k) IPC_M;
     if eval \<noteq> 0 then sem_fail eval s
     else do {
       let uid = kauth_cred_getuid (env_cred env);
       let s = sema_update semid (\<lambda>k. k\<lparr>sem_perm := (sem_perm k)\<lparr>ipc_cuid := uid, ipc_uid := uid\<rparr>\<rparr>) s;
       s \<leftarrow> rmid_compact k s;
       let s = sema_update semid (\<lambda>k. k\<lparr>sem_perm := (sem_perm k)\<lparr>ipc_mode := 0\<rparr>\<rparr>) s;
       s \<leftarrow> semundo_clear (int semid) (- 1) s;
       sem_return 0 0 (sem_wakeup (int semid) s)
     }
   }"

definition sem_ipc_set :: "sem_env \<Rightarrow> nat \<Rightarrow> u64 \<Rightarrow> sem_state \<Rightarrow> sem_result" where
  "sem_ipc_set env semid arg s = do {
     k \<leftarrow> sema_get_by_id semid s;
     let eval = ipcperm (env_cred env) (sem_perm k) IPC_M;
     if eval \<noteq> 0 then sem_fail eval s
     else
       let (eval, ds) = copyin_ds env arg;
           sbuf = (if env_is64 env then semid_ds_64tokernel ds else semid_ds_32tokernel ds)
       in if eval \<noteq> 0 then sem_fail eval s
          else sem_return 0 0 (sema_update semid
            (\<lambda>k. k\<lparr>sem_perm := (sem_perm k)
                     \<lparr>ipc_uid := ipc_uid (ds_perm sbuf), ipc_gid := ipc_gid (ds_perm sbuf),
                      ipc_mode := (ipc_mode (sem_perm k) AND NOT 0x1FF) OR (ipc_mode (ds_perm sbuf) AND 0x1FF)\<rparr>,
                   sem_ctime := env_time env\<rparr>) s)
   }"

definition sem_ipc_stat :: "sem_env \<Rightarrow> nat \<Rightarrow> u64 \<Rightarrow> sem_state \<Rightarrow> sem_result" where
  "sem_ipc_stat env semid arg s = do {
     k \<leftarrow> sema_get_by_id semid s;
     let eval = ipcperm (env_cred env) (sem_perm k) IPC_R;
     if eval \<noteq> 0 then sem_fail eval s
     else
       let ds = (if env_is64 env then semid_ds_kernelto64 (env_pool_addr env) k
                 else semid_ds_kernelto32 (env_pool_addr env) k);
           eval = copyout env arg;
           s = (if eval = 0 then s\<lparr>user_out := user_out s @ [(arg, OutDs ds)]\<rparr> else s)
       in sem_return eval 0 s
   }"

text \<open>\<open>GETNCNT\<close>, \<open>GETPID\<close>, \<open>GETVAL\<close> and \<open>GETZCNT\<close> differ in the field they read.\<close>

definition sem_get_field :: "sem_env \<Rightarrow> nat \<Rightarrow> int \<Rightarrow> (sem \<Rightarrow> int) \<Rightarrow> sem_state \<Rightarrow> sem_result" where
  "sem_get_field env semid semnum field s = do {
     k \<leftarrow> sema_get_by_id semid s;
     let eval = ipcperm (env_cred env) (sem_perm k) IPC_R;
     if eval \<noteq> 0 then sem_fail eval s
     else if semnum < 0 \<or> semnum \<ge> uint (sem_nsems k) then sem_fail EINVAL s
     else do {
       x \<leftarrow> sem_load k semnum s;
       sem_return 0 (field x) s
     }
   }"

fun getall_loop :: "sem_env \<Rightarrow> user_semid_ds \<Rightarrow> u64 \<Rightarrow> nat list \<Rightarrow> sem_state \<Rightarrow> (int \<times> sem_state) option" where
  "getall_loop env k arg [] s = Some (0, s)"
| "getall_loop env k arg (i # is) s = do {
     x \<leftarrow> sem_load k (int i) s;
     let addr = arg + of_nat (i * 2);
     if copyout env addr \<noteq> 0 then Some (copyout env addr, s)
     else getall_loop env k arg is (s\<lparr>user_out := user_out s @ [(addr, OutShort (semval x))]\<rparr>)
   }"

definition sem_getall :: "sem_env \<Rightarrow> nat \<Rightarrow> u64 \<Rightarrow> sem_state \<Rightarrow> sem_result" where
  "sem_getall env semid arg s = do {
     k \<leftarrow> sema_get_by_id semid s;
     let eval = ipcperm (env_cred env) (sem_perm k) IPC_R;
     if eval \<noteq> 0 then sem_fail eval s
     else do {
       (eval, s) \<leftarrow> getall_loop env k arg [0..<unat (sem_nsems k)] s;
       sem_return eval 0 s
     }
   }"

definition sem_setval :: "sem_env \<Rightarrow> nat \<Rightarrow> int \<Rightarrow> u64 \<Rightarrow> sem_state \<Rightarrow> sem_result" where
  "sem_setval env semid semnum arg s = do {
     k \<leftarrow> sema_get_by_id semid s;
     let eval = ipcperm (env_cred env) (sem_perm k) IPC_W;
     if eval \<noteq> 0 then sem_fail eval s
     else if semnum < 0 \<or> semnum \<ge> uint (sem_nsems k) then sem_fail EINVAL s
     else
       let newsemval = (ucast arg :: u32)
       in if newsemval > word_of_int (semvmx (seminfo s)) then sem_fail ERANGE s
          else do {
            s \<leftarrow> sem_modify k semnum (\<lambda>x. x\<lparr>semval := ucast newsemval, sempid := env_pid env\<rparr>) s;
            s \<leftarrow> semundo_clear (int semid) semnum s;
            sem_return 0 0 (sem_wakeup (int semid) s)
          }
   }"

fun setall_loop :: "sem_env \<Rightarrow> user_semid_ds \<Rightarrow> u64 \<Rightarrow> nat list \<Rightarrow> sem_state \<Rightarrow> (int \<times> sem_state) option" where
  "setall_loop env k arg [] s = Some (0, s)"
| "setall_loop env k arg (i # is) s =
     (case copyin_short env (arg + of_nat (i * 2)) of
        (eval, v) \<Rightarrow>
          if eval \<noteq> 0 then Some (eval, s)
          else do {
            s \<leftarrow> sem_modify k (int i) (\<lambda>x. x\<lparr>semval := v, sempid := env_pid env\<rparr>) s;
            setall_loop env k arg is s
          })"

definition sem_setall :: "sem_env \<Rightarrow> nat \<Rightarrow> u64 \<Rightarrow> sem_state \<Rightarrow> sem_result" where
  "sem_setall env semid arg s = do {
     k \<leftarrow> sema_get_by_id semid s;
     let eval = ipcperm (env_cred env) (sem_perm k) IPC_W;
     if eval \<noteq> 0 then sem_fail eval s
     else do {
       (eval, s) \<leftarrow> setall_loop env k arg [0..<unat (sem_nsems k)] s;
       s \<leftarrow> semundo_clear (int semid) (- 1) s;
       sem_return eval 0 (sem_wakeup (int semid) s)
     }
   }"

definition semctl :: "sem_env \<Rightarrow> int \<Rightarrow> int \<Rightarrow> int \<Rightarrow> u64 \<Rightarrow> sem_state \<Rightarrow> sem_result" where
  "semctl env uap_semid semnum cmd arg s =
     (let semid = IPCID_TO_IX uap_semid in
        if semid < 0 \<or> semid \<ge> semmni (seminfo s) then sem_fail EINVAL s
        else do {
          k \<leftarrow> sema_get_by_id (nat semid) s;
          if \<not> sem_allocated k \<or> uint (ipc_seq (sem_perm k)) \<noteq> IPCID_TO_SEQ uap_semid
          then sem_fail EINVAL s
          else
            let eval = mac_sysvsem_check_semctl env k cmd in
            if eval \<noteq> 0 then sem_fail eval s
            else if cmd = IPC_RMID then sem_rmid env (nat semid) s
            else if cmd = IPC_SET then sem_ipc_set env (nat semid) arg s
            else if cmd = IPC_STAT then sem_ipc_stat env (nat semid) arg s
            else if cmd = GETNCNT then sem_get_field env (nat semid) semnum (\<lambda>x. uint (semncnt x)) s
            else if cmd = GETPID then sem_get_field env (nat semid) semnum sempid s
            else if cmd = GETVAL then sem_get_field env (nat semid) semnum (\<lambda>x. uint (semval x)) s
            else if cmd = GETALL then sem_getall env (nat semid) arg s
            else if cmd = GETZCNT then sem_get_field env (nat semid) semnum (\<lambda>x. uint (semzcnt x)) s
            else if cmd = SETVAL then sem_setval env (nat semid) semnum arg s
            else if cmd = SETALL then sem_setall env (nat semid) arg s
            else sem_fail EINVAL s
        })"

section \<open>semget\<close>

text \<open>The two table searches: the first entry with the key, the first free entry; the number of
  entries when there is none.\<close>

fun sem_find_key :: "int \<Rightarrow> nat list \<Rightarrow> sem_state \<Rightarrow> nat option" where
  "sem_find_key key [] s = Some (nat (semmni (seminfo s)))"
| "sem_find_key key (i # is) s = do {
     k \<leftarrow> sema_get_by_id i s;
     if sem_allocated k \<and> ipc_key (sem_perm k) = key then Some i else sem_find_key key is s
   }"

fun sem_find_free :: "nat list \<Rightarrow> sem_state \<Rightarrow> nat option" where
  "sem_find_free [] s = Some (nat (semmni (seminfo s)))"
| "sem_find_free (i # is) s = do {
     k \<leftarrow> sema_get_by_id i s;
     if \<not> sem_allocated k then Some i else sem_find_free is s
   }"

text \<open>Filling in the free entry: \<open>bzero\<close> of \<open>nsems\<close> pool elements and the new permissions.\<close>

definition semget_init :: "sem_env \<Rightarrow> int \<Rightarrow> int \<Rightarrow> u32 \<Rightarrow> nat \<Rightarrow> sem_state \<Rightarrow> sem_result" where
  "semget_init env key nsems semflg semid s = do {
     _ \<leftarrow> sema_get_by_id semid s;
     let cred = env_cred env;
     let s = sema_update semid (\<lambda>k.
       k\<lparr>sem_perm := (sem_perm k)
           \<lparr>ipc_key := key, ipc_cuid := kauth_cred_getuid cred, ipc_uid := kauth_cred_getuid cred,
            ipc_cgid := kauth_cred_getgid cred, ipc_gid := kauth_cred_getgid cred,
            ipc_mode := ucast (semflg AND 0x1FF) OR SEM_ALLOC,
            ipc_seq := (ipc_seq (sem_perm k) + 1) AND 0x7fff\<rparr>,
         sem_nsems := word_of_int nsems, sem_otime := 0, sem_ctime := env_time env,
         sem_base := nat (semtot s)\<rparr>) s;
     let base = nat (semtot s);
     s \<leftarrow> for_each (\<lambda>i s. if i < length (sem_pool s) then Some (s\<lparr>sem_pool := (sem_pool s)[i := zero_sem]\<rparr>)
                           else None) [base..<base + nat nsems] (s\<lparr>semtot := semtot s + nsems\<rparr>);
     k \<leftarrow> sema_get_by_id semid s;
     sem_return 0 (IXSEQ_TO_IPCID (int semid) (sem_perm k)) s
   }"

definition semget_create :: "sem_env \<Rightarrow> int \<Rightarrow> int \<Rightarrow> u32 \<Rightarrow> sem_state \<Rightarrow> sem_result" where
  "semget_create env key nsems semflg s =
     (if nsems \<le> 0 \<or> nsems > semmsl (limitseminfo s) then sem_fail EINVAL s
      else
        let (ok, s) = (if nsems > semmns (seminfo s) - semtot s
                       then grow_sem_pool env (semtot s + nsems) s else (True, s))
        in if \<not> ok then sem_fail ENOSPC s
           else do {
             semid \<leftarrow> sem_find_free [0..<nat (semmni (seminfo s))] s;
             let (ok, s) = (if int semid = semmni (seminfo s) then grow_sema_array env s else (True, s));
             if \<not> ok then sem_fail ENOSPC s else semget_init env key nsems semflg semid s
           })"

definition semget :: "sem_env \<Rightarrow> int \<Rightarrow> int \<Rightarrow> u32 \<Rightarrow> sem_state \<Rightarrow> sem_result" where
  "semget env key nsems semflg s = do {
     semid \<leftarrow> (if key \<noteq> IPC_PRIVATE then sem_find_key key [0..<nat (semmni (seminfo s))] s
               else Some (nat (semmni (seminfo s))));
     if key \<noteq> IPC_PRIVATE \<and> int semid < semmni (seminfo s) then do {
       k \<leftarrow> sema_get_by_id semid s;
       let eval = ipcperm (env_cred env) (sem_perm k) (semflg AND 0x1C0);
       if eval \<noteq> 0 then sem_fail eval s
       else if nsems < 0 \<or> uint (sem_nsems k) < nsems then sem_fail EINVAL s
       else if semflg AND IPC_CREAT \<noteq> 0 \<and> semflg AND IPC_EXCL \<noteq> 0 then sem_fail EEXIST s
       else if mac_sysvsem_check_semget env k \<noteq> 0 then sem_fail (mac_sysvsem_check_semget env k) s
       else sem_return 0 (IXSEQ_TO_IPCID (int semid) (sem_perm k)) s
     }
     else if key = IPC_PRIVATE \<or> semflg AND IPC_CREAT \<noteq> 0 then semget_create env key nsems semflg s
     else sem_fail ENOENT s
   }"

section \<open>semop\<close>

text \<open>One pass over the operations: how far it got and why it stopped.\<close>

datatype vec_end = VecDone | VecBlocked | VecTooBig

fun semop_vec ::
  "user_semid_ds \<Rightarrow> nat \<Rightarrow> sembuf list \<Rightarrow> bool \<Rightarrow> bool \<Rightarrow> sem_state \<Rightarrow>
   (vec_end \<times> nat \<times> bool \<times> bool \<times> sem_state) option" where
  "semop_vec k i [] do_wakeup do_undos s = Some (VecDone, i, do_wakeup, do_undos, s)"
| "semop_vec k i (sop # sops) do_wakeup do_undos s =
     (if sem_num sop \<ge> sem_nsems k then Some (VecTooBig, i, do_wakeup, do_undos, s)
      else do {
        x \<leftarrow> sem_load k (uint (sem_num sop)) s;
        if sint (sem_op sop) < 0 then
          (if uint (semval x) + sint (sem_op sop) < 0 then Some (VecBlocked, i, do_wakeup, do_undos, s)
           else do {
             s \<leftarrow> sem_modify k (uint (sem_num sop)) (\<lambda>x. x\<lparr>semval := semval x + sem_op sop\<rparr>) s;
             semop_vec k (Suc i) sops
               (do_wakeup \<or> (semval x + sem_op sop = 0 \<and> semzcnt x > 0))
               (do_undos \<or> sem_flg sop AND SEM_UNDO \<noteq> 0) s
           })
        else if sem_op sop = 0 then
          (if semval x > 0 then Some (VecBlocked, i, do_wakeup, do_undos, s)
           else semop_vec k (Suc i) sops do_wakeup do_undos s)
        else do {
          s \<leftarrow> sem_modify k (uint (sem_num sop)) (\<lambda>x. x\<lparr>semval := semval x + sem_op sop\<rparr>) s;
          semop_vec k (Suc i) sops (do_wakeup \<or> semncnt x > 0)
            (do_undos \<or> sem_flg sop AND SEM_UNDO \<noteq> 0) s
        }
      })"

text \<open>Taking back the operations already performed.\<close>

definition semop_rollback :: "user_semid_ds \<Rightarrow> sembuf list \<Rightarrow> sem_state \<Rightarrow> sem_state option" where
  "semop_rollback k sops s =
     for_each (\<lambda>sop. sem_modify k (uint (sem_num sop)) (\<lambda>x. x\<lparr>semval := semval x - sem_op sop\<rparr>)) sops s"

text \<open>Recording the \<open>SEM_UNDO\<close> adjustments; on failure the index of the operation that failed.\<close>

fun undo_record ::
  "sem_env \<Rightarrow> int \<Rightarrow> int \<Rightarrow> nat \<Rightarrow> sembuf list \<Rightarrow> sem_state \<Rightarrow> (int \<times> nat \<times> int \<times> sem_state) option" where
  "undo_record env supidx semid i [] s = Some (0, i, supidx, s)"
| "undo_record env supidx semid i (sop # sops) s =
     (if sem_flg sop AND SEM_UNDO = 0 \<or> sem_op sop = 0 then undo_record env supidx semid (Suc i) sops s
      else do {
        (eval, supidx, s) \<leftarrow> semundo_adjust env (env_proc env) supidx semid (uint (sem_num sop))
          (- sint (sem_op sop)) s;
        if eval = 0 then undo_record env supidx semid (Suc i) sops s else Some (eval, i, supidx, s)
      })"

fun undo_unrecord ::
  "sem_env \<Rightarrow> int \<Rightarrow> int \<Rightarrow> sembuf list \<Rightarrow> sem_state \<Rightarrow> (int \<times> sem_state) option" where
  "undo_unrecord env supidx semid [] s = Some (supidx, s)"
| "undo_unrecord env supidx semid (sop # sops) s =
     (if sem_flg sop AND SEM_UNDO = 0 \<or> sem_op sop = 0 then undo_unrecord env supidx semid sops s
      else do {
        (eval, supidx, s) \<leftarrow> semundo_adjust env (env_proc env) supidx semid (uint (sem_num sop))
          (sint (sem_op sop)) s;
        if eval \<noteq> 0 then None else undo_unrecord env supidx semid sops s
      })"

text \<open>The part after \<open>done:\<close>.\<close>

definition semop_done :: "sem_env \<Rightarrow> nat \<Rightarrow> sembuf list \<Rightarrow> bool \<Rightarrow> bool \<Rightarrow> sem_state \<Rightarrow> sem_result" where
  "semop_done env semid sops do_wakeup do_undos s = do {
     k \<leftarrow> sema_get_by_id semid s;
     (eval, i, supidx, s) \<leftarrow> (if do_undos then undo_record env (- 1) (int semid) 0 sops s
                             else Some (0, length sops, - 1, s));
     if eval \<noteq> 0 then do {
       (supidx, s) \<leftarrow> undo_unrecord env supidx (int semid) (rev (take i sops)) s;
       s \<leftarrow> semop_rollback k sops s;
       sem_fail eval s
     }
     else do {
       s \<leftarrow> for_each (\<lambda>sop. sem_modify k (uint (sem_num sop)) (\<lambda>x. x\<lparr>sempid := env_pid env\<rparr>)) sops s;
       let s = sema_update semid (\<lambda>k. k\<lparr>sem_otime := env_time env\<rparr>) s;
       let s = (if do_wakeup then sem_wakeup (int semid) s else s);
       sem_return 0 0 s
     }
   }"

text \<open>A pass either finishes the call or puts the process to sleep on the operation it could not
  perform; \<open>SemSleep\<close> carries that operation's index and the \<open>do_undos\<close> flag.\<close>

datatype semop_next = SemReturn int "int option" | SemSleep nat bool

definition semop_try :: "sem_env \<Rightarrow> nat \<Rightarrow> sembuf list \<Rightarrow> bool \<Rightarrow> sem_state \<Rightarrow> (semop_next \<times> sem_state) option" where
  "semop_try env semid sops do_undos s = do {
     k \<leftarrow> sema_get_by_id semid s;
     (vend, i, do_wakeup, do_undos, s) \<leftarrow> semop_vec k 0 sops False do_undos s;
     case vend of
       VecTooBig \<Rightarrow> Some (SemReturn EFBIG None, s)
     | VecDone \<Rightarrow> do {
         (eval, rval, s) \<leftarrow> semop_done env semid sops do_wakeup do_undos s;
         Some (SemReturn eval rval, s)
       }
     | VecBlocked \<Rightarrow> do {
         s \<leftarrow> semop_rollback k (take i sops) s;
         let sop = sops ! i;
         if sem_flg sop AND SEM_NOWAIT \<noteq> 0 then Some (SemReturn EAGAIN None, s)
         else do {
           s \<leftarrow> sem_modify k (uint (sem_num sop))
             (\<lambda>x. if sem_op sop = 0 then x\<lparr>semzcnt := semzcnt x + 1\<rparr> else x\<lparr>semncnt := semncnt x + 1\<rparr>) s;
           Some (SemSleep i do_undos, s)
         }
       }
   }"

definition semop_enter :: "sem_env \<Rightarrow> int \<Rightarrow> u64 \<Rightarrow> int \<Rightarrow> sem_state \<Rightarrow> (int + sembuf list) option" where
  "semop_enter env uap_semid usops nsops s =
     (let semid = IPCID_TO_IX uap_semid in
        if semid < 0 \<or> semid \<ge> semmni (seminfo s) then Some (Inl EINVAL)
        else do {
          k \<leftarrow> sema_get_by_id (nat semid) s;
          if \<not> sem_allocated k then Some (Inl EINVAL)
          else if uint (ipc_seq (sem_perm k)) \<noteq> IPCID_TO_SEQ uap_semid then Some (Inl EINVAL)
          else if ipcperm (env_cred env) (sem_perm k) IPC_W \<noteq> 0
            then Some (Inl (ipcperm (env_cred env) (sem_perm k) IPC_W))
          else if nsops < 0 \<or> nsops > semopm (seminfo s) then Some (Inl E2BIG)
          else
            let (eval, sops) = copyin_sops env usops (nat nsops) in
            if eval \<noteq> 0 then Some (Inl eval)
            else
              let j = fold (\<lambda>sop j. j OR (if sem_op sop = 0 then SEM_R else SEM_A)) sops 0;
                  eval = mac_sysvsem_check_semop env k j
              in if eval \<noteq> 0 then Some (Inl eval) else Some (Inr sops)
        })"

definition semop :: "sem_env \<Rightarrow> int \<Rightarrow> u64 \<Rightarrow> int \<Rightarrow> sem_state \<Rightarrow> (semop_next \<times> sembuf list \<times> sem_state) option" where
  "semop env uap_semid usops nsops s = do {
     r \<leftarrow> semop_enter env uap_semid usops nsops s;
     case r of
       Inl eval \<Rightarrow> Some (SemReturn eval None, [], s)
     | Inr sops \<Rightarrow> do {
         (nxt, s) \<leftarrow> semop_try env (nat (IPCID_TO_IX uap_semid)) sops False s;
         Some (nxt, sops, s)
       }
   }"

text \<open>After the sleep on operation \<open>i\<close>; \<open>slept\<close> is the result of \<open>msleep\<close>.\<close>

definition semop_wake ::
  "sem_env \<Rightarrow> int \<Rightarrow> int \<Rightarrow> sembuf list \<Rightarrow> nat \<Rightarrow> bool \<Rightarrow> sem_state \<Rightarrow> (semop_next \<times> sem_state) option" where
  "semop_wake env slept uap_semid sops i do_undos s =
     (let semid = nat (IPCID_TO_IX uap_semid);
          eval = (if slept \<noteq> 0 then EINTR else 0);
          sop = sops ! i
      in do {
        k \<leftarrow> sema_get_by_id semid s;
        if \<not> sem_allocated k \<or> uint (ipc_seq (sem_perm k)) \<noteq> IPCID_TO_SEQ uap_semid \<or>
           sem_num sop \<ge> sem_nsems k then
          Some (SemReturn (if eval = EINTR then EINTR else EIDRM) None, s)
        else do {
          s \<leftarrow> sem_modify k (uint (sem_num sop))
            (\<lambda>x. if sem_op sop = 0 then x\<lparr>semzcnt := semzcnt x - 1\<rparr> else x\<lparr>semncnt := semncnt x - 1\<rparr>) s;
          if eval \<noteq> 0 then Some (SemReturn eval None, s)
          else semop_try env semid sops do_undos s
        }
      })"

section \<open>semexit\<close>

definition semexit_adjust :: "undo \<Rightarrow> sem \<Rightarrow> sem" where
  "semexit_adjust e x =
     (let adjval = sint (une_adjval e) in
        if adjval < 0 then
          (if uint (semval x) < - adjval then x\<lparr>semval := 0\<rparr> else x\<lparr>semval := semval x + une_adjval e\<rparr>)
        else x\<lparr>semval := semval x + une_adjval e\<rparr>)"

fun semexit_entries :: "undo list \<Rightarrow> sem_state \<Rightarrow> sem_state option" where
  "semexit_entries [] s = Some s"
| "semexit_entries (e # es) s =
     (if une_id e < 0 then None
      else do {
        k \<leftarrow> sema_get_by_id (nat (une_id e)) s;
        if \<not> sem_allocated k then None
        else if sint (une_num e) \<ge> uint (sem_nsems k) then None
        else do {
          s \<leftarrow> sem_modify k (sint (une_num e)) (semexit_adjust e) s;
          semexit_entries es (sem_wakeup (une_id e) s)
        }
      })"

text \<open>The search keeps the cell the structure was reached from.\<close>

fun semexit_find :: "nat \<Rightarrow> nat \<Rightarrow> int \<Rightarrow> sem_state \<Rightarrow> (int \<times> int) option" where
  "semexit_find 0 p prev s = None"
| "semexit_find (Suc fuel) p prev s =
     (let suidx = semu_cell prev s in
        if suidx = - 1 then Some (prev, - 1)
        else if \<not> semu_valid suidx s then None
        else if un_proc (semu s ! nat suidx) = Some p then Some (prev, suidx)
        else semexit_find fuel p suidx s)"

definition semexit :: "nat \<Rightarrow> sem_state \<Rightarrow> sem_state option" where
  "semexit p s =
     (if sem_pool s = [] then Some s
      else do {
        (prev, suidx) \<leftarrow> semexit_find (Suc (length (semu s))) p (- 1) s;
        if suidx = - 1 then Some s
        else do {
          let u = semu s ! nat suidx;
          s \<leftarrow> (if un_cnt u > 0 then do {
                  s \<leftarrow> semexit_entries (un_ent u) s;
                  Some (semu_modify suidx (\<lambda>u. u\<lparr>un_cnt := un_cnt u - length (un_ent u), un_ent := []\<rparr>) s)
                } else Some s);
          let s = semu_modify suidx (\<lambda>u. u\<lparr>un_proc := None\<rparr>) s;
          Some (set_semu_cell prev (un_next_idx (semu s ! nat suidx)) s)
        }
      })"

section \<open>Administrative interfaces\<close>

text \<open>\<open>sysctl_seminfo\<close> with the result of the copy out, whether a new value was supplied, and the
  result of the copy in; \<open>upd\<close> stores the new limit.\<close>

definition sysctl_seminfo :: "int \<Rightarrow> bool \<Rightarrow> int \<Rightarrow> (seminfo \<Rightarrow> seminfo) \<Rightarrow> sem_state \<Rightarrow> int \<times> sem_state" where
  "sysctl_seminfo out_err has_new in_err upd s =
     (if out_err \<noteq> 0 \<or> \<not> has_new then (out_err, s)
      else if sem_pool s = [] \<and> semas s = [] \<and> semu s = [] \<and> semu_list_idx s = - 1 then
        (if in_err \<noteq> 0 then (in_err, s) else (0, s\<lparr>limitseminfo := upd (limitseminfo s)\<rparr>))
      else (EINVAL, s))"

fun ipcs_sem_next :: "nat list \<Rightarrow> sem_state \<Rightarrow> nat option option" where
  "ipcs_sem_next [] s = Some None"
| "ipcs_sem_next (i # is) s = do {
     k \<leftarrow> sema_get_by_id i s;
     if sem_allocated k then Some (Some i) else ipcs_sem_next is s
   }"

text \<open>\<open>in_err\<close> and \<open>out_err\<close> below are the results of copying the command structure in and out.\<close>

definition IPCS_SEM_CONF :: int where "IPCS_SEM_CONF = 0x10"
definition IPCS_SEM_ITER :: int where "IPCS_SEM_ITER = 0x20"

definition ipcs_sem_iter ::
  "sem_env \<Rightarrow> int \<Rightarrow> int \<Rightarrow> ipcs_command \<Rightarrow> sem_state \<Rightarrow> (int \<times> ipcs_command \<times> sem_state) option" where
  "ipcs_sem_iter env out_err ds_sz ipcs s =
     (let cursor = ipcs_cursor ipcs in
        if cursor < 0 \<or> cursor \<ge> semmni (seminfo s) then Some (ERANGE, ipcs, s)
        else if ipcs_datalen ipcs \<noteq> ds_sz then Some (EINVAL, ipcs, s)
        else do {
          r \<leftarrow> ipcs_sem_next [nat cursor..<nat (semmni (seminfo s))] s;
          case r of
            None \<Rightarrow> Some (ENOENT, ipcs, s)
          | Some c \<Rightarrow> do {
              k \<leftarrow> sema_get_by_id c s;
              let ds = (if env_is64 env then semid_ds_kernelto64 (env_pool_addr env) k
                        else semid_ds_kernelto32 (env_pool_addr env) k);
              let err = copyout env (ipcs_data ipcs);
              if err \<noteq> 0 then Some (err, ipcs, s)
              else Some (out_err, ipcs\<lparr>ipcs_cursor := int c + 1\<rparr>,
                         s\<lparr>user_out := user_out s @ [(ipcs_data ipcs, OutDs ds)]\<rparr>)
            }
        })"

definition IPCS_sem_sysctl ::
  "sem_env \<Rightarrow> int \<Rightarrow> int \<Rightarrow> int \<Rightarrow> int \<Rightarrow> ipcs_command \<Rightarrow> sem_state \<Rightarrow> (int \<times> ipcs_command \<times> sem_state) option" where
  "IPCS_sem_sysctl env in_err out_err info_sz ds_sz ipcs s =
     (if in_err \<noteq> 0 then Some (in_err, ipcs, s)
      else if ipcs_magic ipcs \<noteq> IPCS_MAGIC then Some (EINVAL, ipcs, s)
      else if ipcs_op ipcs = IPCS_SEM_CONF then
        (if ipcs_datalen ipcs \<noteq> info_sz then Some (ERANGE, ipcs, s)
         else if ipcs_cursor ipcs \<noteq> 0 then Some (EINVAL, ipcs, s)
         else
           let err = copyout env (ipcs_data ipcs)
           in Some (err, ipcs, if err = 0 then s\<lparr>user_out := user_out s @ [(ipcs_data ipcs, OutInfo (seminfo s))]\<rparr> else s))
      else if ipcs_op ipcs = IPCS_SEM_ITER then ipcs_sem_iter env out_err ds_sz ipcs s
      else Some (EINVAL, ipcs, s))"

text \<open>\<open>semsys\<close> dispatches to one of the three calls.\<close>

datatype sem_call = Call_semctl | Call_semget | Call_semop

definition semsys :: "nat \<Rightarrow> int + sem_call" where
  "semsys which =
     (if which \<ge> 3 then Inl EINVAL else Inr ([Call_semctl, Call_semget, Call_semop] ! which))"

end
