(* ===== verification/Sysv_Sem_Facts.thy ===== *)
theory Sysv_Sem_Facts
  imports Sysv_Sem_Calls
begin

text \<open>
  Correctness of \<open>semop\<close>.  The identifier table is an interface (\<open>id_table\<close>) that the two-level
  array of the source implements.  A pass over the operations adds to the pool, and taking it back
  restores the pool exactly because the sixteen-bit values form a group; the undo machinery does
  not touch semaphores.  From this follow the atomicity and the meaning of \<open>semop\<close>, and where the
  promise fails.
\<close>

section \<open>The identifier table as an interface\<close>

text \<open>What the system calls rely on: inside its bounds every slot can be read, a slot update is seen
  in that slot only and keeps the bounds, and a sweep over all slots updates each selected slot.\<close>

locale id_table =
  fixes get :: "nat \<Rightarrow> 's \<Rightarrow> 'e option"
    and upd :: "nat \<Rightarrow> ('e \<Rightarrow> 'e) \<Rightarrow> 's \<Rightarrow> 's"
    and cnt :: "'s \<Rightarrow> nat"
    and inv :: "'s \<Rightarrow> bool"
  assumes get_defined: "inv s \<Longrightarrow> get i s = None \<longleftrightarrow> cnt s \<le> i"
    and get_upd: "inv s \<Longrightarrow> i < cnt s \<Longrightarrow> get j (upd i f s) = (if j = i then map_option f (get j s) else get j s)"
    and inv_upd: "inv s \<Longrightarrow> i < cnt s \<Longrightarrow> inv (upd i f s)"
    and cnt_upd: "inv s \<Longrightarrow> i < cnt s \<Longrightarrow> cnt (upd i f s) = cnt s"
begin

definition sweep :: "('e \<Rightarrow> bool) \<Rightarrow> ('e \<Rightarrow> 'e) \<Rightarrow> nat \<Rightarrow> 's \<Rightarrow> 's option" where
  "sweep P f i s = do { x \<leftarrow> get i s; Some (if P x then upd i f s else s) }"

lemma sweep_upto:
  assumes "inv s" "n \<le> cnt s"
  shows "\<exists>s'. for_each (sweep P f) [0..<n] s = Some s' \<and> inv s' \<and> cnt s' = cnt s \<and>
    (\<forall>j. get j s' = map_option (\<lambda>x. if j < n \<and> P x then f x else x) (get j s))"
  using assms(2)
proof (induction n)
  case 0
  show ?case using assms(1) by (simp add: option.map_ident)
next
  case (Suc n)
  then obtain s1 where s1: "for_each (sweep P f) [0..<n] s = Some s1" "inv s1" "cnt s1 = cnt s"
    "\<And>j. get j s1 = map_option (\<lambda>x. if j < n \<and> P x then f x else x) (get j s)"
    by auto
  obtain x where x: "get n s1 = Some x" "get n s = Some x"
    using get_defined [OF s1(2), of n] s1(3,4) Suc.prems by (cases "get n s1") auto
  have n: "n < cnt s1" using s1(3) Suc.prems by simp
  have "for_each (sweep P f) [0..<Suc n] s = Some (if P x then upd n f s1 else s1)"
    using s1(1) x by (simp add: for_each_append sweep_def)
  moreover have "get j (if P x then upd n f s1 else s1) =
      map_option (\<lambda>x. if j < Suc n \<and> P x then f x else x) (get j s)" for j
    using get_upd [OF s1(2) n] s1(4) x by (cases "j = n") (auto simp: less_Suc_eq option.map_comp comp_def)
  ultimately show ?case
    using inv_upd [OF s1(2) n] cnt_upd [OF s1(2) n] s1(2,3) by auto
qed

end

definition table_inv :: "sem_state \<Rightarrow> bool" where
  "table_inv s \<longleftrightarrow> list_all (\<lambda>b. length b = SEMMNI_INC) (semas s) \<and>
     semmni (seminfo s) = int (SEMMNI_INC * length (semas s))"

definition sem_slots :: "sem_state \<Rightarrow> nat" where
  "sem_slots s = SEMMNI_INC * length (semas s)"

lemma table_slot:
  assumes "table_inv s" "i < sem_slots s"
  shows "i div SEMMNI_INC < length (semas s)" "length (semas s ! (i div SEMMNI_INC)) = SEMMNI_INC"
proof -
  show *: "i div SEMMNI_INC < length (semas s)"
    using assms(2) by (simp add: sem_slots_def SEMMNI_INC_def)
  show "length (semas s ! (i div SEMMNI_INC)) = SEMMNI_INC"
    using assms(1) * by (simp add: table_inv_def list_all_length)
qed

interpretation sema: id_table sema_get_by_id sema_update sem_slots table_inv
proof (unfold_locales, goal_cases)
  case (1 s i)
  show ?case
  proof (cases "i < sem_slots s")
    case True
    then show ?thesis
      using table_slot [OF 1 True] by (simp add: sema_get_by_id_def SEMMNI_INC_def)
  next
    case False
    then show ?thesis
      by (auto simp: sema_get_by_id_def sem_slots_def SEMMNI_INC_def)
  qed
next
  case (2 s i j f)
  then show ?case
    using table_slot [OF 2]
    by (auto simp: sema_get_by_id_def sema_update_def nth_list_update SEMMNI_INC_def) (metis div_mod_decomp)+
next
  case (3 s i f)
  then show ?case
    using table_slot [OF 3]
    by (auto simp: table_inv_def sema_update_def list_all_length nth_list_update)
next
  case (4 s i f)
  then show ?case
    by (simp add: sem_slots_def sema_update_def)
qed

section \<open>A small instance\<close>

definition root_cred :: cred where
  "root_cred = \<lparr>kauth_cred_getuid = 0, kauth_cred_getgid = 0, suser = 0,
     kauth_cred_ismember_gid = (\<lambda>g. (0, False))\<rparr>"

definition sample_sem_env :: sem_env where
  "sample_sem_env =
     \<lparr> env_proc = 7, env_pid = 42, env_cred = root_cred, env_is64 = True, env_time = 1000,
       env_pool_addr = 0, env_realloc = True,
       mac_sysvsem_check_semctl = (\<lambda>k c. 0), mac_sysvsem_check_semget = (\<lambda>k. 0),
       mac_sysvsem_check_semop = (\<lambda>k j. 0),
       copyin_ds = (\<lambda>a. (0, semid_ds_kernelto64 0 zero_semid)),
       copyin_short = (\<lambda>a. (0, 5)), copyout = (\<lambda>a. 0),
       copyin_sops = (\<lambda>a n. (0, replicate n \<lparr>sem_num = 1, sem_op = 1, sem_flg = 0\<rparr>)) \<rparr>"

definition sample_sem :: sem_state where
  "sample_sem = snd (snd (the (semget sample_sem_env 99 3 0x3B6 sem_boot_state)))"

lemma sample_sem_slot:
  "sema_get_by_id 0 sample_sem =
     Some \<lparr>sem_perm = \<lparr>ipc_uid = 0, ipc_gid = 0, ipc_cuid = 0, ipc_cgid = 0, ipc_mode = 0x3B6, ipc_seq = 1,
       ipc_key = 99\<rparr>, sem_base = 0, sem_nsems = 3, sem_otime = 0, sem_ctime = 1000\<rparr>"
  by code_simp

lemma sample_sem_pool: "sem_pool sample_sem = replicate 64 zero_sem"
  by code_simp

section \<open>Adding to a set of semaphores\<close>

definition sem_add :: "user_semid_ds \<Rightarrow> (sembuf \<Rightarrow> u16) \<Rightarrow> sembuf \<Rightarrow> sem_state \<Rightarrow> sem_state option" where
  "sem_add k f sop = sem_modify k (uint (sem_num sop)) (\<lambda>x. x\<lparr>semval := semval x + f sop\<rparr>)"

definition sem_in_range :: "user_semid_ds \<Rightarrow> sem_state \<Rightarrow> sembuf \<Rightarrow> bool" where
  "sem_in_range k s sop \<longleftrightarrow> sem_base k + unat (sem_num sop) < length (sem_pool s)"

definition sem_delta :: "user_semid_ds \<Rightarrow> (sembuf \<Rightarrow> u16) \<Rightarrow> sembuf list \<Rightarrow> nat \<Rightarrow> u16" where
  "sem_delta k f sops p = sum_list (map (\<lambda>sop. if sem_base k + unat (sem_num sop) = p then f sop else 0) sops)"

definition pool_shift :: "(nat \<Rightarrow> u16) \<Rightarrow> sem list \<Rightarrow> sem list" where
  "pool_shift d pool = map (\<lambda>p. (pool ! p)\<lparr>semval := semval (pool ! p) + d p\<rparr>) [0..<length pool]"

lemma length_pool_shift [simp]: "length (pool_shift d pool) = length pool"
  by (simp add: pool_shift_def)

lemma pool_shift_nth: "p < length pool \<Longrightarrow> pool_shift d pool ! p = (pool ! p)\<lparr>semval := semval (pool ! p) + d p\<rparr>"
  by (simp add: pool_shift_def)

lemma pool_shift_zero [simp]: "pool_shift (\<lambda>p. 0) pool = pool"
  by (rule nth_equalityI) (auto simp: pool_shift_def)

lemma pool_shift_shift [simp]: "pool_shift d (pool_shift e pool) = pool_shift (\<lambda>p. e p + d p) pool"
  by (rule nth_equalityI) (auto simp: pool_shift_def add.assoc)

lemma sem_delta_simps [simp]:
  "sem_delta k f [] = (\<lambda>p. 0)"
  "sem_delta k f (sop # sops) =
     (\<lambda>p. (if sem_base k + unat (sem_num sop) = p then f sop else 0) + sem_delta k f sops p)"
  by (simp_all add: sem_delta_def fun_eq_iff)

lemma sem_delta_minus: "sem_delta k (\<lambda>s. - f s) sops p = - sem_delta k f sops p"
  by (induction sops) (simp_all add: sem_delta_def)

lemma sem_load_uint: "sem_load k (uint (n :: u16)) s =
    (if sem_base k + unat n < length (sem_pool s) then Some (sem_pool s ! (sem_base k + unat n)) else None)"
proof -
  have "nat (int (sem_base k) + uint n) = sem_base k + unat n"
    by (simp add: nat_add_distrib nat_uint_eq)
  then show ?thesis
    by (simp add: sem_load_def Let_def)
qed

lemma sem_modify_uint: "sem_modify k (uint (n :: u16)) f s =
    (if sem_base k + unat n < length (sem_pool s)
     then Some (s\<lparr>sem_pool := (sem_pool s)[sem_base k + unat n := f (sem_pool s ! (sem_base k + unat n))]\<rparr>) else None)"
proof -
  have "nat (int (sem_base k) + uint n) = sem_base k + unat n"
    by (simp add: nat_add_distrib nat_uint_eq)
  then show ?thesis
    by (simp add: sem_modify_def sem_load_uint)
qed

lemma sem_add_eq:
  "sem_add k f sop s = (if sem_in_range k s sop then Some (s\<lparr>sem_pool := pool_shift (sem_delta k f [sop]) (sem_pool s)\<rparr>) else None)"
  by (auto simp: sem_add_def sem_modify_uint sem_in_range_def pool_shift_def nth_list_update
      intro!: arg_cong [where f = "\<lambda>x. s\<lparr>sem_pool := x\<rparr>"] nth_equalityI)

lemma for_each_sem_add:
  "list_all (sem_in_range k s) sops \<Longrightarrow>
    for_each (sem_add k f) sops s = Some (s\<lparr>sem_pool := pool_shift (sem_delta k f sops) (sem_pool s)\<rparr>)"
proof (induction sops arbitrary: s)
  case (Cons sop sops)
  then have "list_all (sem_in_range k (s\<lparr>sem_pool := pool_shift (sem_delta k f [sop]) (sem_pool s)\<rparr>)) sops"
    by (simp add: sem_in_range_def list_all_iff)
  with Cons show ?case
    by (simp add: sem_add_eq)
qed simp

lemma for_each_sem_add_range:
  "for_each (sem_add k f) sops s = Some s' \<Longrightarrow> list_all (sem_in_range k s) sops"
proof (induction sops arbitrary: s)
  case (Cons sop sops)
  then obtain s1 where s1: "sem_add k f sop s = Some s1" "for_each (sem_add k f) sops s1 = Some s'"
    by (auto split: bind_splits)
  then have "length (sem_pool s1) = length (sem_pool s)" "sem_in_range k s sop"
    by (auto simp: sem_add_eq split: if_splits)
  with Cons.IH [OF s1(2)] show ?case
    by (simp add: sem_in_range_def list_all_iff)
qed simp

lemma semop_rollback_add: "semop_rollback k sops s = for_each (sem_add k (\<lambda>sop. - sem_op sop)) sops s"
  by (simp add: semop_rollback_def sem_add_def [abs_def])

lemma rollback_inverse:
  assumes "for_each (sem_add k sem_op) sops s = Some s'"
  shows "semop_rollback k sops s' = Some s"
proof -
  have r: "list_all (sem_in_range k s) sops"
    using for_each_sem_add_range [OF assms] .
  then have s': "s' = s\<lparr>sem_pool := pool_shift (sem_delta k sem_op sops) (sem_pool s)\<rparr>"
    using assms for_each_sem_add by simp
  then have "list_all (sem_in_range k s') sops"
    using r by (simp add: sem_in_range_def list_all_iff)
  then show ?thesis
    by (simp add: semop_rollback_add for_each_sem_add s' sem_delta_minus)
qed

section \<open>A pass over the operations\<close>

lemma sem_add_zero:
  assumes "sem_load k (uint (sem_num sop)) s = Some x" "sem_op sop = 0"
  shows "sem_add k sem_op sop s = Some s"
  using assms by (auto simp: sem_add_def sem_modify_uint sem_load_uint split: if_splits)

lemma semop_vec_Cons:
  assumes "semop_vec k i (sop # sops) w u s = Some (e, j, w', u', s')"
  shows "(e \<noteq> VecDone \<and> j = i \<and> s' = s) \<or>
    (\<exists>s1 w1 u1. sem_add k sem_op sop s = Some s1 \<and> semop_vec k (Suc i) sops w1 u1 s1 = Some (e, j, w', u', s'))"
proof (cases "sem_num sop \<ge> sem_nsems k")
  case True
  then show ?thesis using assms by simp
next
  case False
  then obtain x where x: "sem_load k (uint (sem_num sop)) s = Some x"
    using assms by (auto split: bind_splits)
  show ?thesis
  proof (cases "sem_op sop = 0")
    case True
    then show ?thesis
      using assms False x sem_add_zero [OF x True] by (auto split: if_splits)
  next
    case nz: False
    then show ?thesis
      using assms False x by (auto simp: sem_add_def split: if_splits bind_splits)
  qed
qed

lemma semop_vec_too_big:
  "semop_vec k i sops w u s = Some (VecTooBig, j, w', u', s') \<Longrightarrow> \<not> list_all (\<lambda>sop. sem_num sop < sem_nsems k) sops"
proof (induction sops arbitrary: i w u s)
  case (Cons sop sops)
  show ?case
  proof (cases "sem_num sop \<ge> sem_nsems k")
    case True
    then show ?thesis by (simp add: not_less)
  next
    case False
    then have "\<exists>w1 u1 s1. semop_vec k (Suc i) sops w1 u1 s1 = Some (VecTooBig, j, w', u', s')"
      using Cons.prems by (fastforce split: if_splits bind_splits)
    then show ?thesis using Cons.IH by auto
  qed
qed simp

lemma semop_vec_adds:
  assumes "semop_vec k i sops w u s = Some (e, j, w', u', s')"
  shows "i \<le> j \<and> j \<le> i + length sops \<and> for_each (sem_add k sem_op) (take (j - i) sops) s = Some s' \<and>
    (e = VecDone \<longleftrightarrow> j = i + length sops)"
  using assms
proof (induction sops arbitrary: i w u s)
  case (Cons sop sops)
  from semop_vec_Cons [OF Cons.prems] show ?case
  proof (elim disjE exE conjE)
    fix s1 w1 u1
    assume a: "sem_add k sem_op sop s = Some s1" "semop_vec k (Suc i) sops w1 u1 s1 = Some (e, j, w', u', s')"
    from Cons.IH [OF a(2)] have IH: "Suc i \<le> j" "j \<le> Suc i + length sops"
      "for_each (sem_add k sem_op) (take (j - Suc i) sops) s1 = Some s'" "e = VecDone \<longleftrightarrow> j = Suc i + length sops"
      by auto
    then have "take (j - i) (sop # sops) = sop # take (j - Suc i) sops"
      by (simp add: take_Cons')
    then show ?thesis using IH a(1) by simp
  qed simp
qed simp

lemma semop_vec_reset:
  assumes "semop_vec k 0 sops w u s = Some (e, j, w', u', s')"
  shows "semop_rollback k (take j sops) s' = Some s"
  using semop_vec_adds [OF assms] rollback_inverse by simp

lemma undo_entry_adjust_errors:
  "undo_entry_adjust suidx semid n a s = Some (e, s') \<Longrightarrow> e \<in> {0, EINVAL}"
  by (auto simp: undo_entry_adjust_def Let_def split: bind_splits if_splits)

lemma semundo_adjust_errors:
  "semundo_adjust env p supidx semid n a s = Some (e, i, s') \<Longrightarrow> e \<in> {0, EINVAL, ENOSPC}"
  by (auto simp: semundo_adjust_def split: bind_splits if_splits dest!: undo_entry_adjust_errors)

lemma undo_record_errors:
  "undo_record env supidx semid i sops s = Some (e, j, si, s') \<Longrightarrow> e \<in> {0, EINVAL, ENOSPC}"
proof (induction env supidx semid i sops s rule: undo_record.induct)
  case (2 env supidx semid i sop sops s)
  then show ?case
    by (fastforce split: bind_splits if_splits dest: semundo_adjust_errors)
qed simp

lemma semop_done_errors:
  "semop_done env semid sops w u s = Some (e, rv, s') \<Longrightarrow> e \<in> {0, EINVAL, ENOSPC}"
  by (auto simp: semop_done_def sem_fail_def sem_return_def Let_def
      split: bind_splits if_splits dest!: undo_record_errors)

lemma semop_try_cases:
  assumes "semop_try env semid sops u s = Some (r, s')"
  obtains (big) k j w u' where "sema_get_by_id semid s = Some k"
      "semop_vec k 0 sops False u s = Some (VecTooBig, j, w, u', s')" "r = SemReturn EFBIG None"
    | (finished) k w u' s1 e rv where "sema_get_by_id semid s = Some k"
      "semop_vec k 0 sops False u s = Some (VecDone, length sops, w, u', s1)"
      "semop_done env semid sops w u' s1 = Some (e, rv, s')" "r = SemReturn e rv"
    | (again) k i w u' s1 where "sema_get_by_id semid s = Some k"
      "semop_vec k 0 sops False u s = Some (VecBlocked, i, w, u', s1)"
      "s' = s" "r = SemReturn EAGAIN None"
    | (sleep) k i w u' s1 where "sema_get_by_id semid s = Some k"
      "semop_vec k 0 sops False u s = Some (VecBlocked, i, w, u', s1)"
      "i < length sops" "r = SemSleep i u'"
      "sem_modify k (uint (sem_num (sops ! i))) (\<lambda>x. if sem_op (sops ! i) = 0 then x\<lparr>semzcnt := semzcnt x + 1\<rparr>
         else x\<lparr>semncnt := semncnt x + 1\<rparr>) s = Some s'"
proof -
  obtain k where k: "sema_get_by_id semid s = Some k"
    using assms by (auto simp: semop_try_def split: bind_splits)
  obtain e j w u' s1 where v: "semop_vec k 0 sops False u s = Some (e, j, w, u', s1)"
    using assms k by (auto simp: semop_try_def split: bind_splits)
  note adds = semop_vec_adds [OF v] and reset = semop_vec_reset [OF v]
  show ?thesis
  proof (cases e)
    case VecTooBig
    then show ?thesis
      using assms k v by (intro big [OF k]) (auto simp: semop_try_def)
  next
    case VecDone
    then obtain e' rv where "semop_done env semid sops w u' s1 = Some (e', rv, s')" "r = SemReturn e' rv"
      using assms k v by (auto simp: semop_try_def split: bind_splits)
    then show ?thesis
      using v adds VecDone by (intro finished [OF k]) auto
  next
    case VecBlocked
    then have j: "j < length sops" using adds by auto
    show ?thesis
    proof (cases "sem_flg (sops ! j) AND SEM_NOWAIT \<noteq> 0")
      case True
      then have "s' = s" "r = SemReturn EAGAIN None"
        using assms k v VecBlocked reset by (simp_all add: semop_try_def)
      then show ?thesis
        by (rule again [OF k v [unfolded VecBlocked]])
    next
      case False
      then show ?thesis
        using assms k v VecBlocked reset
        by (intro sleep [OF k v [unfolded VecBlocked] j]) (auto simp: semop_try_def Let_def split: bind_splits)
    qed
  qed
qed

text \<open>C21. A request vector that cannot be satisfied now leaves no trace: if the pass is blocked and
  the operation says IPC_NOWAIT the call returns EAGAIN in exactly the state it started from, and
  if the process goes to sleep only the waiter counts of the semaphore it waits for have changed:
  every semaphore value, the identifier table, the undo structures and the accounting are as
  before.\<close>

theorem semop_blocked_atomic:
  assumes "semop_try env semid sops u s = Some (r, s')"
  shows "(r = SemReturn EAGAIN None \<longrightarrow> s' = s) \<and>
    (\<forall>i u'. r = SemSleep i u' \<longrightarrow> i < length sops \<and> s' = s\<lparr>sem_pool := sem_pool s'\<rparr> \<and>
       map semval (sem_pool s') = map semval (sem_pool s) \<and> map sempid (sem_pool s') = map sempid (sem_pool s))"
  using assms
proof (cases rule: semop_try_cases)
  case big
  then show ?thesis by (simp add: errno_defs)
next
  case finished
  then show ?thesis
    using semop_done_errors by (fastforce simp: errno_defs)
next
  case again
  then show ?thesis by simp
next
  case (sleep k i w u' s1)
  then show ?thesis
    by (auto simp: sem_modify_uint map_update split: if_splits intro!: list_update_same_conv [THEN iffD2])
qed

theorem semop_blocked_atomic_witness:
  "\<exists>s'. semop_try sample_sem_env 0 [\<lparr>sem_num = 1, sem_op = 2, sem_flg = 0\<rparr>, \<lparr>sem_num = 0, sem_op = - 1, sem_flg = 0\<rparr>]
       False sample_sem = Some (SemSleep 1 False, s') \<and>
     map semval (sem_pool s') = map semval (sem_pool sample_sem)"
proof -
  let ?r = "semop_try sample_sem_env 0
    [\<lparr>sem_num = 1, sem_op = 2, sem_flg = 0\<rparr>, \<lparr>sem_num = 0, sem_op = - 1, sem_flg = 0\<rparr>] False sample_sem"
  have "map_option fst ?r = Some (SemSleep 1 False)"
    by code_simp
  then obtain s' where r: "?r = Some (SemSleep 1 False, s')"
    by auto
  from semop_blocked_atomic [OF r] r show ?thesis by blast
qed

section \<open>The undo machinery does not touch semaphores\<close>

definition sem_frame :: "sem_state \<Rightarrow> sem_state \<Rightarrow> bool" where
  "sem_frame s s' \<longleftrightarrow> sem_pool s' = sem_pool s \<and> semas s' = semas s \<and> semtot s' = semtot s \<and>
     semmni (seminfo s') = semmni (seminfo s) \<and> semmns (seminfo s') = semmns (seminfo s) \<and>
     limitseminfo s' = limitseminfo s \<and> woken s' = woken s"

lemma sem_frame_refl [simp]: "sem_frame s s"
  by (simp add: sem_frame_def)

lemma sem_frame_trans [trans]: "sem_frame s s' \<Longrightarrow> sem_frame s' s'' \<Longrightarrow> sem_frame s s''"
  by (simp add: sem_frame_def)

lemma sem_frame_semu [simp]:
  "sem_frame s (semu_modify i f s)" "sem_frame s (set_semu_cell i v s)" "sem_frame s (semu_take p j s)"
  by (simp_all add: sem_frame_def semu_modify_def set_semu_cell_def semu_take_def)

lemma sema_get_pool [simp]: "sema_get_by_id i (s\<lparr>sem_pool := x\<rparr>) = sema_get_by_id i s"
  by (simp add: sema_get_by_id_def)

lemma sem_frame_get: "sem_frame s s' \<Longrightarrow> sema_get_by_id i s' = sema_get_by_id i s"
  by (simp add: sem_frame_def sema_get_by_id_def)

lemma sem_frame_purge: "semu_purge n prev did s = Some (d, s') \<Longrightarrow> sem_frame s s'"
proof (induction n prev did s rule: semu_purge.induct)
  case (2 fuel prev did s)
  then show ?case
    by (auto simp: Let_def split: if_splits intro: sem_frame_trans [OF sem_frame_trans [OF sem_frame_semu(1) sem_frame_semu(2)]])
qed simp

lemma sem_frame_grow: "grow_semu_array env s = (b, s') \<Longrightarrow> sem_frame s s'"
  by (auto simp: grow_semu_array_def Let_def sem_frame_def split: if_splits)

lemma sem_frame_alloc: "semu_alloc env p s = Some (i, s') \<Longrightarrow> sem_frame s s'"
  by (auto simp: semu_alloc_def simp del: semu_purge.simps split: option.splits bind_splits prod.splits if_splits
      dest!: sem_frame_purge sem_frame_grow intro: sem_frame_trans)

lemma sem_frame_entry: "undo_entry_adjust i semid n a s = Some (e, s') \<Longrightarrow> sem_frame s s'"
  by (auto simp: undo_entry_adjust_def Let_def split: bind_splits if_splits)

lemma sem_frame_adjust: "semundo_adjust env p si semid n a s = Some (e, si', s') \<Longrightarrow> sem_frame s s'"
  by (auto simp: semundo_adjust_def split: bind_splits if_splits
      dest!: sem_frame_entry sem_frame_alloc intro: sem_frame_trans)

lemma sem_frame_record: "undo_record env si semid i sops s = Some (e, j, si', s') \<Longrightarrow> sem_frame s s'"
proof (induction env si semid i sops s rule: undo_record.induct)
  case (2 env si semid i sop sops s)
  then show ?case
    by (fastforce split: if_splits bind_splits dest: sem_frame_adjust intro: sem_frame_trans)
qed simp

lemma sem_frame_unrecord: "undo_unrecord env si semid sops s = Some (si', s') \<Longrightarrow> sem_frame s s'"
proof (induction env si semid sops s rule: undo_unrecord.induct)
  case (2 env si semid sop sops s)
  then show ?case
    by (fastforce split: if_splits bind_splits dest: sem_frame_adjust intro: sem_frame_trans)
qed simp

section \<open>Abstract semaphore operations\<close>

definition set_vals :: "user_semid_ds \<Rightarrow> sem_state \<Rightarrow> u16 \<Rightarrow> u16" where
  "set_vals k s n = semval (sem_pool s ! (sem_base k + unat n))"

fun sem_run :: "sembuf list \<Rightarrow> (u16 \<Rightarrow> u16) \<Rightarrow> (u16 \<Rightarrow> u16) option" where
  "sem_run [] v = Some v"
| "sem_run (sop # sops) v =
     (let n = sem_num sop; d = sint (sem_op sop) in
        if d < 0 \<and> uint (v n) + d < 0 \<or> d = 0 \<and> v n \<noteq> 0 then None
        else sem_run sops (v(n := v n + sem_op sop)))"

definition set_in_pool :: "user_semid_ds \<Rightarrow> sem_state \<Rightarrow> bool" where
  "set_in_pool k s \<longleftrightarrow> sem_base k + unat (sem_nsems k) \<le> length (sem_pool s)"

lemma set_vals_add:
  assumes "sem_add k f sop s = Some s1" "set_in_pool k s" "n < sem_nsems k"
  shows "set_vals k s1 n = ((set_vals k s)(sem_num sop := set_vals k s (sem_num sop) + f sop)) n"
  using assms
  by (auto simp: sem_add_eq sem_in_range_def set_vals_def pool_shift_def set_in_pool_def word_less_nat_alt
      split: if_splits dest: unsigned_word_eqI)

lemma sem_run_cong:
  assumes "\<And>n. n < m \<Longrightarrow> v n = v' n" "list_all (\<lambda>sop. sem_num sop < m) sops"
  shows "rel_option (\<lambda>a b. \<forall>n < m. a n = b n) (sem_run sops v) (sem_run sops v')"
  using assms
proof (induction sops arbitrary: v v')
  case (Cons sop sops)
  have "rel_option (\<lambda>a b. \<forall>n < m. a n = b n)
      (sem_run sops (v(sem_num sop := v (sem_num sop) + sem_op sop)))
      (sem_run sops (v'(sem_num sop := v' (sem_num sop) + sem_op sop)))"
    by (rule Cons.IH) (use Cons.prems in auto)
  then show ?case
    using Cons.prems by (simp add: Let_def)
qed simp

definition agree :: "u16 \<Rightarrow> (u16 \<Rightarrow> u16) option \<Rightarrow> (u16 \<Rightarrow> u16) option \<Rightarrow> bool" where
  "agree m = rel_option (\<lambda>a b. \<forall>n < m. a n = b n)"

lemma semop_vec_run:
  assumes "semop_vec k i sops w u s = Some (e, j, w', u', s')" "set_in_pool k s"
    and "list_all (\<lambda>sop. sem_num sop < sem_nsems k) sops"
  shows "agree (sem_nsems k) (sem_run sops (set_vals k s)) (if e = VecDone then Some (set_vals k s') else None)"
  using assms
proof (induction sops arbitrary: i w u s)
  case Nil
  then show ?case by (simp add: agree_def)
next
  case (Cons sop sops)
  have num: "sem_num sop < sem_nsems k" using Cons.prems(3) by simp
  have load: "sem_load k (uint (sem_num sop)) s = Some (sem_pool s ! (sem_base k + unat (sem_num sop)))"
    using Cons.prems(2) num by (simp add: sem_load_uint set_in_pool_def word_less_nat_alt)
  let ?v = "set_vals k s (sem_num sop)" and ?d = "sint (sem_op sop)"
  show ?case
  proof (cases "?d < 0 \<and> uint ?v + ?d < 0 \<or> ?d = 0 \<and> ?v \<noteq> 0")
    case True
    then have "e = VecBlocked"
      using Cons.prems(1) num load by (auto simp: set_vals_def word_gt_0 signed_eq_0_iff split: if_splits)
    then show ?thesis using True by (auto simp: agree_def Let_def)
  next
    case False
    obtain s1 w1 u1 where s1: "sem_add k sem_op sop s = Some s1"
        "semop_vec k (Suc i) sops w1 u1 s1 = Some (e, j, w', u', s')"
      using Cons.prems(1) num load False sem_add_zero [OF load]
      by (auto simp: set_vals_def sem_add_def word_gt_0 signed_eq_0_iff split: if_splits bind_splits)
    have pool: "set_in_pool k s1"
      using s1(1) Cons.prems(2) by (auto simp: sem_add_eq set_in_pool_def split: if_splits)
    have IH: "agree (sem_nsems k) (sem_run sops (set_vals k s1)) (if e = VecDone then Some (set_vals k s') else None)"
      using Cons.IH [OF s1(2) pool] Cons.prems(3) by simp
    have "rel_option (\<lambda>a b. \<forall>n < sem_nsems k. a n = b n)
        (sem_run sops ((set_vals k s)(sem_num sop := ?v + sem_op sop))) (sem_run sops (set_vals k s1))"
      by (rule sem_run_cong) (use set_vals_add [OF s1(1) Cons.prems(2)] Cons.prems(3) in auto)
    then show ?thesis
      using IH False unfolding agree_def
      by (auto simp: Let_def rel_option_iff split: option.splits if_splits)
  qed
qed

section \<open>semop as an atomic operation\<close>

lemma set_pid_vals:
  assumes "for_each (\<lambda>sop. sem_modify k (uint (sem_num sop)) (\<lambda>x. x\<lparr>sempid := pid\<rparr>)) sops s = Some s'"
  shows "map semval (sem_pool s') = map semval (sem_pool s) \<and> semas s' = semas s"
  using assms
proof (induction sops arbitrary: s)
  case (Cons sop sops)
  then obtain s1 where s1: "sem_modify k (uint (sem_num sop)) (\<lambda>x. x\<lparr>sempid := pid\<rparr>) s = Some s1"
    "for_each (\<lambda>sop. sem_modify k (uint (sem_num sop)) (\<lambda>x. x\<lparr>sempid := pid\<rparr>)) sops s1 = Some s'"
    by (auto split: bind_splits)
  then have "map semval (sem_pool s1) = map semval (sem_pool s)" "semas s1 = semas s"
    by (auto simp: sem_modify_uint map_update split: if_splits intro!: list_update_same_conv [THEN iffD2])
  with Cons.IH [OF s1(2)] show ?case by simp
qed simp

lemma set_vals_map:
  "map semval (sem_pool s') = map semval (sem_pool s) \<Longrightarrow> set_in_pool k s \<Longrightarrow> n < sem_nsems k \<Longrightarrow>
    set_vals k s' n = set_vals k s n"
  unfolding set_vals_def set_in_pool_def word_less_nat_alt
  by (metis add_less_cancel_left length_map nth_map order_less_le_trans)

lemma semop_done_ok:
  assumes "semop_done env semid sops w u s = Some (0, rv, s')"
  shows "map semval (sem_pool s') = map semval (sem_pool s) \<and> rv = Some 0"
  using assms unfolding semop_done_def
  by (auto simp: sem_fail_def sem_return_def sem_wakeup_def sema_update_def Let_def
      split: bind_splits if_splits dest!: set_pid_vals sem_frame_record) (auto simp: sem_frame_def)

lemma semop_done_failed:
  assumes "semop_done env semid sops w u s1 = Some (e, rv, s')" "e \<noteq> 0"
    and "for_each (sem_add k sem_op) sops s = Some s1" "sema_get_by_id semid s = Some k"
  shows "sem_pool s' = sem_pool s"
proof -
  have r: "list_all (sem_in_range k s) sops"
    by (rule for_each_sem_add_range [OF assms(3)])
  then have s1: "s1 = s\<lparr>sem_pool := pool_shift (sem_delta k sem_op sops) (sem_pool s)\<rparr>"
    using assms(3) for_each_sem_add by simp
  then have k: "sema_get_by_id semid s1 = Some k"
    using assms(4) by simp
  have "u"
    using assms(1,2) by (auto simp: semop_done_def sem_return_def Let_def split: bind_splits if_splits)
  then obtain i si s2 si' s3 where rec: "undo_record env (- 1) (int semid) 0 sops s1 = Some (e, i, si, s2)"
      "undo_unrecord env si (int semid) (rev (take i sops)) s2 = Some (si', s3)"
      "semop_rollback k sops s3 = Some s'"
    using assms(1,2) k
    by (auto simp: semop_done_def sem_fail_def sem_return_def Let_def split: bind_splits if_splits)
  have "sem_frame s1 s3"
    using sem_frame_record [OF rec(1)] sem_frame_unrecord [OF rec(2)] by (rule sem_frame_trans)
  then have pool: "sem_pool s3 = pool_shift (sem_delta k sem_op sops) (sem_pool s)"
    by (simp add: sem_frame_def s1)
  then have "list_all (sem_in_range k s3) sops"
    using r by (simp add: sem_in_range_def list_all_iff)
  then show ?thesis
    using rec(3) by (auto simp: semop_rollback_add for_each_sem_add pool sem_delta_minus)
qed



section \<open>An operation outside the set\<close>

lemma semop_vec_append:
  "semop_vec k i xs w u s = Some (VecDone, j, w1, u1, s1) \<Longrightarrow>
    semop_vec k i (xs @ ys) w u s = semop_vec k j ys w1 u1 s1"
proof (induction xs arbitrary: i w u s)
  case (Cons sop xs)
  then show ?case
    by (cases "sem_num sop \<ge> sem_nsems k") (auto split: if_splits bind_splits)
qed simp

lemma semop_vec_total:
  "set_in_pool k s \<Longrightarrow> \<exists>r. semop_vec k i sops w u s = Some r"
proof (induction sops arbitrary: i w u s)
  case (Cons sop sops)
  show ?case
  proof (cases "sem_num sop \<ge> sem_nsems k")
    case False
    then have r: "sem_base k + unat (sem_num sop) < length (sem_pool s)"
      using Cons.prems by (simp add: set_in_pool_def word_less_nat_alt not_le)
    let ?s = "\<lambda>f. s\<lparr>sem_pool := (sem_pool s)[sem_base k + unat (sem_num sop) :=
      f (sem_pool s ! (sem_base k + unat (sem_num sop)))]\<rparr>"
    have "\<exists>r. semop_vec k (Suc i) sops w' u' (?s f) = Some r" "\<exists>r. semop_vec k (Suc i) sops w' u' s = Some r"
      for w' u' f
      using Cons.IH [of "?s f"] Cons.IH [of s] Cons.prems by (simp_all add: set_in_pool_def)
    then show ?thesis
      using False r by (auto simp: sem_load_uint sem_modify_uint)
  qed simp
qed simp

text \<open>C22. The atomicity promise is broken for out-of-range semaphore numbers: if the vector names a
  semaphore outside the set after operations that can be performed, \<open>semop\<close> returns EFBIG without
  taking these operations back, so the caller gets an error although the set has changed.\<close>

theorem semop_efbig_not_rolled_back:
  assumes "sema_get_by_id semid s = Some k" "set_in_pool k s"
    and "list_all (\<lambda>sop. sem_num sop < sem_nsems k) good" "sem_run good (set_vals k s) \<noteq> None"
    and "sem_num bad \<ge> sem_nsems k"
  shows "\<exists>s'. semop_try env semid (good @ bad # rest) u s = Some (SemReturn EFBIG None, s') \<and>
    sem_pool s' = pool_shift (sem_delta k sem_op good) (sem_pool s)"
proof -
  obtain e j w u' s1 where v: "semop_vec k 0 good False u s = Some (e, j, w, u', s1)"
    using semop_vec_total [OF assms(2)] by (metis surj_pair)
  have e: "e = VecDone"
    using semop_vec_run [OF v assms(2,3)] assms(4) by (auto simp: agree_def split: if_splits)
  have "sem_pool s1 = pool_shift (sem_delta k sem_op good) (sem_pool s)"
    using semop_vec_adds [OF v] e for_each_sem_add_range for_each_sem_add by fastforce
  moreover have "semop_try env semid (good @ bad # rest) u s = Some (SemReturn EFBIG None, s1)"
    using assms(1,5) semop_vec_append [OF v [unfolded e]] by (simp add: semop_try_def)
  ultimately show ?thesis by blast
qed

theorem semop_efbig_not_rolled_back_witness:
  "\<exists>s'. semop_try sample_sem_env 0 ([\<lparr>sem_num = 1, sem_op = 2, sem_flg = 0\<rparr>] @
       \<lparr>sem_num = 9, sem_op = 1, sem_flg = 0\<rparr> # []) False sample_sem = Some (SemReturn EFBIG None, s') \<and>
     semval (sem_pool s' ! 1) = 2 \<and> semval (sem_pool sample_sem ! 1) = 0"
proof -
  have "set_in_pool (the (sema_get_by_id 0 sample_sem)) sample_sem"
    by (simp add: set_in_pool_def sample_sem_slot sample_sem_pool)
  with semop_efbig_not_rolled_back [OF sample_sem_slot, of "[\<lparr>sem_num = 1, sem_op = 2, sem_flg = 0\<rparr>]"
      "\<lparr>sem_num = 9, sem_op = 1, sem_flg = 0\<rparr>" sample_sem_env "[]" False]
  show ?thesis
    by (auto simp: sample_sem_slot sample_sem_pool pool_shift_nth zero_sem_def signed_eq_0_iff)
qed



end
