(* ===== verification/Sysv_Sem_Ids.thy ===== *)
theory Sysv_Sem_Ids
  imports Sysv_Sem_Facts
begin

text \<open>
  The life of a semaphore set.  Abstractly the subsystem is a partial function from identifiers to
  lists of semaphores (\<open>sem_set\<close>); the source keeps the sets contiguously in one pool, grows the pool
  and the identifier table on demand, and compacts the pool when a set is removed.  \<open>pool_inv\<close> says
  that the live sets lie inside the used part of the pool and do not overlap.  Creation and removal
  refine update and deletion of the partial function.
\<close>

section \<open>The abstract view\<close>

definition sem_live :: "nat \<Rightarrow> sem_state \<Rightarrow> user_semid_ds option" where
  "sem_live i s = (case sema_get_by_id i s of None \<Rightarrow> None | Some k \<Rightarrow> if sem_allocated k then Some k else None)"

definition set_len :: "user_semid_ds \<Rightarrow> nat" where
  "set_len k = unat (sem_nsems k)"

definition sem_set :: "sem_state \<Rightarrow> nat \<Rightarrow> sem list option" where
  "sem_set s i = map_option (\<lambda>k. take (set_len k) (drop (sem_base k) (sem_pool s))) (sem_live i s)"

definition set_inside :: "int \<Rightarrow> user_semid_ds \<Rightarrow> bool" where
  "set_inside t k \<longleftrightarrow> int (sem_base k + set_len k) \<le> t \<and> 0 < set_len k"

definition sets_apart :: "user_semid_ds \<Rightarrow> user_semid_ds \<Rightarrow> bool" where
  "sets_apart k l \<longleftrightarrow> sem_base k + set_len k \<le> sem_base l \<or> sem_base l + set_len l \<le> sem_base k"

definition pool_inv :: "sem_state \<Rightarrow> bool" where
  "pool_inv s \<longleftrightarrow> table_inv s \<and> 0 \<le> semtot s \<and> semtot s \<le> int (length (sem_pool s)) \<and>
     semmns (seminfo s) = int (length (sem_pool s)) \<and>
     (\<forall>i k. sem_live i s = Some k \<longrightarrow> set_inside (semtot s) k) \<and>
     (\<forall>i j k l. sem_live i s = Some k \<longrightarrow> sem_live j s = Some l \<longrightarrow> i \<noteq> j \<longrightarrow> sets_apart k l)"

lemma set_len_frame [simp]:
  "set_len (k\<lparr>sem_perm := p\<rparr>) = set_len k" "set_len (k\<lparr>sem_base := b\<rparr>) = set_len k"
  by (simp_all add: set_len_def)

lemma sema_get_frame [simp]:
  "sema_get_by_id i (s\<lparr>semtot := t\<rparr>) = sema_get_by_id i s"
  "sema_get_by_id i (sem_wakeup c s) = sema_get_by_id i s"
  by (simp_all add: sema_get_by_id_def sem_wakeup_def)

lemma table_frame [simp]:
  "table_inv (s\<lparr>semtot := t\<rparr>) = table_inv s" "table_inv (s\<lparr>sem_pool := p\<rparr>) = table_inv s"
  "table_inv (sem_wakeup c s) = table_inv s"
  "sem_slots (s\<lparr>semtot := t\<rparr>) = sem_slots s" "sem_slots (s\<lparr>sem_pool := p\<rparr>) = sem_slots s"
  by (simp_all add: table_inv_def sem_slots_def sem_wakeup_def)

lemma table_sem_frame: "sem_frame s s' \<Longrightarrow> table_inv s' = table_inv s"
  by (simp add: table_inv_def sem_frame_def)

lemma sema_update_frame [simp]:
  "sem_pool (sema_update i f s) = sem_pool s" "semtot (sema_update i f s) = semtot s"
  "seminfo (sema_update i f s) = seminfo s" "sem_pool (sem_wakeup c s) = sem_pool s"
  "semtot (sem_wakeup c s) = semtot s" "seminfo (sem_wakeup c s) = seminfo s"
  by (simp_all add: sema_update_def sem_wakeup_def)

lemma table_semmni: "table_inv s \<Longrightarrow> semmni (seminfo s) = int (sem_slots s)"
  by (simp add: table_inv_def sem_slots_def)

lemma table_slots: "table_inv s \<Longrightarrow> nat (semmni (seminfo s)) = sem_slots s"
  by (simp add: table_inv_def sem_slots_def nat_mult_distrib)

lemma sweep_frame:
  "for_each (sema.sweep P f) is s = Some s' \<Longrightarrow> sem_pool s' = sem_pool s \<and> semtot s' = semtot s \<and> seminfo s' = seminfo s"
proof (induction "is" arbitrary: s)
  case (Cons i "is")
  then obtain s1 where s1: "sema.sweep P f i s = Some s1" "for_each (sema.sweep P f) is s1 = Some s'"
    by (auto split: bind_splits)
  then have "sem_pool s1 = sem_pool s \<and> semtot s1 = semtot s \<and> seminfo s1 = seminfo s"
    by (auto simp: sema.sweep_def split: bind_splits)
  with Cons.IH [OF s1(2)] show ?case by simp
qed simp

section \<open>Removing a set\<close>

lemma rmid_shift_loop:
  assumes "b \<le> t" "t + n \<le> length (sem_pool s)"
  shows "for_each (rmid_shift n) [b..<t] s =
    Some (s\<lparr>sem_pool := take b (sem_pool s) @ take (t - b) (drop (b + n) (sem_pool s)) @ drop t (sem_pool s)\<rparr>)"
proof -
  let ?p = "sem_pool s"
  define P where "P i s' \<longleftrightarrow> s' = s\<lparr>sem_pool := take b ?p @ take i (drop (b + n) ?p) @ drop (b + i) ?p\<rparr>" for i s'
  have "\<exists>s'. for_each (\<lambda>i. rmid_shift n (b + i)) [0..<t - b] s = Some s' \<and> P (t - b) s'"
  proof (rule for_each_upt_invariant)
    show "P 0 s" by (simp add: P_def)
    fix i s' assume i: "i < t - b" and P: "P i s'"
    have "drop (b + i) ?p = ?p ! (b + i) # drop (Suc (b + i)) ?p"
      "take (Suc i) (drop (b + n) ?p) = take i (drop (b + n) ?p) @ [?p ! (b + i + n)]"
      using i assms by (simp_all add: Cons_nth_drop_Suc take_Suc_conv_app_nth add.commute add.left_commute)
    moreover have "(take b ?p @ take i (drop (b + n) ?p) @ drop (b + i) ?p) ! (b + i + n) = ?p ! (b + i + n)"
      using i assms by (simp add: nth_append)
    ultimately show "\<exists>s''. rmid_shift n (b + i) s' = Some s'' \<and> P (Suc i) s''"
      using i assms P unfolding P_def by (simp add: rmid_shift_def list_update_append)
  qed
  moreover have "[b..<t] = map (\<lambda>i. b + i) [0..<t - b]"
    using assms(1) by (simp add: map_add_upt [of b "t - b"] add.commute)
  ultimately show ?thesis
    using assms(1) by (auto simp: P_def for_each_map)
qed

lemma rebase_sweep:
  "rmid_rebase b n = sema.sweep (\<lambda>k. sem_allocated k \<and> sem_base k > b) (\<lambda>k. k\<lparr>sem_base := sem_base k - n\<rparr>)"
  by (simp add: rmid_rebase_def sema.sweep_def fun_eq_iff)

lemma sem_frame_clear_walk: "semundo_clear_walk fuel i semid n s = Some s' \<Longrightarrow> sem_frame s s'"
proof (induction fuel i semid n s rule: semundo_clear_walk.induct)
  case (2 fuel i semid n s)
  then show ?case
    by (auto simp: Let_def split: if_splits bind_splits intro: sem_frame_trans [OF sem_frame_semu(1)])
qed simp

lemma sem_frame_clear: "semundo_clear semid n s = Some s' \<Longrightarrow> sem_frame s s'"
  unfolding semundo_clear_def by (rule sem_frame_clear_walk)

definition rmid_moved :: "user_semid_ds \<Rightarrow> user_semid_ds \<Rightarrow> user_semid_ds" where
  "rmid_moved k l = (if sem_base l > sem_base k then l\<lparr>sem_base := sem_base l - set_len k\<rparr> else l)"

definition rmid_pool :: "user_semid_ds \<Rightarrow> nat \<Rightarrow> sem list \<Rightarrow> sem list" where
  "rmid_pool k t p = take (sem_base k) p @ take (t - sem_base k) (drop (sem_base k + set_len k) p) @ drop t p"

lemma rmid_compact_spec:
  assumes "table_inv s" "sem_base k \<le> t" "t + set_len k \<le> length (sem_pool s)" "t = nat (semtot s - int (set_len k))"
  obtains s' where "rmid_compact k s = Some s'" "table_inv s'" "sem_slots s' = sem_slots s"
    "semtot s' = semtot s - int (set_len k)" "seminfo s' = seminfo s" "sem_pool s' = rmid_pool k t (sem_pool s)"
    "\<And>j. sema_get_by_id j s' = map_option (\<lambda>l. if sem_allocated l then rmid_moved k l else l) (sema_get_by_id j s)"
proof -
  define s1 where "s1 = s\<lparr>semtot := semtot s - int (set_len k), sem_pool := rmid_pool k t (sem_pool s)\<rparr>"
  have tab: "table_inv s1" "sem_slots s1 = sem_slots s" "\<And>j. sema_get_by_id j s1 = sema_get_by_id j s"
    using assms(1) by (simp_all add: s1_def)
  have shift: "for_each (rmid_shift (set_len k)) [sem_base k..<t] (s\<lparr>semtot := semtot s - int (set_len k)\<rparr>) = Some s1"
    using rmid_shift_loop [of "sem_base k" t "set_len k" "s\<lparr>semtot := semtot s - int (set_len k)\<rparr>"] assms(2,3)
    by (simp add: s1_def rmid_pool_def)
  let ?P = "\<lambda>l. sem_allocated l \<and> sem_base l > sem_base k" and ?f = "\<lambda>l. l\<lparr>sem_base := sem_base l - set_len k\<rparr>"
  obtain s2 where s2: "for_each (sema.sweep ?P ?f) [0..<sem_slots s] s1 = Some s2" "table_inv s2"
    "sem_slots s2 = sem_slots s"
    "\<And>j. sema_get_by_id j s2 = map_option (\<lambda>x. if j < sem_slots s \<and> ?P x then ?f x else x) (sema_get_by_id j s)"
    using sema.sweep_upto [OF tab(1), of "sem_slots s" ?P ?f] tab(2,3) by auto
  have "rmid_compact k s = Some s2"
    using shift s2(1) table_slots [OF tab(1)] tab(2) assms(4)
    by (simp add: rmid_compact_def rebase_sweep s1_def Let_def set_len_def [symmetric] del: of_nat_unat)
  moreover have "sema_get_by_id j s2 = map_option (\<lambda>l. if sem_allocated l then rmid_moved k l else l) (sema_get_by_id j s)" for j
    using s2(4) [of j] sema.get_defined [OF assms(1), of j] by (cases "sema_get_by_id j s") (auto simp: rmid_moved_def)
  ultimately show ?thesis
    using that s2(2,3) sweep_frame [OF s2(1)] by (simp add: s1_def)
qed

text \<open>Closing a gap of length \<open>n\<close> at \<open>b\<close>: slices below the gap stay, slices above it move down.\<close>

lemma slice_below:
  "c + m \<le> b \<Longrightarrow> b \<le> length p \<Longrightarrow> take m (drop c (take b p @ q)) = take m (drop c p)"
  by (rule nth_equalityI) (auto simp: nth_append)

lemma slice_above:
  assumes "b \<le> t" "t + n \<le> length p" "b + n \<le> c" "c + m \<le> t + n"
  shows "take m (drop (c - n) (take b p @ take (t - b) (drop (b + n) p) @ drop t p)) = take m (drop c p)"
  using assms by (intro nth_equalityI) (auto simp: nth_append)

lemma sem_live_slot:
  assumes "table_inv s" "sem_live i s = Some k"
  shows "i < sem_slots s" "sema_get_by_id i s = Some k" "sem_allocated k"
  using assms sema.get_defined [OF assms(1), of i]
  by (auto simp: sem_live_def not_le [symmetric] split: option.splits if_splits)

lemma pool_invD:
  assumes "pool_inv s"
  shows "table_inv s" "0 \<le> semtot s" "semtot s \<le> int (length (sem_pool s))" "semmns (seminfo s) = int (length (sem_pool s))"
    "\<And>i k. sem_live i s = Some k \<Longrightarrow> set_inside (semtot s) k"
    "\<And>i j k l. sem_live i s = Some k \<Longrightarrow> sem_live j s = Some l \<Longrightarrow> i \<noteq> j \<Longrightarrow> sets_apart k l"
  using assms unfolding pool_inv_def by blast+

lemma gap_bounds:
  assumes "pool_inv s" "set_inside (semtot s) k"
  shows "sem_base k \<le> nat (semtot s - int (set_len k))"
    "nat (semtot s - int (set_len k)) + set_len k \<le> length (sem_pool s)"
  using pool_invD(2,3) [OF assms(1)] assms(2) by (auto simp: set_inside_def)

text \<open>What a completed removal did.\<close>

lemma sem_rmid_effect:
  assumes inv: "pool_inv s" and k: "sem_live semid s = Some k" and run: "sem_rmid env semid s = Some (0, rv, s')"
  shows "table_inv s'" "semtot s' = semtot s - int (set_len k)" "semmns (seminfo s') = semmns (seminfo s)"
    "sem_pool s' = rmid_pool k (nat (semtot s - int (set_len k))) (sem_pool s)"
    "\<And>j. sem_live j s' = (if j = semid then None else map_option (rmid_moved k) (sem_live j s))"
proof -
  let ?u = "kauth_cred_getuid (env_cred env)"
  let ?f = "\<lambda>k. k\<lparr>sem_perm := (sem_perm k)\<lparr>ipc_cuid := ?u, ipc_uid := ?u\<rparr>\<rparr>"
  let ?g = "\<lambda>k. k\<lparr>sem_perm := (sem_perm k)\<lparr>ipc_mode := 0\<rparr>\<rparr>"
  let ?s = "sema_update semid ?f s" and ?t = "nat (semtot s - int (set_len k))"
  note tab = pool_invD(1) [OF inv]
  note slot = sem_live_slot [OF tab k] and pos = gap_bounds [OF inv pool_invD(5) [OF inv k]]
  have tab': "table_inv ?s" using tab slot(1) by (rule sema.inv_upd)
  obtain s1 where s1: "rmid_compact k ?s = Some s1" "table_inv s1" "sem_slots s1 = sem_slots ?s"
    "semtot s1 = semtot s - int (set_len k)" "seminfo s1 = seminfo s" "sem_pool s1 = rmid_pool k ?t (sem_pool s)"
    "\<And>j. sema_get_by_id j s1 = map_option (\<lambda>l. if sem_allocated l then rmid_moved k l else l) (sema_get_by_id j ?s)"
    by (rule rmid_compact_spec [OF tab' pos(1)]) (use pos(2) in \<open>simp_all only: sema_update_frame\<close>)
  have id1: "semid < sem_slots s1" using s1(3) slot(1) sema.cnt_upd [OF tab] by simp
  obtain s2 where s2: "semundo_clear (int semid) (- 1) (sema_update semid ?g s1) = Some s2"
    "s' = sem_wakeup (int semid) s2"
    using run slot(2) s1(1) by (auto simp: sem_rmid_def sem_fail_def sem_return_def Let_def split: if_splits bind_splits)
  note fr = sem_frame_clear [OF s2(1)]
  show "table_inv s'" "semtot s' = semtot s - int (set_len k)" "semmns (seminfo s') = semmns (seminfo s)"
    "sem_pool s' = rmid_pool k ?t (sem_pool s)"
    using fr s1 s2(2) table_sem_frame [OF fr] sema.inv_upd [OF s1(2) id1] by (simp_all add: sem_frame_def)
  have "sema_get_by_id j s' = map_option (if j = semid then ?g else id) (sema_get_by_id j s1)" for j
    using s2(2) sem_frame_get [OF fr] sema.get_upd [OF s1(2) id1] by (simp add: option.map_id)
  then show "sem_live j s' = (if j = semid then None else map_option (rmid_moved k) (sem_live j s))" for j
    using s1(7) [of j] sema.get_upd [OF tab slot(1), of j ?f]
    by (auto simp: sem_live_def sem_allocated_def rmid_moved_def split: option.splits)
qed

lemma rmid_sets_apart:
  assumes "sets_apart l k" "sets_apart l m" "sets_apart m k" "0 < set_len k" "0 < set_len l" "0 < set_len m"
  shows "sets_apart (rmid_moved k l) (rmid_moved k m)"
  using assms by (auto simp: sets_apart_def rmid_moved_def)

lemma rmid_inside:
  assumes "sets_apart l k" "set_inside t k" "set_inside t l"
  shows "set_inside (t - int (set_len k)) (rmid_moved k l)"
  using assms by (auto simp: sets_apart_def set_inside_def rmid_moved_def)

lemma rmid_slice:
  assumes inv: "pool_inv s" and live: "sem_live i s = Some k" "sem_live j s = Some l" "i \<noteq> j"
  shows "take (set_len (rmid_moved k l)) (drop (sem_base (rmid_moved k l)) (rmid_pool k (nat (semtot s - int (set_len k))) (sem_pool s))) =
    take (set_len l) (drop (sem_base l) (sem_pool s))"
proof -
  let ?t = "nat (semtot s - int (set_len k))"
  note k = pool_invD(5) [OF inv live(1)] pool_invD(5) [OF inv live(2)] pool_invD(6) [OF inv live]
  note b = gap_bounds [OF inv k(1)]
  have top: "sem_base l + set_len l \<le> ?t + set_len k"
    using k(1,2) by (auto simp: set_inside_def)
  consider "sem_base l + set_len l \<le> sem_base k" | "sem_base k + set_len k \<le> sem_base l"
    using k(3) by (auto simp: sets_apart_def)
  then show ?thesis
  proof cases
    case 1
    then have eq: "rmid_moved k l = l"
      by (simp add: rmid_moved_def)
    show ?thesis
      unfolding eq rmid_pool_def using 1 b by (intro slice_below) linarith+
  next
    case 2
    then have eq: "sem_base (rmid_moved k l) = sem_base l - set_len k" "set_len (rmid_moved k l) = set_len l"
      using k(1) by (simp_all add: rmid_moved_def set_inside_def)
    show ?thesis
      unfolding eq rmid_pool_def by (rule slice_above [OF b 2 top])
  qed
qed

text \<open>C19. Removing a set with \<open>IPC_RMID\<close> removes exactly that set: the pool is compacted so that every
  other identifier keeps its semaphores with their values, and the invariant of the pool is kept.\<close>

theorem rmid_refines:
  assumes "pool_inv s" "sem_live semid s = Some k" "sem_rmid env semid s = Some (0, rv, s')"
  shows "pool_inv s' \<and> sem_set s' = (sem_set s)(semid := None)"
proof
  note eff = sem_rmid_effect [OF assms] and inv = pool_invD [OF assms(1)]
  note gap = gap_bounds [OF assms(1) inv(5) [OF assms(2)]]
  have pos: "0 < set_len l" if "sem_live j s = Some l" for j l
    using inv(5) [OF that] by (simp add: set_inside_def)
  have moved: "\<exists>l. m = rmid_moved k l \<and> sem_live j s = Some l \<and> j \<noteq> semid" if "sem_live j s' = Some m" for j m
    using that eff(5) [of j] by (auto split: if_split_asm)
  show "pool_inv s'"
    unfolding pool_inv_def
  proof (intro conjI allI impI)
    show "table_inv s'" by (rule eff)
    show "0 \<le> semtot s'" "semtot s' \<le> int (length (sem_pool s'))" "semmns (seminfo s') = int (length (sem_pool s'))"
      using inv(2-4) inv(5) [OF assms(2)] gap by (simp_all add: eff(2-4) rmid_pool_def set_inside_def)
    show "set_inside (semtot s') m" if m: "sem_live j s' = Some m" for j m
    proof -
      obtain l where l: "m = rmid_moved k l" "sem_live j s = Some l" "j \<noteq> semid" using moved [OF m] by blast
      then show ?thesis
        using rmid_inside [OF inv(6) [OF l(2) assms(2) l(3)] inv(5) [OF assms(2)] inv(5) [OF l(2)]] by (simp add: eff(2))
    qed
    show "sets_apart l m" if lm: "sem_live i s' = Some l" "sem_live j s' = Some m" "i \<noteq> j" for i j l m
    proof -
      obtain l' where l: "l = rmid_moved k l'" "sem_live i s = Some l'" "i \<noteq> semid" using moved [OF lm(1)] by blast
      obtain m' where m: "m = rmid_moved k m'" "sem_live j s = Some m'" "j \<noteq> semid" using moved [OF lm(2)] by blast
      show ?thesis
        using rmid_sets_apart [OF inv(6) [OF l(2) assms(2) l(3)] inv(6) [OF l(2) m(2) lm(3)]
            inv(6) [OF m(2) assms(2) m(3)] pos [OF assms(2)] pos [OF l(2)] pos [OF m(2)]] l(1) m(1) by simp
    qed
  qed
  show "sem_set s' = (sem_set s)(semid := None)"
  proof
    show "sem_set s' j = ((sem_set s)(semid := None)) j" for j
      using rmid_slice [OF assms(1,2), of j]
      by (cases "sem_live j s"; cases "j = semid") (simp_all add: sem_set_def eff(4,5))
  qed
qed

section \<open>Creating a set\<close>

lemma sem_live_frame: "(\<And>j. sema_get_by_id j s' = sema_get_by_id j s) \<Longrightarrow> sem_live j s' = sem_live j s"
  by (simp add: sem_live_def)

lemma grow_pool_inv:
  assumes inv: "pool_inv s" and run: "grow_sem_pool env (semtot s + n) s = (True, s')"
    and more: "n > semmns (seminfo s) - semtot s"
  shows "pool_inv s' \<and> sem_set s' = sem_set s \<and> semtot s' = semtot s \<and> semtot s + n \<le> semmns (seminfo s') \<and>
    (\<forall>j. sem_live j s' = sem_live j s)"
proof -
  note D = pool_invD [OF inv]
  obtain m where m: "semtot s + n \<le> m" "s' = s\<lparr>sem_pool := sem_pool s @ replicate (nat (m - semmns (seminfo s))) zero_sem,
      seminfo := (seminfo s)\<lparr>semmns := m\<rparr>\<rparr>"
  proof
    define c where "c = ((semtot s + n) div SEMMNS_INC + 1) * SEMMNS_INC"
    define m where "m = (if c > semmns (limitseminfo s) then semmns (limitseminfo s) else c)"
    have "semtot s + n < c"
      unfolding c_def SEMMNS_INC_def by presburger
    then show le: "semtot s + n \<le> m"
      using run by (auto simp: m_def grow_sem_pool_def Let_def split: if_splits)
    show "s' = s\<lparr>sem_pool := sem_pool s @ replicate (nat (m - semmns (seminfo s))) zero_sem,
        seminfo := (seminfo s)\<lparr>semmns := m\<rparr>\<rparr>"
      using run le more D(2-4) by (auto simp: grow_sem_pool_def Let_def m_def c_def split: if_splits)
  qed
  have live: "sem_live j s' = sem_live j s" for j
    by (rule sem_live_frame) (simp add: m(2) sema_get_by_id_def)
  have pool: "sem_pool s' = sem_pool s @ replicate (nat (m - semmns (seminfo s))) zero_sem"
    and info: "table_inv s' = table_inv s" "semtot s' = semtot s" "semmns (seminfo s') = m"
    by (simp_all add: m(2) table_inv_def)
  have "sem_set s' j = sem_set s j" for j
  proof (cases "sem_live j s")
    case (Some k)
    then show ?thesis
      using D(5) [OF Some] D(3) by (simp add: sem_set_def live pool set_inside_def)
  qed (simp add: sem_set_def live)
  then show ?thesis
    using inv m(1) more D(2-4) by (simp add: pool_inv_def live pool info fun_eq_iff)
qed

lemma grow_array_get:
  assumes tab: "table_inv s" and run: "grow_sema_array env s = (True, s')"
  shows "table_inv s' \<and> sem_pool s' = sem_pool s \<and> semtot s' = semtot s \<and> semmns (seminfo s') = semmns (seminfo s) \<and>
    sem_slots s' = sem_slots s + SEMMNI_INC \<and>
    (\<forall>j. sema_get_by_id j s' = (if sem_slots s \<le> j \<and> j < sem_slots s' then Some zero_semid else sema_get_by_id j s))"
proof -
  have s': "s' = s\<lparr>semas := semas s @ [replicate SEMMNI_INC zero_semid],
      seminfo := (seminfo s)\<lparr>semmni := semmni (seminfo s) + int SEMMNI_INC\<rparr>\<rparr>"
    using run by (simp add: grow_sema_array_def Let_def split: if_splits)
  have inc: "j mod SEMMNI_INC < SEMMNI_INC" for j
    by (simp add: SEMMNI_INC_def)
  have "j div SEMMNI_INC = length (semas s)" if "sem_slots s \<le> j" "j < sem_slots s + SEMMNI_INC" for j
    using that by (auto simp: sem_slots_def SEMMNI_INC_def)
  moreover have "j div SEMMNI_INC < length (semas s) \<longleftrightarrow> j < sem_slots s" for j
    by (auto simp: sem_slots_def SEMMNI_INC_def)
  moreover have "j div SEMMNI_INC < Suc (length (semas s)) \<longleftrightarrow> j < sem_slots s + SEMMNI_INC" for j
    by (auto simp: sem_slots_def SEMMNI_INC_def)
  ultimately have "sema_get_by_id j s' = (if sem_slots s \<le> j \<and> j < sem_slots s + SEMMNI_INC then Some zero_semid else sema_get_by_id j s)" for j
    using inc by (auto simp: sema_get_by_id_def s' nth_append)
  then show ?thesis
    using tab by (simp add: s' table_inv_def sem_slots_def)
qed

lemma zero_semid_free [simp]: "\<not> sem_allocated zero_semid"
  by code_simp

lemma grow_array_inv:
  assumes inv: "pool_inv s" and run: "grow_sema_array env s = (True, s')"
  shows "pool_inv s'" "sem_set s' = sem_set s" "semtot s' = semtot s" "semmns (seminfo s') = semmns (seminfo s)"
    "sem_slots s < sem_slots s'" "\<And>j. sem_live j s' = sem_live j s"
proof -
  note g = grow_array_get [OF pool_invD(1) [OF inv] run]
  show live: "sem_live j s' = sem_live j s" for j
    using g sema.get_defined [OF pool_invD(1) [OF inv], of j] by (auto simp: sem_live_def split: option.splits)
  show "pool_inv s'" "sem_set s' = sem_set s"
    using g inv by (simp_all add: pool_inv_def sem_set_def live fun_eq_iff)
  show "semtot s' = semtot s" "semmns (seminfo s') = semmns (seminfo s)" "sem_slots s < sem_slots s'"
    using g by (simp_all add: SEMMNI_INC_def)
qed

text \<open>Both searches of \<open>semget\<close> scan the table for the first slot with a property.\<close>

context id_table
begin

fun scan :: "('e \<Rightarrow> bool) \<Rightarrow> nat \<Rightarrow> nat list \<Rightarrow> 's \<Rightarrow> nat option" where
  "scan P d [] s = Some d"
| "scan P d (i # is) s = do { x \<leftarrow> get i s; if P x then Some i else scan P d is s }"

lemma scan_total: "inv s \<Longrightarrow> set is \<subseteq> {..<cnt s} \<Longrightarrow> \<exists>i. scan P d is s = Some i"
proof (induction "is")
  case (Cons j "is")
  then show ?case
    using get_defined [of s j] by (cases "get j s") auto
qed simp

lemma scan_hit: "scan P d is s = Some i \<Longrightarrow> i = d \<or> (i \<in> set is \<and> (\<exists>x. get i s = Some x \<and> P x))"
  by (induction "is") (auto split: bind_splits if_splits)

lemma scan_all:
  assumes "inv s"
  obtains i where "scan P (cnt s) [0..<cnt s] s = Some i" "i \<le> cnt s" "i < cnt s \<Longrightarrow> \<exists>x. get i s = Some x \<and> P x"
proof -
  obtain i where i: "scan P (cnt s) [0..<cnt s] s = Some i"
    using scan_total [OF assms, of "[0..<cnt s]"] by (auto simp: lessThan_atLeast0)
  from scan_hit [OF i] that [OF i] show ?thesis by auto
qed

end

lemma sem_find_scan:
  "sem_find_free is s = sema.scan (\<lambda>k. \<not> sem_allocated k) (nat (semmni (seminfo s))) is s"
  "sem_find_key key is s = sema.scan (\<lambda>k. sem_allocated k \<and> ipc_key (sem_perm k) = key) (nat (semmni (seminfo s))) is s"
  by (induction "is") (simp_all cong: if_cong)

lemma bzero_loop:
  assumes "b + n \<le> length (sem_pool s)"
  shows "for_each (\<lambda>i s. if i < length (sem_pool s) then Some (s\<lparr>sem_pool := (sem_pool s)[i := zero_sem]\<rparr>) else None)
      [b..<b + n] s =
    Some (s\<lparr>sem_pool := take b (sem_pool s) @ replicate n zero_sem @ drop (b + n) (sem_pool s)\<rparr>)"
proof -
  let ?f = "\<lambda>i s. if i < length (sem_pool s) then Some (s\<lparr>sem_pool := (sem_pool s)[i := zero_sem]\<rparr>) else None"
  define P where "P i s' \<longleftrightarrow> s' = s\<lparr>sem_pool := take b (sem_pool s) @ replicate i zero_sem @ drop (b + i) (sem_pool s)\<rparr>" for i s'
  have "\<exists>s'. for_each (\<lambda>i. ?f (b + i)) [0..<n] s = Some s' \<and> P n s'"
  proof (rule for_each_upt_invariant)
    show "P 0 s" by (simp add: P_def)
    fix i s' assume i: "i < n" and P: "P i s'"
    have "drop (b + i) (sem_pool s) = sem_pool s ! (b + i) # drop (Suc (b + i)) (sem_pool s)"
      using i assms by (simp add: Cons_nth_drop_Suc)
    then show "\<exists>s''. ?f (b + i) s' = Some s'' \<and> P (Suc i) s''"
      using i assms P unfolding P_def by (simp add: list_update_append replicate_append_same flip: replicate_Suc)
  qed
  moreover have "[b..<b + n] = map (\<lambda>i. b + i) [0..<n]"
    by (simp add: map_add_upt [of b n] add.commute)
  ultimately show ?thesis by (auto simp: P_def for_each_map)
qed

lemma SEM_ALLOC_nonzero [simp]: "SEM_ALLOC \<noteq> 0"
  by (simp add: SEM_ALLOC_def)

definition new_semid :: "sem_env \<Rightarrow> int \<Rightarrow> int \<Rightarrow> u32 \<Rightarrow> nat \<Rightarrow> user_semid_ds \<Rightarrow> user_semid_ds" where
  "new_semid env key nsems semflg base k =
     k\<lparr>sem_perm := (sem_perm k)
         \<lparr>ipc_key := key, ipc_cuid := kauth_cred_getuid (env_cred env), ipc_uid := kauth_cred_getuid (env_cred env),
          ipc_cgid := kauth_cred_getgid (env_cred env), ipc_gid := kauth_cred_getgid (env_cred env),
          ipc_mode := ucast (semflg AND 0x1FF) OR SEM_ALLOC,
          ipc_seq := (ipc_seq (sem_perm k) + 1) AND 0x7fff\<rparr>,
       sem_nsems := word_of_int nsems, sem_otime := 0, sem_ctime := env_time env, sem_base := base\<rparr>"

lemma new_semid_simps [simp]:
  "sem_allocated (new_semid env key nsems semflg base k)"
  "sem_base (new_semid env key nsems semflg base k) = base"
  "ipc_seq (sem_perm (new_semid env key nsems semflg base k)) = (ipc_seq (sem_perm k) + 1) AND 0x7fff"
  "0 < nsems \<Longrightarrow> nsems < 65536 \<Longrightarrow> set_len (new_semid env key nsems semflg base k) = nat nsems"
  by (simp_all add: new_semid_def sem_allocated_def set_len_def unat_eq_nat_uint uint_word_of_int_eq take_bit_int_eq_self)

lemma semget_init_effect:
  assumes inv: "pool_inv s" and free: "sema_get_by_id semid s = Some k" "\<not> sem_allocated k"
    and n: "0 < n" "n < 65536" "semtot s + n \<le> semmns (seminfo s)"
  shows "\<exists>s'. semget_init env key n semflg semid s =
      Some (0, Some (IXSEQ_TO_IPCID (int semid) (sem_perm (new_semid env key n semflg (nat (semtot s)) k))), s') \<and> table_inv s' \<and>
    semtot s' = semtot s + n \<and> seminfo s' = seminfo s \<and>
    sem_pool s' = take (nat (semtot s)) (sem_pool s) @ replicate (nat n) zero_sem @ drop (nat (semtot s) + nat n) (sem_pool s) \<and>
    (\<forall>j. sem_live j s' = ((\<lambda>j. sem_live j s)(semid \<mapsto> new_semid env key n semflg (nat (semtot s)) k)) j)"
proof -
  note D = pool_invD [OF inv]
  let ?b = "nat (semtot s)" and ?s = "sema_update semid (new_semid env key n semflg (nat (semtot s))) s"
  let ?p = "take ?b (sem_pool s) @ replicate (nat n) zero_sem @ drop (?b + nat n) (sem_pool s)"
  have id: "semid < sem_slots s"
    using sema.get_defined [OF D(1), of semid] free(1) by auto
  have b: "?b + nat n \<le> length (sem_pool s)" using n D(2-4) by linarith
  let ?s' = "?s\<lparr>semtot := semtot s + n, sem_pool := ?p\<rparr>"
  have get: "sema_get_by_id j ?s' = (if j = semid then Some (new_semid env key n semflg ?b k) else sema_get_by_id j s)" for j
    using sema.get_upd [OF D(1) id, of j] free(1) by (simp add: sema_get_frame sema_get_pool)
  have "semget_init env key n semflg semid s =
      Some (0, Some (IXSEQ_TO_IPCID (int semid) (sem_perm (new_semid env key n semflg ?b k))), ?s')"
    using free(1) get [of semid] bzero_loop [of ?b "nat n" "?s\<lparr>semtot := semtot s + n\<rparr>"] b
    unfolding semget_init_def Let_def new_semid_def [symmetric] by (simp add: sem_return_def)
  moreover have "table_inv ?s'" using sema.inv_upd [OF D(1) id] by simp
  moreover have "sem_live j ?s' = ((\<lambda>j. sem_live j s)(semid \<mapsto> new_semid env key n semflg ?b k)) j" for j
    using get [of j] by (simp add: sem_live_def)
  ultimately show ?thesis by (intro exI [of _ ?s']) simp
qed


text \<open>A new set at the end of the used part of the pool.\<close>

lemma pool_inv_extend:
  assumes inv: "pool_inv s" and free: "sem_live i s = None"
    and k: "sem_base k = nat (semtot s)" "set_len k = nat n" and n: "0 < n" "semtot s + n \<le> semmns (seminfo s)"
    and tab: "table_inv s'" and tot: "semtot s' = semtot s + n" and info: "seminfo s' = seminfo s"
    and pool: "sem_pool s' = take (nat (semtot s)) (sem_pool s) @ replicate (nat n) zero_sem @ drop (nat (semtot s) + nat n) (sem_pool s)"
    and live: "\<And>j. sem_live j s' = ((\<lambda>j. sem_live j s)(i \<mapsto> k)) j"
  shows "pool_inv s' \<and> sem_set s' = (sem_set s)(i \<mapsto> replicate (nat n) zero_sem)"
proof
  note D = pool_invD [OF inv]
  have len: "length (sem_pool s') = length (sem_pool s)"
    using D(2-4) n pool by simp
  have apart: "sets_apart l k \<and> sets_apart k l" if "sem_live j s = Some l" for j l
    using D(2) D(5) [OF that] k by (auto simp: sets_apart_def set_inside_def)
  show "pool_inv s'"
    unfolding pool_inv_def
  proof (intro conjI allI impI)
    show "table_inv s'" by (rule tab)
    show "0 \<le> semtot s'" "semtot s' \<le> int (length (sem_pool s'))" "semmns (seminfo s') = int (length (sem_pool s'))"
      using D(2-4) n by (simp_all add: tot info len)
    show "set_inside (semtot s') l" if "sem_live j s' = Some l" for j l
      using that D(2) D(5) [of j l] k n by (auto simp: live tot set_inside_def split: if_split_asm)
    show "sets_apart l m" if "sem_live j1 s' = Some l" "sem_live j2 s' = Some m" "j1 \<noteq> j2" for j1 j2 l m
      using that D(6) [of j1 l j2 m] apart by (auto simp: live split: if_split_asm)
  qed
  show "sem_set s' = (sem_set s)(i \<mapsto> replicate (nat n) zero_sem)"
  proof
    fix j
    show "sem_set s' j = ((sem_set s)(i \<mapsto> replicate (nat n) zero_sem)) j"
    proof (cases "j = i")
      case True
      then show ?thesis
        using D(2-4) n by (simp add: sem_set_def live k pool)
    next
      case False
      have "sem_base l + set_len l \<le> nat (semtot s)" if "sem_live j s = Some l" for l
        using D(5) [OF that] by (auto simp: set_inside_def)
      then show ?thesis
        using False D(2-4) by (cases "sem_live j s") (simp_all add: sem_set_def live pool slice_below del: take_append drop_append)
    qed
  qed
qed

lemma semget_free_slot:
  assumes "pool_inv s"
  obtains i where "sem_find_free [0..<nat (semmni (seminfo s))] s = Some i" "i \<le> sem_slots s"
    "i < sem_slots s \<Longrightarrow> sem_live i s = None"
proof -
  note tab = pool_invD(1) [OF assms]
  obtain i where "sema.scan (\<lambda>k. \<not> sem_allocated k) (sem_slots s) [0..<sem_slots s] s = Some i" "i \<le> sem_slots s"
    "i < sem_slots s \<Longrightarrow> \<exists>k. sema_get_by_id i s = Some k \<and> \<not> sem_allocated k"
    using sema.scan_all [OF tab, where P = "\<lambda>k. \<not> sem_allocated k"] by blast
  then show ?thesis
    by (intro that [of i]) (auto simp: sem_find_scan table_slots [OF tab] sem_live_def)
qed

text \<open>The slot that \<open>semget\<close> fills, after growing the table when it is full.\<close>

lemma semget_slot:
  assumes inv: "pool_inv s" and n: "0 < n" "n < 65536" "semtot s + n \<le> semmns (seminfo s)"
    and free: "i \<le> sem_slots s" "i < sem_slots s \<Longrightarrow> sem_live i s = None"
    and grow: "(if int i = semmni (seminfo s) then grow_sema_array env s else (True, s)) = (True, s1)"
  shows "\<exists>k s'. semget_init env key n semflg i s1 = Some (0, Some (IXSEQ_TO_IPCID (int i) (sem_perm k)), s') \<and>
    sem_set s i = None \<and> sem_live i s' = Some k \<and> pool_inv s' \<and> sem_set s' = (sem_set s)(i \<mapsto> replicate (nat n) zero_sem)"
proof -
  note D = pool_invD [OF inv]
  note mni = table_semmni [OF D(1)]
  have s1: "pool_inv s1 \<and> sem_set s1 = sem_set s \<and> semtot s1 = semtot s \<and> semmns (seminfo s1) = semmns (seminfo s) \<and>
    i < sem_slots s1 \<and> sem_live i s1 = None \<and> sem_live i s = None"
  proof (cases "int i = semmni (seminfo s)")
    case True
    then have "grow_sema_array env s = (True, s1)" using grow by simp
    note g = grow_array_inv [OF inv this]
    have "sem_live i s = None"
      using True mni sema.get_defined [OF D(1), of i] by (simp add: sem_live_def)
    then show ?thesis using g True mni by simp
  next
    case False
    then show ?thesis
      using grow inv free mni by auto
  qed
  then obtain k where k: "sema_get_by_id i s1 = Some k" "\<not> sem_allocated k"
    using sema.get_defined [OF pool_invD(1), of s1 i] by (auto simp: sem_live_def split: option.splits if_splits)
  let ?k = "new_semid env key n semflg (nat (semtot s1)) k"
  obtain s' where s': "semget_init env key n semflg i s1 = Some (0, Some (IXSEQ_TO_IPCID (int i) (sem_perm ?k)), s')"
    "table_inv s'" "semtot s' = semtot s1 + n" "seminfo s' = seminfo s1"
    "sem_pool s' = take (nat (semtot s1)) (sem_pool s1) @ replicate (nat n) zero_sem @ drop (nat (semtot s1) + nat n) (sem_pool s1)"
    "\<And>j. sem_live j s' = ((\<lambda>j. sem_live j s1)(i \<mapsto> ?k)) j"
    using semget_init_effect [OF _ k n(1,2)] s1 n(3) by metis
  have "pool_inv s' \<and> sem_set s' = (sem_set s1)(i \<mapsto> replicate (nat n) zero_sem)"
    using s1 n by (intro pool_inv_extend [OF _ _ _ _ n(1) _ s'(2-6)]) simp_all
  then show ?thesis
    using s' s1 by (intro exI [of _ ?k] exI [of _ s']) (simp add: sem_set_def)
qed

lemma semget_create_spec:
  assumes inv: "pool_inv s" and n: "n < 65536"
  shows "\<exists>eval rv s'. semget_create env key n semflg s = Some (eval, rv, s') \<and> pool_inv s' \<and>
    (if eval = 0
     then \<exists>i k. sem_set s i = None \<and> sem_live i s' = Some k \<and> rv = Some (IXSEQ_TO_IPCID (int i) (sem_perm k)) \<and>
       sem_set s' = (sem_set s)(i \<mapsto> replicate (nat n) zero_sem)
     else (eval = EINVAL \<or> eval = ENOSPC) \<and> rv = None \<and> sem_set s' = sem_set s)"
proof -
  have E: "EINVAL \<noteq> 0" "ENOSPC \<noteq> 0" by (simp_all add: EINVAL_def ENOSPC_def)
  let ?r1 = "if n > semmns (seminfo s) - semtot s then grow_sem_pool env (semtot s + n) s else (True, s)"
  consider "n \<le> 0 \<or> n > semmsl (limitseminfo s)" | "0 < n" "n \<le> semmsl (limitseminfo s)" "fst ?r1 = False"
    | s1 where "0 < n" "n \<le> semmsl (limitseminfo s)" "?r1 = (True, s1)"
    by (cases ?r1) fastforce
  then show ?thesis
  proof cases
    case 1
    then show ?thesis using inv E by (simp add: semget_create_def sem_fail_def)
  next
    case 2
    then show ?thesis
      using inv E by (auto simp: semget_create_def sem_fail_def grow_sem_pool_def Let_def split: if_splits)
  next
    case 3
    have s1: "pool_inv s1 \<and> sem_set s1 = sem_set s \<and> semtot s1 + n \<le> semmns (seminfo s1)"
      using 3(3) grow_pool_inv [OF inv] inv by (cases "n > semmns (seminfo s) - semtot s") auto
    obtain i where i: "sem_find_free [0..<nat (semmni (seminfo s1))] s1 = Some i" and
      free: "i \<le> sem_slots s1" "i < sem_slots s1 \<Longrightarrow> sem_live i s1 = None"
      using semget_free_slot s1 by blast
    let ?r2 = "if int i = semmni (seminfo s1) then grow_sema_array env s1 else (True, s1)"
    have unfold: "semget_create env key n semflg s =
        (let (ok, s) = ?r2 in if \<not> ok then sem_fail ENOSPC s else semget_init env key n semflg i s)"
      using 3(1,2) i unfolding semget_create_def 3(3) by simp
    show ?thesis
    proof (cases ?r2)
      case (Pair ok s2)
      show ?thesis
      proof (cases ok)
        case True
        then have r2: "?r2 = (True, s2)" using Pair by simp
        obtain k s' where "semget_init env key n semflg i s2 = Some (0, Some (IXSEQ_TO_IPCID (int i) (sem_perm k)), s')"
          "sem_set s1 i = None" "sem_live i s' = Some k" "pool_inv s'" "sem_set s' = (sem_set s1)(i \<mapsto> replicate (nat n) zero_sem)"
          using semget_slot [OF conjunct1 [OF s1] 3(1) n conjunct2 [OF conjunct2 [OF s1]] free r2, of key semflg] by blast
        moreover from this(1) have "semget_create env key n semflg s = Some (0, Some (IXSEQ_TO_IPCID (int i) (sem_perm k)), s')"
          using unfold Pair True by simp
        ultimately show ?thesis using s1 by auto
      next
        case False
        then have "s2 = s1"
          using Pair by (auto simp: grow_sema_array_def Let_def split: if_splits)
        then show ?thesis using False Pair unfold s1 E by (simp add: sem_fail_def)
      qed
    qed
  qed
qed

section \<open>semget\<close>

lemma pool_inv_boot: "pool_inv sem_boot_state"
proof -
  have "sem_live i sem_boot_state = None" for i
    by (simp add: sem_live_def sema_get_by_id_def sem_boot_state_def)
  then show ?thesis
    by (simp add: pool_inv_def table_inv_def) (simp add: sem_boot_state_def init_seminfo_def)
qed

lemma semget_key_slot:
  assumes "pool_inv s"
  obtains i where "sem_find_key key [0..<nat (semmni (seminfo s))] s = Some i"
    "int i < semmni (seminfo s) \<Longrightarrow> \<exists>k. sema_get_by_id i s = Some k \<and> sem_live i s = Some k \<and> ipc_key (sem_perm k) = key"
proof -
  note tab = pool_invD(1) [OF assms]
  let ?P = "\<lambda>k. sem_allocated k \<and> ipc_key (sem_perm k) = key"
  obtain i where "sema.scan ?P (sem_slots s) [0..<sem_slots s] s = Some i"
    "i < sem_slots s \<Longrightarrow> \<exists>k. sema_get_by_id i s = Some k \<and> ?P k"
    using sema.scan_all [OF tab, where P = ?P] by blast
  then show ?thesis
    by (intro that [of i]) (auto simp: sem_find_scan table_semmni [OF tab] sem_live_def)
qed

definition semget_found :: "int \<Rightarrow> int \<Rightarrow> int \<Rightarrow> sem_state \<Rightarrow> bool" where
  "semget_found key n rv s \<longleftrightarrow> key \<noteq> IPC_PRIVATE \<and>
     (\<exists>i k. sem_live i s = Some k \<and> ipc_key (sem_perm k) = key \<and> 0 \<le> n \<and> n \<le> int (set_len k) \<and>
        rv = IXSEQ_TO_IPCID (int i) (sem_perm k))"

definition semget_created :: "int \<Rightarrow> int \<Rightarrow> sem_state \<Rightarrow> sem_state \<Rightarrow> bool" where
  "semget_created n rv s s' \<longleftrightarrow>
     (\<exists>i k. sem_set s i = None \<and> sem_live i s' = Some k \<and> rv = IXSEQ_TO_IPCID (int i) (sem_perm k) \<and>
        sem_set s' = (sem_set s)(i \<mapsto> replicate (nat n) zero_sem))"



lemma pool_inv_sample: "pool_inv sample_sem"
proof -
  have "semget sample_sem_env 99 3 0x3B6 sem_boot_state = semget_create sample_sem_env 99 3 0x3B6 sem_boot_state"
    by (simp add: semget_def sem_boot_state_def init_seminfo_def IPC_PRIVATE_def IPC_CREAT_def)
  then show ?thesis
    using semget_create_spec [OF pool_inv_boot, of 3 sample_sem_env 99 "0x3B6"] by (auto simp: sample_sem_def)
qed

theorem rmid_refines_witness:
  "\<exists>rv s'. sem_rmid sample_sem_env 0 sample_sem = Some (0, rv, s') \<and> pool_inv s' \<and>
    sem_set s' = (sem_set sample_sem)(0 := None)"
proof -
  have "map_option fst (sem_rmid sample_sem_env 0 sample_sem) = Some 0"
    by code_simp
  then obtain rv s' where r: "sem_rmid sample_sem_env 0 sample_sem = Some (0, rv, s')"
    by auto
  have "sem_live 0 sample_sem = Some (the (sema_get_by_id 0 sample_sem))"
    by (simp add: sem_live_def sample_sem_slot sem_allocated_def SEM_ALLOC_def)
  from rmid_refines [OF pool_inv_sample this r] r show ?thesis by blast
qed

end
