(* ===== verification/Sysv_Msg.thy ===== *)
theory Sysv_Msg
  imports Sysv_Ipc
begin

text \<open>
  System V message queues: the data and the shared routines of
  \<^verbatim>\<open>src/bsd/kern/sysv_msg.c\<close> with the structures of \<^verbatim>\<open>src/bsd/sys/msg.h\<close>.  Pointers to
  message headers are indices into \<open>msghdrs\<close>; the free lists and the queues are linked through the
  headers and the segment map exactly as in the source.  The result \<open>None\<close> is a kernel crash: a call
  of \<open>panic\<close>, a null pointer, an access outside an array, or a loop that does not end.
\<close>

section \<open>Data\<close>

record msg =
  msg_next :: "nat option"
  msg_type :: int
  msg_ts :: u16
  msg_spot :: int

record user_msqid_ds =
  msg_perm :: ipc_perm
  msg_first :: "nat option"
  msg_last :: "nat option"
  msg_cbytes :: u64
  msg_qnum :: u64
  msg_qbytes :: u64
  msg_lspid :: int
  msg_lrpid :: int
  msg_stime :: int
  msg_rtime :: int
  msg_ctime :: int

record msginfo =
  msgmax :: int
  msgmni :: int
  msgmnb :: int
  msgtql :: int
  msgssz :: int
  msgseg :: int

definition MSGSSZ :: int where "MSGSSZ = 8"
definition MSGSEG :: int where "MSGSEG = 2048"
definition MSGMAX :: int where "MSGMAX = MSGSSZ * MSGSEG"
definition MSGMNB :: int where "MSGMNB = 2048"
definition MSGMNI :: int where "MSGMNI = 40"
definition MSGTQL :: int where "MSGTQL = 40"
definition MSG_NOERROR :: u32 where "MSG_NOERROR = 0x1000"
definition MSG_LOCKED :: u16 where "MSG_LOCKED = 0x200"

definition init_msginfo :: msginfo where
  "init_msginfo = \<lparr> msgmax = MSGMAX, msgmni = MSGMNI, msgmnb = MSGMNB, msgtql = MSGTQL, msgssz = MSGSSZ,
     msgseg = MSGSEG \<rparr>"

text \<open>The structure that crosses the user boundary, for both pointer sizes.\<close>

record ext_msqid_ds =
  xmsg_perm :: ipc_perm
  xmsg_qnum :: int
  xmsg_cbytes :: int
  xmsg_qbytes :: int
  xmsg_lspid :: int
  xmsg_lrpid :: int
  xmsg_stime :: int
  xmsg_rtime :: int
  xmsg_ctime :: int

text \<open>What a sleeping process waits for: a queue, or free headers and segments.  What the calls
  store in user memory: a queue description, a message type, message bytes, the limits.\<close>

datatype msg_chan = ChanQueue nat | ChanFree

datatype msg_data = OutMsqid ext_msqid_ds | OutType int | OutBytes "u8 list" | OutMsginfo msginfo

record msg_state =
  msginfo :: msginfo
  initted :: bool
  nfree_msgmaps :: int
  free_msgmaps :: int
  free_msghdrs :: "nat option"
  msgpool :: "u8 list"
  msgmaps :: "int list"
  msghdrs :: "msg list"
  msqids :: "user_msqid_ds list"
  msg_woken :: "msg_chan list"
  msg_out :: "(u64 \<times> msg_data) list"

definition msg_boot_state :: msg_state where
  "msg_boot_state =
     \<lparr> msginfo = init_msginfo, initted = False, nfree_msgmaps = 0, free_msgmaps = 0, free_msghdrs = None,
       msgpool = [], msgmaps = [], msghdrs = [], msqids = [], msg_woken = [], msg_out = [] \<rparr>"

text \<open>What the rest of the kernel answers to the calling process.  \<open>kalloc_ok\<close> is whether each of the
  four allocations of \<open>msginit\<close> succeeds; the \<open>junk\<close> fields are the contents of fresh memory.\<close>

record msg_env =
  msg_pid :: int
  msg_cred :: cred
  msg_is64 :: bool
  msg_time :: int
  kalloc_ok :: "nat \<Rightarrow> bool"
  junk_byte :: u8
  junk_msg :: msg
  junk_msqid :: user_msqid_ds
  mac_sysvmsq_check_msqctl :: "user_msqid_ds \<Rightarrow> int \<Rightarrow> int"
  mac_sysvmsq_check_msgrmid :: "msg \<Rightarrow> int"
  mac_sysvmsq_check_msqget :: "user_msqid_ds \<Rightarrow> int"
  mac_sysvmsq_check_msqsnd :: "user_msqid_ds \<Rightarrow> int"
  mac_sysvmsq_check_enqueue :: "msg \<Rightarrow> user_msqid_ds \<Rightarrow> int"
  mac_sysvmsq_check_msqrcv :: "user_msqid_ds \<Rightarrow> int"
  mac_sysvmsq_check_msgrcv :: "msg \<Rightarrow> int"
  copyin_msqid :: "u64 \<Rightarrow> int \<times> ext_msqid_ds"
  copyin_type :: "u64 \<Rightarrow> int \<times> int"
  copyin_bytes :: "u64 \<Rightarrow> nat \<Rightarrow> int \<times> u8 list"
  msg_copyout :: "u64 \<Rightarrow> int"

section \<open>Access to the tables\<close>

definition msg_hdr :: "nat \<Rightarrow> msg_state \<Rightarrow> msg option" where
  "msg_hdr h s = (if h < length (msghdrs s) then Some (msghdrs s ! h) else None)"

definition hdr_modify :: "nat \<Rightarrow> (msg \<Rightarrow> msg) \<Rightarrow> msg_state \<Rightarrow> msg_state" where
  "hdr_modify h f s = s\<lparr>msghdrs := (msghdrs s)[h := f (msghdrs s ! h)]\<rparr>"

definition msq :: "nat \<Rightarrow> msg_state \<Rightarrow> user_msqid_ds option" where
  "msq i s = (if i < length (msqids s) then Some (msqids s ! i) else None)"

definition msq_modify :: "nat \<Rightarrow> (user_msqid_ds \<Rightarrow> user_msqid_ds) \<Rightarrow> msg_state \<Rightarrow> msg_state" where
  "msq_modify i f s = s\<lparr>msqids := (msqids s)[i := f (msqids s ! i)]\<rparr>"

definition msg_map :: "int \<Rightarrow> msg_state \<Rightarrow> int option" where
  "msg_map i s = (if 0 \<le> i \<and> nat i < length (msgmaps s) then Some (msgmaps s ! nat i) else None)"

definition msq_locked :: "user_msqid_ds \<Rightarrow> bool" where
  "msq_locked q \<longleftrightarrow> ipc_mode (msg_perm q) AND MSG_LOCKED \<noteq> 0"

definition msq_lock :: "nat \<Rightarrow> msg_state \<Rightarrow> msg_state" where
  "msq_lock i = msq_modify i (\<lambda>q. q\<lparr>msg_perm := (msg_perm q)\<lparr>ipc_mode := ipc_mode (msg_perm q) OR MSG_LOCKED\<rparr>\<rparr>)"

definition msq_unlock :: "nat \<Rightarrow> msg_state \<Rightarrow> msg_state" where
  "msq_unlock i =
     msq_modify i (\<lambda>q. q\<lparr>msg_perm := (msg_perm q)\<lparr>ipc_mode := ipc_mode (msg_perm q) AND NOT MSG_LOCKED\<rparr>\<rparr>)"

definition msg_wakeup :: "msg_chan \<Rightarrow> msg_state \<Rightarrow> msg_state" where
  "msg_wakeup c s = s\<lparr>msg_woken := msg_woken s @ [c]\<rparr>"

definition msg_copy_out :: "u64 \<Rightarrow> msg_data \<Rightarrow> msg_state \<Rightarrow> msg_state" where
  "msg_copy_out addr d s = s\<lparr>msg_out := msg_out s @ [(addr, d)]\<rparr>"

section \<open>User-visible structure\<close>

definition msqid_ds_kerneltouser32 :: "user_msqid_ds \<Rightarrow> ext_msqid_ds" where
  "msqid_ds_kerneltouser32 q =
     \<lparr> xmsg_perm = msg_perm q, xmsg_qnum = take_bit 32 (uint (msg_qnum q)),
       xmsg_cbytes = take_bit 32 (uint (msg_cbytes q)), xmsg_qbytes = take_bit 32 (uint (msg_qbytes q)),
       xmsg_lspid = msg_lspid q, xmsg_lrpid = msg_lrpid q, xmsg_stime = signed_take_bit 31 (msg_stime q),
       xmsg_rtime = signed_take_bit 31 (msg_rtime q), xmsg_ctime = signed_take_bit 31 (msg_ctime q) \<rparr>"

definition msqid_ds_kerneltouser64 :: "user_msqid_ds \<Rightarrow> ext_msqid_ds" where
  "msqid_ds_kerneltouser64 q =
     \<lparr> xmsg_perm = msg_perm q, xmsg_qnum = uint (msg_qnum q), xmsg_cbytes = uint (msg_cbytes q),
       xmsg_qbytes = uint (msg_qbytes q), xmsg_lspid = msg_lspid q, xmsg_lrpid = msg_lrpid q,
       xmsg_stime = msg_stime q, xmsg_rtime = msg_rtime q, xmsg_ctime = msg_ctime q \<rparr>"

definition msqid_ds_user32tokernel :: "ext_msqid_ds \<Rightarrow> user_msqid_ds" where
  "msqid_ds_user32tokernel d =
     \<lparr> msg_perm = xmsg_perm d, msg_first = None, msg_last = None,
       msg_cbytes = ucast (word_of_int (xmsg_cbytes d) :: u32), msg_qnum = ucast (word_of_int (xmsg_qnum d) :: u32),
       msg_qbytes = ucast (word_of_int (xmsg_qbytes d) :: u32), msg_lspid = xmsg_lspid d, msg_lrpid = xmsg_lrpid d,
       msg_stime = xmsg_stime d, msg_rtime = xmsg_rtime d, msg_ctime = xmsg_ctime d \<rparr>"

definition msqid_ds_user64tokernel :: "ext_msqid_ds \<Rightarrow> user_msqid_ds" where
  "msqid_ds_user64tokernel d =
     \<lparr> msg_perm = xmsg_perm d, msg_first = None, msg_last = None,
       msg_cbytes = word_of_int (xmsg_cbytes d), msg_qnum = word_of_int (xmsg_qnum d),
       msg_qbytes = word_of_int (xmsg_qbytes d), msg_lspid = xmsg_lspid d, msg_lrpid = xmsg_lrpid d,
       msg_stime = xmsg_stime d, msg_rtime = xmsg_rtime d, msg_ctime = xmsg_ctime d \<rparr>"

section \<open>Initialisation\<close>

text \<open>The loop that looks for \<open>msgssz\<close> among the powers of two from 8 to 1024; \<open>k\<close> counts the shifts.\<close>

function msgssz_scan :: "nat \<Rightarrow> int \<Rightarrow> int" where
  "msgssz_scan k ssz = (if 8 * 2 ^ k < (1024 :: int) \<and> 8 * 2 ^ k \<noteq> ssz then msgssz_scan (Suc k) ssz else 8 * 2 ^ k)"
  by pat_completeness auto
termination
proof (relation "measure (\<lambda>(k, ssz). 7 - k)")
  show "((Suc k, ssz), (k, ssz)) \<in> measure (\<lambda>(k, ssz). 7 - k)"
    if "8 * 2 ^ k < (1024 :: int) \<and> 8 * 2 ^ k \<noteq> ssz" for k and ssz :: int
  proof -
    have "(2 :: int) ^ k < 2 ^ 7" using that by simp
    then have "k < 7" by (rule power_less_imp_less_exp [rotated]) simp
    then show ?thesis by simp
  qed
qed simp

definition msginfo_checked :: "msginfo \<Rightarrow> msginfo" where
  "msginfo_checked mi =
     (let mi = (if msgssz_scan 0 (msgssz mi) \<noteq> msgssz mi then mi\<lparr>msgssz := MSGSSZ\<rparr> else mi)
      in if msgseg mi > 32767 then mi\<lparr>msgseg := MSGSEG\<rparr> else mi)"

definition msgmaps_init :: "nat \<Rightarrow> int list" where
  "msgmaps_init n = map (\<lambda>i. if Suc i < n then int (Suc i) else - 1) [0..<n]"

definition msghdrs_init :: "nat \<Rightarrow> msg \<Rightarrow> msg list" where
  "msghdrs_init n junk =
     map (\<lambda>i. junk\<lparr>msg_type := 0, msg_next := (if Suc i < n then Some (Suc i) else None)\<rparr>) [0..<n]"

definition msqids_init :: "nat \<Rightarrow> user_msqid_ds \<Rightarrow> user_msqid_ds list" where
  "msqids_init n junk =
     replicate n (junk\<lparr>msg_qbytes := 0, msg_perm := (msg_perm junk)\<lparr>ipc_seq := 0, ipc_mode := 0\<rparr>\<rparr>)"

definition msginit :: "msg_env \<Rightarrow> msg_state \<Rightarrow> bool \<times> msg_state" where
  "msginit env s =
     (if initted s then (True, s)
      else
        let mi = msginfo_checked (msginfo s); s = s\<lparr>msginfo := mi\<rparr>
        in if \<not> (kalloc_ok env 0 \<and> kalloc_ok env 1 \<and> kalloc_ok env 2 \<and> kalloc_ok env 3) then (False, s)
           else (True, s\<lparr>msgpool := replicate (nat (msgmax mi)) (junk_byte env),
                        msgmaps := msgmaps_init (nat (msgseg mi)), free_msgmaps := 0, nfree_msgmaps := msgseg mi,
                        msghdrs := msghdrs_init (nat (msgtql mi)) (junk_msg env), free_msghdrs := Some 0,
                        msqids := msqids_init (nat (msgmni mi)) (junk_msqid env), initted := True\<rparr>))"

section \<open>Freeing a message\<close>

text \<open>One turn of the loop of \<open>msg_freehdr\<close>: the first segment of the message goes to the free list.\<close>

definition msg_freeseg :: "nat \<Rightarrow> msg \<Rightarrow> int \<Rightarrow> msg_state \<Rightarrow> msg_state" where
  "msg_freeseg h m nxt s =
     (let s = s\<lparr>msgmaps := (msgmaps s)[nat (msg_spot m) := free_msgmaps s], free_msgmaps := msg_spot m,
               nfree_msgmaps := nfree_msgmaps s + 1\<rparr>
      in hdr_modify h (\<lambda>m. m\<lparr>msg_spot := nxt,
           msg_ts := (if uint (msg_ts m) \<ge> msgssz (msginfo s) then msg_ts m - word_of_int (msgssz (msginfo s)) else 0)\<rparr>) s)"

partial_function (option) msg_freesegs :: "nat \<Rightarrow> msg_state \<Rightarrow> msg_state option" where
  "msg_freesegs h s = do {
     m \<leftarrow> msg_hdr h s;
     if msg_ts m > 0 then
       (if msg_spot m < 0 \<or> msg_spot m \<ge> msgseg (msginfo s) then None
        else do {
          nxt \<leftarrow> msg_map (msg_spot m) s;
          msg_freesegs h (msg_freeseg h m nxt s)
        })
     else Some s
   }"

definition msg_freehdr :: "nat \<Rightarrow> msg_state \<Rightarrow> msg_state option" where
  "msg_freehdr h s = do {
     s \<leftarrow> msg_freesegs h s;
     m \<leftarrow> msg_hdr h s;
     if msg_spot m \<noteq> - 1 then None
     else Some (msg_wakeup ChanFree ((hdr_modify h (\<lambda>m. m\<lparr>msg_next := free_msghdrs s\<rparr>) s)\<lparr>free_msghdrs := Some h\<rparr>))
   }"

end
