(* ===== verification/Sysv_Msg_Calls.thy ===== *)
theory Sysv_Msg_Calls
  imports Sysv_Msg
begin

text \<open>
  The system calls of \<^verbatim>\<open>src/bsd/kern/sysv_msg.c\<close>.  A call gives up the subsystem lock where it
  sleeps and where it copies to or from user memory; it is split there into atomic pieces, and the
  result of a piece says where the call stands (\<open>snd_next\<close>, \<open>rcv_next\<close>, \<open>ctl_next\<close>).  The handler
  \<open>msgsnd_nocancel\<close> (and likewise \<open>msgrcv_nocancel\<close>, \<open>msgctl\<close>) runs its pieces in a row up to the
  return or the first sleep.
\<close>

section \<open>msgctl\<close>

datatype ctl_next = CtlReturn int "int option" | CtlSet

partial_function (option) msgrmid_check :: "msg_env \<Rightarrow> nat option \<Rightarrow> msg_state \<Rightarrow> int option" where
  "msgrmid_check env hp s =
     (case hp of
        None \<Rightarrow> Some 0
      | Some h \<Rightarrow> do {
          m \<leftarrow> msg_hdr h s;
          if mac_sysvmsq_check_msgrmid env m \<noteq> 0 then Some (mac_sysvmsq_check_msgrmid env m)
          else msgrmid_check env (msg_next m) s
        })"

partial_function (option) msgrmid_free :: "nat \<Rightarrow> nat option \<Rightarrow> msg_state \<Rightarrow> msg_state option" where
  "msgrmid_free i hp s =
     (case hp of
        None \<Rightarrow> Some s
      | Some h \<Rightarrow> do {
          m \<leftarrow> msg_hdr h s;
          s \<leftarrow> msg_freehdr h (msq_modify i
            (\<lambda>q. q\<lparr>msg_cbytes := msg_cbytes q - ucast (msg_ts m), msg_qnum := msg_qnum q - 1\<rparr>) s);
          msgrmid_free i (msg_next m) s
        })"

definition msg_rmid :: "msg_env \<Rightarrow> nat \<Rightarrow> msg_state \<Rightarrow> (ctl_next \<times> msg_state) option" where
  "msg_rmid env i s = do {
     q \<leftarrow> msq i s;
     let eval = ipcperm (msg_cred env) (msg_perm q) IPC_M;
     if eval \<noteq> 0 then Some (CtlReturn eval None, s)
     else do {
       eval \<leftarrow> msgrmid_check env (msg_first q) s;
       if eval \<noteq> 0 then Some (CtlReturn eval None, s)
       else do {
         s \<leftarrow> msgrmid_free i (msg_first q) s;
         q \<leftarrow> msq i s;
         if msg_cbytes q \<noteq> 0 then None
         else if msg_qnum q \<noteq> 0 then None
         else Some (CtlReturn 0 (Some 0), msg_wakeup (ChanQueue i) (msq_modify i (\<lambda>q. q\<lparr>msg_qbytes := 0\<rparr>) s))
       }
     }
   }"

definition msg_ipc_stat :: "msg_env \<Rightarrow> nat \<Rightarrow> u64 \<Rightarrow> msg_state \<Rightarrow> (ctl_next \<times> msg_state) option" where
  "msg_ipc_stat env i buf s = do {
     q \<leftarrow> msq i s;
     let eval = ipcperm (msg_cred env) (msg_perm q) IPC_R;
     if eval \<noteq> 0 then Some (CtlReturn eval None, s)
     else
       let ds = (if msg_is64 env then msqid_ds_kerneltouser64 q else msqid_ds_kerneltouser32 q);
           eval = msg_copyout env buf
       in if eval \<noteq> 0 then Some (CtlReturn eval None, s)
          else Some (CtlReturn 0 (Some 0), msg_copy_out buf (OutMsqid ds) s)
   }"

text \<open>The part of \<open>IPC_SET\<close> after the structure has been copied in with the lock released.\<close>

definition msg_ipc_set :: "msg_env \<Rightarrow> nat \<Rightarrow> user_msqid_ds \<Rightarrow> msg_state \<Rightarrow> (ctl_next \<times> msg_state) option" where
  "msg_ipc_set env i msqbuf s = do {
     q \<leftarrow> msq i s;
     if msg_qbytes msqbuf > msg_qbytes q \<and> suser (msg_cred env) \<noteq> 0
     then Some (CtlReturn (suser (msg_cred env)) None, s)
     else
       let qbytes = (if msg_qbytes msqbuf > word_of_int (msgmnb (msginfo s))
                     then word_of_int (msgmnb (msginfo s)) else msg_qbytes msqbuf)
       in if qbytes = 0 then Some (CtlReturn EINVAL None, s)
          else Some (CtlReturn 0 (Some 0), msq_modify i
            (\<lambda>q. q\<lparr>msg_perm := (msg_perm q)
                     \<lparr>ipc_uid := ipc_uid (msg_perm msqbuf), ipc_gid := ipc_gid (msg_perm msqbuf),
                      ipc_mode := (ipc_mode (msg_perm q) AND NOT 0x1FF) OR (ipc_mode (msg_perm msqbuf) AND 0x1FF)\<rparr>,
                   msg_qbytes := qbytes, msg_ctime := msg_time env\<rparr>) s)
   }"

text \<open>The lookup that starts every call on an existing queue.\<close>

definition msq_lookup :: "msg_env \<Rightarrow> int \<Rightarrow> msg_state \<Rightarrow> ((int + nat \<times> user_msqid_ds) \<times> msg_state) option" where
  "msq_lookup env uap_msqid s =
     (let (ok, s) = msginit env s; msqid = IPCID_TO_IX uap_msqid
      in if \<not> ok then Some (Inl ENOMEM, s)
         else if msqid < 0 \<or> msqid \<ge> msgmni (msginfo s) then Some (Inl EINVAL, s)
         else do {
           q \<leftarrow> msq (nat msqid) s;
           if msg_qbytes q = 0 then Some (Inl EINVAL, s)
           else if uint (ipc_seq (msg_perm q)) \<noteq> IPCID_TO_SEQ uap_msqid then Some (Inl EINVAL, s)
           else Some (Inr (nat msqid, q), s)
         })"

definition msgctl_start :: "msg_env \<Rightarrow> int \<Rightarrow> int \<Rightarrow> u64 \<Rightarrow> msg_state \<Rightarrow> (ctl_next \<times> msg_state) option" where
  "msgctl_start env uap_msqid cmd buf s = do {
     (r, s) \<leftarrow> msq_lookup env uap_msqid s;
     case r of
       Inl eval \<Rightarrow> Some (CtlReturn eval None, s)
     | Inr (i, q) \<Rightarrow>
         let eval = mac_sysvmsq_check_msqctl env q cmd in
         if eval \<noteq> 0 then Some (CtlReturn eval None, s)
         else if cmd = IPC_RMID then msg_rmid env i s
         else if cmd = IPC_SET then
           (let eval = ipcperm (msg_cred env) (msg_perm q) IPC_M
            in if eval \<noteq> 0 then Some (CtlReturn eval None, s) else Some (CtlSet, s))
         else if cmd = IPC_STAT then msg_ipc_stat env i buf s
         else Some (CtlReturn EINVAL None, s)
   }"

definition msgctl_set :: "msg_env \<Rightarrow> int \<Rightarrow> int \<times> ext_msqid_ds \<Rightarrow> msg_state \<Rightarrow> (ctl_next \<times> msg_state) option" where
  "msgctl_set env uap_msqid = (\<lambda>(eval, ds) s.
     if eval \<noteq> 0 then Some (CtlReturn eval None, s)
     else msg_ipc_set env (nat (IPCID_TO_IX uap_msqid))
       (if msg_is64 env then msqid_ds_user64tokernel ds else msqid_ds_user32tokernel ds) s)"

definition msgctl :: "msg_env \<Rightarrow> int \<Rightarrow> int \<Rightarrow> u64 \<Rightarrow> msg_state \<Rightarrow> (ctl_next \<times> msg_state) option" where
  "msgctl env uap_msqid cmd buf s = do {
     (nxt, s) \<leftarrow> msgctl_start env uap_msqid cmd buf s;
     case nxt of
       CtlSet \<Rightarrow> msgctl_set env uap_msqid (copyin_msqid env buf) s
     | CtlReturn eval rval \<Rightarrow> Some (CtlReturn eval rval, s)
   }"

section \<open>msgget\<close>

fun msq_find :: "(user_msqid_ds \<Rightarrow> bool) \<Rightarrow> nat \<Rightarrow> user_msqid_ds list \<Rightarrow> nat" where
  "msq_find P i [] = i"
| "msq_find P i (q # qs) = (if P q then i else msq_find P (Suc i) qs)"

definition msgget_init :: "msg_env \<Rightarrow> int \<Rightarrow> u32 \<Rightarrow> msginfo \<Rightarrow> user_msqid_ds \<Rightarrow> user_msqid_ds" where
  "msgget_init env key msgflg mi q =
     q\<lparr>msg_perm := (msg_perm q)
         \<lparr>ipc_key := key, ipc_cuid := kauth_cred_getuid (msg_cred env), ipc_uid := kauth_cred_getuid (msg_cred env),
          ipc_cgid := kauth_cred_getgid (msg_cred env), ipc_gid := kauth_cred_getgid (msg_cred env),
          ipc_mode := ucast (msgflg AND 0x1FF), ipc_seq := ipc_seq (msg_perm q) + 1\<rparr>,
       msg_first := None, msg_last := None, msg_cbytes := 0, msg_qnum := 0,
       msg_qbytes := word_of_int (msgmnb mi), msg_lspid := 0, msg_lrpid := 0, msg_stime := 0, msg_rtime := 0,
       msg_ctime := msg_time env\<rparr>"

text \<open>The identifier is stored in a 32-bit signed result.\<close>

definition msgget_found :: "nat \<Rightarrow> msg_state \<Rightarrow> (int \<times> int option \<times> msg_state) option" where
  "msgget_found i s = do {
     q \<leftarrow> msq i s;
     Some (0, Some (signed_take_bit 31 (IXSEQ_TO_IPCID (int i) (msg_perm q))), s)
   }"

definition msgget :: "msg_env \<Rightarrow> int \<Rightarrow> u32 \<Rightarrow> msg_state \<Rightarrow> (int \<times> int option \<times> msg_state) option" where
  "msgget env key msgflg s =
     (let (ok, s) = msginit env s; n = nat (msgmni (msginfo s));
          i = (if key \<noteq> IPC_PRIVATE
               then msq_find (\<lambda>q. msg_qbytes q \<noteq> 0 \<and> ipc_key (msg_perm q) = key) 0 (take n (msqids s)) else n)
      in if \<not> ok then Some (ENOMEM, None, s)
         else if i < n then do {
           q \<leftarrow> msq i s;
           let eval = ipcperm (msg_cred env) (msg_perm q) (msgflg AND 0x1C0);
           if msgflg AND IPC_CREAT \<noteq> 0 \<and> msgflg AND IPC_EXCL \<noteq> 0 then Some (EEXIST, None, s)
           else if eval \<noteq> 0 then Some (eval, None, s)
           else if mac_sysvmsq_check_msqget env q \<noteq> 0 then Some (mac_sysvmsq_check_msqget env q, None, s)
           else msgget_found i s
         }
         else if key = IPC_PRIVATE \<or> msgflg AND IPC_CREAT \<noteq> 0 then
           (let i = msq_find (\<lambda>q. msg_qbytes q = 0 \<and> \<not> msq_locked q) 0 (take n (msqids s))
            in if i = n then Some (ENOSPC, None, s)
               else do {
                 _ \<leftarrow> msq i s;
                 msgget_found i (msq_modify i (msgget_init env key msgflg (msginfo s)) s)
               })
         else Some (ENOENT, None, s))"

section \<open>msgsnd\<close>

record snd_args =
  snd_msqid :: int
  snd_msgp :: u64
  snd_msgsz :: u64
  snd_msgflg :: u32

text \<open>Where a send stands: returned; asleep on a channel, holding the queue lock or not; copying in
  the type into a header; copying in the segment \<open>next\<close> with \<open>left\<close> bytes to go from a user address.\<close>

datatype snd_next =
    SndReturn int
  | SndSleep msg_chan bool
  | SndType nat
  | SndBody nat int u64 u64

abbreviation snd_ix :: "snd_args \<Rightarrow> nat" where
  "snd_ix a \<equiv> nat (IPCID_TO_IX (snd_msqid a))"

definition segs_needed :: "u64 \<Rightarrow> msg_state \<Rightarrow> int" where
  "segs_needed msgsz s =
     (let ssz = word_of_int (msgssz (msginfo s)) :: u64
      in sint (ucast ((msgsz + ssz - 1) div ssz) :: u32))"

fun msgsnd_segs :: "nat \<Rightarrow> nat \<Rightarrow> msg_state \<Rightarrow> msg_state option" where
  "msgsnd_segs 0 h s = Some s"
| "msgsnd_segs (Suc n) h s =
     (if nfree_msgmaps s \<le> 0 then None
      else if free_msgmaps s = - 1 then None
      else if free_msgmaps s \<le> - 1 then None
      else if free_msgmaps s \<ge> msgseg (msginfo s) then None
      else do {
        m \<leftarrow> msg_hdr h s;
        nxt \<leftarrow> msg_map (free_msgmaps s) s;
        let seg = free_msgmaps s;
        let s = s\<lparr>free_msgmaps := nxt, nfree_msgmaps := nfree_msgmaps s - 1,
                  msgmaps := (msgmaps s)[nat seg := msg_spot m]\<rparr>;
        msgsnd_segs n h (hdr_modify h (\<lambda>m. m\<lparr>msg_spot := seg\<rparr>) s)
      })"

definition msgsnd_alloc :: "snd_args \<Rightarrow> msg_state \<Rightarrow> (snd_next \<times> msg_state) option" where
  "msgsnd_alloc a s = do {
     q \<leftarrow> msq (snd_ix a) s;
     if msq_locked q then None
     else if segs_needed (snd_msgsz a) s > nfree_msgmaps s then None
     else if snd_msgsz a + msg_cbytes q > msg_qbytes q then None
     else do {
       h \<leftarrow> free_msghdrs s;
       m \<leftarrow> msg_hdr h s;
       let s = (msq_lock (snd_ix a) s)\<lparr>free_msghdrs := msg_next m\<rparr>;
       let s = hdr_modify h (\<lambda>m. m\<lparr>msg_spot := - 1, msg_ts := ucast (snd_msgsz a)\<rparr>) s;
       s \<leftarrow> msgsnd_segs (nat (segs_needed (snd_msgsz a) s)) h s;
       Some (SndType h, s)
     }
   }"

definition snd_blocking :: "snd_args \<Rightarrow> user_msqid_ds \<Rightarrow> msg_state \<Rightarrow> msg_chan option" where
  "snd_blocking a q s =
     (if segs_needed (snd_msgsz a) s > nfree_msgmaps s \<or> free_msghdrs s = None then Some ChanFree
      else if msq_locked q \<or> snd_msgsz a + msg_cbytes q > msg_qbytes q then Some (ChanQueue (snd_ix a))
      else None)"

definition msgsnd_try :: "snd_args \<Rightarrow> msg_state \<Rightarrow> (snd_next \<times> msg_state) option" where
  "msgsnd_try a s = do {
     q \<leftarrow> msq (snd_ix a) s;
     if snd_msgsz a > msg_qbytes q then Some (SndReturn EINVAL, s)
     else case snd_blocking a q s of
       Some chan \<Rightarrow>
         if snd_msgflg a AND IPC_NOWAIT \<noteq> 0 then Some (SndReturn EAGAIN, s)
         else if msq_locked q then Some (SndSleep chan False, s)
         else Some (SndSleep chan True, msq_lock (snd_ix a) s)
     | None \<Rightarrow> msgsnd_alloc a s
   }"

definition msgsnd_start :: "msg_env \<Rightarrow> snd_args \<Rightarrow> msg_state \<Rightarrow> (snd_next \<times> msg_state) option" where
  "msgsnd_start env a s = do {
     (r, s) \<leftarrow> msq_lookup env (snd_msqid a) s;
     case r of
       Inl eval \<Rightarrow> Some (SndReturn eval, s)
     | Inr (i, q) \<Rightarrow>
         let eval = ipcperm (msg_cred env) (msg_perm q) IPC_W in
         if eval \<noteq> 0 then Some (SndReturn eval, s)
         else let eval = mac_sysvmsq_check_msqsnd env q in
         if eval \<noteq> 0 then Some (SndReturn eval, s)
         else msgsnd_try a s
   }"

definition msgsnd_wake :: "int \<Rightarrow> snd_args \<Rightarrow> bool \<Rightarrow> msg_state \<Rightarrow> (snd_next \<times> msg_state) option" where
  "msgsnd_wake slept a we_own_it s = do {
     let s = (if we_own_it then msq_unlock (snd_ix a) s else s);
     if slept \<noteq> 0 then Some (SndReturn EINTR, s)
     else do {
       q \<leftarrow> msq (snd_ix a) s;
       if msg_qbytes q = 0 then Some (SndReturn EIDRM, s) else msgsnd_try a s
     }
   }"

text \<open>Giving up a message that has its header and segments.\<close>

definition msgsnd_abort :: "snd_args \<Rightarrow> nat \<Rightarrow> int \<Rightarrow> msg_state \<Rightarrow> (snd_next \<times> msg_state) option" where
  "msgsnd_abort a h eval s = do {
     s \<leftarrow> msg_freehdr h s;
     Some (SndReturn eval, msg_wakeup (ChanQueue (snd_ix a)) (msq_unlock (snd_ix a) s))
   }"

definition msgsnd_enqueue :: "msg_env \<Rightarrow> snd_args \<Rightarrow> nat \<Rightarrow> msg_state \<Rightarrow> (snd_next \<times> msg_state) option" where
  "msgsnd_enqueue env a h s = do {
     m \<leftarrow> msg_hdr h s;
     q \<leftarrow> msq (snd_ix a) s;
     s \<leftarrow> (case msg_first q of
            None \<Rightarrow> Some (msq_modify (snd_ix a) (\<lambda>q. q\<lparr>msg_first := Some h, msg_last := Some h\<rparr>) s)
          | Some _ \<Rightarrow> do {
              l \<leftarrow> msg_last q;
              _ \<leftarrow> msg_hdr l s;
              Some (msq_modify (snd_ix a) (\<lambda>q. q\<lparr>msg_last := Some h\<rparr>)
                (hdr_modify l (\<lambda>m. m\<lparr>msg_next := Some h\<rparr>) s))
            });
     let s = hdr_modify h (\<lambda>m. m\<lparr>msg_next := None\<rparr>) s;
     let s = msq_modify (snd_ix a) (\<lambda>q. q\<lparr>msg_cbytes := msg_cbytes q + ucast (msg_ts m), msg_qnum := msg_qnum q + 1,
       msg_lspid := msg_pid env, msg_stime := msg_time env\<rparr>) s;
     Some (SndReturn 0, msg_wakeup (ChanQueue (snd_ix a)) s)
   }"

definition msgsnd_finish :: "msg_env \<Rightarrow> snd_args \<Rightarrow> nat \<Rightarrow> msg_state \<Rightarrow> (snd_next \<times> msg_state) option" where
  "msgsnd_finish env a h s = do {
     let s = msq_unlock (snd_ix a) s;
     q \<leftarrow> msq (snd_ix a) s;
     m \<leftarrow> msg_hdr h s;
     if msg_qbytes q = 0 then do {
       s \<leftarrow> msg_freehdr h s;
       Some (SndReturn EIDRM, msg_wakeup (ChanQueue (snd_ix a)) s)
     }
     else if mac_sysvmsq_check_enqueue env m q \<noteq> 0 then do {
       s \<leftarrow> msg_freehdr h s;
       Some (SndReturn (mac_sysvmsq_check_enqueue env m q), msg_wakeup (ChanQueue (snd_ix a)) s)
     }
     else msgsnd_enqueue env a h s
   }"

text \<open>The head of the loop that copies the body: the next segment, or the end of the message.\<close>

definition msgsnd_next_seg ::
  "msg_env \<Rightarrow> snd_args \<Rightarrow> nat \<Rightarrow> int \<Rightarrow> u64 \<Rightarrow> u64 \<Rightarrow> msg_state \<Rightarrow> (snd_next \<times> msg_state) option" where
  "msgsnd_next_seg env a h next left user_msgp s =
     (if left > 0 then
        (if next \<le> - 1 then None
         else if next \<ge> msgseg (msginfo s) then None
         else Some (SndBody h next left user_msgp, s))
      else if next \<noteq> - 1 then None
      else msgsnd_finish env a h s)"

definition msgsnd_type :: "msg_env \<Rightarrow> snd_args \<Rightarrow> nat \<Rightarrow> int \<times> int \<Rightarrow> msg_state \<Rightarrow> (snd_next \<times> msg_state) option" where
  "msgsnd_type env a h = (\<lambda>(eval, msgtype) s. do {
     _ \<leftarrow> msg_hdr h s;
     let s = hdr_modify h (\<lambda>m. m\<lparr>msg_type := msgtype\<rparr>) s;
     if eval \<noteq> 0 then msgsnd_abort a h eval s
     else if msgtype < 1 then msgsnd_abort a h EINVAL s
     else do {
       m \<leftarrow> msg_hdr h s;
       msgsnd_next_seg env a h (msg_spot m) (snd_msgsz a) (snd_msgp a + (if msg_is64 env then 8 else 4)) s
     }
   })"

definition snd_tlen :: "u64 \<Rightarrow> msg_state \<Rightarrow> u64" where
  "snd_tlen left s =
     (if left > word_of_int (msgssz (msginfo s)) then word_of_int (msgssz (msginfo s)) else left)"

text \<open>\<open>copyin\<close> into the pool: the bytes it delivers, at most \<open>tlen\<close>, are stored.\<close>

definition pool_store :: "nat \<Rightarrow> nat \<Rightarrow> u8 list \<Rightarrow> msg_state \<Rightarrow> msg_state option" where
  "pool_store off n bs s =
     (if off + n \<le> length (msgpool s)
      then Some (s\<lparr>msgpool := take off (msgpool s) @ take n bs @ drop (off + length (take n bs)) (msgpool s)\<rparr>)
      else None)"

definition msgsnd_body ::
  "msg_env \<Rightarrow> snd_args \<Rightarrow> nat \<Rightarrow> int \<Rightarrow> u64 \<Rightarrow> u64 \<Rightarrow> int \<times> u8 list \<Rightarrow> msg_state \<Rightarrow> (snd_next \<times> msg_state) option" where
  "msgsnd_body env a h next left user_msgp = (\<lambda>(eval, bs) s. do {
     let tlen = snd_tlen left s;
     s \<leftarrow> pool_store (nat (next * msgssz (msginfo s))) (unat tlen) bs s;
     if eval \<noteq> 0 then msgsnd_abort a h eval s
     else do {
       nxt \<leftarrow> msg_map next s;
       msgsnd_next_seg env a h nxt (left - tlen) (user_msgp + tlen) s
     }
   })"

text \<open>The whole call, with the answers of one environment, up to its return or its first sleep.\<close>

partial_function (option) msgsnd_run ::
  "msg_env \<Rightarrow> snd_args \<Rightarrow> snd_next \<Rightarrow> msg_state \<Rightarrow> (snd_next \<times> msg_state) option" where
  "msgsnd_run env a nxt s =
     (case nxt of
        SndReturn eval \<Rightarrow> Some (SndReturn eval, s)
      | SndSleep chan we_own_it \<Rightarrow> Some (SndSleep chan we_own_it, s)
      | SndType h \<Rightarrow> do {
          (nxt, s) \<leftarrow> msgsnd_type env a h (copyin_type env (snd_msgp a)) s;
          msgsnd_run env a nxt s
        }
      | SndBody h next left ptr \<Rightarrow> do {
          (nxt, s) \<leftarrow> msgsnd_body env a h next left ptr (copyin_bytes env ptr (unat (snd_tlen left s))) s;
          msgsnd_run env a nxt s
        })"

definition msgsnd_nocancel :: "msg_env \<Rightarrow> snd_args \<Rightarrow> msg_state \<Rightarrow> (snd_next \<times> msg_state) option" where
  "msgsnd_nocancel env a s = do {
     (nxt, s) \<leftarrow> msgsnd_start env a s;
     msgsnd_run env a nxt s
   }"

section \<open>msgrcv\<close>

record rcv_args =
  rcv_msqid :: int
  rcv_msgp :: u64
  rcv_msgsz :: u64
  rcv_msgtyp :: int
  rcv_msgflg :: u32

text \<open>Where a receive stands: returned, with the number of bytes; asleep on the queue; copying out the
  type of a header taken from the queue; copying out the segment \<open>next\<close> at offset \<open>len\<close> of \<open>msgsz\<close>
  bytes to a user address.\<close>

datatype rcv_next =
    RcvReturn int "u64 option"
  | RcvSleep
  | RcvType nat u64
  | RcvBody nat int u64 u64 u64

abbreviation rcv_ix :: "rcv_args \<Rightarrow> nat" where
  "rcv_ix a \<equiv> nat (IPCID_TO_IX (rcv_msqid a))"

text \<open>The test whether a message may be returned: an error number, or zero.\<close>

definition rcv_check :: "msg_env \<Rightarrow> rcv_args \<Rightarrow> msg \<Rightarrow> int" where
  "rcv_check env a m =
     (if rcv_msgsz a < ucast (msg_ts m) \<and> rcv_msgflg a AND MSG_NOERROR = 0 then E2BIG
      else mac_sysvmsq_check_msgrcv env m)"

text \<open>Negating a \<open>long\<close> wraps.\<close>

definition rcv_match :: "int \<Rightarrow> int \<Rightarrow> bool" where
  "rcv_match msgtyp ty \<longleftrightarrow> msgtyp = ty \<or> ty \<le> signed_take_bit 63 (- msgtyp)"

text \<open>Taking a message off the queue: an error, no message, or the header.\<close>

definition rcv_first :: "msg_env \<Rightarrow> rcv_args \<Rightarrow> msg_state \<Rightarrow> ((int + nat option) \<times> msg_state) option" where
  "rcv_first env a s = do {
     q \<leftarrow> msq (rcv_ix a) s;
     case msg_first q of
       None \<Rightarrow> Some (Inr None, s)
     | Some h \<Rightarrow> do {
         m \<leftarrow> msg_hdr h s;
         if rcv_check env a m \<noteq> 0 then Some (Inl (rcv_check env a m), s)
         else if msg_first q = msg_last q then
           Some (Inr (Some h), msq_modify (rcv_ix a) (\<lambda>q. q\<lparr>msg_first := None, msg_last := None\<rparr>) s)
         else if msg_next m = None then None
         else Some (Inr (Some h), msq_modify (rcv_ix a) (\<lambda>q. q\<lparr>msg_first := msg_next m\<rparr>) s)
       }
   }"

text \<open>Unlinking \<open>h\<close>, found after \<open>previous\<close> (the head of the queue is the cell when there is none).\<close>

definition rcv_unlink :: "nat \<Rightarrow> nat option \<Rightarrow> nat \<Rightarrow> msg \<Rightarrow> msg_state \<Rightarrow> msg_state" where
  "rcv_unlink i previous h m s =
     (let s = (case previous of
                 None \<Rightarrow> msq_modify i (\<lambda>q. q\<lparr>msg_first := msg_next m\<rparr>) s
               | Some p \<Rightarrow> hdr_modify p (\<lambda>m'. m'\<lparr>msg_next := msg_next m\<rparr>) s)
      in msq_modify i (\<lambda>q. if msg_last q = Some h
           then (case previous of
                   None \<Rightarrow> q\<lparr>msg_first := None, msg_last := None\<rparr>
                 | Some p \<Rightarrow> q\<lparr>msg_last := Some p\<rparr>)
           else q) s)"

partial_function (option) rcv_search ::
  "msg_env \<Rightarrow> rcv_args \<Rightarrow> nat option \<Rightarrow> nat option \<Rightarrow> msg_state \<Rightarrow> ((int + nat option) \<times> msg_state) option" where
  "rcv_search env a previous hp s =
     (case hp of
        None \<Rightarrow> Some (Inr None, s)
      | Some h \<Rightarrow> do {
          m \<leftarrow> msg_hdr h s;
          if rcv_match (rcv_msgtyp a) (msg_type m) then
            (if rcv_check env a m \<noteq> 0 then Some (Inl (rcv_check env a m), s)
             else Some (Inr (Some h), rcv_unlink (rcv_ix a) previous h m s))
          else rcv_search env a (Some h) (msg_next m) s
        })"

definition rcv_take :: "msg_env \<Rightarrow> rcv_args \<Rightarrow> msg_state \<Rightarrow> ((int + nat option) \<times> msg_state) option" where
  "rcv_take env a s =
     (if rcv_msgtyp a = 0 then rcv_first env a s
      else do {
        q \<leftarrow> msq (rcv_ix a) s;
        rcv_search env a None (msg_first q) s
      })"

text \<open>One turn of the outer loop; when a message was found, the bookkeeping.\<close>

definition msgrcv_try :: "msg_env \<Rightarrow> rcv_args \<Rightarrow> msg_state \<Rightarrow> (rcv_next \<times> msg_state) option" where
  "msgrcv_try env a s = do {
     (r, s) \<leftarrow> rcv_take env a s;
     case r of
       Inl eval \<Rightarrow> Some (RcvReturn eval None, s)
     | Inr None \<Rightarrow>
         if rcv_msgflg a AND IPC_NOWAIT \<noteq> 0 then Some (RcvReturn ENOMSG None, s) else Some (RcvSleep, s)
     | Inr (Some h) \<Rightarrow> do {
         m \<leftarrow> msg_hdr h s;
         let s = msq_modify (rcv_ix a) (\<lambda>q. q\<lparr>msg_cbytes := msg_cbytes q - ucast (msg_ts m),
           msg_qnum := msg_qnum q - 1, msg_lrpid := msg_pid env, msg_rtime := msg_time env\<rparr>) s;
         Some (RcvType h (if rcv_msgsz a > ucast (msg_ts m) then ucast (msg_ts m) else rcv_msgsz a), s)
       }
   }"

definition msgrcv_start :: "msg_env \<Rightarrow> rcv_args \<Rightarrow> msg_state \<Rightarrow> (rcv_next \<times> msg_state) option" where
  "msgrcv_start env a s = do {
     (r, s) \<leftarrow> msq_lookup env (rcv_msqid a) s;
     case r of
       Inl eval \<Rightarrow> Some (RcvReturn eval None, s)
     | Inr (i, q) \<Rightarrow>
         let eval = ipcperm (msg_cred env) (msg_perm q) IPC_R in
         if eval \<noteq> 0 then Some (RcvReturn eval None, s)
         else let eval = mac_sysvmsq_check_msqrcv env q in
         if eval \<noteq> 0 then Some (RcvReturn eval None, s)
         else msgrcv_try env a s
   }"

definition msgrcv_wake :: "msg_env \<Rightarrow> int \<Rightarrow> rcv_args \<Rightarrow> msg_state \<Rightarrow> (rcv_next \<times> msg_state) option" where
  "msgrcv_wake env slept a s =
     (if slept \<noteq> 0 then Some (RcvReturn EINTR None, s)
      else do {
        q \<leftarrow> msq (rcv_ix a) s;
        if msg_qbytes q = 0 \<or> uint (ipc_seq (msg_perm q)) \<noteq> IPCID_TO_SEQ (rcv_msqid a)
        then Some (RcvReturn EIDRM None, s)
        else msgrcv_try env a s
      })"

definition msgrcv_done :: "rcv_args \<Rightarrow> nat \<Rightarrow> int \<Rightarrow> u64 option \<Rightarrow> msg_state \<Rightarrow> (rcv_next \<times> msg_state) option" where
  "msgrcv_done a h eval rval s = do {
     s \<leftarrow> msg_freehdr h s;
     Some (RcvReturn eval rval, msg_wakeup (ChanQueue (rcv_ix a)) s)
   }"

text \<open>The head of the loop that copies the body out.\<close>

definition msgrcv_next_seg ::
  "rcv_args \<Rightarrow> nat \<Rightarrow> int \<Rightarrow> u64 \<Rightarrow> u64 \<Rightarrow> u64 \<Rightarrow> msg_state \<Rightarrow> (rcv_next \<times> msg_state) option" where
  "msgrcv_next_seg a h next len msgsz user_msgp s =
     (if len < msgsz then
        (if next \<le> - 1 then None
         else if next \<ge> msgseg (msginfo s) then None
         else Some (RcvBody h next len msgsz user_msgp, s))
      else msgrcv_done a h 0 (Some msgsz) s)"

definition msgrcv_type :: "msg_env \<Rightarrow> rcv_args \<Rightarrow> nat \<Rightarrow> u64 \<Rightarrow> int \<Rightarrow> msg_state \<Rightarrow> (rcv_next \<times> msg_state) option" where
  "msgrcv_type env a h msgsz eval s = do {
     m \<leftarrow> msg_hdr h s;
     if eval \<noteq> 0 then msgrcv_done a h eval None s
     else
       let ty = (if msg_is64 env then msg_type m else signed_take_bit 31 (msg_type m))
       in msgrcv_next_seg a h (msg_spot m) 0 msgsz (rcv_msgp a + (if msg_is64 env then 8 else 4))
            (msg_copy_out (rcv_msgp a) (OutType ty) s)
   }"

definition rcv_tlen :: "u64 \<Rightarrow> u64 \<Rightarrow> msg_state \<Rightarrow> u64" where
  "rcv_tlen len msgsz s = min (msgsz - len) (word_of_int (msgssz (msginfo s)))"

definition pool_load :: "nat \<Rightarrow> nat \<Rightarrow> msg_state \<Rightarrow> u8 list option" where
  "pool_load off n s =
     (if off + n \<le> length (msgpool s) then Some (take n (drop off (msgpool s))) else None)"

definition msgrcv_body ::
  "rcv_args \<Rightarrow> nat \<Rightarrow> int \<Rightarrow> u64 \<Rightarrow> u64 \<Rightarrow> u64 \<Rightarrow> int \<Rightarrow> msg_state \<Rightarrow> (rcv_next \<times> msg_state) option" where
  "msgrcv_body a h next len msgsz user_msgp eval s = do {
     let tlen = rcv_tlen len msgsz s;
     bs \<leftarrow> pool_load (nat (next * msgssz (msginfo s))) (unat tlen) s;
     if eval \<noteq> 0 then msgrcv_done a h eval None s
     else do {
       nxt \<leftarrow> msg_map next s;
       msgrcv_next_seg a h nxt (len + word_of_int (msgssz (msginfo s))) msgsz (user_msgp + tlen)
         (msg_copy_out user_msgp (OutBytes bs) s)
     }
   }"

partial_function (option) msgrcv_run ::
  "msg_env \<Rightarrow> rcv_args \<Rightarrow> rcv_next \<Rightarrow> msg_state \<Rightarrow> (rcv_next \<times> msg_state) option" where
  "msgrcv_run env a nxt s =
     (case nxt of
        RcvReturn eval rval \<Rightarrow> Some (RcvReturn eval rval, s)
      | RcvSleep \<Rightarrow> Some (RcvSleep, s)
      | RcvType h msgsz \<Rightarrow> do {
          (nxt, s) \<leftarrow> msgrcv_type env a h msgsz (msg_copyout env (rcv_msgp a)) s;
          msgrcv_run env a nxt s
        }
      | RcvBody h next len msgsz ptr \<Rightarrow> do {
          (nxt, s) \<leftarrow> msgrcv_body a h next len msgsz ptr (msg_copyout env ptr) s;
          msgrcv_run env a nxt s
        })"

definition msgrcv_nocancel :: "msg_env \<Rightarrow> rcv_args \<Rightarrow> msg_state \<Rightarrow> (rcv_next \<times> msg_state) option" where
  "msgrcv_nocancel env a s = do {
     (nxt, s) \<leftarrow> msgrcv_start env a s;
     msgrcv_run env a nxt s
   }"

section \<open>Administrative interfaces\<close>

definition IPCS_MSG_CONF :: int where "IPCS_MSG_CONF = 0x100"
definition IPCS_MSG_ITER :: int where "IPCS_MSG_ITER = 0x200"

text \<open>\<open>in_err\<close> and \<open>out_err\<close> are the results of copying the command structure in and out; the sizes are
  those of the structures of the calling process.\<close>

definition ipcs_msg_iter ::
  "msg_env \<Rightarrow> int \<Rightarrow> int \<Rightarrow> ipcs_command \<Rightarrow> msg_state \<Rightarrow> (int \<times> ipcs_command \<times> msg_state) option" where
  "ipcs_msg_iter env out_err ds_sz ipcs s =
     (let (ok, s) = msginit env s; cursor = ipcs_cursor ipcs; n = msgmni (msginfo s)
      in if \<not> ok then Some (ENOMEM, ipcs, s)
         else if cursor < 0 \<or> cursor \<ge> n then Some (ERANGE, ipcs, s)
         else if ipcs_datalen ipcs \<noteq> ds_sz then Some (EINVAL, ipcs, s)
         else
           let c = msq_find (\<lambda>q. msg_qbytes q \<noteq> 0) (nat cursor) (drop (nat cursor) (take (nat n) (msqids s)))
           in if int c = n then Some (ENOENT, ipcs, s)
              else do {
                q \<leftarrow> msq c s;
                let ds = (if msg_is64 env then msqid_ds_kerneltouser64 q else msqid_ds_kerneltouser32 q);
                let err = msg_copyout env (ipcs_data ipcs);
                if err \<noteq> 0 then Some (err, ipcs, s)
                else Some (out_err, ipcs\<lparr>ipcs_cursor := int c + 1\<rparr>, msg_copy_out (ipcs_data ipcs) (OutMsqid ds) s)
              })"

definition IPCS_msg_sysctl ::
  "msg_env \<Rightarrow> int \<Rightarrow> int \<Rightarrow> int \<Rightarrow> int \<Rightarrow> ipcs_command \<Rightarrow> msg_state \<Rightarrow> (int \<times> ipcs_command \<times> msg_state) option" where
  "IPCS_msg_sysctl env in_err out_err info_sz ds_sz ipcs s =
     (if in_err \<noteq> 0 then Some (in_err, ipcs, s)
      else if ipcs_magic ipcs \<noteq> IPCS_MAGIC then Some (EINVAL, ipcs, s)
      else if ipcs_op ipcs = IPCS_MSG_CONF then
        (if ipcs_datalen ipcs \<noteq> info_sz then Some (ERANGE, ipcs, s)
         else if ipcs_cursor ipcs \<noteq> 0 then Some (EINVAL, ipcs, s)
         else
           let err = msg_copyout env (ipcs_data ipcs)
           in Some (err, ipcs, if err = 0 then msg_copy_out (ipcs_data ipcs) (OutMsginfo (msginfo s)) s else s))
      else if ipcs_op ipcs = IPCS_MSG_ITER then ipcs_msg_iter env out_err ds_sz ipcs s
      else Some (EINVAL, ipcs, s))"

text \<open>\<open>msgsys\<close> dispatches to one of the four calls.\<close>

datatype msg_call = Call_msgctl | Call_msgget | Call_msgsnd | Call_msgrcv

definition msgsys :: "nat \<Rightarrow> int + msg_call" where
  "msgsys which =
     (if which \<ge> 4 then Inl EINVAL else Inr ([Call_msgctl, Call_msgget, Call_msgsnd, Call_msgrcv] ! which))"

end
