(* ===== verification/Sysv_Msg_Heap.thy ===== *)
theory Sysv_Msg_Heap
  imports Sysv_Msg_Calls
begin

text \<open>
  The linked structures of the message subsystem.  Headers and segments are linked through arrays;
  \<open>linked_cells\<close> is the theory of such lists for any representation of pointers, interpreted for
  header pointers (an index or null) and for segment numbers (a short, -1 at the end).  A layout names
  the lists of a state and the owner of every header and segment; the invariant \<open>msg_wf\<close> says that the
  arrays represent the layout, which rules out sharing and leaks.
\<close>

section \<open>Linked lists in an array\<close>

locale linked_cells =
  fixes null :: 'p and ref :: "nat \<Rightarrow> 'p"
  assumes ref_inj: "ref x = ref y \<longleftrightarrow> x = y" and ref_null: "ref x \<noteq> null"
begin

primrec chain :: "(nat \<Rightarrow> 'p) \<Rightarrow> 'p \<Rightarrow> nat list \<Rightarrow> bool" where
  "chain nxt p [] \<longleftrightarrow> p = null"
| "chain nxt p (x # xs) \<longleftrightarrow> p = ref x \<and> chain nxt (nxt x) xs"

lemma chain_null [simp]: "chain nxt null xs \<longleftrightarrow> xs = []"
  by (cases xs) (auto simp: ref_null [symmetric])

lemma chain_ref [simp]: "chain nxt (ref x) xs \<longleftrightarrow> (\<exists>ys. xs = x # ys \<and> chain nxt (nxt x) ys)"
  by (cases xs) (auto simp: ref_null ref_inj)

lemma chain_unique: "chain nxt p xs \<Longrightarrow> chain nxt p ys \<Longrightarrow> ys = xs"
  by (induction xs arbitrary: p ys) auto

lemma chain_cong: "(\<And>x. x \<in> set xs \<Longrightarrow> f x = g x) \<Longrightarrow> chain f p xs = chain g p xs"
  by (induction xs arbitrary: p) auto

lemma chain_upd: "x \<notin> set xs \<Longrightarrow> chain (nxt(x := v)) p xs = chain nxt p xs"
  by (rule chain_cong) auto

lemma chain_tail: "chain nxt p (xs @ x # ys) \<Longrightarrow> chain nxt (nxt x) ys"
  by (induction xs arbitrary: p) auto

lemma chain_distinct: "chain nxt p xs \<Longrightarrow> distinct xs"
proof (induction xs arbitrary: p)
  case (Cons x xs)
  then have "chain nxt (nxt x) xs" by simp
  moreover have False if x: "x \<in> set xs"
  proof -
    obtain as bs where xs: "xs = as @ x # bs" using x by (meson split_list)
    then have "chain nxt (nxt x) bs" using \<open>chain nxt (nxt x) xs\<close> chain_tail by blast
    with \<open>chain nxt (nxt x) xs\<close> have "bs = xs" using chain_unique by blast
    then show False using xs by simp
  qed
  ultimately show ?case using Cons.IH by auto
qed simp

text \<open>Linking a new cell behind the last one, and unlinking a cell.\<close>

lemma chain_snoc:
  assumes "chain nxt p xs" "xs \<noteq> []" "y \<notin> set xs"
  shows "chain (nxt(last xs := ref y, y := null)) p (xs @ [y])"
  using assms
proof (induction xs arbitrary: p)
  case (Cons x xs)
  then have x: "x \<notin> set xs" using chain_distinct [of nxt p "x # xs"] by simp
  show ?case
  proof (cases "xs = []")
    case False
    then have "x \<noteq> last xs" using x by (auto dest: last_in_set)
    then show ?thesis using Cons False x by auto
  qed (use Cons in auto)
qed simp

lemma chain_unlink:
  assumes "chain nxt p (xs @ x # ys)" "xs \<noteq> []"
  shows "chain (nxt(last xs := nxt x)) p (xs @ ys)"
  using assms
proof (induction xs arbitrary: p)
  case (Cons z xs)
  then have d: "distinct (z # xs @ x # ys)" using chain_distinct [of nxt p "z # xs @ x # ys"] by simp
  show ?case
  proof (cases "xs = []")
    case True
    then show ?thesis using Cons.prems d chain_upd [of z ys nxt "nxt x" "nxt x"] by (simp add: fun_upd_def)
  next
    case False
    then have "z \<noteq> last xs" using d by (auto dest: last_in_set)
    then show ?thesis using Cons False by auto
  qed
qed simp

lemma chain_unlink_head: "chain nxt p (x # ys) \<Longrightarrow> chain nxt (nxt x) ys"
  by simp

end

interpretation hdrs: linked_cells None Some
  by unfold_locales auto

interpretation segs: linked_cells "- 1 :: int" int
  by unfold_locales auto

section \<open>The layout of a state\<close>

datatype hdr_owner = HFree | HQueue nat | HHeld nat

record msg_layout =
  l_segs :: "nat list"
  l_hdrs :: "nat list"
  l_queue :: "nat \<Rightarrow> nat list"
  l_body :: "nat \<Rightarrow> nat list"
  l_hown :: "nat \<Rightarrow> hdr_owner"
  l_sown :: "nat \<Rightarrow> nat option"

abbreviation hdr_link :: "msg_state \<Rightarrow> nat \<Rightarrow> nat option" where
  "hdr_link s \<equiv> (\<lambda>h. msg_next (msghdrs s ! h))"

abbreviation seg_link :: "msg_state \<Rightarrow> nat \<Rightarrow> int" where
  "seg_link s \<equiv> (\<lambda>x. msgmaps s ! x)"

text \<open>The number of eight-byte segments of a message of \<open>n\<close> bytes.\<close>

definition seg_count :: "nat \<Rightarrow> nat" where
  "seg_count n = (n + 7) div 8"

definition msg_tables :: "msg_state \<Rightarrow> bool" where
  "msg_tables s \<longleftrightarrow> msginfo s = init_msginfo \<and> initted s \<and> length (msgpool s) = 16384 \<and>
     length (msgmaps s) = 2048 \<and> length (msghdrs s) = 40 \<and> length (msqids s) = 40"

text \<open>Segments: the free list and the bodies of the messages partition the segments.\<close>

definition segs_wf :: "msg_layout \<Rightarrow> msg_state \<Rightarrow> bool" where
  "segs_wf L s \<longleftrightarrow>
     segs.chain (seg_link s) (free_msgmaps s) (l_segs L) \<and> nfree_msgmaps s = int (length (l_segs L)) \<and>
     (\<forall>h<40. l_hown L h \<noteq> HFree \<longrightarrow> segs.chain (seg_link s) (msg_spot (msghdrs s ! h)) (l_body L h) \<and>
        length (l_body L h) = seg_count (unat (msg_ts (msghdrs s ! h)))) \<and>
     (\<forall>h<40. l_hown L h = HFree \<longrightarrow> l_body L h = []) \<and>
     set (l_segs L) = {x. x < 2048 \<and> l_sown L x = None} \<and>
     (\<forall>h<40. set (l_body L h) = {x. x < 2048 \<and> l_sown L x = Some h}) \<and>
     (\<forall>x<2048. \<forall>h. l_sown L x = Some h \<longrightarrow> h < 40)"

text \<open>Headers: each is free, in one queue, or held by one call in progress.\<close>

definition hdrs_wf :: "msg_layout \<Rightarrow> (nat \<Rightarrow> nat set) \<Rightarrow> msg_state \<Rightarrow> bool" where
  "hdrs_wf L held s \<longleftrightarrow>
     hdrs.chain (hdr_link s) (free_msghdrs s) (l_hdrs L) \<and>
     set (l_hdrs L) = {h. h < 40 \<and> l_hown L h = HFree} \<and>
     (\<forall>i<40. set (l_queue L i) = {h. h < 40 \<and> l_hown L h = HQueue i}) \<and>
     (\<forall>h<40. \<forall>i. l_hown L h = HQueue i \<longrightarrow> i < 40) \<and>
     (\<forall>t. held t = {h. h < 40 \<and> l_hown L h = HHeld t})"

text \<open>A queue: linked from first to last, with its byte and message counts.\<close>

definition queue_bytes :: "msg_state \<Rightarrow> nat list \<Rightarrow> nat" where
  "queue_bytes s hs = sum_list (map (\<lambda>h. unat (msg_ts (msghdrs s ! h))) hs)"

definition queue_wf :: "msg_state \<Rightarrow> user_msqid_ds \<Rightarrow> nat list \<Rightarrow> bool" where
  "queue_wf s q hs \<longleftrightarrow>
     (if msg_qbytes q = 0 then hs = []
      else hdrs.chain (hdr_link s) (msg_first q) hs \<and> msg_last q = (if hs = [] then None else Some (last hs)) \<and>
        msg_cbytes q = of_nat (queue_bytes s hs) \<and> msg_qnum q = of_nat (length hs) \<and> msg_qbytes q \<le> 2048 \<and>
        (\<forall>h\<in>set hs. 1 \<le> msg_type (msghdrs s ! h)))"

text \<open>\<open>X\<close> are the queues that are being dismantled.\<close>

definition queues_wf :: "nat set \<Rightarrow> msg_layout \<Rightarrow> msg_state \<Rightarrow> bool" where
  "queues_wf X L s \<longleftrightarrow>
     (\<forall>i<40. if i \<in> X then l_queue L i = [] else queue_wf s (msqids s ! i) (l_queue L i))"

definition msg_wf :: "nat set \<Rightarrow> msg_layout \<Rightarrow> (nat \<Rightarrow> nat set) \<Rightarrow> msg_state \<Rightarrow> bool" where
  "msg_wf X L held s \<longleftrightarrow> msg_tables s \<and> segs_wf L s \<and> hdrs_wf L held s \<and> queues_wf X L s"

section \<open>The abstract value of a queue\<close>

definition seg_bytes :: "msg_state \<Rightarrow> nat \<Rightarrow> u8 list" where
  "seg_bytes s x = take 8 (drop (8 * x) (msgpool s))"

fun seg_walk :: "nat \<Rightarrow> int \<Rightarrow> msg_state \<Rightarrow> nat list" where
  "seg_walk 0 p s = []"
| "seg_walk (Suc n) p s = nat p # seg_walk n (msgmaps s ! nat p) s"

definition msg_value :: "msg_state \<Rightarrow> nat \<Rightarrow> int \<times> u8 list" where
  "msg_value s h =
     (let m = msghdrs s ! h
      in (msg_type m,
          take (unat (msg_ts m)) (concat (map (seg_bytes s) (seg_walk (seg_count (unat (msg_ts m))) (msg_spot m) s)))))"

fun hdr_walk :: "nat \<Rightarrow> nat option \<Rightarrow> msg_state \<Rightarrow> nat list" where
  "hdr_walk 0 p s = []"
| "hdr_walk (Suc n) p s = (case p of None \<Rightarrow> [] | Some h \<Rightarrow> h # hdr_walk n (msg_next (msghdrs s ! h)) s)"

definition msg_queue :: "msg_state \<Rightarrow> nat \<Rightarrow> (int \<times> u8 list) list option" where
  "msg_queue s i =
     (if i < length (msqids s) \<and> msg_qbytes (msqids s ! i) \<noteq> 0
      then Some (map (msg_value s) (hdr_walk (unat (msg_qnum (msqids s ! i))) (msg_first (msqids s ! i)) s))
      else None)"

lemma seg_walk_chain: "segs.chain (seg_link s) p xs \<Longrightarrow> seg_walk (length xs) p s = xs"
  by (induction xs arbitrary: p) auto

lemma hdr_walk_chain: "hdrs.chain (hdr_link s) p hs \<Longrightarrow> length hs \<le> n \<Longrightarrow> hdr_walk n p s = hs"
proof (induction hs arbitrary: p n)
  case Nil
  then show ?case by (cases n) auto
next
  case (Cons h hs)
  then show ?case by (cases n) auto
qed

section \<open>Freeing a message\<close>

lemma tables_info:
  assumes "msg_tables s"
  shows "msgssz (msginfo s) = 8" "msgseg (msginfo s) = 2048" "msgmni (msginfo s) = 40" "msgmnb (msginfo s) = 2048"
    "initted s" "length (msgpool s) = 16384" "length (msgmaps s) = 2048" "length (msghdrs s) = 40" "length (msqids s) = 40"
  using assms by (simp_all add: msg_tables_def init_msginfo_def MSGSSZ_def MSGSEG_def MSGMNI_def MSGMNB_def)

lemma seg_chain_keep: "x \<notin> set ys \<Longrightarrow> segs.chain (\<lambda>i. M[x := v] ! i) p ys = segs.chain (\<lambda>i. M ! i) p ys"
  by (rule segs.chain_cong) (metis nth_list_update_neq)

lemma hdr_chain_keep: "h \<notin> set hs \<Longrightarrow> hdrs.chain (\<lambda>i. msg_next (H[h := m] ! i)) p hs = hdrs.chain (\<lambda>i. msg_next (H ! i)) p hs"
  by (rule hdrs.chain_cong) (metis nth_list_update_neq)

definition ts_rest :: "u16 \<Rightarrow> u16" where
  "ts_rest ts = (if uint ts \<ge> 8 then ts - 8 else 0)"

lemma ts_rest_unat: "unat (ts_rest ts) = unat ts - 8"
proof (cases "8 \<le> ts")
  case True
  then show ?thesis by (simp add: ts_rest_def word_le_def unat_sub)
next
  case False
  then have "unat ts < 8" by (simp add: not_le word_less_nat_alt)
  moreover have "\<not> 8 \<le> uint ts" using False by (simp add: word_le_def)
  ultimately show ?thesis by (simp add: ts_rest_def)
qed

lemma seg_count_step: "0 < n \<Longrightarrow> seg_count n = Suc (seg_count (n - 8))"
proof (cases "8 \<le> n")
  case True
  then have "n + 7 = (n - 8 + 7) + 8" by simp
  then show ?thesis unfolding seg_count_def by (metis Suc_eq_plus1 div_add_self2 zero_neq_numeral)
next
  case False
  moreover assume "0 < n"
  ultimately have "(n + 7) div 8 = 1" by (intro div_nat_eqI) auto
  then show ?thesis using False by (simp add: seg_count_def)
qed

lemma seg_count_rest: "0 < ts \<Longrightarrow> seg_count (unat ts) = Suc (seg_count (unat (ts_rest ts)))"
  unfolding ts_rest_unat by (rule seg_count_step) (simp add: word_gt_0 unat_gt_0)

lemma seg_count_0 [simp]: "seg_count n = 0 \<longleftrightarrow> n = 0"
  by (auto simp: seg_count_def)

lemma freesegs_run:
  assumes "msg_tables s" "h < 40" "segs.chain (seg_link s) (msg_spot (msghdrs s ! h)) body"
    "length body = seg_count (unat (msg_ts (msghdrs s ! h)))" "set body \<subseteq> {..<2048}"
    "segs.chain (seg_link s) (free_msgmaps s) fs" "set body \<inter> set fs = {}"
  shows "\<exists>M F. msg_freesegs h s = Some (s\<lparr>msgmaps := M, free_msgmaps := F,
        nfree_msgmaps := nfree_msgmaps s + int (length body),
        msghdrs := (msghdrs s)[h := (msghdrs s ! h)\<lparr>msg_spot := - 1, msg_ts := 0\<rparr>]\<rparr>) \<and>
      length M = 2048 \<and> segs.chain (\<lambda>x. M ! x) F (rev body @ fs) \<and> (\<forall>x. x \<notin> set body \<longrightarrow> M ! x = msgmaps s ! x)"
  using assms
proof (induction body arbitrary: s fs)
  case Nil
  note tabs = tables_info [OF Nil.prems(1)]
  from Nil have m: "msghdrs s ! h = (msghdrs s ! h)\<lparr>msg_spot := - 1, msg_ts := 0\<rparr>"
    by (simp add: unat_eq_0)
  then have "msg_freesegs h s = Some s"
    using Nil.prems by (subst msg_freesegs.simps) (simp add: msg_hdr_def unat_eq_0 tabs)
  moreover have "(msghdrs s)[h := (msghdrs s ! h)\<lparr>msg_spot := - 1, msg_ts := 0\<rparr>] = msghdrs s"
    using m by (metis list_update_id)
  ultimately show ?case
    using Nil.prems by (intro exI [of _ "msgmaps s"] exI [of _ "free_msgmaps s"]) (simp add: tabs)
next
  case (Cons x xs)
  note tabs = tables_info [OF Cons.prems(1)]
  let ?m = "msghdrs s ! h"
  let ?s = "msg_freeseg h ?m (msgmaps s ! x) s"
  have ts: "0 < msg_ts ?m" using Cons.prems(4) by (auto simp: word_gt_0 seg_count_def)
  have spot: "msg_spot ?m = int x" "x < 2048" "segs.chain (seg_link s) (msgmaps s ! x) xs" "x \<notin> set xs" "x \<notin> set fs"
    using Cons.prems(3,5,7) segs.chain_distinct [OF Cons.prems(3)] by auto
  have step: "msg_freesegs h s = msg_freesegs h ?s"
  proof -
    have "msg_hdr h s = Some ?m" "msg_map (msg_spot ?m) s = Some (msgmaps s ! x)"
      using Cons.prems(2) spot(1,2) by (simp_all add: msg_hdr_def msg_map_def tabs)
    then show ?thesis
      unfolding msg_freesegs.simps [of h s] using ts spot(1,2) tabs(2) by simp
  qed
  have s: "msgmaps ?s = (msgmaps s)[x := free_msgmaps s]" "free_msgmaps ?s = int x" "nfree_msgmaps ?s = nfree_msgmaps s + 1"
    "msghdrs ?s = (msghdrs s)[h := ?m\<lparr>msg_spot := msgmaps s ! x, msg_ts := ts_rest (msg_ts ?m)\<rparr>]" "msg_tables ?s"
    using Cons.prems(1,2) spot(1) tabs by (simp_all add: msg_freeseg_def hdr_modify_def ts_rest_def msg_tables_def Let_def)
  have keep: "segs.chain (seg_link ?s) p ys = segs.chain (seg_link s) p ys" if "x \<notin> set ys" for p ys
    using that by (simp add: s(1) seg_chain_keep)
  have "\<exists>M F. msg_freesegs h ?s = Some (?s\<lparr>msgmaps := M, free_msgmaps := F,
        nfree_msgmaps := nfree_msgmaps ?s + int (length xs),
        msghdrs := (msghdrs ?s)[h := (msghdrs ?s ! h)\<lparr>msg_spot := - 1, msg_ts := 0\<rparr>]\<rparr>) \<and>
      length M = 2048 \<and> segs.chain (\<lambda>x. M ! x) F (rev xs @ x # fs) \<and> (\<forall>x. x \<notin> set xs \<longrightarrow> M ! x = msgmaps ?s ! x)"
  proof (rule Cons.IH [OF s(5) Cons.prems(2)])
    show "segs.chain (seg_link ?s) (msg_spot (msghdrs ?s ! h)) xs"
      using Cons.prems(1,2) spot(3,4) keep by (simp add: s(4) tabs)
    show "length xs = seg_count (unat (msg_ts (msghdrs ?s ! h)))"
      using Cons.prems(1,2,4) ts by (simp add: s(4) seg_count_rest tabs)
    show "segs.chain (seg_link ?s) (free_msgmaps ?s) (x # fs)"
      using Cons.prems(1,6) spot(2,5) keep by (simp add: s(1,2) tabs)
    show "set xs \<subseteq> {..<2048}" "set xs \<inter> set (x # fs) = {}"
      using Cons.prems(5,7) spot(4) by auto
  qed
  then obtain M F where MF: "msg_freesegs h ?s = Some (?s\<lparr>msgmaps := M, free_msgmaps := F,
        nfree_msgmaps := nfree_msgmaps ?s + int (length xs),
        msghdrs := (msghdrs ?s)[h := (msghdrs ?s ! h)\<lparr>msg_spot := - 1, msg_ts := 0\<rparr>]\<rparr>)"
      "length M = 2048" "segs.chain (\<lambda>x. M ! x) F (rev xs @ x # fs)" "\<forall>x. x \<notin> set xs \<longrightarrow> M ! x = msgmaps ?s ! x"
    by blast
  show ?case
  proof (intro exI conjI)
    show "msg_freesegs h s = Some (s\<lparr>msgmaps := M, free_msgmaps := F, nfree_msgmaps := nfree_msgmaps s + int (length (x # xs)),
        msghdrs := (msghdrs s)[h := ?m\<lparr>msg_spot := - 1, msg_ts := 0\<rparr>]\<rparr>)"
      unfolding step MF(1) using Cons.prems(1,2) by (simp add: s(3,4) tabs) (simp add: msg_freeseg_def hdr_modify_def Let_def)
    show "segs.chain (\<lambda>x. M ! x) F (rev (x # xs) @ fs)" using MF(3) by simp
    show "\<forall>y. y \<notin> set (x # xs) \<longrightarrow> M ! y = msgmaps s ! y" using MF(4) by (simp add: s(1))
  qed (rule MF(2))
qed

lemma queue_wf_cong:
  assumes "\<And>h. h \<in> set hs \<Longrightarrow> msghdrs s' ! h = msghdrs s ! h"
  shows "queue_wf s' q hs = queue_wf s q hs"
proof -
  have "queue_bytes s' hs = queue_bytes s hs"
    unfolding queue_bytes_def using assms by (metis (mono_tags, lifting) map_eq_conv)
  moreover have "hdrs.chain (hdr_link s') p hs = hdrs.chain (hdr_link s) p hs" for p
    using assms by (intro hdrs.chain_cong) simp
  ultimately show ?thesis
    using assms by (simp add: queue_wf_def)
qed

definition lay_free :: "nat \<Rightarrow> msg_layout \<Rightarrow> msg_layout" where
  "lay_free h L = L\<lparr>l_segs := rev (l_body L h) @ l_segs L, l_hdrs := h # l_hdrs L, l_body := (l_body L)(h := []),
     l_hown := (l_hown L)(h := HFree), l_sown := (\<lambda>x. if x \<in> set (l_body L h) then None else l_sown L x)\<rparr>"

lemma lay_free_simps [simp]:
  "l_segs (lay_free h L) = rev (l_body L h) @ l_segs L" "l_hdrs (lay_free h L) = h # l_hdrs L"
  "l_queue (lay_free h L) = l_queue L" "l_body (lay_free h L) = (l_body L)(h := [])"
  "l_hown (lay_free h L) = (l_hown L)(h := HFree)"
  "l_sown (lay_free h L) x = (if x \<in> set (l_body L h) then None else l_sown L x)"
  by (simp_all add: lay_free_def)

text \<open>What an operation on the message of \<open>h\<close> and the segments \<open>S\<close> leaves alone.\<close>

definition msg_frame :: "nat set \<Rightarrow> nat \<Rightarrow> msg_state \<Rightarrow> msg_state \<Rightarrow> bool" where
  "msg_frame S h s s' \<longleftrightarrow>
     (\<forall>h'. h' \<noteq> h \<longrightarrow> msg_type (msghdrs s' ! h') = msg_type (msghdrs s ! h') \<and>
        msg_ts (msghdrs s' ! h') = msg_ts (msghdrs s ! h') \<and> msg_spot (msghdrs s' ! h') = msg_spot (msghdrs s ! h')) \<and>
     (\<forall>x. x \<notin> S \<longrightarrow> msgmaps s' ! x = msgmaps s ! x \<and> seg_bytes s' x = seg_bytes s x)"

lemma segs_wfD:
  assumes "segs_wf L s"
  shows "segs.chain (seg_link s) (free_msgmaps s) (l_segs L)" "nfree_msgmaps s = int (length (l_segs L))"
    "\<And>h. h < 40 \<Longrightarrow> l_hown L h \<noteq> HFree \<Longrightarrow> segs.chain (seg_link s) (msg_spot (msghdrs s ! h)) (l_body L h)"
    "\<And>h. h < 40 \<Longrightarrow> l_hown L h \<noteq> HFree \<Longrightarrow> length (l_body L h) = seg_count (unat (msg_ts (msghdrs s ! h)))"
    "\<And>h. h < 40 \<Longrightarrow> l_hown L h = HFree \<Longrightarrow> l_body L h = []"
    "set (l_segs L) = {x. x < 2048 \<and> l_sown L x = None}"
    "\<And>h. h < 40 \<Longrightarrow> set (l_body L h) = {x. x < 2048 \<and> l_sown L x = Some h}"
    "\<And>x h. x < 2048 \<Longrightarrow> l_sown L x = Some h \<Longrightarrow> h < 40"
  using assms unfolding segs_wf_def by blast+

lemma hdrs_wfD:
  assumes "hdrs_wf L held s"
  shows "hdrs.chain (hdr_link s) (free_msghdrs s) (l_hdrs L)" "set (l_hdrs L) = {h. h < 40 \<and> l_hown L h = HFree}"
    "\<And>i. i < 40 \<Longrightarrow> set (l_queue L i) = {h. h < 40 \<and> l_hown L h = HQueue i}"
    "\<And>h i. h < 40 \<Longrightarrow> l_hown L h = HQueue i \<Longrightarrow> i < 40"
    "\<And>t. held t = {h. h < 40 \<and> l_hown L h = HHeld t}"
  using assms unfolding hdrs_wf_def by blast+

lemma lay_free_segs:
  assumes wf: "segs_wf L s" and h: "h < 40" "l_hown L h \<noteq> HFree"
    and M: "segs.chain (\<lambda>x. M ! x) F (rev (l_body L h) @ l_segs L)" "\<And>x. x \<notin> set (l_body L h) \<Longrightarrow> M ! x = msgmaps s ! x"
    and s': "msgmaps s' = M" "free_msgmaps s' = F" "nfree_msgmaps s' = nfree_msgmaps s + int (length (l_body L h))"
      "\<And>h'. h' \<noteq> h \<Longrightarrow> msghdrs s' ! h' = msghdrs s ! h'"
  shows "segs_wf (lay_free h L) s'"
proof -
  note D = segs_wfD [OF wf]
  have other: "segs.chain (seg_link s') p (l_body L h') = segs.chain (seg_link s) p (l_body L h')" if "h' < 40" "h' \<noteq> h" for p h'
    using D(7) [OF that(1)] D(7) [OF h(1)] that(2) by (intro segs.chain_cong) (simp add: s' M(2))
  have own: "x \<in> set (l_body L h) \<longleftrightarrow> x < 2048 \<and> l_sown L x = Some h" for x
    using D(7) [OF h(1)] by blast
  show ?thesis
    unfolding segs_wf_def lay_free_simps
  proof (intro conjI allI impI)
    show "segs.chain (seg_link s') (free_msgmaps s') (rev (l_body L h) @ l_segs L)" using M(1) by (simp add: s'(1,2))
    show "nfree_msgmaps s' = int (length (rev (l_body L h) @ l_segs L))" by (simp add: s'(3) D(2))
    show "segs.chain (seg_link s') (msg_spot (msghdrs s' ! h')) (((l_body L)(h := [])) h')"
      "length (((l_body L)(h := [])) h') = seg_count (unat (msg_ts (msghdrs s' ! h')))"
      if "h' < 40" "((l_hown L)(h := HFree)) h' \<noteq> HFree" for h'
    proof -
      have "h' \<noteq> h" "l_hown L h' \<noteq> HFree" using that(2) by (simp_all split: if_split_asm)
      then show "segs.chain (seg_link s') (msg_spot (msghdrs s' ! h')) (((l_body L)(h := [])) h')"
        "length (((l_body L)(h := [])) h') = seg_count (unat (msg_ts (msghdrs s' ! h')))"
        using D(3,4) [OF that(1)] other [OF that(1)] by (simp_all add: s'(4))
    qed
    show "((l_body L)(h := [])) h' = []" if "h' < 40" "((l_hown L)(h := HFree)) h' = HFree" for h'
      using that D(5) by (simp split: if_split_asm)
    show "set (rev (l_body L h) @ l_segs L) = {x. x < 2048 \<and> (if x \<in> set (l_body L h) then None else l_sown L x) = None}"
      unfolding set_append set_rev D(6) by (rule set_eqI) (simp add: own split: if_splits, blast)
    show "set (((l_body L)(h := [])) h') = {x. x < 2048 \<and> (if x \<in> set (l_body L h) then None else l_sown L x) = Some h'}"
      if "h' < 40" for h'
      using D(7) [OF that] by (intro set_eqI) (auto simp: own)
    show "h' < 40" if "x < 2048" "(if x \<in> set (l_body L h) then None else l_sown L x) = Some h'" for x h'
      using that D(8) by (simp split: if_split_asm)
  qed
qed

lemma lay_free_hdrs:
  assumes H: "hdrs_wf L held s" and h: "h < 40" "l_hown L h = HHeld t"
  shows "set (l_hdrs (lay_free h L)) = {h'. h' < 40 \<and> l_hown (lay_free h L) h' = HFree} \<and>
    (\<forall>i<40. set (l_queue (lay_free h L) i) = {h'. h' < 40 \<and> l_hown (lay_free h L) h' = HQueue i}) \<and>
    (\<forall>h'<40. \<forall>i. l_hown (lay_free h L) h' = HQueue i \<longrightarrow> i < 40) \<and>
    (\<forall>t'. (held(t := held t - {h})) t' = {h'. h' < 40 \<and> l_hown (lay_free h L) h' = HHeld t'})"
proof (intro conjI allI impI)
  note D = hdrs_wfD [OF H]
  show "set (l_hdrs (lay_free h L)) = {h'. h' < 40 \<and> l_hown (lay_free h L) h' = HFree}"
    using D(2) h by (intro set_eqI) auto
  show "set (l_queue (lay_free h L) i) = {h'. h' < 40 \<and> l_hown (lay_free h L) h' = HQueue i}" if "i < 40" for i
    using D(3) [OF that] h by (intro set_eqI) auto
  show "i < 40" if "h' < 40" "l_hown (lay_free h L) h' = HQueue i" for h' i
    using that D(4) by (simp split: if_split_asm)
  show "(held(t := held t - {h})) t' = {h'. h' < 40 \<and> l_hown (lay_free h L) h' = HHeld t'}" for t'
    unfolding D(5) using h by (intro set_eqI) (auto simp: D(5))
qed

lemma freehdr_wf:
  assumes wf: "msg_wf X L held s" and h: "h \<in> held t"
  shows "\<exists>s'. msg_freehdr h s = Some s' \<and> msg_wf X (lay_free h L) (held(t := held t - {h})) s' \<and>
    msg_frame (set (l_body L h)) h s s' \<and> msqids s' = msqids s \<and> msg_out s' = msg_out s \<and>
    (\<forall>h'. h' \<noteq> h \<longrightarrow> msghdrs s' ! h' = msghdrs s ! h')"
proof -
  have tab: "msg_tables s" and S: "segs_wf L s" and H: "hdrs_wf L held s" and Q: "queues_wf X L s"
    using wf by (simp_all add: msg_wf_def)
  note D = hdrs_wfD [OF H] and tabs = tables_info [OF tab]
  have own: "h < 40" "l_hown L h = HHeld t" using h D(5) by auto
  have body: "set (l_body L h) \<subseteq> {..<2048}" "set (l_body L h) \<inter> set (l_segs L) = {}"
    using segs_wfD(6,7) [OF S] own(1) by auto
  obtain M F where MF: "msg_freesegs h s = Some (s\<lparr>msgmaps := M, free_msgmaps := F,
        nfree_msgmaps := nfree_msgmaps s + int (length (l_body L h)),
        msghdrs := (msghdrs s)[h := (msghdrs s ! h)\<lparr>msg_spot := - 1, msg_ts := 0\<rparr>]\<rparr>)"
      "length M = 2048" "segs.chain (\<lambda>x. M ! x) F (rev (l_body L h) @ l_segs L)" "\<And>x. x \<notin> set (l_body L h) \<Longrightarrow> M ! x = msgmaps s ! x"
    using freesegs_run [OF tab own(1) _ _ body(1) segs_wfD(1) [OF S] body(2)] segs_wfD(3,4) [OF S own(1)] own(2) by auto
  define s' where "s' = msg_wakeup ChanFree (s\<lparr>msgmaps := M, free_msgmaps := F,
        nfree_msgmaps := nfree_msgmaps s + int (length (l_body L h)), free_msghdrs := Some h,
        msghdrs := (msghdrs s)[h := (msghdrs s ! h)\<lparr>msg_spot := - 1, msg_ts := 0, msg_next := free_msghdrs s\<rparr>]\<rparr>)"
  have run: "msg_freehdr h s = Some s'"
    using own(1) by (simp add: msg_freehdr_def MF(1) msg_hdr_def tabs hdr_modify_def s'_def msg_wakeup_def)
  have other: "msghdrs s' ! h' = msghdrs s ! h'" if "h' \<noteq> h" for h'
    using that by (simp add: s'_def msg_wakeup_def)
  have frame: "msg_frame (set (l_body L h)) h s s'"
    using other MF(4) by (simp add: msg_frame_def s'_def msg_wakeup_def seg_bytes_def)
  have tab': "msg_tables s'"
    using tab MF(2) by (simp add: msg_tables_def s'_def msg_wakeup_def)
  have S': "segs_wf (lay_free h L) s'"
    by (rule lay_free_segs [OF S own(1) _ MF(3,4)]) (use own(2) other in \<open>simp_all add: s'_def msg_wakeup_def\<close>)
  have "h \<notin> set (l_hdrs L)" using D(2) own by simp
  then have "hdrs.chain (hdr_link s') p (l_hdrs L) = hdrs.chain (hdr_link s) p (l_hdrs L)" for p
    by (intro hdrs.chain_cong) (metis other)
  moreover have "free_msghdrs s' = Some h" "msg_next (msghdrs s' ! h) = free_msghdrs s"
    using own(1) by (simp_all add: s'_def msg_wakeup_def tabs)
  ultimately have "hdrs.chain (hdr_link s') (free_msghdrs s') (l_hdrs (lay_free h L))"
    using D(1) by simp
  then have H': "hdrs_wf (lay_free h L) (held(t := held t - {h})) s'"
    unfolding hdrs_wf_def by (rule conjI [OF _ lay_free_hdrs [OF H own]])
  have "h \<notin> set (l_queue L i)" if "i < 40" for i
    using D(3) [OF that] own(2) by simp
  then have "queue_wf s' q (l_queue L i) = queue_wf s q (l_queue L i)" if "i < 40" for i q
    using that by (intro queue_wf_cong other) metis
  moreover have same: "msqids s' = msqids s" "msg_out s' = msg_out s" by (simp_all add: s'_def msg_wakeup_def)
  ultimately have "queues_wf X (lay_free h L) s'"
    using Q unfolding queues_wf_def lay_free_simps by metis
  then show ?thesis
    using run tab' S' H' frame same other by (simp add: msg_wf_def)
qed

section \<open>Frames for the abstract value\<close>

lemma msg_wfD: "msg_wf X L held s \<Longrightarrow> msg_tables s" "msg_wf X L held s \<Longrightarrow> segs_wf L s"
  "msg_wf X L held s \<Longrightarrow> hdrs_wf L held s" "msg_wf X L held s \<Longrightarrow> queues_wf X L s"
  by (simp_all add: msg_wf_def)

lemma msg_value_cong:
  assumes "segs.chain (seg_link s) (msg_spot (msghdrs s ! h)) body" "length body = seg_count (unat (msg_ts (msghdrs s ! h)))"
    and "msg_type (msghdrs s' ! h) = msg_type (msghdrs s ! h)" "msg_ts (msghdrs s' ! h) = msg_ts (msghdrs s ! h)"
      "msg_spot (msghdrs s' ! h) = msg_spot (msghdrs s ! h)"
    and "\<And>x. x \<in> set body \<Longrightarrow> msgmaps s' ! x = msgmaps s ! x" "\<And>x. x \<in> set body \<Longrightarrow> seg_bytes s' x = seg_bytes s x"
  shows "msg_value s' h = msg_value s h"
proof -
  have "segs.chain (seg_link s') (msg_spot (msghdrs s ! h)) body"
    using assms(1,6) segs.chain_cong [of body "seg_link s'" "seg_link s"] by blast
  then have "seg_walk (length body) (msg_spot (msghdrs s ! h)) s' = body"
    "seg_walk (length body) (msg_spot (msghdrs s ! h)) s = body"
    using seg_walk_chain assms(1) by blast+
  moreover have "map (seg_bytes s') body = map (seg_bytes s) body"
    using assms(7) by simp
  ultimately show ?thesis
    using assms(2-5) by (simp add: msg_value_def Let_def cong: map_cong)
qed

lemma msg_value_eq:
  assumes "segs_wf L s" "h < 40" "l_hown L h \<noteq> HFree"
  shows "msg_value s h = (msg_type (msghdrs s ! h),
    take (unat (msg_ts (msghdrs s ! h))) (concat (map (seg_bytes s) (l_body L h))))"
  using segs_wfD(4) [OF assms] seg_walk_chain [OF segs_wfD(3) [OF assms]] by (simp add: msg_value_def Let_def)

lemma queue_length:
  assumes "hdrs_wf L held s" "i < 40" "distinct (l_queue L i)"
  shows "length (l_queue L i) \<le> 40"
proof -
  have "set (l_queue L i) \<subseteq> {..<40}" using hdrs_wfD(3) [OF assms(1,2)] by blast
  then have "card (set (l_queue L i)) \<le> 40" using card_mono [of "{..<40}" "set (l_queue L i)"] by simp
  then show ?thesis using assms(3) by (simp add: distinct_card)
qed

lemma msg_queue_eq:
  assumes wf: "msg_wf X L held s" and i: "i < 40" "i \<notin> X"
  shows "msg_queue s i = (if msg_qbytes (msqids s ! i) = 0 then None else Some (map (msg_value s) (l_queue L i)))"
proof (cases "msg_qbytes (msqids s ! i) = 0")
  case False
  have q: "queue_wf s (msqids s ! i) (l_queue L i)" using wf i by (simp add: msg_wf_def queues_wf_def)
  then have c: "hdrs.chain (hdr_link s) (msg_first (msqids s ! i)) (l_queue L i)"
    and n: "msg_qnum (msqids s ! i) = of_nat (length (l_queue L i))"
    using False by (simp_all add: queue_wf_def)
  have "length (l_queue L i) \<le> 40"
    by (rule queue_length [OF msg_wfD(3) [OF wf] i(1) hdrs.chain_distinct [OF c]])
  then have "unat (msg_qnum (msqids s ! i)) = length (l_queue L i)"
    unfolding n by (simp add: unat_of_nat)
  then show ?thesis
    using False i(1) wf c by (simp add: msg_queue_def msg_wf_def tables_info hdr_walk_chain)
qed (simp add: msg_queue_def)

lemma msg_queue_none: "msg_tables s \<Longrightarrow> \<not> i < 40 \<Longrightarrow> msg_queue s i = None"
  by (simp add: msg_queue_def tables_info)

text \<open>An operation on one message leaves the value of every other message in use.\<close>

lemma frame_value:
  assumes "segs_wf L s" "msg_frame S h s s'" "h' < 40" "h' \<noteq> h" "l_hown L h' \<noteq> HFree" "set (l_body L h') \<inter> S = {}"
  shows "msg_value s' h' = msg_value s h'"
  by (rule msg_value_cong [OF segs_wfD(3,4) [OF assms(1,3,5)]])
    (use assms(2,4,6) in \<open>auto simp: msg_frame_def disjoint_iff\<close>)

lemma bodies_apart:
  assumes "segs_wf L s" "h < 40" "h' < 40"
  shows "h' \<noteq> h \<Longrightarrow> set (l_body L h') \<inter> set (l_body L h) = {}" "set (l_body L h') \<inter> set (l_segs L) = {}"
  unfolding segs_wfD(6) [OF assms(1)] segs_wfD(7) [OF assms(1,2)] segs_wfD(7) [OF assms(1,3)] by auto

section \<open>Allocating a message\<close>

lemma sndsegs_run:
  assumes "msg_tables s" "h < 40" "segs.chain (seg_link s) (free_msgmaps s) fs" "nfree_msgmaps s = int (length fs)"
    "set fs \<subseteq> {..<2048}" "segs.chain (seg_link s) (msg_spot (msghdrs s ! h)) body" "set body \<inter> set fs = {}" "n \<le> length fs"
  shows "\<exists>M F P. msgsnd_segs n h s = Some (s\<lparr>msgmaps := M, free_msgmaps := F, nfree_msgmaps := nfree_msgmaps s - int n,
        msghdrs := (msghdrs s)[h := (msghdrs s ! h)\<lparr>msg_spot := P\<rparr>]\<rparr>) \<and> length M = 2048 \<and>
      segs.chain (\<lambda>x. M ! x) F (drop n fs) \<and> segs.chain (\<lambda>x. M ! x) P (rev (take n fs) @ body) \<and>
      (\<forall>x. x \<notin> set (take n fs) \<longrightarrow> M ! x = msgmaps s ! x)"
  using assms
proof (induction n arbitrary: s fs body)
  case 0
  then show ?case
    by (intro exI [of _ "msgmaps s"] exI [of _ "free_msgmaps s"] exI [of _ "msg_spot (msghdrs s ! h)"])
      (simp add: tables_info)
next
  case (Suc n)
  note tabs = tables_info [OF Suc.prems(1)]
  obtain x xs where fs: "fs = x # xs" using Suc.prems(8) by (cases fs) auto
  have x: "free_msgmaps s = int x" "x < 2048" "segs.chain (seg_link s) (msgmaps s ! x) xs" "x \<notin> set xs" "x \<notin> set body"
    using Suc.prems(3,5,7) segs.chain_distinct [OF Suc.prems(3)] by (auto simp: fs)
  let ?m = "msghdrs s ! h"
  define s1 where "s1 = s\<lparr>free_msgmaps := msgmaps s ! x, nfree_msgmaps := nfree_msgmaps s - 1,
      msgmaps := (msgmaps s)[x := msg_spot ?m], msghdrs := (msghdrs s)[h := ?m\<lparr>msg_spot := int x\<rparr>]\<rparr>"
  have step: "msgsnd_segs (Suc n) h s = msgsnd_segs n h s1"
    using Suc.prems(2,4) x(1,2) by (simp add: msg_hdr_def msg_map_def tabs fs hdr_modify_def s1_def Let_def)
  have keep: "segs.chain (seg_link s1) p ys = segs.chain (seg_link s) p ys" if "x \<notin> set ys" for p ys
    using that by (simp add: s1_def seg_chain_keep)
  have "\<exists>M F P. msgsnd_segs n h s1 = Some (s1\<lparr>msgmaps := M, free_msgmaps := F, nfree_msgmaps := nfree_msgmaps s1 - int n,
        msghdrs := (msghdrs s1)[h := (msghdrs s1 ! h)\<lparr>msg_spot := P\<rparr>]\<rparr>) \<and> length M = 2048 \<and>
      segs.chain (\<lambda>x. M ! x) F (drop n xs) \<and> segs.chain (\<lambda>x. M ! x) P (rev (take n xs) @ x # body) \<and>
      (\<forall>x. x \<notin> set (take n xs) \<longrightarrow> M ! x = msgmaps s1 ! x)"
  proof (rule Suc.IH)
    show "msg_tables s1" using Suc.prems(1) by (simp add: msg_tables_def s1_def)
    show "segs.chain (seg_link s1) (free_msgmaps s1) xs" using x(3,4) keep by (simp add: s1_def)
    show "nfree_msgmaps s1 = int (length xs)" using Suc.prems(4) by (simp add: s1_def fs)
    show "segs.chain (seg_link s1) (msg_spot (msghdrs s1 ! h)) (x # body)"
      using Suc.prems(2,6) x(2,5) by (simp add: s1_def tabs seg_chain_keep)
    show "set xs \<subseteq> {..<2048}" "set (x # body) \<inter> set xs = {}" "n \<le> length xs"
      using Suc.prems(5,7,8) x(4) by (auto simp: fs)
  qed (rule Suc.prems(2))
  then obtain M F P where MFP: "msgsnd_segs n h s1 = Some (s1\<lparr>msgmaps := M, free_msgmaps := F, nfree_msgmaps := nfree_msgmaps s1 - int n,
        msghdrs := (msghdrs s1)[h := (msghdrs s1 ! h)\<lparr>msg_spot := P\<rparr>]\<rparr>)" "length M = 2048"
      "segs.chain (\<lambda>x. M ! x) F (drop n xs)" "segs.chain (\<lambda>x. M ! x) P (rev (take n xs) @ x # body)"
      "\<forall>x. x \<notin> set (take n xs) \<longrightarrow> M ! x = msgmaps s1 ! x"
    by blast
  show ?case
  proof (intro exI conjI)
    show "msgsnd_segs (Suc n) h s = Some (s\<lparr>msgmaps := M, free_msgmaps := F, nfree_msgmaps := nfree_msgmaps s - int (Suc n),
        msghdrs := (msghdrs s)[h := ?m\<lparr>msg_spot := P\<rparr>]\<rparr>)"
      unfolding step MFP(1) using Suc.prems(2) by (simp add: s1_def tabs)
    show "segs.chain (\<lambda>x. M ! x) F (drop (Suc n) fs)" "segs.chain (\<lambda>x. M ! x) P (rev (take (Suc n) fs) @ body)"
      using MFP(3,4) by (simp_all add: fs)
    show "\<forall>y. y \<notin> set (take (Suc n) fs) \<longrightarrow> M ! y = msgmaps s ! y" using MFP(5) by (simp add: s1_def fs)
  qed (rule MFP(2))
qed

end
