(* ===== verification/Sysv_Msg_Ops.thy ===== *)
theory Sysv_Msg_Ops
  imports Sysv_Msg_Heap
begin

text \<open>
  The atomic pieces of the message system calls on well-formed states: allocating a message, linking it
  behind its queue, searching a queue and unlinking a message, removing a queue.  Every lemma gives the
  result of the piece, the layout after it, and what it leaves alone.
\<close>

lemma sint_ucast_small:
  fixes x :: u64
  assumes "unat x < 2 ^ 31"
  shows "sint (ucast x :: u32) = int (unat x)"
proof -
  have x: "uint x < 2 ^ 31"
    using of_nat_less_iff [of "unat x" "2 ^ 31", where 'a = int] assms by simp
  then have "uint (ucast x :: u32) = uint x"
    by (simp add: unsigned_ucast_eq take_bit_int_eq_self)
  moreover have "- (2 ^ 31) \<le> uint x"
    by (rule order_trans [OF _ unsigned_greater_eq]) simp
  ultimately show ?thesis
    using signed_take_bit_int_eq_self [of 31 "uint x"] x by (simp add: sint_uint)
qed

lemma segs_needed_small:
  assumes "msg_tables s" "sz \<le> 2048"
  shows "segs_needed sz s = int (seg_count (unat sz))"
proof -
  have sz: "unat sz \<le> 2048" using assms(2) by (simp add: word_le_nat_alt)
  then have plus: "unat (sz + 7) = unat sz + 7"
    by (subst unat_add_lem [THEN iffD1]) simp_all
  have "unat ((sz + 8 - 1) div 8) = seg_count (unat sz)"
  proof -
    have "sz + 8 - 1 = sz + 7" "unat (8 :: u64) = 8" by simp_all
    then show ?thesis unfolding seg_count_def by (simp only: unat_div plus)
  qed
  moreover have "seg_count (unat sz) < 2 ^ 31"
    using sz by (simp add: seg_count_def)
  ultimately show ?thesis
    using tables_info(1) [OF assms(1)] by (simp add: segs_needed_def sint_ucast_small)
qed

lemma own_override:
  "{x. x < (N :: nat) \<and> (if x \<in> A then c else f x) = v} =
    (if c = v then {x \<in> A. x < N} else {}) \<union> ({x. x < N \<and> f x = v} - A)"
  by auto

lemma own_update:
  "{x. x < (N :: nat) \<and> (f(a := c)) x = v} =
    (if c = v \<and> a < N then {a} else {}) \<union> ({x. x < N \<and> f x = v} - {a})"
  by auto

definition lay_alloc :: "nat \<Rightarrow> nat \<Rightarrow> nat \<Rightarrow> msg_layout \<Rightarrow> msg_layout" where
  "lay_alloc t h n L = L\<lparr>l_segs := drop n (l_segs L), l_hdrs := tl (l_hdrs L),
     l_body := (l_body L)(h := rev (take n (l_segs L))), l_hown := (l_hown L)(h := HHeld t),
     l_sown := (\<lambda>x. if x \<in> set (take n (l_segs L)) then Some h else l_sown L x)\<rparr>"

lemma lay_alloc_simps [simp]:
  "l_segs (lay_alloc t h n L) = drop n (l_segs L)" "l_hdrs (lay_alloc t h n L) = tl (l_hdrs L)"
  "l_queue (lay_alloc t h n L) = l_queue L" "l_body (lay_alloc t h n L) = (l_body L)(h := rev (take n (l_segs L)))"
  "l_hown (lay_alloc t h n L) = (l_hown L)(h := HHeld t)"
  "l_sown (lay_alloc t h n L) x = (if x \<in> set (take n (l_segs L)) then Some h else l_sown L x)"
  by (simp_all add: lay_alloc_def)

lemma lay_alloc_segs:
  assumes wf: "segs_wf L s" and h: "h < 40" "l_hown L h = HFree" and n: "n \<le> length (l_segs L)"
    and M: "segs.chain (\<lambda>x. M ! x) F (drop n (l_segs L))" "segs.chain (\<lambda>x. M ! x) P (rev (take n (l_segs L)))"
      "\<And>x. x \<notin> set (take n (l_segs L)) \<Longrightarrow> M ! x = msgmaps s ! x"
    and s': "msgmaps s' = M" "free_msgmaps s' = F" "nfree_msgmaps s' = nfree_msgmaps s - int n"
      "\<And>h'. h' \<noteq> h \<Longrightarrow> msghdrs s' ! h' = msghdrs s ! h'"
      "msg_spot (msghdrs s' ! h) = P" "n = seg_count (unat (msg_ts (msghdrs s' ! h)))"
  shows "segs_wf (lay_alloc t h n L) s'"
proof -
  note D = segs_wfD [OF wf]
  have split: "set (l_segs L) = set (take n (l_segs L)) \<union> set (drop n (l_segs L))"
    by (metis append_take_drop_id set_append)
  have disj: "set (take n (l_segs L)) \<inter> set (drop n (l_segs L)) = {}"
    using segs.chain_distinct [OF D(1)] by (simp add: set_take_disj_set_drop_if_distinct)
  have bound: "{x \<in> set (take n (l_segs L)). x < 2048} = set (take n (l_segs L))"
    using split D(6) by blast
  have apart: "set (l_body L h') \<inter> set (take n (l_segs L)) = {}" if "h' < 40" for h'
  proof -
    have "set (l_body L h') \<inter> set (l_segs L) = {}" unfolding D(6) D(7) [OF that] by auto
    then show ?thesis using split by blast
  qed
  have other: "segs.chain (seg_link s') p (l_body L h') = segs.chain (seg_link s) p (l_body L h')" if "h' < 40" for p h'
    using apart [OF that] by (intro segs.chain_cong) (metis M(3) disjoint_iff s'(1))
  show ?thesis
    unfolding segs_wf_def lay_alloc_simps
  proof (intro conjI allI impI)
    show "segs.chain (seg_link s') (free_msgmaps s') (drop n (l_segs L))" using M(1) by (simp add: s'(1,2))
    show "nfree_msgmaps s' = int (length (drop n (l_segs L)))" using n by (simp add: s'(3) D(2))
    show "segs.chain (seg_link s') (msg_spot (msghdrs s' ! h')) (((l_body L)(h := rev (take n (l_segs L)))) h')"
      "length (((l_body L)(h := rev (take n (l_segs L)))) h') = seg_count (unat (msg_ts (msghdrs s' ! h')))"
      if "h' < 40" "((l_hown L)(h := HHeld t)) h' \<noteq> HFree" for h'
      using that M(2) n D(3,4) [OF that(1)] other [OF that(1)] s'(4) [of h'] s'(5,6) by (simp_all add: s'(1) split: if_split_asm)
    show "((l_body L)(h := rev (take n (l_segs L)))) h' = []" if "h' < 40" "((l_hown L)(h := HHeld t)) h' = HFree" for h'
      using that D(5) by (simp split: if_split_asm)
    show "set (drop n (l_segs L)) = {x. x < 2048 \<and> (if x \<in> set (take n (l_segs L)) then Some h else l_sown L x) = None}"
      unfolding own_override D(6) [symmetric] using split disj by auto
    show "set (((l_body L)(h := rev (take n (l_segs L)))) h') =
        {x. x < 2048 \<and> (if x \<in> set (take n (l_segs L)) then Some h else l_sown L x) = Some h'}" if "h' < 40" for h'
      unfolding own_override D(7) [OF that, symmetric] using bound D(5) [OF h] apart [OF that] by (cases "h' = h") auto
    show "h' < 40" if "x < 2048" "(if x \<in> set (take n (l_segs L)) then Some h else l_sown L x) = Some h'" for x h'
      using that D(8) h(1) by (simp split: if_split_asm)
  qed
qed

lemma lay_alloc_hdrs:
  assumes H: "hdrs_wf L held s" and h: "l_hdrs L = h # hs" and t: "held t = {}"
  shows "set (l_hdrs (lay_alloc t h n L)) = {h'. h' < 40 \<and> l_hown (lay_alloc t h n L) h' = HFree} \<and>
    (\<forall>i<40. set (l_queue (lay_alloc t h n L) i) = {h'. h' < 40 \<and> l_hown (lay_alloc t h n L) h' = HQueue i}) \<and>
    (\<forall>h'<40. \<forall>i. l_hown (lay_alloc t h n L) h' = HQueue i \<longrightarrow> i < 40) \<and>
    (\<forall>t'. (held(t := {h})) t' = {h'. h' < 40 \<and> l_hown (lay_alloc t h n L) h' = HHeld t'})"
proof (intro conjI allI impI)
  note D = hdrs_wfD [OF H]
  have dist: "h \<notin> set hs" using hdrs.chain_distinct [OF D(1)] by (simp add: h)
  have h40: "h < 40" "l_hown L h = HFree" using D(2) by (auto simp: h)
  show "set (l_hdrs (lay_alloc t h n L)) = {h'. h' < 40 \<and> l_hown (lay_alloc t h n L) h' = HFree}"
    unfolding lay_alloc_simps own_update D(2) [symmetric] using dist by (simp add: h)
  show "set (l_queue (lay_alloc t h n L) i) = {h'. h' < 40 \<and> l_hown (lay_alloc t h n L) h' = HQueue i}" if "i < 40" for i
    unfolding lay_alloc_simps own_update D(3) [OF that, symmetric] using D(3) [OF that] h40 by simp
  show "i < 40" if "h' < 40" "l_hown (lay_alloc t h n L) h' = HQueue i" for h' i
    using that D(4) by (simp split: if_split_asm)
  show "(held(t := {h})) t' = {h'. h' < 40 \<and> l_hown (lay_alloc t h n L) h' = HHeld t'}" for t'
    unfolding lay_alloc_simps own_update D(5) [symmetric] using D(5) [of t'] h40 t by (cases "t' = t") simp_all
qed

lemma msg_wf_wakeup [simp]: "msg_wf X L held (msg_wakeup c s) = msg_wf X L held s"
  "msg_wf X L held (msg_copy_out a d s) = msg_wf X L held s"
  by (simp_all add: msg_wf_def msg_tables_def segs_wf_def hdrs_wf_def queues_wf_def queue_wf_def queue_bytes_def
    msg_wakeup_def msg_copy_out_def)

text \<open>Changing one entry of the queue table.\<close>

lemma msq_modify_simps [simp]:
  "msghdrs (msq_modify i f s) = msghdrs s" "msgmaps (msq_modify i f s) = msgmaps s" "msgpool (msq_modify i f s) = msgpool s"
  "free_msgmaps (msq_modify i f s) = free_msgmaps s" "nfree_msgmaps (msq_modify i f s) = nfree_msgmaps s"
  "free_msghdrs (msq_modify i f s) = free_msghdrs s" "msginfo (msq_modify i f s) = msginfo s"
  "initted (msq_modify i f s) = initted s" "msg_out (msq_modify i f s) = msg_out s"
  "length (msqids (msq_modify i f s)) = length (msqids s)"
  by (simp_all add: msq_modify_def)

lemma msq_modify_nth:
  "msg_tables s \<Longrightarrow> i < 40 \<Longrightarrow> msqids (msq_modify i f s) ! j = (if j = i then f (msqids s ! i) else msqids s ! j)"
  by (simp add: msq_modify_def tables_info)

lemma msg_value_same:
  assumes "msghdrs s' = msghdrs s" "msgmaps s' = msgmaps s" "msgpool s' = msgpool s"
  shows "msg_value s' = msg_value s"
proof -
  have "seg_walk n p s' = seg_walk n p s" for n p
    by (induction n arbitrary: p) (simp_all add: assms(2))
  moreover have "seg_bytes s' = seg_bytes s" by (simp add: fun_eq_iff seg_bytes_def assms(3))
  ultimately show ?thesis by (intro ext) (simp add: msg_value_def assms(1))
qed

lemma msg_value_frame [simp]:
  "msg_value (msq_modify i f s) = msg_value s" "msg_value (msg_wakeup c s) = msg_value s"
  "msg_value (msg_copy_out a d s) = msg_value s" "msg_value (msq_lock i s) = msg_value s"
  "msg_value (msq_unlock i s) = msg_value s"
  by (rule msg_value_same; simp add: msg_wakeup_def msg_copy_out_def msq_lock_def msq_unlock_def)+

lemma msg_wf_msq_modify:
  assumes wf: "msg_wf X L held s" and i: "i < 40"
    and q: "if i \<in> Y then l_queue L i = [] else queue_wf s (f (msqids s ! i)) (l_queue L i)" and XY: "X - {i} = Y - {i}"
  shows "msg_wf Y L held (msq_modify i f s)"
proof -
  note tab = msg_wfD(1) [OF wf]
  have "queue_wf (msq_modify i f s) q hs = queue_wf s q hs" for q hs
    by (rule queue_wf_cong) simp
  moreover have "j \<in> Y \<longleftrightarrow> j \<in> X" if "j \<noteq> i" for j using XY that by blast
  ultimately have "queues_wf Y L (msq_modify i f s)"
    using msg_wfD(4) [OF wf] q unfolding queues_wf_def by (simp add: msq_modify_nth [OF tab i])
  moreover have "msg_tables (msq_modify i f s)" "segs_wf L (msq_modify i f s)" "hdrs_wf L held (msq_modify i f s)"
    using msg_wfD(1-3) [OF wf] by (simp_all add: msg_tables_def segs_wf_def hdrs_wf_def)
  ultimately show ?thesis by (simp add: msg_wf_def)
qed

lemma queue_wf_perm [simp]: "queue_wf s (q\<lparr>msg_perm := p\<rparr>) hs = queue_wf s q hs"
  by (simp add: queue_wf_def)

lemma msg_wf_perm:
  assumes "msg_wf X L held s" "i < 40"
  shows "msg_wf X L held (msq_modify i (\<lambda>q. q\<lparr>msg_perm := p q\<rparr>) s)"
  using msg_wfD(4) [OF assms(1)] assms(2)
  by (intro msg_wf_msq_modify [OF assms]) (auto simp: queues_wf_def)

lemma msg_wf_lock [simp]:
  "msg_wf X L held s \<Longrightarrow> i < 40 \<Longrightarrow> msg_wf X L held (msq_lock i s)"
  "msg_wf X L held s \<Longrightarrow> i < 40 \<Longrightarrow> msg_wf X L held (msq_unlock i s)"
  by (simp_all add: msq_lock_def msq_unlock_def msg_wf_perm)

lemma alloc_wf:
  assumes wf: "msg_wf X L held s" and t: "held t = {}" and h: "l_hdrs L = h # hs"
    and n: "n \<le> length (l_segs L)" and sz: "n = seg_count (unat (ts :: u16))"
  shows "\<exists>s'. msgsnd_segs n h ((hdr_modify h (\<lambda>m. m\<lparr>msg_spot := - 1, msg_ts := ts\<rparr>) s)\<lparr>free_msghdrs := msg_next (msghdrs s ! h)\<rparr>) = Some s' \<and>
    msg_wf X (lay_alloc t h n L) (held(t := {h})) s' \<and> msg_frame (set (take n (l_segs L))) h s s' \<and>
    msqids s' = msqids s \<and> msg_out s' = msg_out s \<and> msg_ts (msghdrs s' ! h) = ts"
proof -
  note tab = msg_wfD(1) [OF wf] and S = msg_wfD(2) [OF wf] and H = msg_wfD(3) [OF wf] and Q = msg_wfD(4) [OF wf]
  note D = hdrs_wfD [OF H] and tabs = tables_info [OF tab]
  have h40: "h < 40" "l_hown L h = HFree" "h \<notin> set hs"
    using D(2) hdrs.chain_distinct [OF D(1)] by (auto simp: h)
  let ?m = "(msghdrs s ! h)\<lparr>msg_spot := - 1, msg_ts := ts\<rparr>"
  define s1 where "s1 = (hdr_modify h (\<lambda>m. m\<lparr>msg_spot := - 1, msg_ts := ts\<rparr>) s)\<lparr>free_msghdrs := msg_next (msghdrs s ! h)\<rparr>"
  have s1: "msg_tables s1" "msghdrs s1 = (msghdrs s)[h := ?m]" "msgmaps s1 = msgmaps s" "free_msgmaps s1 = free_msgmaps s"
    "nfree_msgmaps s1 = nfree_msgmaps s"
    using tab by (simp_all add: s1_def hdr_modify_def msg_tables_def)
  have bound: "set (l_segs L) \<subseteq> {..<2048}" using segs_wfD(6) [OF S] by auto
  have spot: "msg_spot (msghdrs s1 ! h) = - 1" using h40(1) by (simp add: s1(2) tabs)
  obtain M F P where MFP: "msgsnd_segs n h s1 = Some (s1\<lparr>msgmaps := M, free_msgmaps := F, nfree_msgmaps := nfree_msgmaps s1 - int n,
        msghdrs := (msghdrs s1)[h := (msghdrs s1 ! h)\<lparr>msg_spot := P\<rparr>]\<rparr>)" "length M = 2048"
      "segs.chain (\<lambda>x. M ! x) F (drop n (l_segs L))" "segs.chain (\<lambda>x. M ! x) P (rev (take n (l_segs L)))"
      "\<And>x. x \<notin> set (take n (l_segs L)) \<Longrightarrow> M ! x = msgmaps s ! x"
    using sndsegs_run [OF s1(1) h40(1), of "l_segs L" "[]" n] segs_wfD(1,2) [OF S] bound n spot by (auto simp: s1(3-5))
  define s' where "s' = s\<lparr>msgmaps := M, free_msgmaps := F, nfree_msgmaps := nfree_msgmaps s - int n,
      free_msghdrs := msg_next (msghdrs s ! h), msghdrs := (msghdrs s)[h := ?m\<lparr>msg_spot := P\<rparr>]\<rparr>"
  have run: "msgsnd_segs n h s1 = Some s'"
    unfolding MFP(1) s'_def using h40(1) by (simp add: s1 tabs) (simp add: s1_def hdr_modify_def)
  have other: "msghdrs s' ! h' = msghdrs s ! h'" if "h' \<noteq> h" for h'
    using that by (simp add: s'_def)
  have S': "segs_wf (lay_alloc t h n L) s'"
    by (rule lay_alloc_segs [OF S h40(1,2) n MFP(3-5)]) (use other h40(1) sz in \<open>simp_all add: s'_def tabs\<close>)
  have "hdrs.chain (hdr_link s') p hs = hdrs.chain (hdr_link s) p hs" for p
    using h40(3) by (intro hdrs.chain_cong) (metis other)
  then have "hdrs.chain (hdr_link s') (free_msghdrs s') (l_hdrs (lay_alloc t h n L))"
    using D(1) by (simp add: h s'_def)
  then have H': "hdrs_wf (lay_alloc t h n L) (held(t := {h})) s'"
    unfolding hdrs_wf_def by (rule conjI [OF _ lay_alloc_hdrs [OF H h t]])
  have "h \<notin> set (l_queue L i)" if "i < 40" for i
    using D(3) [OF that] h40(2) by simp
  then have "queue_wf s' q (l_queue L i) = queue_wf s q (l_queue L i)" if "i < 40" for i q
    using that by (intro queue_wf_cong other) metis
  moreover have same: "msqids s' = msqids s" "msg_out s' = msg_out s" by (simp_all add: s'_def)
  ultimately have "queues_wf X (lay_alloc t h n L) s'"
    using Q unfolding queues_wf_def lay_alloc_simps by metis
  moreover have "msg_frame (set (take n (l_segs L))) h s s'"
    using other MFP(5) by (simp add: msg_frame_def s'_def seg_bytes_def)
  moreover have "msg_tables s'" using tab MFP(2) by (simp add: msg_tables_def s'_def)
  moreover have "msg_ts (msghdrs s' ! h) = ts" using h40(1) by (simp add: s'_def tabs)
  ultimately show ?thesis
    using run S' H' same by (simp add: msg_wf_def s1_def)
qed

section \<open>Relinking headers\<close>

text \<open>Operations that change only links between headers and the queue table.\<close>

definition relinked :: "msg_state \<Rightarrow> msg_state \<Rightarrow> bool" where
  "relinked s s' \<longleftrightarrow>
     (\<forall>h. msg_type (msghdrs s' ! h) = msg_type (msghdrs s ! h) \<and> msg_ts (msghdrs s' ! h) = msg_ts (msghdrs s ! h) \<and>
        msg_spot (msghdrs s' ! h) = msg_spot (msghdrs s ! h)) \<and>
     length (msghdrs s') = length (msghdrs s) \<and> length (msqids s') = length (msqids s) \<and>
     msgmaps s' = msgmaps s \<and> msgpool s' = msgpool s \<and> msginfo s' = msginfo s \<and> initted s' = initted s \<and>
     free_msgmaps s' = free_msgmaps s \<and> nfree_msgmaps s' = nfree_msgmaps s \<and> free_msghdrs s' = free_msghdrs s"

lemma relinked_refl [simp]: "relinked s s"
  by (simp add: relinked_def)

lemma relinked_trans: "relinked s s' \<Longrightarrow> relinked s' s'' \<Longrightarrow> relinked s s''"
  by (simp add: relinked_def)

lemma relinked_msq: "relinked s (msq_modify i f s)" "relinked s (msg_wakeup c s)"
  by (simp_all add: relinked_def msg_wakeup_def)

lemma relinked_hdr: "relinked s (hdr_modify h (\<lambda>m. m\<lparr>msg_next := v\<rparr>) s)"
  by (cases "h < length (msghdrs s)") (auto simp: relinked_def hdr_modify_def nth_list_update list_update_beyond)

lemma relinked_tables: "relinked s s' \<Longrightarrow> msg_tables s' = msg_tables s"
  by (simp add: relinked_def msg_tables_def)

lemma relinked_bytes: "relinked s s' \<Longrightarrow> queue_bytes s' hs = queue_bytes s hs"
  by (simp add: relinked_def queue_bytes_def)

lemma relinked_value: "relinked s s' \<Longrightarrow> msg_value s' = msg_value s"
proof -
  assume r: "relinked s s'"
  have "seg_walk n p s' = seg_walk n p s" for n p
    using r by (induction n arbitrary: p) (simp_all add: relinked_def)
  moreover have "seg_bytes s' = seg_bytes s" using r by (simp add: fun_eq_iff seg_bytes_def relinked_def)
  ultimately show ?thesis using r by (intro ext) (simp add: msg_value_def relinked_def Let_def)
qed

lemma relinked_segs:
  assumes "relinked s s'" "l_segs L' = l_segs L" "l_body L' = l_body L" "l_sown L' = l_sown L"
    "\<And>h. l_hown L' h = HFree \<longleftrightarrow> l_hown L h = HFree"
  shows "segs_wf L' s' = segs_wf L s"
  using assms(1) unfolding relinked_def segs_wf_def assms(2-5) by simp

lemma hdr_link_modify:
  "msg_tables s \<Longrightarrow> h < 40 \<Longrightarrow> hdr_link (hdr_modify h (\<lambda>m. m\<lparr>msg_next := v\<rparr>) s) = (hdr_link s)(h := v)"
  by (auto simp: fun_eq_iff hdr_modify_def tables_info nth_list_update)

lemma hdr_link_msq [simp]: "hdr_link (msq_modify i f s) = hdr_link s" "hdr_link (msg_wakeup c s) = hdr_link s"
  by (simp_all add: msg_wakeup_def)

definition lay_enq :: "nat \<Rightarrow> nat \<Rightarrow> msg_layout \<Rightarrow> msg_layout" where
  "lay_enq i h L = L\<lparr>l_queue := (l_queue L)(i := l_queue L i @ [h]), l_hown := (l_hown L)(h := HQueue i)\<rparr>"

definition lay_deq :: "nat \<Rightarrow> nat \<Rightarrow> nat \<Rightarrow> msg_layout \<Rightarrow> msg_layout" where
  "lay_deq i t h L = L\<lparr>l_queue := (l_queue L)(i := remove1 h (l_queue L i)), l_hown := (l_hown L)(h := HHeld t)\<rparr>"

lemma lay_enq_hdrs:
  assumes H: "hdrs_wf L held s" and h: "h \<in> held t" and i: "i < 40"
  shows "set (l_hdrs (lay_enq i h L)) = {h'. h' < 40 \<and> l_hown (lay_enq i h L) h' = HFree} \<and>
    (\<forall>j<40. set (l_queue (lay_enq i h L) j) = {h'. h' < 40 \<and> l_hown (lay_enq i h L) h' = HQueue j}) \<and>
    (\<forall>h'<40. \<forall>j. l_hown (lay_enq i h L) h' = HQueue j \<longrightarrow> j < 40) \<and>
    (\<forall>t'. (held(t := held t - {h})) t' = {h'. h' < 40 \<and> l_hown (lay_enq i h L) h' = HHeld t'})"
proof (intro conjI allI impI)
  note D = hdrs_wfD [OF H]
  have h40: "h < 40" "l_hown L h = HHeld t" using h D(5) by auto
  have simps: "l_hdrs (lay_enq i h L) = l_hdrs L" "l_hown (lay_enq i h L) = (l_hown L)(h := HQueue i)"
    "l_queue (lay_enq i h L) = (l_queue L)(i := l_queue L i @ [h])"
    by (simp_all add: lay_enq_def)
  show "set (l_hdrs (lay_enq i h L)) = {h'. h' < 40 \<and> l_hown (lay_enq i h L) h' = HFree}"
    unfolding simps own_update D(2) [symmetric] using D(2) h40 by simp
  show "set (l_queue (lay_enq i h L) j) = {h'. h' < 40 \<and> l_hown (lay_enq i h L) h' = HQueue j}" if "j < 40" for j
    unfolding simps own_update D(3) [OF that, symmetric] using D(3) [OF that] h40 by (cases "j = i") auto
  show "j < 40" if "h' < 40" "l_hown (lay_enq i h L) h' = HQueue j" for h' j
    using that D(4) i by (simp add: simps split: if_split_asm)
  show "(held(t := held t - {h})) t' = {h'. h' < 40 \<and> l_hown (lay_enq i h L) h' = HHeld t'}" for t'
    unfolding simps own_update D(5) [symmetric] using D(5) [of t'] h40 by (cases "t' = t") simp_all
qed

lemma lay_deq_hdrs:
  assumes H: "hdrs_wf L held s" and h: "h \<in> set (l_queue L i)" and i: "i < 40" and t: "held t = {}"
    and dist: "distinct (l_queue L i)"
  shows "set (l_hdrs (lay_deq i t h L)) = {h'. h' < 40 \<and> l_hown (lay_deq i t h L) h' = HFree} \<and>
    (\<forall>j<40. set (l_queue (lay_deq i t h L) j) = {h'. h' < 40 \<and> l_hown (lay_deq i t h L) h' = HQueue j}) \<and>
    (\<forall>h'<40. \<forall>j. l_hown (lay_deq i t h L) h' = HQueue j \<longrightarrow> j < 40) \<and>
    (\<forall>t'. (held(t := {h})) t' = {h'. h' < 40 \<and> l_hown (lay_deq i t h L) h' = HHeld t'})"
proof (intro conjI allI impI)
  note D = hdrs_wfD [OF H]
  have h40: "h < 40" "l_hown L h = HQueue i" using h D(3) [OF i] by auto
  have simps: "l_hdrs (lay_deq i t h L) = l_hdrs L" "l_hown (lay_deq i t h L) = (l_hown L)(h := HHeld t)"
    "l_queue (lay_deq i t h L) = (l_queue L)(i := remove1 h (l_queue L i))"
    by (simp_all add: lay_deq_def)
  show "set (l_hdrs (lay_deq i t h L)) = {h'. h' < 40 \<and> l_hown (lay_deq i t h L) h' = HFree}"
    unfolding simps own_update D(2) [symmetric] using D(2) h40 by simp
  show "set (l_queue (lay_deq i t h L) j) = {h'. h' < 40 \<and> l_hown (lay_deq i t h L) h' = HQueue j}" if "j < 40" for j
    unfolding simps own_update D(3) [OF that, symmetric] using D(3) [OF that] h40 dist by (cases "j = i") simp_all
  show "j < 40" if "h' < 40" "l_hown (lay_deq i t h L) h' = HQueue j" for h' j
    using that D(4) i by (simp add: simps split: if_split_asm)
  show "(held(t := {h})) t' = {h'. h' < 40 \<and> l_hown (lay_deq i t h L) h' = HHeld t'}" for t'
    unfolding simps own_update D(5) [symmetric] using D(5) [of t'] h40 t by (cases "t' = t") simp_all
qed

lemma relink_wf:
  assumes wf: "msg_wf X L held s" and r: "relinked s s'"
    and L': "l_segs L' = l_segs L" "l_body L' = l_body L" "l_sown L' = l_sown L" "l_hdrs L' = l_hdrs L"
      "\<And>h. l_hown L' h = HFree \<longleftrightarrow> l_hown L h = HFree"
    and free: "\<And>h. h < 40 \<Longrightarrow> l_hown L h = HFree \<Longrightarrow> hdr_link s' h = hdr_link s h"
    and own: "set (l_hdrs L') = {h'. h' < 40 \<and> l_hown L' h' = HFree} \<and>
      (\<forall>j<40. set (l_queue L' j) = {h'. h' < 40 \<and> l_hown L' h' = HQueue j}) \<and>
      (\<forall>h'<40. \<forall>j. l_hown L' h' = HQueue j \<longrightarrow> j < 40) \<and> (\<forall>t'. held' t' = {h'. h' < 40 \<and> l_hown L' h' = HHeld t'})"
    and Q: "queues_wf Y L' s'"
  shows "msg_wf Y L' held' s'"
proof -
  note D = hdrs_wfD [OF msg_wfD(3) [OF wf]]
  have "hdrs.chain (hdr_link s') p (l_hdrs L) = hdrs.chain (hdr_link s) p (l_hdrs L)" for p
    using D(2) by (intro hdrs.chain_cong free) blast+
  then have "hdrs.chain (hdr_link s') (free_msghdrs s') (l_hdrs L')"
    using D(1) r by (simp add: relinked_def L'(4))
  then have "hdrs_wf L' held' s'"
    unfolding hdrs_wf_def by (rule conjI [OF _ own])
  moreover have "segs_wf L' s'" using relinked_segs [OF r L'(1-3,5)] msg_wfD(2) [OF wf] by blast
  ultimately show ?thesis
    using Q relinked_tables [OF r] msg_wfD(1) [OF wf] by (simp add: msg_wf_def)
qed

lemma queue_wf_relinked:
  assumes "relinked s s'" "\<And>h. h \<in> set hs \<Longrightarrow> hdr_link s' h = hdr_link s h"
  shows "queue_wf s' q hs = queue_wf s q hs"
proof -
  have "hdrs.chain (hdr_link s') p hs = hdrs.chain (hdr_link s) p hs" for p
    using assms(2) by (rule hdrs.chain_cong)
  then show ?thesis
    using assms(1) by (simp add: queue_wf_def relinked_bytes [OF assms(1)] relinked_def)
qed

lemma queue_bytes_simps [simp]:
  "queue_bytes s [] = 0" "queue_bytes s (h # hs) = unat (msg_ts (msghdrs s ! h)) + queue_bytes s hs"
  "queue_bytes s (xs @ ys) = queue_bytes s xs + queue_bytes s ys"
  by (simp_all add: queue_bytes_def)

lemma enqueue_links:
  assumes tab: "msg_tables s" and q: "queue_wf s (msqids s ! i) hs" "msg_qbytes (msqids s ! i) \<noteq> 0" "set hs \<subseteq> {..<40}"
    and h: "h < 40" "h \<notin> set hs" and i: "snd_ix a = i" "i < 40" and type: "1 \<le> msg_type (msghdrs s ! h)"
  shows "\<exists>s'. msgsnd_enqueue env a h s = Some (SndReturn 0, s') \<and> relinked s s' \<and>
    hdr_link s' = (if hs = [] then (hdr_link s)(h := None) else (hdr_link s)(last hs := Some h, h := None)) \<and>
    queue_wf s' (msqids s' ! i) (hs @ [h]) \<and> msg_qbytes (msqids s' ! i) = msg_qbytes (msqids s ! i) \<and>
    msg_perm (msqids s' ! i) = msg_perm (msqids s ! i) \<and> (\<forall>j. j \<noteq> i \<longrightarrow> msqids s' ! j = msqids s ! j) \<and> msg_out s' = msg_out s"
proof -
  note tabs = tables_info [OF tab]
  let ?q = "msqids s ! i" and ?m = "msghdrs s ! h"
  define s1 where "s1 = (if hs = [] then msq_modify i (\<lambda>q. q\<lparr>msg_first := Some h, msg_last := Some h\<rparr>) s
    else msq_modify i (\<lambda>q. q\<lparr>msg_last := Some h\<rparr>) (hdr_modify (last hs) (\<lambda>m. m\<lparr>msg_next := Some h\<rparr>) s))"
  define s' where "s' = msg_wakeup (ChanQueue i) (msq_modify i (\<lambda>q. q\<lparr>msg_cbytes := msg_cbytes q + ucast (msg_ts ?m),
    msg_qnum := msg_qnum q + 1, msg_lspid := msg_pid env, msg_stime := msg_time env\<rparr>)
    (hdr_modify h (\<lambda>m. m\<lparr>msg_next := None\<rparr>) s1))"
  have Q: "hdrs.chain (hdr_link s) (msg_first ?q) hs" "msg_last ?q = (if hs = [] then None else Some (last hs))"
    "msg_cbytes ?q = of_nat (queue_bytes s hs)" "msg_qnum ?q = of_nat (length hs)" "msg_qbytes ?q \<le> 2048"
    "\<And>h. h \<in> set hs \<Longrightarrow> 1 \<le> msg_type (msghdrs s ! h)"
    using q(1,2) by (simp_all add: queue_wf_def)
  have last: "last hs < 40" if "hs \<noteq> []" using last_in_set [OF that] q(3) by blast
  have first: "msg_first ?q = (if hs = [] then None else Some (hd hs))" using Q(1) by (cases hs) auto
  have run: "msgsnd_enqueue env a h s = Some (SndReturn 0, s')"
    using h(1) i last by (auto simp: msgsnd_enqueue_def msg_hdr_def msq_def tabs first Q(2) s'_def s1_def Let_def)
  have r1: "relinked s s1"
    by (simp add: s1_def relinked_msq relinked_trans [OF relinked_hdr relinked_msq(1)])
  have r: "relinked s s'"
    unfolding s'_def by (rule relinked_trans [OF r1 relinked_trans [OF relinked_hdr relinked_trans [OF relinked_msq]]])
  have link: "hdr_link s' = (if hs = [] then (hdr_link s)(h := None) else (hdr_link s)(last hs := Some h, h := None))"
    using h(1) last relinked_tables [OF r1] tab by (simp add: s'_def s1_def hdr_link_modify)
  have tabh: "msg_tables (hdr_modify x (\<lambda>m. m\<lparr>msg_next := v\<rparr>) s)" for x v
    using relinked_tables [OF relinked_hdr] tab by blast
  have mq: "msqids s' ! j = (if j = i then ?q\<lparr>msg_first := Some (hd (hs @ [h])), msg_last := Some h,
      msg_cbytes := msg_cbytes ?q + ucast (msg_ts ?m), msg_qnum := msg_qnum ?q + 1, msg_lspid := msg_pid env, msg_stime := msg_time env\<rparr>
      else msqids s ! j)" for j
    using i(2) first by (auto simp: s'_def s1_def msg_wakeup_def msq_modify_def hdr_modify_def tabs)
  have "hdrs.chain (hdr_link s') (Some (hd (hs @ [h]))) (hs @ [h])"
    using hdrs.chain_snoc [OF Q(1) _ h(2)] first by (cases "hs = []") (simp_all add: link)
  then have "queue_wf s' (msqids s' ! i) (hs @ [h])"
    using Q(3-6) type r q(2) by (auto simp: queue_wf_def mq relinked_bytes [OF r] relinked_def)
  then show ?thesis
    using run r link mq by (simp add: s'_def msg_wakeup_def hdr_modify_def s1_def)
qed

lemma queues_wfD: "queues_wf X L s \<Longrightarrow> i < 40 \<Longrightarrow> i \<notin> X \<Longrightarrow> queue_wf s (msqids s ! i) (l_queue L i)"
  by (simp add: queues_wf_def)

lemma queue_own: "hdrs_wf L held s \<Longrightarrow> i < 40 \<Longrightarrow> h \<in> set (l_queue L i) \<Longrightarrow> h < 40 \<and> l_hown L h = HQueue i"
  using hdrs_wfD(3) by blast

lemma enqueue_wf:
  assumes wf: "msg_wf X L held s" and h: "h \<in> held t" and i: "snd_ix a = i" "i < 40" "i \<notin> X"
    and live: "msg_qbytes (msqids s ! i) \<noteq> 0" and type: "1 \<le> msg_type (msghdrs s ! h)"
  shows "\<exists>s'. msgsnd_enqueue env a h s = Some (SndReturn 0, s') \<and> msg_wf X (lay_enq i h L) (held(t := held t - {h})) s' \<and>
    relinked s s' \<and> msg_qbytes (msqids s' ! i) = msg_qbytes (msqids s ! i) \<and>
    msg_perm (msqids s' ! i) = msg_perm (msqids s ! i) \<and> (\<forall>j. j \<noteq> i \<longrightarrow> msqids s' ! j = msqids s ! j) \<and> msg_out s' = msg_out s"
proof -
  note tab = msg_wfD(1) [OF wf] and H = msg_wfD(3) [OF wf] and Q = msg_wfD(4) [OF wf]
  note D = hdrs_wfD [OF H]
  let ?hs = "l_queue L i"
  have own: "h < 40" "l_hown L h = HHeld t" using h D(5) by auto
  have hs: "set ?hs \<subseteq> {..<40}" "h \<notin> set ?hs" "\<And>x. x \<in> set ?hs \<Longrightarrow> l_hown L x = HQueue i"
    using D(3) [OF i(2)] own by auto
  obtain s' where s': "msgsnd_enqueue env a h s = Some (SndReturn 0, s')" "relinked s s'"
    "hdr_link s' = (if ?hs = [] then (hdr_link s)(h := None) else (hdr_link s)(last ?hs := Some h, h := None))"
    "queue_wf s' (msqids s' ! i) (?hs @ [h])" "msg_qbytes (msqids s' ! i) = msg_qbytes (msqids s ! i)"
    "msg_perm (msqids s' ! i) = msg_perm (msqids s ! i)" "\<forall>j. j \<noteq> i \<longrightarrow> msqids s' ! j = msqids s ! j" "msg_out s' = msg_out s"
    using enqueue_links [OF tab queues_wfD [OF Q i(2,3)] live hs(1) own(1) hs(2) i(1,2) type, of env] by blast
  have link: "hdr_link s' x = hdr_link s x" if "l_hown L x \<noteq> HQueue i" "x \<noteq> h" for x
    using that hs(3) last_in_set [of ?hs] fun_cong [OF s'(3), of x] by (auto split: if_split_asm)
  have "msg_wf X (lay_enq i h L) (held(t := held t - {h})) s'"
  proof (rule relink_wf [OF wf s'(2) _ _ _ _ _ _ lay_enq_hdrs [OF H h i(2)]])
    show "hdr_link s' x = hdr_link s x" if "x < 40" "l_hown L x = HFree" for x
      using that own by (intro link) auto
    have "queue_wf s' (msqids s' ! j) (l_queue L j)" if "j < 40" "j \<noteq> i" "j \<notin> X" for j
    proof -
      have "hdr_link s' x = hdr_link s x" if "x \<in> set (l_queue L j)" for x
        using queue_own [OF H \<open>j < 40\<close> that] own(2) \<open>j \<noteq> i\<close> by (intro link) auto
      then show ?thesis
        using queue_wf_relinked [OF s'(2)] queues_wfD [OF Q that(1,3)] s'(7) that(2) by simp
    qed
    then show "queues_wf X (lay_enq i h L) s'"
      using s'(4) Q i(3) by (simp add: queues_wf_def lay_enq_def)
  qed (use own in \<open>simp_all add: lay_enq_def\<close>)
  then show ?thesis using s' by blast
qed

section \<open>Taking a message off a queue\<close>

definition rcv_wants :: "rcv_args \<Rightarrow> msg_state \<Rightarrow> nat \<Rightarrow> bool" where
  "rcv_wants a s h \<longleftrightarrow> rcv_msgtyp a = 0 \<or> rcv_match (rcv_msgtyp a) (msg_type (msghdrs s ! h))"

definition before :: "nat list \<Rightarrow> nat option" where
  "before xs = (if xs = [] then None else Some (last xs))"

lemma before_snoc [simp]: "before (xs @ [x]) = Some x" "before [] = None"
  by (simp_all add: before_def)

lemma rcv_search_run:
  assumes tab: "msg_tables s" and "hdrs.chain (hdr_link s) p ys" "set ys \<subseteq> {..<40}" "rcv_msgtyp a \<noteq> 0"
    "\<And>x. x \<in> set xs \<Longrightarrow> \<not> rcv_wants a s x"
  shows "rcv_search env a (before xs) p s =
    (case find (rcv_wants a s) (xs @ ys) of
       None \<Rightarrow> Some (Inr None, s)
     | Some h \<Rightarrow> if rcv_check env a (msghdrs s ! h) \<noteq> 0 then Some (Inl (rcv_check env a (msghdrs s ! h)), s)
       else Some (Inr (Some h), rcv_unlink (rcv_ix a) (before (takeWhile (\<lambda>x. \<not> rcv_wants a s x) (xs @ ys))) h (msghdrs s ! h) s))"
  using assms(2-)
proof (induction ys arbitrary: xs p)
  case Nil
  then have "find (rcv_wants a s) xs = None" by (simp add: find_None_iff)
  then show ?case using Nil by (subst rcv_search.simps) simp
next
  case (Cons y ys)
  note tabs = tables_info [OF tab]
  have p: "p = Some y" "y < 40" using Cons.prems(1,2) by auto
  have none: "find (rcv_wants a s) xs = None" using Cons.prems(4) by (simp add: find_None_iff)
  have skip: "find (rcv_wants a s) (xs @ y # ys) = (if rcv_wants a s y then Some y else find (rcv_wants a s) ys)"
    using Cons.prems(4) by (induction xs) auto
  show ?case
  proof (cases "rcv_wants a s y")
    case True
    then have "rcv_match (rcv_msgtyp a) (msg_type (msghdrs s ! y))"
      using Cons.prems(3) by (simp add: rcv_wants_def)
    moreover have "takeWhile (\<lambda>x. \<not> rcv_wants a s x) (xs @ y # ys) = xs"
      using True Cons.prems(4) by (simp add: takeWhile_append)
    ultimately show ?thesis
      using True p tabs by (subst rcv_search.simps) (simp add: skip msg_hdr_def)
  next
    case False
    then have "\<not> rcv_match (rcv_msgtyp a) (msg_type (msghdrs s ! y))"
      using Cons.prems(3) by (simp add: rcv_wants_def)
    then have step: "rcv_search env a (before xs) p s = rcv_search env a (before (xs @ [y])) (msg_next (msghdrs s ! y)) s"
      using p tabs by (subst rcv_search.simps) (simp add: msg_hdr_def)
    have passed: "\<not> rcv_wants a s x" if "x \<in> set (xs @ [y])" for x
      using that False Cons.prems(4) by auto
    have rest: "hdrs.chain (hdr_link s) (msg_next (msghdrs s ! y)) ys" "set ys \<subseteq> {..<40}"
      using Cons.prems(1,2) by simp_all
    show ?thesis
      using Cons.IH [OF rest Cons.prems(3) passed] unfolding step by (simp only: append_assoc append.simps)
  qed
qed

lemma rcv_take_run:
  assumes tab: "msg_tables s" and i: "rcv_ix a < 40" and q: "queue_wf s (msqids s ! rcv_ix a) hs"
    and live: "msg_qbytes (msqids s ! rcv_ix a) \<noteq> 0" and hs: "set hs \<subseteq> {..<40}"
  shows "rcv_take env a s =
    (case find (rcv_wants a s) hs of
       None \<Rightarrow> Some (Inr None, s)
     | Some h \<Rightarrow> if rcv_check env a (msghdrs s ! h) \<noteq> 0 then Some (Inl (rcv_check env a (msghdrs s ! h)), s)
       else Some (Inr (Some h), rcv_unlink (rcv_ix a) (before (takeWhile (\<lambda>x. \<not> rcv_wants a s x) hs)) h (msghdrs s ! h) s))"
proof (cases "rcv_msgtyp a = 0")
  case False
  have "hdrs.chain (hdr_link s) (msg_first (msqids s ! rcv_ix a)) hs" using q live by (simp add: queue_wf_def)
  then show ?thesis
    using rcv_search_run [OF tab _ hs False, where xs = "[]", unfolded append_Nil] False i
    by (simp add: rcv_take_def msq_def tables_info [OF tab])
next
  case True
  note tabs = tables_info [OF tab]
  let ?q = "msqids s ! rcv_ix a"
  have all: "rcv_wants a s = (\<lambda>_. True)" using True by (simp add: fun_eq_iff rcv_wants_def)
  show ?thesis
  proof (cases hs)
    case Nil
    then show ?thesis using True q live i by (simp add: rcv_take_def rcv_first_def msq_def tabs queue_wf_def)
  next
    case (Cons h ys)
    then have first: "msg_first ?q = Some h" and lst: "msg_last ?q = Some (last hs)" and "h < 40"
      and next': "msg_next (msghdrs s ! h) = (if ys = [] then None else Some (hd ys))" and "h \<notin> set ys"
      using q live hs hdrs.chain_distinct [of "hdr_link s" "msg_first ?q" hs] by (cases ys; auto simp: queue_wf_def)+
    have "ys \<noteq> [] \<Longrightarrow> last ys \<noteq> h" using \<open>h \<notin> set ys\<close> last_in_set [of ys] by auto
    then show ?thesis
      using True i \<open>h < 40\<close> next' first lst Cons
      by (cases "ys = []") (simp_all add: rcv_take_def rcv_first_def msq_def msg_hdr_def tabs all rcv_unlink_def msq_modify_def Let_def)
  qed
qed

text \<open>Unlinking with the bookkeeping of \<open>msgrcv\<close>.\<close>

lemma unlink_links:
  assumes tab: "msg_tables s" and i: "i < 40" and q: "queue_wf s (msqids s ! i) (as @ h # bs)"
    and live: "msg_qbytes (msqids s ! i) \<noteq> 0" and hs: "set (as @ h # bs) \<subseteq> {..<40}"
    and s': "s' = msq_modify i (\<lambda>q. q\<lparr>msg_cbytes := msg_cbytes q - ucast (msg_ts (msghdrs s ! h)), msg_qnum := msg_qnum q - 1,
      msg_lrpid := pid, msg_rtime := tm\<rparr>) (rcv_unlink i (before as) h (msghdrs s ! h) s)"
  shows "relinked s s'" "hdr_link s' = (if as = [] then hdr_link s else (hdr_link s)(last as := hdr_link s h))"
    "queue_wf s' (msqids s' ! i) (as @ bs)" "msg_qbytes (msqids s' ! i) = msg_qbytes (msqids s ! i)"
    "msg_perm (msqids s' ! i) = msg_perm (msqids s ! i)" "\<And>j. j \<noteq> i \<Longrightarrow> msqids s' ! j = msqids s ! j" "msg_out s' = msg_out s"
proof -
  note tabs = tables_info [OF tab]
  let ?q = "msqids s ! i" and ?m = "msghdrs s ! h"
  have Q: "hdrs.chain (hdr_link s) (msg_first ?q) (as @ h # bs)" "msg_last ?q = Some (last (h # bs))"
    "msg_cbytes ?q = of_nat (queue_bytes s (as @ h # bs))" "msg_qnum ?q = of_nat (Suc (length (as @ bs)))" "msg_qbytes ?q \<le> 2048"
    "\<And>x. x \<in> set (as @ h # bs) \<Longrightarrow> 1 \<le> msg_type (msghdrs s ! x)"
    using q live by (auto simp: queue_wf_def split: if_split_asm)
  have dist: "distinct (as @ h # bs)" by (rule hdrs.chain_distinct [OF Q(1)])
  have last40: "last as < 40" if "as \<noteq> []" using hs last_in_set [OF that] by auto
  have lst: "last (h # bs) = h \<longleftrightarrow> bs = []" using dist by (auto dest: last_in_set)
  have nxt: "msg_next ?m = (if bs = [] then None else Some (hd bs))"
    using hdrs.chain_tail [OF Q(1)] by (cases bs) auto
  have r1: "relinked s (rcv_unlink i (before as) h ?m s)"
    unfolding rcv_unlink_def Let_def
    by (cases "as = []") (simp_all add: before_def relinked_msq relinked_trans [OF relinked_msq(1) relinked_msq(1)]
      relinked_trans [OF relinked_hdr relinked_msq(1)])
  show r: "relinked s s'" unfolding s' by (rule relinked_trans [OF r1 relinked_msq(1)])
  show link: "hdr_link s' = (if as = [] then hdr_link s else (hdr_link s)(last as := hdr_link s h))"
    using last40 by (simp add: s' rcv_unlink_def before_def hdr_link_modify [OF tab])
  have mq: "msqids s' ! j = (if j = i then ?q\<lparr>msg_first := (if as = [] then msg_next ?m else msg_first ?q),
      msg_last := (if as @ bs = [] then None else Some (last (as @ bs))),
      msg_cbytes := msg_cbytes ?q - ucast (msg_ts ?m), msg_qnum := msg_qnum ?q - 1, msg_lrpid := pid, msg_rtime := tm\<rparr>
      else msqids s ! j)" for j
    using i lst nxt Q(2) by (auto simp: s' rcv_unlink_def before_def msq_modify_def hdr_modify_def tabs)
  have "hdrs.chain (hdr_link s') (if as = [] then msg_next ?m else msg_first ?q) (as @ bs)"
    using Q(1) hdrs.chain_unlink [OF Q(1)] by (cases "as = []") (simp_all add: link)
  moreover have "msg_cbytes ?q - ucast (msg_ts ?m) = of_nat (queue_bytes s (as @ bs))"
    by (simp add: Q(3))
  ultimately show "queue_wf s' (msqids s' ! i) (as @ bs)"
    using Q(4-6) live r by (auto simp: queue_wf_def mq relinked_bytes [OF r] relinked_def)
  show "msg_qbytes (msqids s' ! i) = msg_qbytes ?q" "msg_perm (msqids s' ! i) = msg_perm ?q"
    "\<And>j. j \<noteq> i \<Longrightarrow> msqids s' ! j = msqids s ! j" by (simp_all add: mq)
  show "msg_out s' = msg_out s" by (simp add: s' rcv_unlink_def hdr_modify_def before_def)
qed

lemma find_split:
  "find P xs = Some h \<Longrightarrow> xs = takeWhile (\<lambda>x. \<not> P x) xs @ h # tl (dropWhile (\<lambda>x. \<not> P x) xs) \<and> P h"
  by (induction xs) (auto split: if_split_asm)

lemma msgrcv_try_wf:
  assumes wf: "msg_wf X L held s" and i: "rcv_ix a = i" "i < 40" "i \<notin> X" and live: "msg_qbytes (msqids s ! i) \<noteq> 0"
    and t: "held t = {}"
  shows "\<exists>r s'. msgrcv_try env a s = Some (r, s') \<and>
    (case find (rcv_wants a s) (l_queue L i) of
       None \<Rightarrow> s' = s \<and> r = (if rcv_msgflg a AND IPC_NOWAIT \<noteq> 0 then RcvReturn ENOMSG None else RcvSleep)
     | Some h \<Rightarrow>
         if rcv_check env a (msghdrs s ! h) \<noteq> 0 then s' = s \<and> r = RcvReturn (rcv_check env a (msghdrs s ! h)) None
         else r = RcvType h (min (rcv_msgsz a) (ucast (msg_ts (msghdrs s ! h)))) \<and>
           msg_wf X (lay_deq i t h L) (held(t := {h})) s' \<and> relinked s s' \<and>
           msg_qbytes (msqids s' ! i) = msg_qbytes (msqids s ! i) \<and> msg_perm (msqids s' ! i) = msg_perm (msqids s ! i) \<and>
           (\<forall>j. j \<noteq> i \<longrightarrow> msqids s' ! j = msqids s ! j) \<and> msg_out s' = msg_out s)"
proof -
  note tab = msg_wfD(1) [OF wf] and H = msg_wfD(3) [OF wf] and Q = msg_wfD(4) [OF wf]
  note D = hdrs_wfD [OF H] and q = queues_wfD [OF Q i(2,3)]
  let ?hs = "l_queue L i"
  have hs: "set ?hs \<subseteq> {..<40}" using queue_own [OF H i(2)] by auto
  note take = rcv_take_run [OF tab, of a ?hs env, unfolded i(1), OF i(2) q live hs]
  show ?thesis
  proof (cases "find (rcv_wants a s) ?hs")
    case None
    then show ?thesis by (simp add: msgrcv_try_def take)
  next
    case (Some h)
    obtain as bs where split: "?hs = as @ h # bs" "takeWhile (\<lambda>x. \<not> rcv_wants a s x) ?hs = as"
      using find_split [OF Some] by metis
    define s' where "s' = msq_modify i (\<lambda>q. q\<lparr>msg_cbytes := msg_cbytes q - ucast (msg_ts (msghdrs s ! h)),
      msg_qnum := msg_qnum q - 1, msg_lrpid := msg_pid env, msg_rtime := msg_time env\<rparr>)
      (rcv_unlink i (before as) h (msghdrs s ! h) s)"
    note un = unlink_links [OF tab i(2) q [unfolded split(1)] live hs [unfolded split(1)] s'_def]
    have dist: "distinct ?hs" using q live by (auto simp: queue_wf_def intro: hdrs.chain_distinct)
    then have rem: "remove1 h ?hs = as @ bs" by (simp add: split(1) remove1_append)
    have h: "h \<in> set ?hs" "h < 40" "l_hown L h = HQueue i"
      using queue_own [OF H i(2), of h] by (simp_all add: split(1))
    have link: "hdr_link s' x = hdr_link s x" if "l_hown L x \<noteq> HQueue i" for x
    proof -
      have "as \<noteq> [] \<Longrightarrow> l_hown L (last as) = HQueue i"
        using queue_own [OF H i(2), of "last as"] by (simp add: split(1))
      then show ?thesis using that fun_cong [OF un(2), of x] by (auto split: if_split_asm)
    qed
    have wf': "msg_wf X (lay_deq i t h L) (held(t := {h})) s'"
    proof (rule relink_wf [OF wf un(1) _ _ _ _ _ _ lay_deq_hdrs [OF H h(1) i(2) t dist]])
      show "hdr_link s' x = hdr_link s x" if "x < 40" "l_hown L x = HFree" for x
        using that by (intro link) simp
      have "queue_wf s' (msqids s' ! j) (l_queue L j)" if "j < 40" "j \<noteq> i" "j \<notin> X" for j
      proof -
        have "hdr_link s' x = hdr_link s x" if "x \<in> set (l_queue L j)" for x
          using queue_own [OF H \<open>j < 40\<close> that] \<open>j \<noteq> i\<close> by (intro link) auto
        then show ?thesis
          using queue_wf_relinked [OF un(1)] queues_wfD [OF Q that(1,3)] un(6) [OF that(2)] by simp
      qed
      then show "queues_wf X (lay_deq i t h L) s'"
        using un(3) Q i(3) by (simp add: queues_wf_def lay_deq_def rem)
    qed (use h(3) in \<open>simp_all add: lay_deq_def\<close>)
    show ?thesis
    proof (cases "rcv_check env a (msghdrs s ! h) = 0")
      case True
      have "msg_hdr h (rcv_unlink i (before as) h (msghdrs s ! h) s) = Some (msghdrs s ! h)"
      proof -
        have "as \<noteq> [] \<Longrightarrow> last as \<noteq> h" using dist last_in_set [of as] by (auto simp: split(1))
        then show ?thesis
          using h(2) by (simp add: rcv_unlink_def before_def msg_hdr_def hdr_modify_def tables_info [OF tab])
      qed
      then have "msgrcv_try env a s = Some (RcvType h (min (rcv_msgsz a) (ucast (msg_ts (msghdrs s ! h)))), s')"
        using True Some by (simp add: msgrcv_try_def take i(1) split(2) s'_def min_def Let_def) auto
      then show ?thesis using True Some wf' un by simp
    next
      case False
      then show ?thesis using Some by (simp add: msgrcv_try_def take)
    qed
  qed
qed

section \<open>Removing a queue\<close>

text \<open>The headers of a queue that is being dismantled count as held by the removing call.\<close>

definition lay_limbo :: "nat \<Rightarrow> nat \<Rightarrow> msg_layout \<Rightarrow> msg_layout" where
  "lay_limbo i t L = L\<lparr>l_queue := (l_queue L)(i := []),
     l_hown := (\<lambda>h. if h \<in> set (l_queue L i) then HHeld t else l_hown L h)\<rparr>"

lemma lay_limbo_hdrs:
  assumes H: "hdrs_wf L held s" and i: "i < 40" and t: "held t = {}"
  shows "set (l_hdrs (lay_limbo i t L)) = {h'. h' < 40 \<and> l_hown (lay_limbo i t L) h' = HFree} \<and>
    (\<forall>j<40. set (l_queue (lay_limbo i t L) j) = {h'. h' < 40 \<and> l_hown (lay_limbo i t L) h' = HQueue j}) \<and>
    (\<forall>h'<40. \<forall>j. l_hown (lay_limbo i t L) h' = HQueue j \<longrightarrow> j < 40) \<and>
    (\<forall>t'. (held(t := set (l_queue L i))) t' = {h'. h' < 40 \<and> l_hown (lay_limbo i t L) h' = HHeld t'})"
proof (intro conjI allI impI)
  note D = hdrs_wfD [OF H]
  let ?A = "set (l_queue L i)"
  have simps: "l_hdrs (lay_limbo i t L) = l_hdrs L" "\<And>h. l_hown (lay_limbo i t L) h = (if h \<in> ?A then HHeld t else l_hown L h)"
    "l_queue (lay_limbo i t L) = (l_queue L)(i := [])"
    by (simp_all add: lay_limbo_def)
  have A: "{x \<in> ?A. x < 40} = ?A" using queue_own [OF H i] by auto
  have apart: "{x. x < 40 \<and> l_hown L x = w} - ?A = {x. x < 40 \<and> l_hown L x = w}" if "w \<noteq> HQueue i" for w
    using that D(3) [OF i] by auto
  show "set (l_hdrs (lay_limbo i t L)) = {h'. h' < 40 \<and> l_hown (lay_limbo i t L) h' = HFree}"
    unfolding simps own_override D(2) by (simp add: apart)
  show "set (l_queue (lay_limbo i t L) j) = {h'. h' < 40 \<and> l_hown (lay_limbo i t L) h' = HQueue j}" if "j < 40" for j
  proof (cases "j = i")
    case True
    then show ?thesis unfolding simps own_override by (simp add: D(3) [OF i, symmetric])
  next
    case False
    then show ?thesis unfolding simps own_override by (simp add: apart D(3) [OF that])
  qed
  show "j < 40" if "h' < 40" "l_hown (lay_limbo i t L) h' = HQueue j" for h' j
    using that D(4) by (simp add: simps split: if_split_asm)
  show "(held(t := set (l_queue L i))) t' = {h'. h' < 40 \<and> l_hown (lay_limbo i t L) h' = HHeld t'}" for t'
  proof -
    have "held t' - ?A = held t'" unfolding D(5) by (rule apart) simp
    then show ?thesis unfolding simps own_override D(5) [symmetric] by (cases "t' = t") (simp_all add: A t)
  qed
qed

lemma limbo_wf:
  assumes wf: "msg_wf X L held s" and i: "i < 40" and t: "held t = {}"
  shows "msg_wf (insert i X) (lay_limbo i t L) (held(t := set (l_queue L i))) s"
proof (rule relink_wf [OF wf relinked_refl _ _ _ _ _ _ lay_limbo_hdrs [OF msg_wfD(3) [OF wf] i t]])
  show "(l_hown (lay_limbo i t L) h = HFree) = (l_hown L h = HFree)" for h
    using queue_own [OF msg_wfD(3) [OF wf] i, of h] by (auto simp: lay_limbo_def)
  show "queues_wf (insert i X) (lay_limbo i t L) s"
    using msg_wfD(4) [OF wf] by (simp add: queues_wf_def lay_limbo_def)
qed (simp_all add: lay_limbo_def)

text \<open>The loop of \<open>IPC_RMID\<close> frees the messages one by one.\<close>

lemma rmid_check_run:
  assumes "msg_tables s" "set hs \<subseteq> {..<40}" "hdrs.chain (hdr_link s) p hs"
  shows "\<exists>e. msgrmid_check env p s = Some e \<and> ((\<forall>h\<in>set hs. mac_sysvmsq_check_msgrmid env (msghdrs s ! h) = 0) \<longrightarrow> e = 0)"
  using assms(2,3)
proof (induction hs arbitrary: p)
  case Nil
  then show ?case by (subst msgrmid_check.simps) simp
next
  case (Cons h hs)
  then show ?case using tables_info [OF assms(1)] by (subst msgrmid_check.simps) (auto simp: msg_hdr_def)
qed

text \<open>Removing a live queue: it either returns an error and changes nothing, or the queue is gone, its
  messages are freed and every other queue is as before.\<close>

end
