(* ===== verification/Sysv_Msg_Frames.thy ===== *)
theory Sysv_Msg_Frames
  imports Sysv_Msg_Ops
begin

text \<open>Calls in progress.  A system call of \<open>bsd/kern/sysv_msg.c\<close> releases the subsystem lock while it
  sleeps and while it copies to or from user memory.  This theory names the points where a thread can
  stand, says what the invariant promises a thread there, and states the frame rule for the atomic
  pieces between two such points: what a piece of one thread leaves alone of the others' messages.\<close>

section \<open>Calls in progress\<close>

text \<open>A thread is outside the subsystem or inside one of its calls, at one of the points where the call
  has released the lock.\<close>

datatype msg_phase = Idle | Sending snd_args snd_next | Receiving rcv_args rcv_next | Setting int u64

fun phase_held :: "msg_phase \<Rightarrow> nat set" where
  "phase_held (Sending a (SndType h)) = {h}"
| "phase_held (Sending a (SndBody h next left p)) = {h}"
| "phase_held (Receiving a (RcvType h sz)) = {h}"
| "phase_held (Receiving a (RcvBody h next len sz p)) = {h}"
| "phase_held p = {}"

text \<open>The message a thread holds: of a send, its queue, its size and what has been copied in; of a
  receive, the message.\<close>

datatype msg_pending = Nothing | Writing nat nat int "u8 list" | Reading "int \<times> u8 list"

fun phase_pend :: "msg_state \<Rightarrow> msg_phase \<Rightarrow> msg_pending" where
  "phase_pend s (Sending a (SndBody h next left p)) =
     Writing (snd_ix a) (unat (msg_ts (msghdrs s ! h))) (msg_type (msghdrs s ! h))
       (take (unat (msg_ts (msghdrs s ! h)) - unat left) (snd (msg_value s h)))"
| "phase_pend s (Receiving a (RcvType h sz)) = Reading (msg_value s h)"
| "phase_pend s (Receiving a (RcvBody h next len sz p)) = Reading (msg_value s h)"
| "phase_pend s p = Nothing"

text \<open>Where the loop over the segments of a message stands: \<open>n\<close> bytes done, the segment \<open>next\<close> follows.\<close>

definition seg_at :: "msg_layout \<Rightarrow> msg_state \<Rightarrow> nat \<Rightarrow> int \<Rightarrow> nat \<Rightarrow> bool" where
  "seg_at L s h next n \<longleftrightarrow>
     (\<exists>xs ys. l_body L h = xs @ ys \<and> segs.chain (seg_link s) next ys \<and> n = 8 * length xs)"

fun phase_ok :: "msg_layout \<Rightarrow> msg_state \<Rightarrow> msg_phase \<Rightarrow> bool" where
  "phase_ok L s (Sending a nxt) \<longleftrightarrow> snd_ix a < 40 \<and>
     (case nxt of
        SndReturn e \<Rightarrow> False
      | SndSleep c own \<Rightarrow> True
      | SndType h \<Rightarrow> ucast (msg_ts (msghdrs s ! h)) = snd_msgsz a
      | SndBody h next left p \<Rightarrow> 1 \<le> msg_type (msghdrs s ! h) \<and> 0 < left \<and> unat left \<le> unat (msg_ts (msghdrs s ! h)) \<and>
          seg_at L s h next (unat (msg_ts (msghdrs s ! h)) - unat left))"
| "phase_ok L s (Receiving a nxt) \<longleftrightarrow> rcv_ix a < 40 \<and>
     (case nxt of
        RcvReturn e r \<Rightarrow> False
      | RcvSleep \<Rightarrow> True
      | RcvType h sz \<Rightarrow> sz \<le> ucast (msg_ts (msghdrs s ! h))
      | RcvBody h next len sz p \<Rightarrow> len < sz \<and> sz \<le> ucast (msg_ts (msghdrs s ! h)) \<and> seg_at L s h next (unat len))"
| "phase_ok L s (Setting msqid p) \<longleftrightarrow> nat (IPCID_TO_IX msqid) < 40"
| "phase_ok L s Idle \<longleftrightarrow> True"

definition after_snd :: "snd_args \<Rightarrow> snd_next \<Rightarrow> msg_phase" where
  "after_snd a nxt = (case nxt of SndReturn e \<Rightarrow> Idle | _ \<Rightarrow> Sending a nxt)"

definition after_rcv :: "rcv_args \<Rightarrow> rcv_next \<Rightarrow> msg_phase" where
  "after_rcv a nxt = (case nxt of RcvReturn e r \<Rightarrow> Idle | _ \<Rightarrow> Receiving a nxt)"

text \<open>The messages of the headers \<open>H\<close> are untouched.\<close>

definition kept :: "nat set \<Rightarrow> msg_layout \<Rightarrow> msg_state \<Rightarrow> msg_layout \<Rightarrow> msg_state \<Rightarrow> bool" where
  "kept H L s L' s' \<longleftrightarrow>
     (\<forall>h\<in>H. l_body L' h = l_body L h \<and> msg_type (msghdrs s' ! h) = msg_type (msghdrs s ! h) \<and>
        msg_ts (msghdrs s' ! h) = msg_ts (msghdrs s ! h) \<and> msg_spot (msghdrs s' ! h) = msg_spot (msghdrs s ! h) \<and>
        (\<forall>x\<in>set (l_body L h). msgmaps s' ! x = msgmaps s ! x \<and> seg_bytes s' x = seg_bytes s x))"

lemma kept_refl [simp]: "kept H L s L s"
  by (simp add: kept_def)

lemma kept_mono: "kept H L s L' s' \<Longrightarrow> K \<subseteq> H \<Longrightarrow> kept K L s L' s'"
  by (auto simp: kept_def)

lemma kept_trans: "kept H L s L' s' \<Longrightarrow> kept H L' s' L'' s'' \<Longrightarrow> kept H L s L'' s''"
  by (simp add: kept_def)

lemma kept_relinked: "relinked s s' \<Longrightarrow> l_body L' = l_body L \<Longrightarrow> kept H L s L' s'"
  by (simp add: kept_def relinked_def seg_bytes_def)

lemma kept_frame:
  assumes "msg_frame S h s s'" "h \<notin> H" "\<And>h'. h' \<in> H \<Longrightarrow> l_body L' h' = l_body L h' \<and> set (l_body L h') \<inter> S = {}"
  shows "kept H L s L' s'"
  unfolding kept_def
proof
  fix h' assume h': "h' \<in> H"
  then have "h' \<noteq> h" using assms(2) by blast
  then show "l_body L' h' = l_body L h' \<and> msg_type (msghdrs s' ! h') = msg_type (msghdrs s ! h') \<and>
        msg_ts (msghdrs s' ! h') = msg_ts (msghdrs s ! h') \<and> msg_spot (msghdrs s' ! h') = msg_spot (msghdrs s ! h') \<and>
        (\<forall>x\<in>set (l_body L h'). msgmaps s' ! x = msgmaps s ! x \<and> seg_bytes s' x = seg_bytes s x)"
    using assms(1) assms(3) [OF h'] by (simp add: msg_frame_def disjoint_iff)
qed

lemma kept_value:
  assumes "kept H L s L' s'" "segs_wf L s" "h < 40" "l_hown L h \<noteq> HFree" "h \<in> H"
  shows "msg_value s' h = msg_value s h"
  by (rule msg_value_cong [OF segs_wfD(3,4) [OF assms(2-4)]]) (use assms(1,5) in \<open>simp_all add: kept_def\<close>)

lemma seg_at_kept:
  assumes "kept H L s L' s'" "h \<in> H"
  shows "seg_at L' s' h next n = seg_at L s h next n"
proof -
  have same: "l_body L' h = l_body L h" "\<And>x. x \<in> set (l_body L h) \<Longrightarrow> seg_link s' x = seg_link s x"
    using assms by (simp_all add: kept_def)
  have "segs.chain (seg_link s') next ys = segs.chain (seg_link s) next ys" if "l_body L h = xs @ ys" for xs ys
    by (rule segs.chain_cong) (use that same(2) in simp)
  then show ?thesis unfolding seg_at_def same(1) by blast
qed

text \<open>What the other threads do leaves a call in progress as it stands.\<close>

lemma phase_kept:
  assumes k: "kept H L s L' s'" and H: "phase_held p \<subseteq> H" and S: "segs_wf L s"
    and own: "\<And>h. h \<in> phase_held p \<Longrightarrow> h < 40 \<and> l_hown L h \<noteq> HFree"
  shows "phase_ok L' s' p = phase_ok L s p" "phase_pend s' p = phase_pend s p"
proof -
  have hdr: "msg_type (msghdrs s' ! h) = msg_type (msghdrs s ! h)" "msg_ts (msghdrs s' ! h) = msg_ts (msghdrs s ! h)"
    "seg_at L' s' h nx n = seg_at L s h nx n" "msg_value s' h = msg_value s h" if "h \<in> phase_held p" for h nx n
    using k that H seg_at_kept [OF k] kept_value [OF k S] own [OF that] by (auto simp: kept_def)
  show "phase_ok L' s' p = phase_ok L s p" "phase_pend s' p = phase_pend s p"
    using hdr by (cases p rule: phase_held.cases; simp)+
qed

text \<open>The outcome of an atomic piece run by thread \<open>t\<close>: the invariant, the messages of the other
  threads untouched, the queues \<open>q'\<close>, and where the thread stands.\<close>

definition msg_post :: "nat \<Rightarrow> (nat \<Rightarrow> nat set) \<Rightarrow> msg_layout \<Rightarrow> msg_state \<Rightarrow>
    (nat \<Rightarrow> (int \<times> u8 list) list option) \<Rightarrow> msg_pending \<Rightarrow> msg_phase \<Rightarrow> msg_state \<Rightarrow> bool" where
  "msg_post t held L s q' v' p' s' \<longleftrightarrow>
     (\<exists>L'. msg_wf {} L' (held(t := phase_held p')) s' \<and> kept (\<Union>t'\<in>- {t}. held t') L s L' s' \<and>
        msg_queue s' = q' \<and> phase_ok L' s' p' \<and> phase_pend s' p' = v')"

lemma msg_post_I:
  assumes "msg_wf {} L' held' s'" "held' = held(t := phase_held p')" "kept (\<Union>t'\<in>- {t}. held t') L s L' s'"
    "msg_queue s' = q'" "phase_ok L' s' p'" "phase_pend s' p' = v'"
  shows "msg_post t held L s q' v' p' s'"
  using assms by (auto simp: msg_post_def)

lemma msg_queue_same:
  assumes wf: "msg_wf {} L held s" "msg_wf {} L' held' s'" and j: "j < 40 \<Longrightarrow> l_queue L' j = l_queue L j"
    "j < 40 \<Longrightarrow> msg_qbytes (msqids s' ! j) = 0 \<longleftrightarrow> msg_qbytes (msqids s ! j) = 0"
    and k: "j < 40 \<Longrightarrow> kept (set (l_queue L j)) L s L' s'"
  shows "msg_queue s' j = msg_queue s j"
proof (cases "j < 40")
  case True
  have "map (msg_value s') (l_queue L j) = map (msg_value s) (l_queue L j)"
  proof (intro map_cong refl)
    fix h assume h: "h \<in> set (l_queue L j)"
    show "msg_value s' h = msg_value s h"
      using queue_own [OF msg_wfD(3) [OF wf(1)] True h] by (intro kept_value [OF k [OF True] msg_wfD(2) [OF wf(1)] _ _ h]) auto
  qed
  then show ?thesis
    using msg_queue_eq [OF wf(1) True] msg_queue_eq [OF wf(2) True] j True by simp
next
  case False
  then show ?thesis using msg_queue_none msg_wfD(1) wf by metis
qed

end
