(* ===== verification/Sysv_Msg_Send.thy ===== *)
theory Sysv_Msg_Send
  imports Sysv_Msg_Frames
begin

text \<open>The pieces of \<open>msgsnd_nocancel\<close>: each keeps the invariant, leaves the messages of the other threads
  alone, and either does not change the queues or puts the finished message at the end of its queue.\<close>

lemma post_quiet:
  assumes wf: "msg_wf {} L held s" "msg_wf {} L held' s'" and h: "held' = held(t := phase_held p')" and r: "relinked s s'"
    and q: "\<And>j. j < 40 \<Longrightarrow> msg_qbytes (msqids s' ! j) = 0 \<longleftrightarrow> msg_qbytes (msqids s ! j) = 0"
    and p: "phase_ok L s' p'" "phase_pend s' p' = v'"
  shows "msg_post t held L s (msg_queue s) v' p' s'"
  by (rule msg_post_I [OF wf(2) h kept_relinked [OF r refl] _ p])
    (rule ext, rule msg_queue_same [OF wf refl q kept_relinked [OF r refl]])

lemma post_same:
  assumes "msg_wf {} L held s" "held t = {}" "phase_held p' = {}" "phase_ok L s p'" "phase_pend s p' = Nothing"
  shows "msg_post t held L s (msg_queue s) Nothing p' s"
  using assms by (intro post_quiet) (simp_all add: fun_upd_idem)

lemma msq_lock_simps [simp]:
  "msghdrs (msq_lock i s) = msghdrs s" "msginfo (msq_lock i s) = msginfo s" "free_msghdrs (msq_lock i s) = free_msghdrs s"
  "nfree_msgmaps (msq_lock i s) = nfree_msgmaps s" "msg_qbytes (msqids (msq_lock i s) ! j) = msg_qbytes (msqids s ! j)"
  "msg_cbytes (msqids (msq_lock i s) ! j) = msg_cbytes (msqids s ! j)"
  "msghdrs (msq_unlock i s) = msghdrs s" "msginfo (msq_unlock i s) = msginfo s" "msgmaps (msq_unlock i s) = msgmaps s"
  "msg_qbytes (msqids (msq_unlock i s) ! j) = msg_qbytes (msqids s ! j)" "relinked s (msq_lock i s)" "relinked s (msq_unlock i s)"
  "length (msqids (msq_lock i s)) = length (msqids s)" "length (msqids (msq_unlock i s)) = length (msqids s)"
  "msg_out (msq_lock i s) = msg_out s" "msg_out (msq_unlock i s) = msg_out s"
  by (cases "j = i"; cases "i < length (msqids s)"; simp add: msq_lock_def msq_unlock_def relinked_msq; simp add: msq_modify_def list_update_beyond)+

section \<open>Sending\<close>

lemma msgsnd_alloc_post:
  assumes wf: "msg_wf {} L held s" and i: "snd_ix a < 40" and t: "held t = {}"
    and live: "msg_qbytes (msqids s ! snd_ix a) \<noteq> 0" and sz: "snd_msgsz a \<le> msg_qbytes (msqids s ! snd_ix a)"
    and ready: "snd_blocking a (msqids s ! snd_ix a) s = None"
  shows "\<exists>h s'. msgsnd_alloc a s = Some (SndType h, s') \<and> msg_out s' = msg_out s \<and>
    (\<forall>j. msg_qbytes (msqids s' ! j) = msg_qbytes (msqids s ! j)) \<and>
    msg_post t held L s (msg_queue s) Nothing (Sending a (SndType h)) s'"
proof -
  note tab = msg_wfD(1) [OF wf] and S = msg_wfD(2) [OF wf] and H = msg_wfD(3) [OF wf]
  note tabs = tables_info [OF tab]
  let ?i = "snd_ix a" and ?ts = "ucast (snd_msgsz a) :: u16"
  have q: "queue_wf s (msqids s ! ?i) (l_queue L ?i)" using queues_wfD [OF msg_wfD(4) [OF wf] i] by simp
  then have sz2: "snd_msgsz a \<le> 2048" using live order_trans [OF sz] by (simp add: queue_wf_def)
  then have usz: "unat (snd_msgsz a) \<le> 2048" by (simp add: word_le_nat_alt)
  then have ts: "unat ?ts = unat (snd_msgsz a)" "ucast ?ts = snd_msgsz a"
    by (simp_all add: unsigned_ucast_eq unsigned_take_bit_eq take_bit_nat_eq_self word_unat_eq_iff)
  let ?n = "seg_count (unat ?ts)"
  have n: "segs_needed (snd_msgsz a) s = int ?n" using segs_needed_small [OF tab sz2] ts by simp
  obtain h where h: "free_msghdrs s = Some h" using ready by (auto simp: snd_blocking_def split: if_split_asm)
  then obtain hs where hs: "l_hdrs L = h # hs" using hdrs_wfD(1) [OF H] by auto
  have h40: "h < 40" "l_hown L h = HFree" using hdrs_wfD(2) [OF H] by (auto simp: hs)
  let ?s = "msq_lock ?i s"
  have wf1: "msg_wf {} L held ?s" using wf i by simp
  have len: "?n \<le> length (l_segs L)"
    using ready n segs_wfD(2) [OF S] by (auto simp: snd_blocking_def split: if_split_asm)
  obtain s' where s': "msgsnd_segs ?n h ((hdr_modify h (\<lambda>m. m\<lparr>msg_spot := - 1, msg_ts := ?ts\<rparr>) ?s)\<lparr>free_msghdrs := msg_next (msghdrs ?s ! h)\<rparr>) = Some s'"
    "msg_wf {} (lay_alloc t h ?n L) (held(t := {h})) s'" "msg_frame (set (take ?n (l_segs L))) h ?s s'"
    "msqids s' = msqids ?s" "msg_out s' = msg_out ?s" "msg_ts (msghdrs s' ! h) = ?ts"
    using alloc_wf [OF wf1 t hs len refl] by blast
  have "segs_needed (snd_msgsz a) (hdr_modify h f (?s\<lparr>free_msghdrs := v\<rparr>)) = int ?n" for f v
    using n by (simp add: segs_needed_def hdr_modify_def)
  moreover have "hdr_modify h f (?s\<lparr>free_msghdrs := v\<rparr>) = (hdr_modify h f ?s)\<lparr>free_msghdrs := v\<rparr>" for f v
    by (simp add: hdr_modify_def)
  ultimately have run: "msgsnd_alloc a s = Some (SndType h, s')"
    using ready i h h40 n s'(1)
    by (simp add: msgsnd_alloc_def msq_def tabs msg_hdr_def snd_blocking_def Let_def split: if_split_asm)
  have fresh: "l_body (lay_alloc t h ?n L) h' = l_body L h' \<and> set (l_body L h') \<inter> set (take ?n (l_segs L)) = {}"
    if "h' < 40" "l_hown L h' \<noteq> HFree" for h'
    using that h40 bodies_apart(2) [OF S h40(1) that(1)] set_take_subset [of ?n "l_segs L"] by auto
  have kept: "kept K L s (lay_alloc t h ?n L) s'" if K: "\<And>h'. h' \<in> K \<Longrightarrow> h' < 40 \<and> l_hown L h' \<noteq> HFree" for K
  proof (rule kept_trans [OF kept_relinked [of s ?s L] kept_frame [OF s'(3)]])
    show "h \<notin> K" using K h40 by blast
    show "l_body (lay_alloc t h ?n L) h' = l_body L h' \<and> set (l_body L h') \<inter> set (take ?n (l_segs L)) = {}" if "h' \<in> K" for h'
      using fresh K [OF that] by blast
  qed simp_all
  have "msg_queue s' = msg_queue s"
  proof
    fix j
    show "msg_queue s' j = msg_queue s j"
    proof (rule msg_queue_same [OF wf s'(2)])
      show "kept (set (l_queue L j)) L s (lay_alloc t h ?n L) s'" if "j < 40"
        using queue_own [OF H that] by (intro kept) auto
    qed (simp_all add: s'(4))
  qed
  moreover have "kept (\<Union>t'\<in>- {t}. held t') L s (lay_alloc t h ?n L) s'"
    using hdrs_wfD(5) [OF H] by (intro kept) auto
  ultimately have "msg_post t held L s (msg_queue s) Nothing (Sending a (SndType h)) s'"
    using i ts(2) s'(6) by (intro msg_post_I [OF s'(2)]) simp_all
  then show ?thesis using run s'(4,5) by auto
qed

lemma msgsnd_try_post:
  assumes wf: "msg_wf {} L held s" and i: "snd_ix a < 40" and t: "held t = {}"
    and live: "msg_qbytes (msqids s ! snd_ix a) \<noteq> 0"
  shows "\<exists>nxt s'. msgsnd_try a s = Some (nxt, s') \<and> msg_out s' = msg_out s \<and>
    (snd_msgsz a \<le> msg_qbytes (msqids s ! snd_ix a) \<and> snd_blocking a (msqids s ! snd_ix a) s = None \<longrightarrow>
      (\<exists>h. nxt = SndType h) \<and> (\<forall>j. msg_qbytes (msqids s' ! j) = msg_qbytes (msqids s ! j))) \<and>
    msg_post t held L s (msg_queue s) Nothing (after_snd a nxt) s'"
proof -
  note tabs = tables_info [OF msg_wfD(1) [OF wf]]
  let ?q = "msqids s ! snd_ix a"
  have same: "msg_post t held L s (msg_queue s) Nothing p s" if "p = Idle \<or> p = Sending a (SndSleep c b)" for p c b
    using that i t by (intro post_same [OF wf t]) auto
  have lock: "msg_post t held L s (msg_queue s) Nothing (Sending a (SndSleep c b)) (msq_lock (snd_ix a) s)" for c b
    using wf i t by (intro post_quiet [OF wf, of held]) (simp_all add: fun_upd_idem)
  show ?thesis
  proof (cases "snd_msgsz a \<le> msg_qbytes ?q \<and> snd_blocking a ?q s = None")
    case True
    then show ?thesis
      using msgsnd_alloc_post [OF wf i t live] i by (auto simp: msgsnd_try_def msq_def tabs after_snd_def not_less)
  next
    case False
    show ?thesis
    proof (cases "snd_msgsz a \<le> msg_qbytes ?q")
      case False
      then show ?thesis using same [of Idle] i by (simp add: msgsnd_try_def msq_def tabs after_snd_def not_le)
    next
      case fits: True
      then obtain c where c: "snd_blocking a ?q s = Some c" using False by auto
      show ?thesis
        using fits c i same lock by (auto simp: msgsnd_try_def msq_def tabs after_snd_def not_less split del: if_split split: if_splits)
    qed
  qed
qed

lemma post_after:
  assumes "kept (\<Union>t'\<in>- {t}. held t') L s L1 s1" "msg_post t held1 L1 s1 q v p s'" "\<And>t'. t' \<noteq> t \<Longrightarrow> held1 t' = held t'"
  shows "msg_post t held L s q v p s'"
proof -
  have "(\<Union>t'\<in>- {t}. held1 t') = (\<Union>t'\<in>- {t}. held t')" using assms(3) by auto
  moreover have "held1(t := x) = held(t := x)" for x using assms(3) by (auto simp: fun_eq_iff)
  ultimately show ?thesis using assms(2) kept_trans [OF assms(1)] unfolding msg_post_def by metis
qed

lemma msq_lookup_cases:
  assumes "msg_tables s"
  obtains "msq_lookup env n s = Some (Inl EINVAL, s)"
  | "msq_lookup env n s = Some (Inr (nat (IPCID_TO_IX n), msqids s ! nat (IPCID_TO_IX n)), s)"
    "nat (IPCID_TO_IX n) < 40" "msg_qbytes (msqids s ! nat (IPCID_TO_IX n)) \<noteq> 0"
    "uint (ipc_seq (msg_perm (msqids s ! nat (IPCID_TO_IX n)))) = IPCID_TO_SEQ n"
proof -
  note tabs = tables_info [OF assms]
  have init: "msginit env s = (True, s)" using tabs by (simp add: msginit_def)
  show ?thesis
  proof (cases "0 \<le> IPCID_TO_IX n \<and> IPCID_TO_IX n < 40")
    case False
    then show ?thesis using tabs by (intro that(1)) (auto simp: msq_lookup_def init Let_def)
  next
    case True
    then have ix: "nat (IPCID_TO_IX n) < 40" by linarith
    show ?thesis
    proof (cases "msg_qbytes (msqids s ! nat (IPCID_TO_IX n)) \<noteq> 0 \<and> uint (ipc_seq (msg_perm (msqids s ! nat (IPCID_TO_IX n)))) = IPCID_TO_SEQ n")
      case live: True
      then show ?thesis using True ix tabs by (intro that(2)) (auto simp: msq_lookup_def init msq_def Let_def)
    next
      case False
      then show ?thesis using True ix tabs by (intro that(1)) (auto simp: msq_lookup_def init msq_def Let_def)
    qed
  qed
qed

lemma msgsnd_start_post:
  assumes wf: "msg_wf {} L held s" and t: "held t = {}"
  shows "\<exists>nxt s'. msgsnd_start env a s = Some (nxt, s') \<and> msg_out s' = msg_out s \<and>
    msg_post t held L s (msg_queue s) Nothing (after_snd a nxt) s'"
proof -
  have same: "msg_post t held L s (msg_queue s) Nothing Idle s" by (intro post_same [OF wf t]) simp_all
  show ?thesis
  proof (rule msq_lookup_cases [OF msg_wfD(1) [OF wf], of env "snd_msqid a"])
    assume "msq_lookup env (snd_msqid a) s = Some (Inl EINVAL, s)"
    then show ?thesis using same by (simp add: msgsnd_start_def after_snd_def)
  next
    assume l: "msq_lookup env (snd_msqid a) s = Some (Inr (snd_ix a, msqids s ! snd_ix a), s)"
      and i: "snd_ix a < 40" and live: "msg_qbytes (msqids s ! snd_ix a) \<noteq> 0"
    let ?q = "msqids s ! snd_ix a"
    show ?thesis
    proof (cases "ipcperm (msg_cred env) (msg_perm ?q) IPC_W = 0 \<and> mac_sysvmsq_check_msqsnd env ?q = 0")
      case True
      then show ?thesis using msgsnd_try_post [OF wf i t live] by (auto simp: msgsnd_start_def l)
    next
      case False
      then show ?thesis using same
        by (cases "ipcperm (msg_cred env) (msg_perm ?q) IPC_W = 0") (simp_all add: msgsnd_start_def l after_snd_def)
    qed
  qed
qed

lemma msg_queue_quiet:
  assumes "msg_wf {} L held s" "msg_wf {} L held' s'" "relinked s s'"
    "\<And>j. j < 40 \<Longrightarrow> msg_qbytes (msqids s' ! j) = 0 \<longleftrightarrow> msg_qbytes (msqids s ! j) = 0"
  shows "msg_queue s' = msg_queue s"
  by (rule ext, rule msg_queue_same [OF assms(1,2) refl assms(4) kept_relinked [OF assms(3) refl]])

lemma msgsnd_wake_post:
  assumes wf: "msg_wf {} L held s" and i: "snd_ix a < 40" and t: "held t = {}"
  shows "\<exists>nxt s'. msgsnd_wake slept a own s = Some (nxt, s') \<and> msg_out s' = msg_out s \<and>
    msg_post t held L s (msg_queue s) Nothing (after_snd a nxt) s'"
proof -
  define s1 where "s1 = (if own then msq_unlock (snd_ix a) s else s)"
  have s1: "msg_wf {} L held s1" "relinked s s1" "\<And>j. msg_qbytes (msqids s1 ! j) = msg_qbytes (msqids s ! j)" "msg_out s1 = msg_out s"
    using wf i by (simp_all add: s1_def)
  have queue: "msg_queue s1 = msg_queue s" using s1 by (intro msg_queue_quiet [OF wf s1(1)]) simp_all
  have post: "msg_post t held L s (msg_queue s) Nothing p s'" if "msg_post t held L s1 (msg_queue s1) Nothing p s'" for p s'
    using post_after [OF kept_relinked [OF s1(2) refl] that refl] by (simp add: queue)
  have idle: "msg_post t held L s (msg_queue s) Nothing Idle s1" by (intro post post_same [OF s1(1) t]) simp_all
  have qi: "msq (snd_ix a) s1 = Some (msqids s1 ! snd_ix a)" using i tables_info [OF msg_wfD(1) [OF s1(1)]] by (simp add: msq_def)
  show ?thesis
  proof (cases "slept = 0 \<and> msg_qbytes (msqids s1 ! snd_ix a) \<noteq> 0")
    case True
    then show ?thesis
      using msgsnd_try_post [OF s1(1) i t] post qi s1(4) by (fastforce simp: msgsnd_wake_def s1_def [symmetric])
  next
    case False
    then show ?thesis using idle qi s1(4)
      by (cases "slept = 0") (simp_all add: msgsnd_wake_def s1_def [symmetric] after_snd_def)
  qed
qed

lemma held_own: "msg_wf X L held s \<Longrightarrow> h \<in> held t \<Longrightarrow> h < 40 \<and> l_hown L h = HHeld t"
  using hdrs_wfD(5) [OF msg_wfD(3)] by blast

lemma other_own:
  assumes "msg_wf X L held s" "h \<in> (\<Union>t'\<in>- {t}. held t')"
  shows "h < 40 \<and> l_hown L h \<noteq> HFree \<and> l_hown L h \<noteq> HHeld t"
proof -
  obtain t' where "t' \<noteq> t" "h \<in> held t'" using assms(2) by blast
  then show ?thesis using held_own [OF assms(1), of h t'] by simp
qed

text \<open>Giving back the header the thread holds.\<close>

lemma free_post:
  assumes wf: "msg_wf {} L held s" and t: "held t = {h}"
  shows "\<exists>s'. msg_freehdr h s = Some s' \<and> msqids s' = msqids s \<and> msg_out s' = msg_out s \<and>
    msg_wf {} (lay_free h L) (held(t := {})) s' \<and> kept (\<Union>t'\<in>- {t}. held t') L s (lay_free h L) s' \<and> msg_queue s' = msg_queue s"
proof -
  have h: "h \<in> held t" "h < 40" "l_hown L h = HHeld t" using t held_own [OF wf, of h t] by auto
  obtain s' where s': "msg_freehdr h s = Some s'" "msg_wf {} (lay_free h L) (held(t := held t - {h})) s'"
    "msg_frame (set (l_body L h)) h s s'" "msqids s' = msqids s" "msg_out s' = msg_out s"
    using freehdr_wf [OF wf h(1)] by blast
  have kept: "kept K L s (lay_free h L) s'" if K: "\<And>h'. h' \<in> K \<Longrightarrow> h' < 40 \<and> h' \<noteq> h" for K
  proof (rule kept_frame [OF s'(3)])
    show "h \<notin> K" using K by blast
    show "l_body (lay_free h L) h' = l_body L h' \<and> set (l_body L h') \<inter> set (l_body L h) = {}" if "h' \<in> K" for h'
      using K [OF that] bodies_apart(1) [OF msg_wfD(2) [OF wf] h(2)] by simp
  qed
  have "msg_queue s' = msg_queue s"
  proof
    fix j
    show "msg_queue s' j = msg_queue s j"
    proof (rule msg_queue_same [OF wf s'(2)])
      show "kept (set (l_queue L j)) L s (lay_free h L) s'" if "j < 40"
        using queue_own [OF msg_wfD(3) [OF wf] that] h(3) by (intro kept) auto
    qed (simp_all add: s'(4))
  qed
  moreover have "kept (\<Union>t'\<in>- {t}. held t') L s (lay_free h L) s'"
    using other_own [OF wf] h(3) by (intro kept) blast
  ultimately show ?thesis using s' t by simp
qed

lemma msg_queue_wakeup [simp]: "msg_queue (msg_wakeup c s) = msg_queue s" "msg_queue (msg_copy_out x d s) = msg_queue s"
proof -
  have "hdr_walk n p (msg_wakeup c s) = hdr_walk n p s" "hdr_walk n p (msg_copy_out x d s) = hdr_walk n p s" for n p
    by (induction n arbitrary: p) (simp_all add: msg_wakeup_def msg_copy_out_def split: option.splits)
  then show "msg_queue (msg_wakeup c s) = msg_queue s" "msg_queue (msg_copy_out x d s) = msg_queue s"
    by (intro ext, simp add: msg_queue_def, simp add: msg_wakeup_def msg_copy_out_def)+
qed

lemma msg_wakeup_simps [simp]:
  "msg_out (msg_wakeup c s) = msg_out s" "msqids (msg_wakeup c s) = msqids s" "msghdrs (msg_wakeup c s) = msghdrs s"
  "msqids (msg_copy_out x d s) = msqids s" "msghdrs (msg_copy_out x d s) = msghdrs s" "msginfo (msg_copy_out x d s) = msginfo s"
  "msgmaps (msg_copy_out x d s) = msgmaps s"
  by (simp_all add: msg_wakeup_def msg_copy_out_def)

lemma kept_wakeup [simp]: "kept H L s L' (msg_wakeup c s') = kept H L s L' s'" "kept H L s L' (msg_copy_out x d s') = kept H L s L' s'"
  by (simp_all add: kept_def msg_wakeup_def msg_copy_out_def seg_bytes_def)

text \<open>A piece that ends with the thread outside the subsystem.\<close>

lemma idle_post:
  assumes "msg_wf {} L' (held(t := {})) s'" "kept (\<Union>t'\<in>- {t}. held t') L s L' s'" "msg_queue s' = q'"
  shows "msg_post t held L s q' Nothing Idle s'"
  by (rule msg_post_I [OF assms(1) _ assms(2,3)]) simp_all

lemma unlock_quiet:
  assumes wf: "msg_wf {} L held s" and i: "i < 40"
  shows "msg_wf {} L held (msq_unlock i s)" "kept H L s L (msq_unlock i s)" "msg_queue (msq_unlock i s) = msg_queue s"
proof -
  show wf': "msg_wf {} L held (msq_unlock i s)" using assms by simp
  show "kept H L s L (msq_unlock i s)" by (rule kept_relinked) simp_all
  show "msg_queue (msq_unlock i s) = msg_queue s" by (rule msg_queue_quiet [OF wf wf']) simp_all
qed

lemma msgsnd_abort_post:
  assumes wf: "msg_wf {} L held s" and t: "held t = {h}" and i: "snd_ix a < 40"
  shows "\<exists>s'. msgsnd_abort a h e s = Some (SndReturn e, s') \<and> msg_out s' = msg_out s \<and>
    msg_post t held L s (msg_queue s) Nothing Idle s'"
proof -
  obtain s1 where s1: "msg_freehdr h s = Some s1" "msg_out s1 = msg_out s" "msg_wf {} (lay_free h L) (held(t := {})) s1"
    "kept (\<Union>t'\<in>- {t}. held t') L s (lay_free h L) s1" "msg_queue s1 = msg_queue s"
    using free_post [OF wf t] by blast
  note u = unlock_quiet [OF s1(3) i]
  let ?s = "msg_wakeup (ChanQueue (snd_ix a)) (msq_unlock (snd_ix a) s1)"
  have "msg_post t held L s (msg_queue s) Nothing Idle ?s"
    using u kept_trans [OF s1(4) u(2)] s1(5) by (intro idle_post [of "lay_free h L"]) simp_all
  then show ?thesis using s1 by (simp add: msgsnd_abort_def)
qed

text \<open>How a send ends: the queue is gone, or the policy refuses the message, or \<open>v\<close> is at its end.\<close>

definition snd_done ::
  "msg_env \<Rightarrow> snd_args \<Rightarrow> nat \<Rightarrow> (nat \<Rightarrow> nat set) \<Rightarrow> msg_layout \<Rightarrow> msg_state \<Rightarrow> int \<times> u8 list \<Rightarrow> int \<Rightarrow> msg_state \<Rightarrow> bool" where
  "snd_done env a t held L s v e s' \<longleftrightarrow>
     (case msg_queue s (snd_ix a) of
        None \<Rightarrow> e = EIDRM \<and> msg_post t held L s (msg_queue s) Nothing Idle s'
      | Some q \<Rightarrow>
          if e = 0 then msg_post t held L s ((msg_queue s)(snd_ix a := Some (q @ [v]))) Nothing Idle s'
          else (\<exists>m q. e = mac_sysvmsq_check_enqueue env m q) \<and> msg_post t held L s (msg_queue s) Nothing Idle s')"

lemma msgsnd_finish_post:
  assumes wf: "msg_wf {} L held s" and t: "held t = {h}" and i: "snd_ix a < 40" and ty: "1 \<le> msg_type (msghdrs s ! h)"
  shows "\<exists>e s'. msgsnd_finish env a h s = Some (SndReturn e, s') \<and> msg_out s' = msg_out s \<and>
    snd_done env a t held L s (msg_value s h) e s'"
proof -
  let ?i = "snd_ix a" let ?s = "msq_unlock ?i s"
  note u = unlock_quiet [OF wf i] and h = held_own [OF wf, of h t]
  have tabs: "length (msqids ?s) = 40" "length (msghdrs ?s) = 40" using tables_info [OF msg_wfD(1) [OF u(1)]] by simp_all
  have qi: "msq ?i ?s = Some (msqids ?s ! ?i)" "msg_hdr h ?s = Some (msghdrs s ! h)"
    using i h t tabs by (simp_all add: msq_def msg_hdr_def)
  have dead: "msg_queue s ?i = None \<longleftrightarrow> msg_qbytes (msqids s ! ?i) = 0" using msg_queue_eq [OF wf i] by simp
  obtain s1 where s1: "msg_freehdr h ?s = Some s1" "msg_out s1 = msg_out ?s" "msg_wf {} (lay_free h L) (held(t := {})) s1"
    "kept (\<Union>t'\<in>- {t}. held t') L ?s (lay_free h L) s1" "msg_queue s1 = msg_queue ?s"
    using free_post [OF u(1) t] by blast
  let ?f = "msg_wakeup (ChanQueue ?i) s1" and ?m = "mac_sysvmsq_check_enqueue env (msghdrs s ! h) (msqids ?s ! ?i)"
  have drop: "msg_post t held L s (msg_queue s) Nothing Idle ?f" "msg_out ?f = msg_out s"
    using s1(2,3,5) u(3) kept_trans [OF u(2) s1(4)] by (auto intro!: idle_post [of "lay_free h L"])
  show ?thesis
  proof (cases "msg_qbytes (msqids s ! ?i) = 0")
    case True
    then show ?thesis using qi s1(1) drop dead by (simp add: msgsnd_finish_def snd_done_def)
  next
    case live: False
    then obtain q where q: "msg_queue s ?i = Some q" using dead by auto
    show ?thesis
    proof (cases "?m = 0")
      case False
      then show ?thesis using qi s1(1) drop live q by (auto simp: msgsnd_finish_def snd_done_def)
    next
      case True
      obtain s' where s': "msgsnd_enqueue env a h ?s = Some (SndReturn 0, s')" "msg_wf {} (lay_enq ?i h L) (held(t := held t - {h})) s'"
        "relinked ?s s'" "msg_qbytes (msqids s' ! ?i) = msg_qbytes (msqids ?s ! ?i)" "\<forall>j. j \<noteq> ?i \<longrightarrow> msqids s' ! j = msqids ?s ! j"
        "msg_out s' = msg_out ?s"
        using enqueue_wf [OF u(1), of h t a ?i env] t i live ty by auto
      have val: "msg_value s' = msg_value s" using relinked_value [OF s'(3)] by simp
      have "msg_queue s' = (msg_queue s)(?i := Some (q @ [msg_value s h]))"
      proof
        fix j
        show "msg_queue s' j = ((msg_queue s)(?i := Some (q @ [msg_value s h]))) j"
        proof (cases "j < 40")
          case True
          then show ?thesis
            using msg_queue_eq [OF s'(2) True] msg_queue_eq [OF wf True] s'(4,5) live q i by (auto simp: val lay_enq_def)
        next
          case False
          then show ?thesis
            using i msg_queue_none [OF msg_wfD(1) [OF wf] False] msg_queue_none [OF msg_wfD(1) [OF s'(2)] False] by auto
        qed
      qed
      moreover have "kept (\<Union>t'\<in>- {t}. held t') L s (lay_enq ?i h L) s'"
        using relinked_trans [OF _ s'(3), of s] by (intro kept_relinked) (simp_all add: lay_enq_def)
      ultimately have "msg_post t held L s ((msg_queue s)(?i := Some (q @ [msg_value s h]))) Nothing Idle s'"
        using s'(2) t by (intro idle_post [of "lay_enq ?i h L"]) simp_all
      then show ?thesis using True live q qi s'(1,6) by (simp add: msgsnd_finish_def snd_done_def)
    qed
  qed
qed

section \<open>The loop over the segments\<close>

lemma seg_at_start:
  assumes wf: "msg_wf X L held s" and h: "h \<in> held t"
  shows "if msg_ts (msghdrs s ! h) = 0 then msg_spot (msghdrs s ! h) = - 1 else seg_at L s h (msg_spot (msghdrs s ! h)) 0"
proof -
  note own = held_own [OF wf h] and S = msg_wfD(2) [OF wf]
  have c: "segs.chain (seg_link s) (msg_spot (msghdrs s ! h)) (l_body L h)"
    and n: "length (l_body L h) = seg_count (unat (msg_ts (msghdrs s ! h)))"
    using segs_wfD(3,4) [OF S] own by simp_all
  show ?thesis
  proof (cases "msg_ts (msghdrs s ! h) = 0")
    case True
    then have "l_body L h = []" using n by (simp add: seg_count_def)
    then show ?thesis using True c by simp
  next
    case False
    then show ?thesis using c by (auto simp: seg_at_def intro!: exI [of _ "[]"])
  qed
qed

lemma seg_at_step:
  assumes wf: "msg_wf X L held s" and h: "h \<in> held t" and at: "seg_at L s h next n" and n: "n < unat (msg_ts (msghdrs s ! h))"
  obtains xs x ys where "l_body L h = xs @ x # ys" "n = 8 * length xs" "next = int x" "x < 2048"
    "if n + 8 < unat (msg_ts (msghdrs s ! h)) then seg_at L s h (msgmaps s ! x) (n + 8) else msgmaps s ! x = - 1"
proof -
  note own = held_own [OF wf h] and S = msg_wfD(2) [OF wf]
  let ?ts = "unat (msg_ts (msghdrs s ! h))"
  obtain xs zs where z: "l_body L h = xs @ zs" "segs.chain (seg_link s) next zs" "n = 8 * length xs"
    using at by (auto simp: seg_at_def)
  have len: "length xs + length zs = (?ts + 7) div 8"
    using segs_wfD(4) [OF S, of h] own z(1) by (simp add: seg_count_def)
  then have "zs \<noteq> []" using n z(3) by (cases zs) auto
  then obtain x ys where x: "zs = x # ys" by (cases zs) auto
  have "x < 2048" using segs_wfD(7) [OF S, of h] own z(1) x by auto
  moreover have "if n + 8 < ?ts then seg_at L s h (msgmaps s ! x) (n + 8) else msgmaps s ! x = - 1"
  proof (cases "n + 8 < ?ts")
    case True
    then show ?thesis using z x by (simp add: seg_at_def) (rule exI [of _ "xs @ [x]"], simp)
  next
    case False
    then have "ys = []" using len z(3) x by (cases ys) auto
    then show ?thesis using False z x by simp
  qed
  ultimately show ?thesis using that z x by simp
qed

lemma seg_bytes_length: "msg_tables s \<Longrightarrow> x < 2048 \<Longrightarrow> length (seg_bytes s x) = 8"
  by (simp add: seg_bytes_def tables_info)

lemma length_concat_const: "(\<And>x. x \<in> set xs \<Longrightarrow> length (f x) = k) \<Longrightarrow> length (concat (map f xs)) = k * length xs"
  by (induction xs) auto

lemma body_prefix_length:
  "msg_tables s \<Longrightarrow> set xs \<subseteq> {..<2048} \<Longrightarrow> length (concat (map (seg_bytes s) xs)) = 8 * length xs"
  by (rule length_concat_const) (auto intro: seg_bytes_length)

lemma msg_value_length:
  assumes wf: "msg_wf X L held s" and h: "h < 40" "l_hown L h \<noteq> HFree"
  shows "length (snd (msg_value s h)) = unat (msg_ts (msghdrs s ! h))"
proof -
  note S = msg_wfD(2) [OF wf]
  have "set (l_body L h) \<subseteq> {..<2048}" using segs_wfD(7) [OF S h(1)] by auto
  then have "length (concat (map (seg_bytes s) (l_body L h))) = 8 * seg_count (unat (msg_ts (msghdrs s ! h)))"
    using body_prefix_length [OF msg_wfD(1) [OF wf]] segs_wfD(4) [OF S h] by simp
  moreover have "unat (msg_ts (msghdrs s ! h)) \<le> 8 * seg_count (unat (msg_ts (msghdrs s ! h)))"
    by (simp add: seg_count_def)
  ultimately show ?thesis using msg_value_eq [OF S h] by simp
qed

section \<open>Storing a part of a message\<close>

lemma pool_store_run:
  assumes tab: "msg_tables s" and x: "x < 2048" and n: "n \<le> 8"
  obtains s' where "pool_store (nat (int x * 8)) n bs s = Some s'" "s' = s\<lparr>msgpool := msgpool s'\<rparr>" "length (msgpool s') = 16384"
    "\<And>y. y \<noteq> x \<Longrightarrow> y < 2048 \<Longrightarrow> seg_bytes s' y = seg_bytes s y" "take (length (take n bs)) (seg_bytes s' x) = take n bs"
proof -
  note tabs = tables_info [OF tab]
  let ?b = "take n bs" and ?P = "msgpool s"
  define Q where "Q = take (8 * x) ?P @ ?b @ drop (8 * x + length ?b) ?P"
  have off: "nat (int x * 8) = 8 * x" by (simp add: nat_mult_distrib mult.commute)
  have b: "length ?b \<le> 8" using n by simp
  have len: "length Q = 16384" "length ?P = 16384" using x b tabs by (simp_all add: Q_def)
  have out: "Q ! k = ?P ! k" if "k < 16384" "k < 8 * x \<or> 8 * x + 8 \<le> k" for k
    using that x b tabs by (auto simp: nth_append Q_def)
  show ?thesis
  proof (rule that [of "s\<lparr>msgpool := Q\<rparr>"])
    show "pool_store (nat (int x * 8)) n bs s = Some (s\<lparr>msgpool := Q\<rparr>)"
      unfolding pool_store_def off using x n tabs by (simp add: Q_def)
    show "seg_bytes (s\<lparr>msgpool := Q\<rparr>) y = seg_bytes s y" if "y \<noteq> x" "y < 2048" for y
    proof -
      have "take 8 (drop (8 * y) Q) = take 8 (drop (8 * y) ?P)"
      proof (rule nth_equalityI)
        fix k assume "k < length (take 8 (drop (8 * y) Q))"
        then have k: "k < 8" "8 * y + k < 16384" using len by auto
        moreover have "8 * y + k < 8 * x \<or> 8 * x + 8 \<le> 8 * y + k" using that k by linarith
        ultimately show "take 8 (drop (8 * y) Q) ! k = take 8 (drop (8 * y) ?P) ! k"
          using out [of "8 * y + k"] len by simp
      qed (simp add: len)
      then show ?thesis by (simp add: seg_bytes_def)
    qed
    show "take (length ?b) (seg_bytes (s\<lparr>msgpool := Q\<rparr>) x) = ?b"
      using x n tabs by (simp add: seg_bytes_def Q_def min_def)
  qed (use len in simp_all)
qed

lemma unat_ts [simp]: "unat (ucast (x :: u16) :: u64) = unat x"
proof -
  have "unat x < 2 ^ 16" using unsigned_less [of x] by simp
  then have "unat x < 2 ^ 64" by simp
  then show ?thesis by (simp add: unsigned_ucast_eq take_bit_nat_eq_self)
qed

lemma msgsnd_next_post:
  assumes wf: "msg_wf {} L held s" and t: "held t = {h}" and i: "snd_ix a < 40" and ty: "1 \<le> msg_type (msghdrs s ! h)"
    and at: "if left = 0 then next = - 1
      else unat left \<le> unat (msg_ts (msghdrs s ! h)) \<and> seg_at L s h next (unat (msg_ts (msghdrs s ! h)) - unat left)"
  shows "\<exists>nxt s'. msgsnd_next_seg env a h next left p s = Some (nxt, s') \<and> msg_out s' = msg_out s \<and>
    (if left = 0 then \<exists>e. nxt = SndReturn e \<and> snd_done env a t held L s (msg_value s h) e s'
     else nxt = SndBody h next left p \<and> msg_post t held L s (msg_queue s)
       (Writing (snd_ix a) (unat (msg_ts (msghdrs s ! h))) (msg_type (msghdrs s ! h))
         (take (unat (msg_ts (msghdrs s ! h)) - unat left) (snd (msg_value s h)))) (Sending a nxt) s')"
proof (cases "left = 0")
  case True
  then show ?thesis
    using at msgsnd_finish_post [OF wf t i ty, of env] by (auto simp: msgsnd_next_seg_def)
next
  case False
  then have pos: "0 < left" by (simp add: word_gt_0)
  then have upos: "0 < unat left" using False by (simp add: unat_gt_0)
  have h: "h \<in> held t" using t by simp
  have n: "unat (msg_ts (msghdrs s ! h)) - unat left < unat (msg_ts (msghdrs s ! h))" using at False upos by auto
  obtain x where x: "next = int x" "x < 2048" using seg_at_step [OF wf h _ n] at False by (metis (full_types))
  have "msgsnd_next_seg env a h next left p s = Some (SndBody h next left p, s)"
    using pos x tables_info [OF msg_wfD(1) [OF wf]] by (simp add: msgsnd_next_seg_def)
  moreover have "msg_post t held L s (msg_queue s)
       (Writing (snd_ix a) (unat (msg_ts (msghdrs s ! h))) (msg_type (msghdrs s ! h))
         (take (unat (msg_ts (msghdrs s ! h)) - unat left) (snd (msg_value s h)))) (Sending a (SndBody h next left p)) s"
    using i ty at False pos t by (intro msg_post_I [OF wf]) (simp_all add: fun_upd_idem)
  ultimately show ?thesis using False by simp
qed

text \<open>Storing the type of a message that the thread holds.\<close>

lemma type_wf:
  assumes wf: "msg_wf {} L held s" and t: "held t = {h}"
  shows "msg_wf {} L held (hdr_modify h (\<lambda>m. m\<lparr>msg_type := v\<rparr>) s)"
    "kept (\<Union>t'\<in>- {t}. held t') L s L (hdr_modify h (\<lambda>m. m\<lparr>msg_type := v\<rparr>) s)"
    "msg_queue (hdr_modify h (\<lambda>m. m\<lparr>msg_type := v\<rparr>) s) = msg_queue s"
proof -
  let ?s = "hdr_modify h (\<lambda>m. m\<lparr>msg_type := v\<rparr>) s"
  have own: "h < 40" "l_hown L h = HHeld t" using held_own [OF wf, of h t] t by auto
  note tabs = tables_info [OF msg_wfD(1) [OF wf]]
  have hdr: "msghdrs ?s ! x = (if x = h then (msghdrs s ! h)\<lparr>msg_type := v\<rparr> else msghdrs s ! x)" for x
    using own by (simp add: hdr_modify_def tabs)
  have same: "msg_ts (msghdrs ?s ! x) = msg_ts (msghdrs s ! x)" "msg_spot (msghdrs ?s ! x) = msg_spot (msghdrs s ! x)" for x
    by (simp_all add: hdr)
  have link: "hdr_link ?s = hdr_link s" by (auto simp: hdr)
  have rest: "msgmaps ?s = msgmaps s" "msqids ?s = msqids s" "free_msghdrs ?s = free_msghdrs s" "free_msgmaps ?s = free_msgmaps s"
    "nfree_msgmaps ?s = nfree_msgmaps s" "msgpool ?s = msgpool s" by (simp_all add: hdr_modify_def)
  have "msg_tables ?s" using msg_wfD(1) [OF wf] by (simp add: msg_tables_def hdr_modify_def)
  moreover have "segs_wf L ?s" using msg_wfD(2) [OF wf] unfolding segs_wf_def same rest .
  moreover have "hdrs_wf L held ?s" using msg_wfD(3) [OF wf] unfolding hdrs_wf_def link rest .
  moreover have "queues_wf {} L ?s"
  proof -
    have "queue_wf ?s (msqids s ! j) (l_queue L j)" if "j < 40" for j
    proof -
      have "msghdrs ?s ! x = msghdrs s ! x" if "x \<in> set (l_queue L j)" for x
        using queue_own [OF msg_wfD(3) [OF wf] \<open>j < 40\<close> that] own by (auto simp: hdr)
      then show ?thesis using queues_wfD [OF msg_wfD(4) [OF wf] that] queue_wf_cong by blast
    qed
    then show ?thesis by (simp add: queues_wf_def rest)
  qed
  ultimately show wf': "msg_wf {} L held ?s" by (simp add: msg_wf_def)
  have kept: "kept K L s L ?s" if "h \<notin> K" for K
    using that by (auto simp: kept_def hdr rest seg_bytes_def)
  have "h \<notin> (\<Union>t'\<in>- {t}. held t')" using other_own [OF wf, of h t] own by blast
  then show "kept (\<Union>t'\<in>- {t}. held t') L s L ?s" by (rule kept)
  show "msg_queue ?s = msg_queue s"
  proof
    fix j
    show "msg_queue ?s j = msg_queue s j"
    proof (rule msg_queue_same [OF wf wf' refl])
      show "kept (set (l_queue L j)) L s L ?s" if "j < 40"
        using queue_own [OF msg_wfD(3) [OF wf] that] own by (intro kept) auto
    qed (simp add: rest)
  qed
qed

lemma post_chain:
  assumes "kept (\<Union>t'\<in>- {t}. held t') L s L s1" "msg_queue s1 = msg_queue s"
  shows "msg_post t held L s1 q v p s' \<Longrightarrow> msg_post t held L s q v p s'"
    "snd_done env a t held L s1 w e s' \<Longrightarrow> snd_done env a t held L s w e s'"
proof -
  show post: "msg_post t held L s1 q v p s' \<Longrightarrow> msg_post t held L s q v p s'" for q v p s'
    using post_after [OF assms(1) _ refl] .
  show "snd_done env a t held L s1 w e s' \<Longrightarrow> snd_done env a t held L s w e s'"
    unfolding snd_done_def assms(2) using post by (auto split: option.splits if_splits)
qed

lemma msgsnd_type_post:
  assumes wf: "msg_wf {} L held s" and t: "held t = {h}" and ok: "phase_ok L s (Sending a (SndType h))"
  shows "\<exists>nxt s'. msgsnd_type env a h (e, ty) s = Some (nxt, s') \<and> msg_out s' = msg_out s \<and>
    (if e \<noteq> 0 \<or> ty < 1 then nxt = SndReturn (if e \<noteq> 0 then e else EINVAL) \<and> msg_post t held L s (msg_queue s) Nothing Idle s'
     else if snd_msgsz a = 0 then \<exists>e. nxt = SndReturn e \<and> snd_done env a t held L s (ty, []) e s'
     else (\<exists>next. nxt = SndBody h next (snd_msgsz a) (snd_msgp a + (if msg_is64 env then 8 else 4))) \<and>
       msg_post t held L s (msg_queue s) (Writing (snd_ix a) (unat (snd_msgsz a)) ty []) (Sending a nxt) s')"
proof -
  define s1 where "s1 = hdr_modify h (\<lambda>m. m\<lparr>msg_type := ty\<rparr>) s"
  have own: "h < 40" "l_hown L h = HHeld t" using held_own [OF wf, of h t] t by auto
  note s1 = type_wf [OF wf t, of ty, folded s1_def] and tabs = tables_info [OF msg_wfD(1) [OF wf]]
  note chain = post_chain [OF s1(2,3)]
  have i: "snd_ix a < 40" and ts: "ucast (msg_ts (msghdrs s ! h)) = snd_msgsz a" using ok by simp_all
  then have uts: "unat (msg_ts (msghdrs s ! h)) = unat (snd_msgsz a)" by (metis unat_ts)
  have m: "msghdrs s1 ! h = (msghdrs s ! h)\<lparr>msg_type := ty\<rparr>" "msg_out s1 = msg_out s" "length (msghdrs s1) = 40"
    using own by (simp_all add: s1_def hdr_modify_def tabs)
  have run: "msgsnd_type env a h (e, ty) s = (if e \<noteq> 0 then msgsnd_abort a h e s1 else if ty < 1 then msgsnd_abort a h EINVAL s1
    else msgsnd_next_seg env a h (msg_spot (msghdrs s ! h)) (snd_msgsz a) (snd_msgp a + (if msg_is64 env then 8 else 4)) s1)"
    using own by (simp add: msgsnd_type_def s1_def [symmetric] msg_hdr_def tabs m)
  show ?thesis
  proof (cases "e \<noteq> 0 \<or> ty < 1")
    case True
    let ?e = "if e \<noteq> 0 then e else EINVAL"
    obtain s' where "msgsnd_abort a h ?e s1 = Some (SndReturn ?e, s')" "msg_out s' = msg_out s1"
      "msg_post t held L s1 (msg_queue s1) Nothing Idle s'"
      using msgsnd_abort_post [OF s1(1) t i] by blast
    then show ?thesis using True chain(1) m(2) s1(3) unfolding run by (intro exI [of _ "SndReturn ?e"] exI [of _ s']) auto
  next
    case False
    have val: "msg_value s1 h = (ty, snd (msg_value s1 h))" by (simp add: msg_value_def m Let_def)
    have at: "if snd_msgsz a = 0 then msg_spot (msghdrs s ! h) = - 1 else unat (snd_msgsz a) \<le> unat (msg_ts (msghdrs s1 ! h)) \<and>
      seg_at L s1 h (msg_spot (msghdrs s ! h)) (unat (msg_ts (msghdrs s1 ! h)) - unat (snd_msgsz a))"
      using seg_at_start [OF s1(1), of h t] t uts by (auto simp: m unat_eq_zero split: if_splits)
    have len: "snd_msgsz a = 0 \<Longrightarrow> snd (msg_value s1 h) = []"
      using msg_value_length [OF s1(1), of h] own uts by (simp add: m)
    have ty: "1 \<le> msg_type (msghdrs s1 ! h)" using False by (simp add: m)
    show ?thesis
    proof (cases "snd_msgsz a = 0")
      case True
      then show ?thesis
        using msgsnd_next_post [OF s1(1) t i ty at, of env] False chain(2) m(2) len val unfolding run by fastforce
    next
      case nonzero: False
      then show ?thesis
        using msgsnd_next_post [OF s1(1) t i ty at, of env] False chain(1) m(1,2) uts s1(3) unfolding run by fastforce
    qed
  qed
qed

lemma store_wf:
  assumes wf: "msg_wf {} L held s" and t: "held t = {h}" and x: "x \<in> set (l_body L h)"
    and s': "s' = s\<lparr>msgpool := msgpool s'\<rparr>" "length (msgpool s') = 16384"
    and out: "\<And>y. y \<noteq> x \<Longrightarrow> y < 2048 \<Longrightarrow> seg_bytes s' y = seg_bytes s y"
  shows "msg_wf {} L held s'" "kept (\<Union>t'\<in>- {t}. held t') L s L s'" "msg_queue s' = msg_queue s"
proof -
  have own: "h < 40" "l_hown L h = HHeld t" using held_own [OF wf, of h t] t by auto
  obtain P where P: "s' = s\<lparr>msgpool := P\<rparr>" "length P = 16384" using s' by blast
  show wf': "msg_wf {} L held s'"
    using wf P(2) unfolding P(1)
    by (simp add: msg_wf_def msg_tables_def segs_wf_def hdrs_wf_def queues_wf_def queue_wf_def queue_bytes_def)
  have kept: "kept K L s L s'" if K: "\<And>h'. h' \<in> K \<Longrightarrow> h' < 40 \<and> h' \<noteq> h" for K
  proof -
    have "seg_bytes s' y = seg_bytes s y" if "h' \<in> K" "y \<in> set (l_body L h')" for h' y
    proof (rule out)
      show "y \<noteq> x" using bodies_apart(1) [OF msg_wfD(2) [OF wf] own(1), of h'] K [OF that(1)] that(2) x by blast
      show "y < 2048" using segs_wfD(7) [OF msg_wfD(2) [OF wf], of h'] K [OF that(1)] that(2) by blast
    qed
    then show ?thesis by (simp add: kept_def P(1))
  qed
  show "kept (\<Union>t'\<in>- {t}. held t') L s L s'"
    using other_own [OF wf] own by (intro kept) blast
  show "msg_queue s' = msg_queue s"
  proof
    fix j
    show "msg_queue s' j = msg_queue s j"
    proof (rule msg_queue_same [OF wf wf' refl])
      show "kept (set (l_queue L j)) L s L s'" if "j < 40"
        using queue_own [OF msg_wfD(3) [OF wf] that] own by (intro kept) auto
    qed (simp add: P)
  qed
qed

text \<open>The bytes of the message after one more part.\<close>

lemma store_value:
  assumes wf: "msg_wf {} L held s" "msg_wf {} L held s'" and t: "h \<in> held t" and b: "l_body L h = xs @ x # ys"
    and out: "\<And>y. y \<noteq> x \<Longrightarrow> y < 2048 \<Longrightarrow> seg_bytes s' y = seg_bytes s y" and x: "take m (seg_bytes s' x) = bs" "m \<le> 8"
    and hdr: "msghdrs s' ! h = msghdrs s ! h" and n: "8 * length xs + m \<le> unat (msg_ts (msghdrs s ! h))"
  shows "take (8 * length xs + m) (snd (msg_value s' h)) = take (8 * length xs) (snd (msg_value s h)) @ bs"
proof -
  have own: "h < 40" "l_hown L h \<noteq> HFree" using held_own [OF wf(1) t] by auto
  have c: "segs.chain (seg_link s) (msg_spot (msghdrs s ! h)) (l_body L h)" using segs_wfD(3) [OF msg_wfD(2) [OF wf(1)] own] .
  have xs: "set xs \<subseteq> {..<2048}" "x < 2048" "x \<notin> set xs"
    using segs_wfD(7) [OF msg_wfD(2) [OF wf(1)] own(1)] segs.chain_distinct [OF c] by (auto simp: b)
  have "map (seg_bytes s') xs = map (seg_bytes s) xs" by (intro map_cong refl out) (use xs in blast)+
  then have pre: "concat (map (seg_bytes s') xs) = concat (map (seg_bytes s) xs)" by (rule arg_cong)
  have len: "length (concat (map (seg_bytes s) xs)) = 8 * length xs" "length (seg_bytes s' x) = 8"
    using body_prefix_length [OF msg_wfD(1) [OF wf(1)] xs(1)] seg_bytes_length [OF msg_wfD(1) [OF wf(2)] xs(2)] by simp_all
  have v: "snd (msg_value s h) = take (unat (msg_ts (msghdrs s ! h))) (concat (map (seg_bytes s) xs) @ concat (map (seg_bytes s) (x # ys)))"
    using msg_value_eq [OF msg_wfD(2) [OF wf(1)] own] by (simp add: b)
  have v': "snd (msg_value s' h) = take (unat (msg_ts (msghdrs s ! h))) (concat (map (seg_bytes s) xs) @ seg_bytes s' x @ concat (map (seg_bytes s') ys))"
    using msg_value_eq [OF msg_wfD(2) [OF wf(2)] own] by (simp add: b hdr pre)
  have "m \<le> unat (msg_ts (msghdrs s ! h)) - 8 * length xs" using n by linarith
  then show ?thesis unfolding v v' using n len x by (simp add: min_def)
qed

lemma snd_tlen_unat: "msg_tables s \<Longrightarrow> unat (snd_tlen left s) = min (unat left) 8"
  by (simp add: snd_tlen_def tables_info word_less_nat_alt min_def)

lemma msgsnd_body_post:
  assumes wf: "msg_wf {} L held s" and t: "held t = {h}" and ok: "phase_ok L s (Sending a (SndBody h next left p))"
    and bs: "e = 0 \<Longrightarrow> length bs = unat (snd_tlen left s)"
  shows "\<exists>nxt s'. msgsnd_body env a h next left p (e, bs) s = Some (nxt, s') \<and> msg_out s' = msg_out s \<and>
    (\<exists>n ty cs. phase_pend s (Sending a (SndBody h next left p)) = Writing (snd_ix a) n ty cs \<and> 1 \<le> ty \<and>
      (if e \<noteq> 0 then nxt = SndReturn e \<and> msg_post t held L s (msg_queue s) Nothing Idle s'
       else if left \<le> 8 then length (cs @ bs) = n \<and> (\<exists>e. nxt = SndReturn e \<and> snd_done env a t held L s (ty, cs @ bs) e s')
       else (\<exists>next. nxt = SndBody h next (left - 8) (p + 8)) \<and> length (cs @ bs) < n \<and>
         msg_post t held L s (msg_queue s) (Writing (snd_ix a) n ty (cs @ bs)) (Sending a nxt) s'))"
proof -
  let ?m = "msghdrs s ! h" and ?n = "unat (snd_tlen left s)"
  let ?ts = "unat (msg_ts ?m)"
  note tabs = tables_info [OF msg_wfD(1) [OF wf]]
  have own: "h < 40" "l_hown L h \<noteq> HFree" and h: "h \<in> held t" using held_own [OF wf, of h t] t by auto
  have i: "snd_ix a < 40" and ty: "1 \<le> msg_type ?m" and pos: "0 < left" and le: "unat left \<le> ?ts"
    and at: "seg_at L s h next (?ts - unat left)" using ok by simp_all
  have upos: "0 < unat left" using pos by (simp add: word_less_nat_alt)
  have n: "?ts - unat left < ?ts" using le upos by simp
  obtain xs x ys where b: "l_body L h = xs @ x # ys" "?ts - unat left = 8 * length xs" "next = int x" "x < 2048"
    "if ?ts - unat left + 8 < ?ts then seg_at L s h (msgmaps s ! x) (?ts - unat left + 8) else msgmaps s ! x = - 1"
    by (rule seg_at_step [OF wf h at n]) blast
  have tlen: "?n = min (unat left) 8" by (rule snd_tlen_unat [OF msg_wfD(1) [OF wf]])
  obtain s1 where s1: "pool_store (nat (int x * 8)) ?n bs s = Some s1" "s1 = s\<lparr>msgpool := msgpool s1\<rparr>" "length (msgpool s1) = 16384"
    "\<And>y. y \<noteq> x \<Longrightarrow> y < 2048 \<Longrightarrow> seg_bytes s1 y = seg_bytes s y" "take (length (take ?n bs)) (seg_bytes s1 x) = take ?n bs"
    by (rule pool_store_run [OF msg_wfD(1) [OF wf] b(4), of ?n bs]) (use tlen in auto)
  have xb: "x \<in> set (l_body L h)" by (simp add: b)
  note wf1 = store_wf [OF wf t xb s1(2,3,4)]
  note chain = post_chain [OF wf1(2,3)]
  obtain P where P: "s1 = s\<lparr>msgpool := P\<rparr>" using s1(2) by blast
  have same: "msghdrs s1 = msghdrs s" "msgmaps s1 = msgmaps s" "msg_out s1 = msg_out s" "msginfo s1 = msginfo s" by (simp_all add: P)
  have run: "msgsnd_body env a h next left p (e, bs) s =
    (if e \<noteq> 0 then msgsnd_abort a h e s1
     else msgsnd_next_seg env a h (msgmaps s ! x) (left - snd_tlen left s) (p + snd_tlen left s) s1)"
    using s1(1) b(3,4) by (simp add: msgsnd_body_def tabs msg_map_def same Let_def)
  let ?cs = "take (?ts - unat left) (snd (msg_value s h))"
  have cs: "length ?cs = ?ts - unat left" using msg_value_length [OF wf own] by simp
  have pend: "phase_pend s (Sending a (SndBody h next left p)) = Writing (snd_ix a) ?ts (msg_type ?m) ?cs" by simp
  show ?thesis
  proof (cases "e = 0")
    case False
    obtain s' where "msgsnd_abort a h e s1 = Some (SndReturn e, s')" "msg_out s' = msg_out s1"
      "msg_post t held L s1 (msg_queue s1) Nothing Idle s'"
      using msgsnd_abort_post [OF wf1(1) t i] by blast
    then show ?thesis using False chain(1) same(3) wf1(3) ty unfolding run pend by auto
  next
    case True
    have lbs: "length bs = ?n" using bs True by simp
    have val: "take (8 * length xs + ?n) (snd (msg_value s1 h)) = take (8 * length xs) (snd (msg_value s h)) @ bs"
      by (rule store_value [OF wf wf1(1) h b(1) s1(4)]) (use s1(5) lbs tlen same b(2) le in auto)
    show ?thesis
    proof (cases "left \<le> 8")
      case small: True
      then have ul: "unat left \<le> 8" by (simp add: word_le_nat_alt)
      have l: "snd_tlen left s = left" using small by (simp add: snd_tlen_def tabs leD)
      have tot: "8 * length xs + unat left = ?ts" using b(2) le by simp
      have all: "snd (msg_value s1 h) = ?cs @ bs"
        using val msg_value_length [OF wf1(1) own] tot b(2) by (simp add: l same)
      have v: "msg_value s1 h = (msg_type ?m, ?cs @ bs)" using all by (simp add: msg_value_def Let_def same)
      have "msgmaps s ! x = - 1" using b(5) ul le by (simp split: if_split_asm)
      then obtain e' s' where "msgsnd_next_seg env a h (msgmaps s ! x) 0 (p + left) s1 = Some (SndReturn e', s')" "msg_out s' = msg_out s1"
        "snd_done env a t held L s1 (msg_value s1 h) e' s'"
        using msgsnd_next_post [OF wf1(1) t i, of 0 "msgmaps s ! x" env "p + left"] ty same by auto
      moreover have "length (?cs @ bs) = ?ts" using cs lbs l le by simp
      ultimately show ?thesis
        using True small chain(2) same(3) ty unfolding run pend by (auto simp: l v)
    next
      case big: False
      then have ul: "8 < unat left" by (simp add: word_le_nat_alt not_le)
      have l: "snd_tlen left s = 8" using big by (simp add: snd_tlen_def tabs not_le)
      have u: "unat (left - 8) = unat left - 8" using big by (simp add: unat_sub not_le less_imp_le)
      have nz: "left - 8 \<noteq> 0" using big by auto
      have n8: "?ts - (unat left - 8) = 8 * length xs + 8" using b(2) ul le by simp
      have at': "unat (left - 8) \<le> unat (msg_ts (msghdrs s1 ! h)) \<and> seg_at L s1 h (msgmaps s ! x) (unat (msg_ts (msghdrs s1 ! h)) - unat (left - 8))"
        using b(2,5) ul le u n8 by (simp add: same seg_at_def split: if_split_asm)
      obtain s' where r: "msgsnd_next_seg env a h (msgmaps s ! x) (left - 8) (p + 8) s1 = Some (SndBody h (msgmaps s ! x) (left - 8) (p + 8), s')"
        "msg_out s' = msg_out s1" "msg_post t held L s1 (msg_queue s1) (Writing (snd_ix a) ?ts (msg_type ?m)
         (take (?ts - unat (left - 8)) (snd (msg_value s1 h)))) (Sending a (SndBody h (msgmaps s ! x) (left - 8) (p + 8))) s'"
        using msgsnd_next_post [OF wf1(1) t i, of "left - 8" "msgmaps s ! x" env "p + 8"] ty at' nz same by auto
      have "take (?ts - unat (left - 8)) (snd (msg_value s1 h)) = ?cs @ bs" using val by (simp add: u n8 l b(2))
      moreover have "length (?cs @ bs) < ?ts" using cs lbs l ul le by simp
      ultimately show ?thesis
        using True big r chain(1) same(3) wf1(3) ty unfolding run pend by (auto simp: l)
    qed
  qed
qed

end
