(* ===== verification/Sysv_Msg_Receive.thy ===== *)
theory Sysv_Msg_Receive
  imports Sysv_Msg_Send
begin

text \<open>The pieces of \<open>msgrcv_nocancel\<close>: the first message of the wanted type leaves its queue and is
  copied out segment by segment.\<close>

section \<open>Receiving\<close>

definition mq_wants :: "int \<Rightarrow> int \<times> u8 list \<Rightarrow> bool" where
  "mq_wants msgtyp v \<longleftrightarrow> msgtyp = 0 \<or> rcv_match msgtyp (fst v)"

lemma rcv_wants_value: "rcv_wants a s h = mq_wants (rcv_msgtyp a) (msg_value s h)"
  by (simp add: rcv_wants_def mq_wants_def msg_value_def Let_def)

lemma find_map: "find P (map f xs) = map_option f (find (\<lambda>x. P (f x)) xs)"
  by (induction xs) auto

lemma remove1_map_find:
  "find (\<lambda>x. P (f x)) xs = Some x \<Longrightarrow> distinct xs \<Longrightarrow> map f (remove1 x xs) = remove1 (f x) (map f xs)"
proof (induction xs)
  case (Cons y xs)
  then show ?case
  proof (cases "P (f y)")
    case False
    then have x: "find (\<lambda>x. P (f x)) xs = Some x" using Cons.prems by simp
    then have "P (f x)" by (metis (mono_tags, lifting) find_Some_iff)
    then have "f x \<noteq> f y" "x \<noteq> y" using False by auto
    then show ?thesis using Cons.IH [OF x] Cons.prems by simp
  qed simp
qed simp

lemma msgrcv_try_post:
  assumes wf: "msg_wf {} L held s" and i: "rcv_ix a < 40" and t: "held t = {}"
    and live: "msg_qbytes (msqids s ! rcv_ix a) \<noteq> 0"
  shows "\<exists>nxt s' q. msgrcv_try env a s = Some (nxt, s') \<and> msg_out s' = msg_out s \<and> msg_queue s (rcv_ix a) = Some q \<and>
    (case find (mq_wants (rcv_msgtyp a)) q of
       None \<Rightarrow> nxt = (if rcv_msgflg a AND IPC_NOWAIT \<noteq> 0 then RcvReturn ENOMSG None else RcvSleep) \<and>
         msg_post t held L s (msg_queue s) Nothing (after_rcv a nxt) s'
     | Some v \<Rightarrow>
         if rcv_msgsz a < of_nat (length (snd v)) \<and> rcv_msgflg a AND MSG_NOERROR = 0
         then nxt = RcvReturn E2BIG None \<and> msg_post t held L s (msg_queue s) Nothing Idle s'
         else (\<exists>m. mac_sysvmsq_check_msgrcv env m \<noteq> 0 \<and> nxt = RcvReturn (mac_sysvmsq_check_msgrcv env m) None \<and>
             msg_post t held L s (msg_queue s) Nothing Idle s') \<or>
           (\<exists>h. nxt = RcvType h (min (rcv_msgsz a) (of_nat (length (snd v)))) \<and>
             msg_post t held L s ((msg_queue s)(rcv_ix a := Some (remove1 v q))) (Reading v) (Receiving a nxt) s'))"
proof -
  let ?i = "rcv_ix a" let ?hs = "l_queue L ?i"
  have quiet: "msg_post t held L s (msg_queue s) Nothing p s" if "p = Idle \<or> p = Receiving a RcvSleep" for p
    using that i by (intro post_same [OF wf t]) auto
  have q: "msg_queue s ?i = Some (map (msg_value s) ?hs)" using msg_queue_eq [OF wf i] live by simp
  have wants: "(\<lambda>h. mq_wants (rcv_msgtyp a) (msg_value s h)) = rcv_wants a s" by (simp add: fun_eq_iff rcv_wants_value)
  have fnd: "find (mq_wants (rcv_msgtyp a)) (map (msg_value s) ?hs) = map_option (msg_value s) (find (rcv_wants a s) ?hs)"
    by (simp add: find_map wants)
  note attempt = msgrcv_try_wf [OF wf refl i _ live t, of env, simplified]
  show ?thesis
  proof (cases "find (rcv_wants a s) ?hs")
    case None
    then show ?thesis using attempt fnd q quiet by (auto simp: after_rcv_def)
  next
    case (Some h)
    have h: "h \<in> set ?hs" using Some by (metis find_Some_iff nth_mem)
    have own: "h < 40" "l_hown L h \<noteq> HFree" using queue_own [OF msg_wfD(3) [OF wf] i h] by auto
    have len: "of_nat (length (snd (msg_value s h))) = (ucast (msg_ts (msghdrs s ! h)) :: u64)"
      using msg_value_length [OF wf own] by (simp add: of_nat_unat)
    show ?thesis
    proof (cases "rcv_check env a (msghdrs s ! h) = 0")
      case False
      then show ?thesis
        using attempt Some fnd q quiet [of Idle] by (auto simp: rcv_check_def len split: if_splits)
    next
      case True
      obtain s' where s': "msgrcv_try env a s = Some (RcvType h (min (rcv_msgsz a) (ucast (msg_ts (msghdrs s ! h)))), s')"
        "msg_wf {} (lay_deq ?i t h L) (held(t := {h})) s'" "relinked s s'"
        "msg_qbytes (msqids s' ! ?i) = msg_qbytes (msqids s ! ?i)" "\<forall>j. j \<noteq> ?i \<longrightarrow> msqids s' ! j = msqids s ! j" "msg_out s' = msg_out s"
        using attempt Some True by auto
      have val: "msg_value s' = msg_value s" using relinked_value [OF s'(3)] .
      have dist: "distinct ?hs"
        using queues_wfD [OF msg_wfD(4) [OF wf] i] live by (auto simp: queue_wf_def intro: hdrs.chain_distinct)
      have rm: "map (msg_value s) (remove1 h ?hs) = remove1 (msg_value s h) (map (msg_value s) ?hs)"
        by (rule remove1_map_find [of "mq_wants (rcv_msgtyp a)"]) (simp_all add: wants Some dist)
      have "msg_queue s' = (msg_queue s)(?i := Some (remove1 (msg_value s h) (map (msg_value s) ?hs)))"
      proof
        fix j
        show "msg_queue s' j = ((msg_queue s)(?i := Some (remove1 (msg_value s h) (map (msg_value s) ?hs)))) j"
        proof (cases "j < 40")
          case True
          then show ?thesis
            using msg_queue_eq [OF s'(2) True] msg_queue_eq [OF wf True] s'(4,5) live i by (auto simp: val lay_deq_def rm)
        next
          case False
          then show ?thesis
            using i msg_queue_none [OF msg_wfD(1) [OF wf] False] msg_queue_none [OF msg_wfD(1) [OF s'(2)] False] by auto
        qed
      qed
      moreover have "kept (\<Union>t'\<in>- {t}. held t') L s (lay_deq ?i t h L) s'"
        by (rule kept_relinked [OF s'(3)]) (simp add: lay_deq_def)
      moreover have "msg_ts (msghdrs s' ! h) = msg_ts (msghdrs s ! h)" using s'(3) by (simp add: relinked_def)
      ultimately have "msg_post t held L s ((msg_queue s)(?i := Some (remove1 (msg_value s h) (map (msg_value s) ?hs)))) (Reading (msg_value s h))
          (Receiving a (RcvType h (min (rcv_msgsz a) (ucast (msg_ts (msghdrs s ! h)))))) s'"
        using i by (intro msg_post_I [OF s'(2)]) (simp_all add: val)
      then show ?thesis
        using s'(1,6) Some fnd q True by (auto simp: len rcv_check_def E2BIG_def split: if_splits)
    qed
  qed
qed

lemma msgrcv_start_post:
  assumes wf: "msg_wf {} L held s" and t: "held t = {}"
  shows "(\<exists>nxt. msgrcv_start env a s = Some (nxt, s) \<and> (\<exists>e. e \<noteq> 0 \<and> nxt = RcvReturn e None) \<and> msg_post t held L s (msg_queue s) Nothing (after_rcv a nxt) s) \<or>
    (rcv_ix a < 40 \<and> msg_qbytes (msqids s ! rcv_ix a) \<noteq> 0 \<and> msgrcv_start env a s = msgrcv_try env a s)"
proof -
  have same: "msg_post t held L s (msg_queue s) Nothing Idle s" by (intro post_same [OF wf t]) simp_all
  show ?thesis
  proof (rule msq_lookup_cases [OF msg_wfD(1) [OF wf], of env "rcv_msqid a"])
    assume "msq_lookup env (rcv_msqid a) s = Some (Inl EINVAL, s)"
    then show ?thesis using same by (simp add: msgrcv_start_def after_rcv_def EINVAL_def)
  next
    assume l: "msq_lookup env (rcv_msqid a) s = Some (Inr (rcv_ix a, msqids s ! rcv_ix a), s)"
      and i: "rcv_ix a < 40" and live: "msg_qbytes (msqids s ! rcv_ix a) \<noteq> 0"
    let ?q = "msqids s ! rcv_ix a"
    show ?thesis
    proof (cases "ipcperm (msg_cred env) (msg_perm ?q) IPC_R = 0 \<and> mac_sysvmsq_check_msqrcv env ?q = 0")
      case True
      then show ?thesis using i live by (simp add: msgrcv_start_def l)
    next
      case False
      then show ?thesis using same
        by (cases "ipcperm (msg_cred env) (msg_perm ?q) IPC_R = 0") (simp_all add: msgrcv_start_def l after_rcv_def)
    qed
  qed
qed

lemma msgrcv_wake_post:
  assumes wf: "msg_wf {} L held s" and t: "held t = {}" and i: "rcv_ix a < 40"
  shows "(\<exists>nxt. msgrcv_wake env slept a s = Some (nxt, s) \<and> msg_post t held L s (msg_queue s) Nothing (after_rcv a nxt) s) \<or>
    (msg_qbytes (msqids s ! rcv_ix a) \<noteq> 0 \<and> msgrcv_wake env slept a s = msgrcv_try env a s)"
proof -
  have same: "msg_post t held L s (msg_queue s) Nothing Idle s" by (intro post_same [OF wf t]) simp_all
  show ?thesis
    using same i tables_info [OF msg_wfD(1) [OF wf]] by (auto simp: msgrcv_wake_def msq_def after_rcv_def)
qed

lemma msgrcv_done_post:
  assumes wf: "msg_wf {} L held s" and t: "held t = {h}"
  shows "\<exists>s'. msgrcv_done a h e r s = Some (RcvReturn e r, s') \<and> msg_out s' = msg_out s \<and>
    msg_post t held L s (msg_queue s) Nothing Idle s'"
proof -
  obtain s1 where s1: "msg_freehdr h s = Some s1" "msg_out s1 = msg_out s" "msg_wf {} (lay_free h L) (held(t := {})) s1"
    "kept (\<Union>t'\<in>- {t}. held t') L s (lay_free h L) s1" "msg_queue s1 = msg_queue s"
    using free_post [OF wf t] by blast
  then have "msg_post t held L s (msg_queue s) Nothing Idle (msg_wakeup (ChanQueue (rcv_ix a)) s1)"
    by (intro idle_post [of "lay_free h L"]) simp_all
  then show ?thesis using s1 by (simp add: msgrcv_done_def)
qed

lemma copy_out_quiet:
  assumes wf: "msg_wf {} L held s"
  shows "msg_wf {} L held (msg_copy_out x d s)" "kept H L s L (msg_copy_out x d s)" "msg_queue (msg_copy_out x d s) = msg_queue s"
  using wf by simp_all

lemma msg_out_copy [simp]: "msg_out (msg_copy_out x d s) = msg_out s @ [(x, d)]"
  by (simp add: msg_copy_out_def)

lemma msgrcv_next_post:
  assumes wf: "msg_wf {} L held s" and t: "held t = {h}" and i: "rcv_ix a < 40" and sz: "sz \<le> ucast (msg_ts (msghdrs s ! h))"
    and at: "len < sz \<Longrightarrow> seg_at L s h next (unat len)"
  shows "\<exists>nxt s'. msgrcv_next_seg a h next len sz p s = Some (nxt, s') \<and> msg_out s' = msg_out s \<and>
    (if len < sz then nxt = RcvBody h next len sz p \<and> msg_post t held L s (msg_queue s) (Reading (msg_value s h)) (Receiving a nxt) s'
     else nxt = RcvReturn 0 (Some sz) \<and> msg_post t held L s (msg_queue s) Nothing Idle s')"
proof (cases "len < sz")
  case False
  then show ?thesis using msgrcv_done_post [OF wf t, of a 0 "Some sz"] by (auto simp: msgrcv_next_seg_def)
next
  case True
  have h: "h \<in> held t" using t by simp
  have "unat len < unat (msg_ts (msghdrs s ! h))"
    using True sz by (simp add: word_less_nat_alt word_le_nat_alt)
  then obtain x where x: "next = int x" "x < 2048" using seg_at_step [OF wf h at [OF True]] by (metis (full_types))
  have "msgrcv_next_seg a h next len sz p s = Some (RcvBody h next len sz p, s)"
    using True x tables_info [OF msg_wfD(1) [OF wf]] by (simp add: msgrcv_next_seg_def)
  moreover have "msg_post t held L s (msg_queue s) (Reading (msg_value s h)) (Receiving a (RcvBody h next len sz p)) s"
    using i sz at True t by (intro msg_post_I [OF wf]) (simp_all add: fun_upd_idem)
  ultimately show ?thesis using True by simp
qed

lemma msgrcv_type_post:
  assumes wf: "msg_wf {} L held s" and t: "held t = {h}" and ok: "phase_ok L s (Receiving a (RcvType h sz))"
  shows "\<exists>nxt s'. msgrcv_type env a h sz e s = Some (nxt, s') \<and>
    (if e \<noteq> 0 then nxt = RcvReturn e None \<and> msg_out s' = msg_out s \<and> msg_post t held L s (msg_queue s) Nothing Idle s'
     else msg_out s' = msg_out s @ [(rcv_msgp a, OutType (if msg_is64 env then fst (msg_value s h) else signed_take_bit 31 (fst (msg_value s h))))] \<and>
       (if sz = 0 then nxt = RcvReturn 0 (Some 0) \<and> msg_post t held L s (msg_queue s) Nothing Idle s'
        else (\<exists>next. nxt = RcvBody h next 0 sz (rcv_msgp a + (if msg_is64 env then 8 else 4))) \<and>
          msg_post t held L s (msg_queue s) (Reading (msg_value s h)) (Receiving a nxt) s'))"
proof -
  have own: "h < 40" using held_own [OF wf, of h t] t by auto
  have i: "rcv_ix a < 40" and sz: "sz \<le> ucast (msg_ts (msghdrs s ! h))" using ok by simp_all
  have m: "msg_hdr h s = Some (msghdrs s ! h)" using own tables_info [OF msg_wfD(1) [OF wf]] by (simp add: msg_hdr_def)
  have ty: "fst (msg_value s h) = msg_type (msghdrs s ! h)" by (simp add: msg_value_def Let_def)
  show ?thesis
  proof (cases "e = 0")
    case False
    then show ?thesis using msgrcv_done_post [OF wf t, of a e None] by (auto simp: msgrcv_type_def m)
  next
    case True
    let ?d = "OutType (if msg_is64 env then msg_type (msghdrs s ! h) else signed_take_bit 31 (msg_type (msghdrs s ! h)))"
    let ?s = "msg_copy_out (rcv_msgp a) ?d s" and ?p = "rcv_msgp a + (if msg_is64 env then 8 else 4)"
    note c = copy_out_quiet [OF wf, where x = "rcv_msgp a" and d = ?d]
    have at: "seg_at L ?s h (msg_spot (msghdrs s ! h)) (unat 0)" if "0 < sz"
    proof -
      have "msg_ts (msghdrs s ! h) \<noteq> 0" using that sz by (auto simp: word_less_nat_alt word_le_nat_alt)
      then show ?thesis using seg_at_start [OF c(1), of h t] t by simp
    qed
    have "\<exists>nxt s'. msgrcv_next_seg a h (msg_spot (msghdrs s ! h)) 0 sz ?p ?s = Some (nxt, s') \<and> msg_out s' = msg_out ?s \<and>
      (if 0 < sz then nxt = RcvBody h (msg_spot (msghdrs s ! h)) 0 sz ?p \<and> msg_post t held L ?s (msg_queue ?s) (Reading (msg_value ?s h)) (Receiving a nxt) s'
       else nxt = RcvReturn 0 (Some sz) \<and> msg_post t held L ?s (msg_queue ?s) Nothing Idle s')"
      by (rule msgrcv_next_post [OF c(1) t i _ at]) (use sz in simp_all)
    then obtain nxt s' where r: "msgrcv_next_seg a h (msg_spot (msghdrs s ! h)) 0 sz ?p ?s = Some (nxt, s')" "msg_out s' = msg_out ?s"
      "if 0 < sz then nxt = RcvBody h (msg_spot (msghdrs s ! h)) 0 sz ?p \<and> msg_post t held L ?s (msg_queue ?s) (Reading (msg_value ?s h)) (Receiving a nxt) s'
       else nxt = RcvReturn 0 (Some sz) \<and> msg_post t held L ?s (msg_queue ?s) Nothing Idle s'" by blast
    have run: "msgrcv_type env a h sz e s = Some (nxt, s')" using True r(1) by (simp add: msgrcv_type_def m)
    note chain = post_chain(1) [OF c(2,3)]
    show ?thesis
      using True run r(2,3) chain by (auto simp: ty word_gt_0 split: if_splits)
  qed
qed

text \<open>The bytes of one segment of a message.\<close>

lemma body_slice:
  assumes wf: "msg_wf {} L held s" and h: "h \<in> held t" and b: "l_body L h = xs @ x # ys"
    and m: "m \<le> 8" "8 * length xs + m \<le> unat (msg_ts (msghdrs s ! h))"
  shows "take m (seg_bytes s x) = take m (drop (8 * length xs) (snd (msg_value s h)))"
proof -
  have own: "h < 40" "l_hown L h \<noteq> HFree" using held_own [OF wf h] by auto
  have xs: "set xs \<subseteq> {..<2048}" "x < 2048" using segs_wfD(7) [OF msg_wfD(2) [OF wf] own(1)] by (auto simp: b)
  have len: "length (concat (map (seg_bytes s) xs)) = 8 * length xs" "length (seg_bytes s x) = 8"
    using body_prefix_length [OF msg_wfD(1) [OF wf] xs(1)] seg_bytes_length [OF msg_wfD(1) [OF wf] xs(2)] by simp_all
  have v: "snd (msg_value s h) = take (unat (msg_ts (msghdrs s ! h))) (concat (map (seg_bytes s) xs) @ seg_bytes s x @ concat (map (seg_bytes s) ys))"
    using msg_value_eq [OF msg_wfD(2) [OF wf] own] by (simp add: b)
  have "m \<le> unat (msg_ts (msghdrs s ! h)) - 8 * length xs" using m by linarith
  then show ?thesis unfolding v using m len by (simp add: drop_take min_def)
qed

lemma rcv_tlen_unat: "msg_tables s \<Longrightarrow> len < sz \<Longrightarrow> unat (rcv_tlen len sz s) = min (unat sz - unat len) 8"
proof -
  assume tab: "msg_tables s" and lt: "len < sz"
  have "unat (sz - len) = unat sz - unat len" using lt by (simp add: unat_sub)
  then show ?thesis by (simp add: rcv_tlen_def tables_info [OF tab] min_def word_le_nat_alt)
qed

lemma msgrcv_body_post:
  assumes wf: "msg_wf {} L held s" and t: "held t = {h}" and ok: "phase_ok L s (Receiving a (RcvBody h next len sz p))"
  shows "\<exists>nxt s'. msgrcv_body a h next len sz p e s = Some (nxt, s') \<and>
    (if e \<noteq> 0 then nxt = RcvReturn e None \<and> msg_out s' = msg_out s \<and> msg_post t held L s (msg_queue s) Nothing Idle s'
     else msg_out s' = msg_out s @ [(p, OutBytes (take 8 (drop (unat len) (take (unat sz) (snd (msg_value s h))))))] \<and>
       (if sz \<le> len + 8 then nxt = RcvReturn 0 (Some sz) \<and> msg_post t held L s (msg_queue s) Nothing Idle s'
        else (\<exists>next. nxt = RcvBody h next (len + 8) sz (p + 8)) \<and>
          msg_post t held L s (msg_queue s) (Reading (msg_value s h)) (Receiving a nxt) s'))"
proof -
  let ?m = "msghdrs s ! h" let ?ts = "unat (msg_ts ?m)"
  note tabs = tables_info [OF msg_wfD(1) [OF wf]]
  have h: "h \<in> held t" using t by simp
  have i: "rcv_ix a < 40" and lt: "len < sz" and sz: "sz \<le> ucast (msg_ts ?m)" and at: "seg_at L s h next (unat len)" using ok by simp_all
  have usz: "unat sz \<le> ?ts" "unat len < unat sz" using sz lt by (simp_all add: word_le_nat_alt word_less_nat_alt)
  have n: "unat len < ?ts" using usz by simp
  obtain xs x ys where b: "l_body L h = xs @ x # ys" "unat len = 8 * length xs" "next = int x" "x < 2048"
    "if unat len + 8 < ?ts then seg_at L s h (msgmaps s ! x) (unat len + 8) else msgmaps s ! x = - 1"
    by (rule seg_at_step [OF wf h at n]) blast
  let ?n = "unat (rcv_tlen len sz s)"
  have tlen: "?n = min (unat sz - unat len) 8" by (rule rcv_tlen_unat [OF msg_wfD(1) [OF wf] lt])
  have "nat (int x * 8) = 8 * x" by (simp add: nat_mult_distrib mult.commute)
  then have load: "pool_load (nat (next * msgssz (msginfo s))) ?n s = Some (take ?n (seg_bytes s x))"
    using b(3,4) tlen by (simp add: pool_load_def tabs seg_bytes_def min_def)
  have "take ?n (seg_bytes s x) = take ?n (drop (unat len) (snd (msg_value s h)))"
    using body_slice [OF wf h b(1), of ?n] tlen usz b(2) by simp
  also have "\<dots> = take 8 (drop (unat len) (take (unat sz) (snd (msg_value s h))))"
    using usz tlen by (simp add: drop_take min.commute)
  finally have bytes: "take ?n (seg_bytes s x) = take 8 (drop (unat len) (take (unat sz) (snd (msg_value s h))))" .
  show ?thesis
  proof (cases "e = 0")
    case False
    then show ?thesis using msgrcv_done_post [OF wf t, of a e None] load by (auto simp: msgrcv_body_def Let_def)
  next
    case True
    let ?d = "OutBytes (take ?n (seg_bytes s x))"
    let ?s = "msg_copy_out p ?d s"
    note c = copy_out_quiet [OF wf, where x = p and d = ?d]
    note chain = post_chain(1) [OF c(2,3)]
    have small: "?ts < 2 ^ 16" using unsigned_less [of "msg_ts ?m"] by simp
    have u8: "unat (len + 8) = unat len + 8"
      using usz small by (subst unat_add_lem [THEN iffD1]) simp_all
    have at': "seg_at L ?s h (msgmaps s ! x) (unat (len + 8))" if "len + 8 < sz"
      using that b(5) usz by (simp add: u8 word_less_nat_alt seg_at_def split: if_split_asm)
    have "\<exists>nxt s'. msgrcv_next_seg a h (msgmaps s ! x) (len + 8) sz (p + rcv_tlen len sz s) ?s = Some (nxt, s') \<and> msg_out s' = msg_out ?s \<and>
      (if len + 8 < sz then nxt = RcvBody h (msgmaps s ! x) (len + 8) sz (p + rcv_tlen len sz s) \<and>
         msg_post t held L ?s (msg_queue ?s) (Reading (msg_value ?s h)) (Receiving a nxt) s'
       else nxt = RcvReturn 0 (Some sz) \<and> msg_post t held L ?s (msg_queue ?s) Nothing Idle s')"
      by (rule msgrcv_next_post [OF c(1) t i _ at']) (use sz in simp_all)
    then obtain nxt s' where r: "msgrcv_next_seg a h (msgmaps s ! x) (len + 8) sz (p + rcv_tlen len sz s) ?s = Some (nxt, s')" "msg_out s' = msg_out ?s"
      "if len + 8 < sz then nxt = RcvBody h (msgmaps s ! x) (len + 8) sz (p + rcv_tlen len sz s) \<and>
         msg_post t held L ?s (msg_queue ?s) (Reading (msg_value ?s h)) (Receiving a nxt) s'
       else nxt = RcvReturn 0 (Some sz) \<and> msg_post t held L ?s (msg_queue ?s) Nothing Idle s'" by blast
    have "rcv_tlen len sz s = 8" if "len + 8 < sz"
    proof -
      have "?n = 8" using that tlen u8 by (simp add: word_less_nat_alt)
      then show ?thesis by (simp add: word_unat_eq_iff)
    qed
    moreover have "msgrcv_body a h next len sz p e s = Some (nxt, s')"
      using True load r(1) b(3,4) by (simp add: msgrcv_body_def Let_def msg_map_def tabs)
    ultimately show ?thesis
      using True r(2,3) chain unfolding bytes by (cases "len + 8 < sz") (auto simp: not_le)
  qed
qed

end
