(* ===== verification/Sysv_Msg_Control.thy ===== *)
theory Sysv_Msg_Control
  imports Sysv_Msg_Receive
begin

text \<open>Initialisation, \<open>msgget\<close>, \<open>msgctl\<close> with its three commands, and the listing of \<open>IPCS_msg_sysctl\<close>.\<close>

section \<open>Initialisation\<close>

definition msg_uninit :: "msg_state \<Rightarrow> bool" where
  "msg_uninit s \<longleftrightarrow> \<not> initted s \<and> msginfo s = init_msginfo \<and> msqids s = []"

definition lay_init :: msg_layout where
  "lay_init = \<lparr> l_segs = [0..<2048], l_hdrs = [0..<40], l_queue = (\<lambda>i. []), l_body = (\<lambda>h. []), l_hown = (\<lambda>h. HFree),
     l_sown = (\<lambda>x. None) \<rparr>"

lemma msgssz_scan_8: "msgssz_scan 0 8 = 8"
  by (subst msgssz_scan.simps) simp

lemma init_msginfo_checked: "msginfo_checked init_msginfo = init_msginfo"
  by (simp add: msginfo_checked_def init_msginfo_def MSGSSZ_def MSGSEG_def msgssz_scan_8)

context linked_cells
begin

lemma chain_upt:
  assumes "\<And>k. k < n \<Longrightarrow> f k = (if Suc k < n then ref (Suc k) else null)" "m < n"
  shows "chain f (ref m) [m..<n]"
  using assms(2)
proof (induction "n - m" arbitrary: m)
  case (Suc d)
  have e: "[m..<n] = m # [Suc m..<n]" using Suc.prems by (rule upt_conv_Cons)
  show ?case
  proof (cases "Suc m < n")
    case True
    have "chain f (ref (Suc m)) [Suc m..<n]" by (rule Suc.hyps(1)) (use Suc.hyps(2) True in simp_all)
    then show ?thesis using True assms(1) [OF Suc.prems] by (simp add: e)
  next
    case False
    then have "[Suc m..<n] = []" by simp
    then show ?thesis using False assms(1) [OF Suc.prems] by (simp add: e)
  qed
qed simp

end

lemma msginit_fails:
  assumes "msg_uninit s" "\<not> fst (msginit env s)"
  shows "msginit env s = (False, s)"
proof -
  have "s\<lparr>msginfo := init_msginfo\<rparr> = s" using assms(1) by (simp add: msg_uninit_def)
  then show ?thesis using assms by (auto simp: msginit_def msg_uninit_def init_msginfo_checked Let_def split: if_split_asm)
qed

lemma msginit_wf:
  assumes u: "msg_uninit s" and ok: "fst (msginit env s)"
  shows "msg_wf {} lay_init (\<lambda>t. {}) (snd (msginit env s))" "msg_queue (snd (msginit env s)) = (\<lambda>i. None)"
    "msg_out (snd (msginit env s)) = msg_out s"
proof -
  define s' where "s' = snd (msginit env s)"
  have s': "s' = s\<lparr>msginfo := init_msginfo, msgpool := replicate 16384 (junk_byte env), msgmaps := msgmaps_init 2048,
    free_msgmaps := 0, nfree_msgmaps := 2048, msghdrs := msghdrs_init 40 (junk_msg env), free_msghdrs := Some 0,
    msqids := msqids_init 40 (junk_msqid env), initted := True\<rparr>"
    using u ok unfolding s'_def msginit_def by (simp add: msg_uninit_def init_msginfo_checked Let_def split: if_split_asm)
      (simp add: init_msginfo_def MSGMAX_def MSGSSZ_def MSGSEG_def MSGTQL_def MSGMNI_def)
  have tab: "msg_tables s'"
    by (simp add: msg_tables_def s' msgmaps_init_def msghdrs_init_def msqids_init_def)
  have "segs.chain (seg_link s') (int 0) [0..<2048]"
    by (rule segs.chain_upt) (simp_all add: s' msgmaps_init_def)
  then have segs: "segs_wf lay_init s'"
    by (simp add: segs_wf_def lay_init_def s') auto
  have "hdrs.chain (hdr_link s') (Some 0) [0..<40]"
    by (rule hdrs.chain_upt) (simp_all add: s' msghdrs_init_def)
  then have hdrs: "hdrs_wf lay_init (\<lambda>t. {}) s'"
    by (simp add: hdrs_wf_def lay_init_def s') auto
  have q: "msg_qbytes (msqids s' ! i) = 0" if "i < 40" for i using that by (simp add: s' msqids_init_def)
  then have "queues_wf {} lay_init s'" by (simp add: queues_wf_def queue_wf_def lay_init_def)
  then show wf: "msg_wf {} lay_init (\<lambda>t. {}) (snd (msginit env s))" using tab segs hdrs by (simp add: msg_wf_def s'_def [symmetric])
  show "msg_queue (snd (msginit env s)) = (\<lambda>i. None)"
    using q by (auto simp: fun_eq_iff msg_queue_def s'_def [symmetric] tables_info [OF tab])
  show "msg_out (snd (msginit env s)) = msg_out s" by (simp add: s'_def [symmetric] s')
qed

lemma msginit_done: "msg_tables s \<Longrightarrow> msginit env s = (True, s)"
  by (simp add: msginit_def msg_tables_def)

lemma msg_queue_uninit: "msg_uninit s \<Longrightarrow> msg_queue s = (\<lambda>i. None)"
  by (simp add: fun_eq_iff msg_queue_def msg_uninit_def)

section \<open>Creating a queue\<close>

lemma msq_find_spec:
  assumes "r = msq_find P i qs"
  shows "r = i + length qs \<or> (i \<le> r \<and> r < i + length qs \<and> P (qs ! (r - i)))"
  using assms
proof (induction qs arbitrary: i)
  case (Cons q qs)
  show ?case
  proof (cases "P q")
    case False
    then show ?thesis using Cons.IH [of "Suc i"] Cons.prems by (auto simp: nth_Cons' Suc_diff_le)
  qed (use Cons.prems in auto)
qed simp

lemma create_wf:
  assumes wf: "msg_wf {} L held s" and i: "i < 40" and dead: "msg_qbytes (msqids s ! i) = 0"
  shows "msg_wf {} L held (msq_modify i (msgget_init env key flg (msginfo s)) s)"
    "msg_queue (msq_modify i (msgget_init env key flg (msginfo s)) s) = (msg_queue s)(i := Some [])"
proof -
  let ?s = "msq_modify i (msgget_init env key flg (msginfo s)) s"
  note tabs = tables_info [OF msg_wfD(1) [OF wf]]
  have empty: "l_queue L i = []" using queues_wfD [OF msg_wfD(4) [OF wf] i] dead by (simp add: queue_wf_def)
  show wf': "msg_wf {} L held ?s"
    by (rule msg_wf_msq_modify [OF wf i]) (simp_all add: queue_wf_def empty msgget_init_def tabs)
  have nth: "msqids ?s ! j = (if j = i then msgget_init env key flg (msginfo s) (msqids s ! i) else msqids s ! j)" for j
    by (rule msq_modify_nth [OF msg_wfD(1) [OF wf] i])
  show "msg_queue ?s = (msg_queue s)(i := Some [])"
  proof
    fix j
    show "msg_queue ?s j = ((msg_queue s)(i := Some [])) j"
    proof (cases "j = i")
      case True
      then show ?thesis using msg_queue_eq [OF wf' i] empty nth [of i] by (simp add: msgget_init_def tabs)
    next
      case False
      then show ?thesis
        using nth [of j] msg_queue_same [OF wf wf' refl _ kept_relinked [OF relinked_msq(1) refl], of j] by simp
    qed
  qed
qed

lemma msgget_found_run:
  "msg_tables s \<Longrightarrow> i < 40 \<Longrightarrow> msgget_found i s = Some (0, Some (signed_take_bit 31 (IXSEQ_TO_IPCID (int i) (msg_perm (msqids s ! i)))), s)"
  by (simp add: msgget_found_def msq_def tables_info)

lemma msgget_post:
  assumes wf: "msg_wf {} L held s" and t: "held t = {}"
  shows "\<exists>e r s'. msgget env key flg s = Some (e, r, s') \<and> msg_out s' = msg_out s \<and>
    (msg_post t held L s (msg_queue s) Nothing Idle s' \<or>
     (\<exists>i. msg_queue s i = None \<and> e = 0 \<and> msg_post t held L s ((msg_queue s)(i := Some [])) Nothing Idle s'))"
proof -
  note tab = msg_wfD(1) [OF wf] and tabs = tables_info [OF msg_wfD(1) [OF wf]]
  have same: "msg_post t held L s (msg_queue s) Nothing Idle s" by (intro post_same [OF wf t]) simp_all
  let ?i = "if key \<noteq> IPC_PRIVATE then msq_find (\<lambda>q. msg_qbytes q \<noteq> 0 \<and> ipc_key (msg_perm q) = key) 0 (msqids s) else 40"
  let ?j = "msq_find (\<lambda>q. msg_qbytes q = 0 \<and> \<not> msq_locked q) 0 (msqids s)"
  have run: "msgget env key flg s =
    (if ?i < 40 then do {
           q \<leftarrow> msq ?i s;
           let eval = ipcperm (msg_cred env) (msg_perm q) (flg AND 0x1C0);
           if flg AND IPC_CREAT \<noteq> 0 \<and> flg AND IPC_EXCL \<noteq> 0 then Some (EEXIST, None, s)
           else if eval \<noteq> 0 then Some (eval, None, s)
           else if mac_sysvmsq_check_msqget env q \<noteq> 0 then Some (mac_sysvmsq_check_msqget env q, None, s)
           else msgget_found ?i s
         }
     else if key = IPC_PRIVATE \<or> flg AND IPC_CREAT \<noteq> 0 then
       (if ?j = 40 then Some (ENOSPC, None, s)
        else do {
          _ \<leftarrow> msq ?j s;
          msgget_found ?j (msq_modify ?j (msgget_init env key flg (msginfo s)) s)
        })
     else Some (ENOENT, None, s))"
  proof -
    have n: "nat (msgmni (msginfo s)) = 40" "take 40 (msqids s) = msqids s" by (simp_all add: tabs)
    show ?thesis unfolding msgget_def msginit_done [OF tab] Let_def prod.case n by (simp only: not_True_eq_False if_False)
  qed
  show ?thesis
  proof (cases "?i < 40")
    case True
    then show ?thesis using same by (auto simp: run msq_def tabs msgget_found_run [OF tab] Let_def)
  next
    case False
    show ?thesis
    proof (cases "(key = IPC_PRIVATE \<or> flg AND IPC_CREAT \<noteq> 0) \<and> ?j \<noteq> 40")
      case create: True
      have j: "?j < 40" "msg_qbytes (msqids s ! ?j) = 0"
        using msq_find_spec [OF refl, of "\<lambda>q. msg_qbytes q = 0 \<and> \<not> msq_locked q" 0 "msqids s"] create tabs by auto
      note c = create_wf [OF wf j, of env key flg]
      have "msg_post t held L s ((msg_queue s)(?j := Some [])) Nothing Idle (msq_modify ?j (msgget_init env key flg (msginfo s)) s)"
        using c t by (intro idle_post [of L] kept_relinked relinked_msq) (simp_all add: fun_upd_idem)
      moreover have "msg_queue s ?j = None" using msg_queue_eq [OF wf j(1)] j(2) by simp
      moreover have "msgget env key flg s = Some (0, Some (signed_take_bit 31 (IXSEQ_TO_IPCID (int ?j) (msg_perm (msqids (msq_modify ?j (msgget_init env key flg (msginfo s)) s) ! ?j)))),
         msq_modify ?j (msgget_init env key flg (msginfo s)) s)"
        unfolding run using False create j msgget_found_run [OF msg_wfD(1) [OF c(1)] j(1)] by (simp add: msq_def tabs)
      ultimately show ?thesis by auto
    next
      case nothing: False
      then show ?thesis using same False by (auto simp: run)
    qed
  qed
qed

text \<open>The loop of \<open>IPC_RMID\<close> frees the messages one by one.\<close>

lemma rmid_free_kept:
  assumes "msg_wf X L held s" "i < 40" "i \<in> X" "set hs \<subseteq> held t" "hdrs.chain (hdr_link s) p hs"
  shows "\<exists>L' s'. msgrmid_free i p s = Some s' \<and> msg_wf X L' (held(t := held t - set hs)) s' \<and>
    l_queue L' = l_queue L \<and>
    msqids s' = (msqids s)[i := (msqids s ! i)\<lparr>msg_cbytes := msg_cbytes (msqids s ! i) - of_nat (queue_bytes s hs),
      msg_qnum := msg_qnum (msqids s ! i) - of_nat (length hs)\<rparr>] \<and> msg_out s' = msg_out s \<and>
    (\<forall>K. (\<forall>h\<in>K. h < 40 \<and> h \<notin> set hs \<and> l_hown L h \<noteq> HFree) \<longrightarrow> kept K L s L' s')"
  using assms
proof (induction hs arbitrary: L held s p)
  case Nil
  have "(msqids s)[i := msqids s ! i] = msqids s" by (rule list_update_id)
  then show ?case
    using Nil by (intro exI [of _ L] exI [of _ s]) (simp, subst msgrmid_free.simps, simp)
next
  case (Cons h hs)
  note wf = Cons.prems(1)
  note tab = msg_wfD(1) [OF wf] and tabs = tables_info [OF tab]
  let ?f = "\<lambda>q. q\<lparr>msg_cbytes := msg_cbytes q - ucast (msg_ts (msghdrs s ! h)), msg_qnum := msg_qnum q - 1\<rparr>"
  let ?s = "msq_modify i ?f s"
  have h: "p = Some h" "h \<in> held t" "h < 40" "l_hown L h = HHeld t" "h \<notin> set hs"
    using Cons.prems(4,5) hdrs_wfD(5) [OF msg_wfD(3) [OF wf], of t] hdrs.chain_distinct [OF Cons.prems(5)] by auto
  have wf1: "msg_wf X L held ?s"
    by (rule msg_wf_msq_modify [OF wf Cons.prems(2)]) (use Cons.prems(2,3) msg_wfD(4) [OF wf] in \<open>simp_all add: queues_wf_def\<close>)
  obtain s1 where s1: "msg_freehdr h ?s = Some s1" "msg_wf X (lay_free h L) (held(t := held t - {h})) s1"
    "msg_frame (set (l_body L h)) h ?s s1" "msqids s1 = msqids ?s" "msg_out s1 = msg_out ?s"
    "\<forall>h'. h' \<noteq> h \<longrightarrow> msghdrs s1 ! h' = msghdrs ?s ! h'"
    using freehdr_wf [OF wf1 h(2)] by blast
  have same: "msghdrs s1 ! x = msghdrs s ! x" if "x \<in> set hs" for x
  proof -
    have "x \<noteq> h" using that h(5) by blast
    then show ?thesis using s1(6) by simp
  qed
  have chain: "hdrs.chain (hdr_link s1) (msg_next (msghdrs s ! h)) hs"
    using Cons.prems(5) hdrs.chain_cong [of hs "hdr_link s1" "hdr_link s"] same by simp
  have sub: "set hs \<subseteq> (held(t := held t - {h})) t" using Cons.prems(4) h(5) by auto
  have bytes: "queue_bytes s1 hs = queue_bytes s hs"
    unfolding queue_bytes_def using same by (simp cong: map_cong)
  obtain L' s' where s': "msgrmid_free i (msg_next (msghdrs s ! h)) s1 = Some s'"
    "msg_wf X L' ((held(t := held t - {h}))(t := (held(t := held t - {h})) t - set hs)) s'"
    "l_queue L' = l_queue (lay_free h L)"
    "msqids s' = (msqids s1)[i := (msqids s1 ! i)\<lparr>msg_cbytes := msg_cbytes (msqids s1 ! i) - of_nat (queue_bytes s1 hs),
      msg_qnum := msg_qnum (msqids s1 ! i) - of_nat (length hs)\<rparr>]" "msg_out s' = msg_out s1"
    "\<forall>K. (\<forall>h'\<in>K. h' < 40 \<and> h' \<notin> set hs \<and> l_hown (lay_free h L) h' \<noteq> HFree) \<longrightarrow> kept K (lay_free h L) s1 L' s'"
    using Cons.IH [OF s1(2) Cons.prems(2,3) sub chain] by blast
  have "msgrmid_free i p s = Some s'"
    using h(1,3) s1(1) s'(1) by (subst msgrmid_free.simps) (simp add: msg_hdr_def tabs)
  moreover have "msg_wf X L' (held(t := held t - set (h # hs))) s'"
  proof -
    have "held t - {h} - set hs = held t - set (h # hs)" by auto
    then show ?thesis using s'(2) by (simp only: fun_upd_upd fun_upd_same)
  qed
  moreover have "msqids s' = (msqids s)[i := (msqids s ! i)\<lparr>msg_cbytes := msg_cbytes (msqids s ! i) - of_nat (queue_bytes s (h # hs)),
      msg_qnum := msg_qnum (msqids s ! i) - of_nat (length (h # hs))\<rparr>]"
    unfolding s'(4) s1(4) using Cons.prems(2) by (simp add: bytes msq_modify_def tabs diff_diff_add)
  moreover have "kept K L s L' s'" if K: "\<forall>x\<in>K. x < 40 \<and> x \<notin> set (h # hs) \<and> l_hown L x \<noteq> HFree" for K
  proof -
    have "kept K L ?s (lay_free h L) s1"
    proof (rule kept_frame [OF s1(3)])
      show "h \<notin> K" using K by auto
      show "l_body (lay_free h L) h' = l_body L h' \<and> set (l_body L h') \<inter> set (l_body L h) = {}" if "h' \<in> K" for h'
        using bodies_apart(1) [OF msg_wfD(2) [OF wf1] h(3), of h'] K that by auto
    qed
    moreover have "kept K L s L ?s" by (rule kept_relinked [OF relinked_msq(1) refl])
    moreover have "kept K (lay_free h L) s1 L' s'" using s'(6) K by auto
    ultimately show ?thesis by (blast intro: kept_trans)
  qed
  moreover have "l_queue L' = l_queue L" "msg_out s' = msg_out s" using s'(3,5) s1(5) by (simp_all add: lay_free_def)
  ultimately show ?case by blast
qed

text \<open>Removing a live queue: it either returns an error and changes nothing, or the queue is gone, its
  messages are freed and every other queue is as before.\<close>

lemma rmid_post:
  assumes wf: "msg_wf {} L held s" and i: "i < 40" and t: "held t = {}" and q: "msg_qbytes (msqids s ! i) \<noteq> 0"
  shows "(\<exists>e. e \<noteq> 0 \<and> msg_rmid env i s = Some (CtlReturn e None, s)) \<or>
    (\<exists>s'. msg_rmid env i s = Some (CtlReturn 0 (Some 0), s') \<and> msg_out s' = msg_out s \<and>
      msg_post t held L s ((msg_queue s)(i := None)) Nothing Idle s')"
proof -
  note tab = msg_wfD(1) [OF wf] and tabs = tables_info [OF msg_wfD(1) [OF wf]]
  note Q = queues_wfD [OF msg_wfD(4) [OF wf] i]
  let ?hs = "l_queue L i"
  have hs: "set ?hs \<subseteq> {..<40}" using queue_own [OF msg_wfD(3) [OF wf] i] by auto
  have qi: "msq i s = Some (msqids s ! i)" by (simp add: msq_def tabs i)
  have chain: "hdrs.chain (hdr_link s) (msg_first (msqids s ! i)) ?hs" using Q q by (simp add: queue_wf_def)
  obtain e where e: "msgrmid_check env (msg_first (msqids s ! i)) s = Some e"
    using rmid_check_run [OF tab hs chain] by blast
  let ?e = "ipcperm (msg_cred env) (msg_perm (msqids s ! i)) IPC_M"
  show ?thesis
  proof (cases "?e = 0 \<and> e = 0")
    case False
    then show ?thesis using e by (cases "?e = 0") (simp_all add: msg_rmid_def qi)
  next
    case True
    obtain L' s' where s': "msgrmid_free i (msg_first (msqids s ! i)) s = Some s'"
      "msg_wf {i} L' ((held(t := set ?hs))(t := (held(t := set ?hs)) t - set ?hs)) s'" "l_queue L' = l_queue (lay_limbo i t L)"
      "msqids s' = (msqids s)[i := (msqids s ! i)\<lparr>msg_cbytes := msg_cbytes (msqids s ! i) - of_nat (queue_bytes s ?hs),
        msg_qnum := msg_qnum (msqids s ! i) - of_nat (length ?hs)\<rparr>]" "msg_out s' = msg_out s"
      "\<forall>K. (\<forall>h\<in>K. h < 40 \<and> h \<notin> set ?hs \<and> l_hown (lay_limbo i t L) h \<noteq> HFree) \<longrightarrow> kept K (lay_limbo i t L) s L' s'"
      using rmid_free_kept [OF limbo_wf [OF wf i t] i, of ?hs t "msg_first (msqids s ! i)"] chain by auto
    have held: "(held(t := set ?hs))(t := (held(t := set ?hs)) t - set ?hs) = held" using t by (simp add: fun_upd_idem)
    note wf1 = s'(2) [unfolded held]
    let ?s = "msg_wakeup (ChanQueue i) (msq_modify i (\<lambda>q. q\<lparr>msg_qbytes := 0\<rparr>) s')"
    have qi': "msqids s' ! i = (msqids s ! i)\<lparr>msg_cbytes := 0, msg_qnum := 0\<rparr>"
      using Q q i by (simp add: s'(4) tabs queue_wf_def)
    have run: "msg_rmid env i s = Some (CtlReturn 0 (Some 0), ?s)"
      using True e i by (simp add: msg_rmid_def qi s'(1)) (simp add: msq_def qi' tables_info [OF msg_wfD(1) [OF wf1]])
    have wf2: "msg_wf {} L' held ?s"
      using msg_wf_msq_modify [OF wf1 i, of "{}" "\<lambda>q. q\<lparr>msg_qbytes := 0\<rparr>"] by (simp add: queue_wf_def s'(3) lay_limbo_def)
    have kept: "kept K L s L' ?s" if K: "\<And>h. h \<in> K \<Longrightarrow> h < 40 \<and> h \<notin> set ?hs \<and> l_hown L h \<noteq> HFree" for K
    proof -
      have "kept K (lay_limbo i t L) s L' s'" using s'(6) K by (auto simp: lay_limbo_def)
      then have "kept K L s L' s'" by (simp add: kept_def lay_limbo_def)
      then show ?thesis using kept_relinked [OF relinked_msq(1) refl, of K L' s'] kept_trans by fastforce
    qed
    have "msg_queue ?s j = ((msg_queue s)(i := None)) j" for j
    proof (cases "j = i")
      case True
      then show ?thesis using msg_queue_eq [OF wf2 i] msq_modify_nth [OF msg_wfD(1) [OF wf1] i] by simp
    next
      case False
      have "msg_queue ?s j = msg_queue s j"
      proof (rule msg_queue_same [OF wf wf2])
        show "kept (set (l_queue L j)) L s L' ?s" if "j < 40"
        proof (rule kept)
          fix h assume "h \<in> set (l_queue L j)"
          then show "h < 40 \<and> h \<notin> set ?hs \<and> l_hown L h \<noteq> HFree"
            using queue_own [OF msg_wfD(3) [OF wf] that, of h] queue_own [OF msg_wfD(3) [OF wf] i, of h] False by auto
        qed
      qed (use False msq_modify_nth [OF msg_wfD(1) [OF wf1] i] in \<open>simp_all add: s'(3,4) lay_limbo_def\<close>)
      then show ?thesis using False by simp
    qed
    moreover have "kept (\<Union>t'\<in>- {t}. held t') L s L' ?s"
    proof (rule kept)
      fix h assume "h \<in> (\<Union>t'\<in>- {t}. held t')"
      then obtain t' where "h \<in> held t'" by blast
      then show "h < 40 \<and> h \<notin> set ?hs \<and> l_hown L h \<noteq> HFree"
        using held_own [OF wf, of h t'] queue_own [OF msg_wfD(3) [OF wf] i, of h] by auto
    qed
    ultimately have "msg_post t held L s ((msg_queue s)(i := None)) Nothing Idle ?s"
      using wf2 t by (intro idle_post [of L']) (simp_all add: fun_upd_idem fun_eq_iff)
    then show ?thesis using run s'(5) by simp
  qed
qed

section \<open>Control operations\<close>

definition after_ctl :: "int \<Rightarrow> u64 \<Rightarrow> ctl_next \<Rightarrow> msg_phase" where
  "after_ctl msqid buf nxt = (case nxt of CtlSet \<Rightarrow> Setting msqid buf | CtlReturn e r \<Rightarrow> Idle)"

lemma msg_ipc_stat_post:
  assumes wf: "msg_wf {} L held s" and t: "held t = {}" and i: "i < 40"
  shows "\<exists>e r s'. msg_ipc_stat env i buf s = Some (CtlReturn e r, s') \<and> msg_post t held L s (msg_queue s) Nothing Idle s'"
proof -
  note tabs = tables_info [OF msg_wfD(1) [OF wf]]
  have same: "msg_post t held L s (msg_queue s) Nothing Idle s" by (intro post_same [OF wf t]) simp_all
  have out: "msg_post t held L s (msg_queue s) Nothing Idle (msg_copy_out buf d s)" for d
    using wf t by (intro idle_post [of L]) (simp_all add: fun_upd_idem)
  show ?thesis
    using same out i by (simp add: msg_ipc_stat_def msq_def tabs Let_def)
qed

lemma msgctl_start_post:
  assumes wf: "msg_wf {} L held s" and t: "held t = {}"
  shows "\<exists>nxt s'. msgctl_start env n cmd buf s = Some (nxt, s') \<and>
    (msg_post t held L s (msg_queue s) Nothing (after_ctl n buf nxt) s' \<or>
     (cmd = IPC_RMID \<and> nxt = CtlReturn 0 (Some 0) \<and> msg_queue s (nat (IPCID_TO_IX n)) \<noteq> None \<and>
      msg_post t held L s ((msg_queue s)(nat (IPCID_TO_IX n) := None)) Nothing Idle s'))"
proof -
  have same: "msg_post t held L s (msg_queue s) Nothing Idle s" by (intro post_same [OF wf t]) simp_all
  show ?thesis
  proof (rule msq_lookup_cases [OF msg_wfD(1) [OF wf], of env n])
    assume "msq_lookup env n s = Some (Inl EINVAL, s)"
    then show ?thesis using same by (simp add: msgctl_start_def after_ctl_def)
  next
    let ?i = "nat (IPCID_TO_IX n)" let ?q = "msqids s ! ?i"
    assume l: "msq_lookup env n s = Some (Inr (?i, ?q), s)" and i: "?i < 40" and live: "msg_qbytes ?q \<noteq> 0"
    have set: "msg_post t held L s (msg_queue s) Nothing (Setting n buf) s" using i by (intro post_same [OF wf t]) simp_all
    have alive: "msg_queue s ?i \<noteq> None" using msg_queue_eq [OF wf i] live by simp
    consider "mac_sysvmsq_check_msqctl env ?q cmd \<noteq> 0" | "mac_sysvmsq_check_msqctl env ?q cmd = 0" "cmd = IPC_RMID"
      | "mac_sysvmsq_check_msqctl env ?q cmd = 0" "cmd = IPC_STAT" | "mac_sysvmsq_check_msqctl env ?q cmd = 0" "cmd \<noteq> IPC_RMID" "cmd \<noteq> IPC_STAT"
      by blast
    then show ?thesis
    proof cases
      case 1
      then show ?thesis using same by (simp add: msgctl_start_def l after_ctl_def)
    next
      case 2
      then show ?thesis
        using rmid_post [OF wf i t live, of env] same alive by (auto simp: msgctl_start_def l after_ctl_def)
    next
      case 3
      then show ?thesis
        using msg_ipc_stat_post [OF wf t i, of env buf] by (auto simp: msgctl_start_def l after_ctl_def IPC_STAT_def IPC_RMID_def IPC_SET_def)
    next
      case 4
      then show ?thesis using same set by (simp add: msgctl_start_def l after_ctl_def Let_def)
    qed
  qed
qed

lemma msgctl_set_post:
  assumes wf: "msg_wf {} L held s" and t: "held t = {}" and i: "nat (IPCID_TO_IX n) < 40"
    and live: "msg_qbytes (msqids s ! nat (IPCID_TO_IX n)) \<noteq> 0"
  shows "\<exists>e r s'. msgctl_set env n (e', ds) s = Some (CtlReturn e r, s') \<and> msg_post t held L s (msg_queue s) Nothing Idle s'"
proof -
  let ?i = "nat (IPCID_TO_IX n)" let ?b = "if msg_is64 env then msqid_ds_user64tokernel ds else msqid_ds_user32tokernel ds"
  note tab = msg_wfD(1) [OF wf] and tabs = tables_info [OF msg_wfD(1) [OF wf]]
  have same: "msg_post t held L s (msg_queue s) Nothing Idle s" by (intro post_same [OF wf t]) simp_all
  define qb where "qb = (if msg_qbytes ?b > word_of_int (msgmnb (msginfo s)) then word_of_int (msgmnb (msginfo s)) else msg_qbytes ?b)"
  have qb: "qb \<le> 2048" by (simp add: qb_def tabs not_less)
  let ?f = "\<lambda>q. q\<lparr>msg_perm := (msg_perm q)
                     \<lparr>ipc_uid := ipc_uid (msg_perm ?b), ipc_gid := ipc_gid (msg_perm ?b),
                      ipc_mode := (ipc_mode (msg_perm q) AND NOT 0x1FF) OR (ipc_mode (msg_perm ?b) AND 0x1FF)\<rparr>,
                   msg_qbytes := qb, msg_ctime := msg_time env\<rparr>"
  have run: "msgctl_set env n (e', ds) s =
    (if e' \<noteq> 0 then Some (CtlReturn e' None, s)
     else if msg_qbytes ?b > msg_qbytes (msqids s ! ?i) \<and> suser (msg_cred env) \<noteq> 0 then Some (CtlReturn (suser (msg_cred env)) None, s)
     else if qb = 0 then Some (CtlReturn EINVAL None, s) else Some (CtlReturn 0 (Some 0), msq_modify ?i ?f s))"
    using i by (simp add: msgctl_set_def msg_ipc_set_def msq_def tabs qb_def Let_def)
  show ?thesis
  proof (cases "e' = 0 \<and> \<not> (msg_qbytes ?b > msg_qbytes (msqids s ! ?i) \<and> suser (msg_cred env) \<noteq> 0) \<and> qb \<noteq> 0")
    case False
    then show ?thesis using same unfolding run by auto
  next
    case True
    have wf': "msg_wf {} L held (msq_modify ?i ?f s)"
      by (rule msg_wf_msq_modify [OF wf i])
        (use queues_wfD [OF msg_wfD(4) [OF wf] i] live True qb in \<open>simp_all add: queue_wf_def\<close>)
    have "msg_post t held L s (msg_queue s) Nothing Idle (msq_modify ?i ?f s)"
      by (rule post_quiet [OF wf wf'])
        (use t live True in \<open>simp_all add: fun_upd_idem relinked_msq msq_modify_nth [OF tab i]\<close>)
    then show ?thesis using True unfolding run by auto
  qed
qed

lemma ipcs_msg_post:
  assumes wf: "msg_wf {} L held s" and t: "held t = {}"
  shows "\<exists>r. IPCS_msg_sysctl env ie oe isz dsz ipcs s = Some r \<and> msg_post t held L s (msg_queue s) Nothing Idle (snd (snd r))"
proof -
  note tab = msg_wfD(1) [OF wf] and tabs = tables_info [OF msg_wfD(1) [OF wf]]
  have same: "msg_post t held L s (msg_queue s) Nothing Idle s" by (intro post_same [OF wf t]) simp_all
  have out: "msg_post t held L s (msg_queue s) Nothing Idle (msg_copy_out p d s)" for p d
    using wf t by (intro idle_post [of L]) (simp_all add: fun_upd_idem)
  have iter: "\<exists>r. ipcs_msg_iter env oe dsz ipcs s = Some r \<and> msg_post t held L s (msg_queue s) Nothing Idle (snd (snd r))"
  proof (cases "0 \<le> ipcs_cursor ipcs \<and> ipcs_cursor ipcs < 40 \<and> ipcs_datalen ipcs = dsz")
    case False
    then show ?thesis using same by (auto simp: ipcs_msg_iter_def msginit_done [OF tab] tabs Let_def)
  next
    case True
    let ?c = "msq_find (\<lambda>q. msg_qbytes q \<noteq> 0) (nat (ipcs_cursor ipcs)) (drop (nat (ipcs_cursor ipcs)) (msqids s))"
    have "?c = 40 \<or> ?c < 40"
      using msq_find_spec [OF refl, of "\<lambda>q. msg_qbytes q \<noteq> 0" "nat (ipcs_cursor ipcs)" "drop (nat (ipcs_cursor ipcs)) (msqids s)"] True tabs
      by auto
    then show ?thesis
      using True same out by (auto simp: ipcs_msg_iter_def msginit_done [OF tab] tabs Let_def msq_def)
  qed
  show ?thesis using same out iter by (auto simp: IPCS_msg_sysctl_def Let_def)
qed

end
