(* ===== verification/Sysv_Msg_Threads.thy ===== *)
theory Sysv_Msg_Threads
  imports Sysv_Msg_Control
begin

text \<open>All threads together: configurations, the events that may happen in them, an abstract specification of
  the message queues, and the proof that every event of a reachable configuration succeeds, keeps the
  invariant and is a step of the specification.\<close>

section \<open>The subsystem under any interleaving\<close>

text \<open>A configuration gives the phase of every thread and the state of the subsystem.  An event of a
  thread outside the subsystem is a call; an event of a thread inside is the next piece of its call,
  with the answers of the rest of the kernel.  \<open>None\<close> is a crash.\<close>

type_synonym msg_config = "(nat \<Rightarrow> msg_phase) \<times> msg_state"

datatype msg_event =
    EvSend msg_env snd_args
  | EvReceive msg_env rcv_args
  | EvControl msg_env int int u64
  | EvGet msg_env int u32
  | EvIpcs msg_env int int int int ipcs_command
  | EvContinue msg_env int

fun event_env :: "msg_event \<Rightarrow> msg_env" where
  "event_env (EvSend env a) = env"
| "event_env (EvReceive env a) = env"
| "event_env (EvControl env n cmd buf) = env"
| "event_env (EvGet env key flg) = env"
| "event_env (EvIpcs env ie oe isz dsz ipcs) = env"
| "event_env (EvContinue env slept) = env"

fun msg_call_start :: "msg_event \<Rightarrow> msg_state \<Rightarrow> (msg_phase \<times> msg_state) option" where
  "msg_call_start (EvSend env a) s = map_option (\<lambda>(nxt, s). (after_snd a nxt, s)) (msgsnd_start env a s)"
| "msg_call_start (EvReceive env a) s = map_option (\<lambda>(nxt, s). (after_rcv a nxt, s)) (msgrcv_start env a s)"
| "msg_call_start (EvControl env n cmd buf) s = map_option (\<lambda>(nxt, s). (after_ctl n buf nxt, s)) (msgctl_start env n cmd buf s)"
| "msg_call_start (EvGet env key flg) s = map_option (\<lambda>(e, r, s). (Idle, s)) (msgget env key flg s)"
| "msg_call_start (EvIpcs env ie oe isz dsz ipcs) s = map_option (\<lambda>(e, r, s). (Idle, s)) (IPCS_msg_sysctl env ie oe isz dsz ipcs s)"
| "msg_call_start (EvContinue env slept) s = Some (Idle, s)"

fun msg_call_next :: "msg_env \<Rightarrow> int \<Rightarrow> msg_phase \<Rightarrow> msg_state \<Rightarrow> (msg_phase \<times> msg_state) option" where
  "msg_call_next env slept (Sending a (SndReturn e)) s = Some (Idle, s)"
| "msg_call_next env slept (Sending a (SndSleep c own)) s = map_option (\<lambda>(nxt, s). (after_snd a nxt, s)) (msgsnd_wake slept a own s)"
| "msg_call_next env slept (Sending a (SndType h)) s =
     map_option (\<lambda>(nxt, s). (after_snd a nxt, s)) (msgsnd_type env a h (copyin_type env (snd_msgp a)) s)"
| "msg_call_next env slept (Sending a (SndBody h next left p)) s = map_option (\<lambda>(nxt, s). (after_snd a nxt, s))
     (msgsnd_body env a h next left p (copyin_bytes env p (unat (snd_tlen left s))) s)"
| "msg_call_next env slept (Receiving a (RcvReturn e r)) s = Some (Idle, s)"
| "msg_call_next env slept (Receiving a RcvSleep) s = map_option (\<lambda>(nxt, s). (after_rcv a nxt, s)) (msgrcv_wake env slept a s)"
| "msg_call_next env slept (Receiving a (RcvType h sz)) s =
     map_option (\<lambda>(nxt, s). (after_rcv a nxt, s)) (msgrcv_type env a h sz (msg_copyout env (rcv_msgp a)) s)"
| "msg_call_next env slept (Receiving a (RcvBody h next len sz p)) s =
     map_option (\<lambda>(nxt, s). (after_rcv a nxt, s)) (msgrcv_body a h next len sz p (msg_copyout env p) s)"
| "msg_call_next env slept (Setting n buf) s =
     map_option (\<lambda>(nxt, s). (after_ctl n buf nxt, s)) (msgctl_set env n (copyin_msqid env buf) s)"
| "msg_call_next env slept Idle s = Some (Idle, s)"

definition msg_do :: "nat \<Rightarrow> msg_event \<Rightarrow> msg_config \<Rightarrow> msg_config option" where
  "msg_do t ev = (\<lambda>(ph, s).
     map_option (\<lambda>(p, s). (ph(t := p), s))
       (case ev of
          EvContinue env slept \<Rightarrow> msg_call_next env slept (ph t) s
        | _ \<Rightarrow> if ph t = Idle then msg_call_start ev s else Some (ph t, s)))"

text \<open>The documented contract of \<open>copyin\<close>: it returns zero only when it delivered every byte.\<close>

definition copyin_ok :: "msg_env \<Rightarrow> bool" where
  "copyin_ok env \<longleftrightarrow> (\<forall>p n bs. copyin_bytes env p n = (0, bs) \<longrightarrow> length bs = n)"

text \<open>The event finishes an \<open>IPC_SET\<close> whose queue was removed while the lock was released.\<close>

definition set_race :: "nat \<Rightarrow> msg_event \<Rightarrow> msg_config \<Rightarrow> bool" where
  "set_race t ev c \<longleftrightarrow>
     (case (ev, fst c t) of
        (EvContinue env slept, Setting n buf) \<Rightarrow> msg_queue (snd c) (nat (IPCID_TO_IX n)) = None
      | _ \<Rightarrow> False)"

section \<open>The specification\<close>

text \<open>What the subsystem promises: a partial map from indices to sequences of messages, and for every
  thread the message it is writing or reading.  Messages are appended whole and taken whole, the first
  that the receiver wants.\<close>

type_synonym mq = "(nat \<Rightarrow> (int \<times> u8 list) list option) \<times> (nat \<Rightarrow> msg_pending)"

inductive mq_step :: "nat \<Rightarrow> mq \<Rightarrow> mq \<Rightarrow> bool" where
  mq_none: "mq_step t (Q, P) (Q, P)"
| mq_create: "Q i = None \<Longrightarrow> P t = Nothing \<Longrightarrow> mq_step t (Q, P) (Q(i := Some []), P)"
| mq_remove: "Q i \<noteq> None \<Longrightarrow> P t = Nothing \<Longrightarrow> mq_step t (Q, P) (Q(i := None), P)"
| mq_begin: "P t = Nothing \<Longrightarrow> 1 \<le> ty \<Longrightarrow> 0 < n \<Longrightarrow> mq_step t (Q, P) (Q, P(t := Writing i n ty []))"
| mq_copy: "P t = Writing i n ty cs \<Longrightarrow> length (cs @ bs) < n \<Longrightarrow> mq_step t (Q, P) (Q, P(t := Writing i n ty (cs @ bs)))"
| mq_put: "P t = Writing i n ty cs \<Longrightarrow> length (cs @ bs) = n \<Longrightarrow> Q i = Some q \<Longrightarrow>
    mq_step t (Q, P) (Q(i := Some (q @ [(ty, cs @ bs)])), P(t := Nothing))"
| mq_put_empty: "P t = Nothing \<Longrightarrow> 1 \<le> ty \<Longrightarrow> Q i = Some q \<Longrightarrow> mq_step t (Q, P) (Q(i := Some (q @ [(ty, [])])), P)"
| mq_take: "P t = Nothing \<Longrightarrow> Q i = Some q \<Longrightarrow> find (mq_wants msgtyp) q = Some v \<Longrightarrow>
    mq_step t (Q, P) (Q(i := Some (remove1 v q)), P(t := Reading v))"
| mq_drop: "mq_step t (Q, P) (Q, P(t := Nothing))"

definition mq_abs :: "msg_config \<Rightarrow> mq" where
  "mq_abs = (\<lambda>(ph, s). (msg_queue s, \<lambda>t. phase_pend s (ph t)))"

text \<open>The invariant of a configuration.\<close>

definition conf_ok :: "msg_config \<Rightarrow> bool" where
  "conf_ok = (\<lambda>(ph, s). (msg_uninit s \<and> (\<forall>t. ph t = Idle)) \<or>
     (\<exists>L. msg_wf {} L (\<lambda>t. phase_held (ph t)) s \<and> (\<forall>t. phase_ok L s (ph t))))"

lemma conf_post:
  assumes wf: "msg_wf {} L (\<lambda>t. phase_held (ph t)) s" and ok: "\<And>t. phase_ok L s (ph t)"
    and post: "msg_post t (\<lambda>t. phase_held (ph t)) L s q v p s'"
  shows "conf_ok (ph(t := p), s') \<and> mq_abs (ph(t := p), s') = (q, (\<lambda>t. phase_pend s (ph t))(t := v))"
proof -
  obtain L' where L': "msg_wf {} L' ((\<lambda>t. phase_held (ph t))(t := phase_held p)) s'"
    "kept (\<Union>t'\<in>- {t}. phase_held (ph t')) L s L' s'" "msg_queue s' = q" "phase_ok L' s' p" "phase_pend s' p = v"
    using post by (auto simp: msg_post_def)
  have others: "phase_ok L' s' (ph t') \<and> phase_pend s' (ph t') = phase_pend s (ph t')" if "t' \<noteq> t" for t'
  proof -
    have sub: "phase_held (ph t') \<subseteq> (\<Union>t'\<in>- {t}. phase_held (ph t'))" using that by blast
    have own: "h < 40 \<and> l_hown L h \<noteq> HFree" if "h \<in> phase_held (ph t')" for h
      using held_own [OF wf, of h t'] that by simp
    show ?thesis using phase_kept [OF L'(2) sub msg_wfD(2) [OF wf] own] ok by simp
  qed
  have "(\<lambda>t'. phase_held ((ph(t := p)) t')) = (\<lambda>t. phase_held (ph t))(t := phase_held p)" by (simp add: fun_eq_iff)
  moreover have "phase_ok L' s' ((ph(t := p)) t')" for t' using others L'(4) by simp
  moreover have "(\<lambda>t'. phase_pend s' ((ph(t := p)) t')) = (\<lambda>t. phase_pend s (ph t))(t := v)"
    using others L'(5) by (simp add: fun_eq_iff)
  ultimately have "msg_wf {} L' (\<lambda>t'. phase_held ((ph(t := p)) t')) s'" "\<And>t'. phase_ok L' s' ((ph(t := p)) t')"
    "(\<lambda>t'. phase_pend s' ((ph(t := p)) t')) = (\<lambda>t. phase_pend s (ph t))(t := v)" using L'(1) by simp_all
  then show ?thesis unfolding conf_ok_def mq_abs_def prod.case L'(3) by blast
qed

text \<open>A piece succeeds, keeps the invariant and does what the specification allows.\<close>

definition piece_ok :: "nat \<Rightarrow> (nat \<Rightarrow> nat set) \<Rightarrow> msg_layout \<Rightarrow> msg_state \<Rightarrow> (nat \<Rightarrow> msg_pending) \<Rightarrow> (msg_phase \<times> msg_state) option \<Rightarrow> bool" where
  "piece_ok t held L s P r \<longleftrightarrow>
     (\<exists>p s' q v. r = Some (p, s') \<and> msg_post t held L s q v p s' \<and> mq_step t (msg_queue s, P) (q, P(t := v)))"

lemma piece_quiet: "r = Some (p, s') \<Longrightarrow> msg_post t held L s (msg_queue s) Nothing p s' \<Longrightarrow> piece_ok t held L s P r"
  unfolding piece_ok_def using mq_drop by blast

lemma piece_stays:
  assumes "r = Some (p, s')" "msg_post t held L s (msg_queue s) (P t) p s'"
  shows "piece_ok t held L s P r"
proof -
  have "mq_step t (msg_queue s, P) (msg_queue s, P(t := P t))" unfolding fun_upd_triv by (rule mq_none)
  then show ?thesis unfolding piece_ok_def using assms by blast
qed

lemma piece_snd_done:
  assumes "snd_done env a t held L s v e s'" "\<And>q. msg_queue s (snd_ix a) = Some q \<Longrightarrow>
    mq_step t (msg_queue s, P) ((msg_queue s)(snd_ix a := Some (q @ [v])), P(t := Nothing))"
  shows "piece_ok t held L s P (Some (Idle, s'))"
proof (cases "msg_queue s (snd_ix a)")
  case None
  then show ?thesis using assms(1) by (intro piece_quiet) (auto simp: snd_done_def)
next
  case (Some q)
  show ?thesis
  proof (cases "e = 0")
    case True
    then show ?thesis using assms(1) assms(2) [OF Some] Some unfolding piece_ok_def snd_done_def by auto
  next
    case False
    then show ?thesis using assms(1) Some by (intro piece_quiet) (auto simp: snd_done_def)
  qed
qed

lemma piece_send_type:
  assumes wf: "msg_wf {} L held s" and t: "held t = {h}" and ok: "phase_ok L s (Sending a (SndType h))" and P: "P t = Nothing"
  shows "piece_ok t held L s P (msg_call_next env slept (Sending a (SndType h)) s)"
proof -
  obtain e ty where c: "copyin_type env (snd_msgp a) = (e, ty)" by (cases "copyin_type env (snd_msgp a)")
  obtain nxt s' where r: "msgsnd_type env a h (e, ty) s = Some (nxt, s')"
    "if e \<noteq> 0 \<or> ty < 1 then nxt = SndReturn (if e \<noteq> 0 then e else EINVAL) \<and> msg_post t held L s (msg_queue s) Nothing Idle s'
     else if snd_msgsz a = 0 then \<exists>e. nxt = SndReturn e \<and> snd_done env a t held L s (ty, []) e s'
     else (\<exists>next. nxt = SndBody h next (snd_msgsz a) (snd_msgp a + (if msg_is64 env then 8 else 4))) \<and>
       msg_post t held L s (msg_queue s) (Writing (snd_ix a) (unat (snd_msgsz a)) ty []) (Sending a nxt) s'"
    using msgsnd_type_post [OF wf t ok, of env e ty] by blast
  have run: "msg_call_next env slept (Sending a (SndType h)) s = Some (after_snd a nxt, s')" using c r(1) by simp
  consider "e \<noteq> 0 \<or> ty < 1" | "e = 0" "1 \<le> ty" "snd_msgsz a = 0" | "e = 0" "1 \<le> ty" "snd_msgsz a \<noteq> 0" by linarith
  then show ?thesis
  proof cases
    case 1
    then show ?thesis using r(2) run by (intro piece_quiet) (auto simp: after_snd_def)
  next
    case 2
    then obtain e' where "nxt = SndReturn e'" "snd_done env a t held L s (ty, []) e' s'" using r(2) by auto
    moreover have "P(t := Nothing) = P" using P by (simp add: fun_upd_idem)
    ultimately show ?thesis unfolding run using P 2 by (auto simp: after_snd_def intro!: piece_snd_done mq_put_empty)
  next
    case 3
    then have "msg_post t held L s (msg_queue s) (Writing (snd_ix a) (unat (snd_msgsz a)) ty []) (after_snd a nxt) s'"
      using r(2) by (auto simp: after_snd_def)
    moreover have "mq_step t (msg_queue s, P) (msg_queue s, P(t := Writing (snd_ix a) (unat (snd_msgsz a)) ty []))"
      using 3 P by (intro mq_begin) (simp_all add: unat_gt_0)
    ultimately show ?thesis unfolding run piece_ok_def by blast
  qed
qed

lemma piece_send_body:
  assumes wf: "msg_wf {} L held s" and t: "held t = {h}" and ok: "phase_ok L s (Sending a (SndBody h next left p))"
    and P: "P t = phase_pend s (Sending a (SndBody h next left p))" and c: "copyin_ok env"
  shows "piece_ok t held L s P (msg_call_next env slept (Sending a (SndBody h next left p)) s)"
proof -
  obtain e bs where c1: "copyin_bytes env p (unat (snd_tlen left s)) = (e, bs)" by (cases "copyin_bytes env p (unat (snd_tlen left s))")
  have len: "e = 0 \<Longrightarrow> length bs = unat (snd_tlen left s)" using c c1 by (auto simp: copyin_ok_def)
  obtain nxt s' n ty cs where r: "msgsnd_body env a h next left p (e, bs) s = Some (nxt, s')"
    "P t = Writing (snd_ix a) n ty cs" "1 \<le> ty"
    "if e \<noteq> 0 then nxt = SndReturn e \<and> msg_post t held L s (msg_queue s) Nothing Idle s'
     else if left \<le> 8 then length (cs @ bs) = n \<and> (\<exists>e. nxt = SndReturn e \<and> snd_done env a t held L s (ty, cs @ bs) e s')
     else (\<exists>next. nxt = SndBody h next (left - 8) (p + 8)) \<and> length (cs @ bs) < n \<and>
       msg_post t held L s (msg_queue s) (Writing (snd_ix a) n ty (cs @ bs)) (Sending a nxt) s'"
    using msgsnd_body_post [OF wf t ok len, where env = env] P by metis
  have run: "msg_call_next env slept (Sending a (SndBody h next left p)) s = Some (after_snd a nxt, s')" using c1 r(1) by simp
  consider "e \<noteq> 0" | "e = 0" "left \<le> 8" | "e = 0" "\<not> left \<le> 8" by blast
  then show ?thesis
  proof cases
    case 1
    then show ?thesis using r(4) run by (intro piece_quiet) (auto simp: after_snd_def)
  next
    case 2
    then obtain e' where "nxt = SndReturn e'" "snd_done env a t held L s (ty, cs @ bs) e' s'" "length (cs @ bs) = n" using r(4) by auto
    then show ?thesis unfolding run using r(2) by (auto simp: after_snd_def intro!: piece_snd_done mq_put)
  next
    case 3
    then have "msg_post t held L s (msg_queue s) (Writing (snd_ix a) n ty (cs @ bs)) (after_snd a nxt) s'" "length (cs @ bs) < n"
      using r(4) by (auto simp: after_snd_def)
    then show ?thesis unfolding run piece_ok_def using mq_copy [of P t "snd_ix a" n ty cs bs, OF r(2)] by blast
  qed
qed

lemma piece_receive:
  assumes wf: "msg_wf {} L held s" and t: "held t = {}" and i: "rcv_ix a < 40" and live: "msg_qbytes (msqids s ! rcv_ix a) \<noteq> 0"
    and P: "P t = Nothing"
  shows "piece_ok t held L s P (map_option (\<lambda>(nxt, s). (after_rcv a nxt, s)) (msgrcv_try env a s))"
proof -
  obtain nxt s' q where r: "msgrcv_try env a s = Some (nxt, s')" "msg_queue s (rcv_ix a) = Some q"
    "case find (mq_wants (rcv_msgtyp a)) q of
       None \<Rightarrow> nxt = (if rcv_msgflg a AND IPC_NOWAIT \<noteq> 0 then RcvReturn ENOMSG None else RcvSleep) \<and>
         msg_post t held L s (msg_queue s) Nothing (after_rcv a nxt) s'
     | Some v \<Rightarrow>
         if rcv_msgsz a < of_nat (length (snd v)) \<and> rcv_msgflg a AND MSG_NOERROR = 0
         then nxt = RcvReturn E2BIG None \<and> msg_post t held L s (msg_queue s) Nothing Idle s'
         else (\<exists>m. mac_sysvmsq_check_msgrcv env m \<noteq> 0 \<and> nxt = RcvReturn (mac_sysvmsq_check_msgrcv env m) None \<and>
             msg_post t held L s (msg_queue s) Nothing Idle s') \<or>
           (\<exists>h. nxt = RcvType h (min (rcv_msgsz a) (of_nat (length (snd v)))) \<and>
             msg_post t held L s ((msg_queue s)(rcv_ix a := Some (remove1 v q))) (Reading v) (Receiving a nxt) s')"
    using msgrcv_try_post [OF wf i t live, where env = env] by blast
  have run: "map_option (\<lambda>(nxt, s). (after_rcv a nxt, s)) (msgrcv_try env a s) = Some (after_rcv a nxt, s')" using r(1) by simp
  show ?thesis
  proof (cases "msg_post t held L s (msg_queue s) Nothing (after_rcv a nxt) s'")
    case True
    then show ?thesis using run by (intro piece_quiet)
  next
    case False
    then obtain v where v: "find (mq_wants (rcv_msgtyp a)) q = Some v"
      "msg_post t held L s ((msg_queue s)(rcv_ix a := Some (remove1 v q))) (Reading v) (after_rcv a nxt) s'"
      using r(3) by (auto simp: after_rcv_def split: option.splits if_splits)
    moreover have "mq_step t (msg_queue s, P) ((msg_queue s)(rcv_ix a := Some (remove1 v q)), P(t := Reading v))"
      by (rule mq_take [of P t "msg_queue s" "rcv_ix a" q "rcv_msgtyp a" v]) (use P r(2) v in auto)
    ultimately show ?thesis unfolding run piece_ok_def by blast
  qed
qed

lemma piece_start:
  assumes wf: "msg_wf {} L held s" and t: "held t = {}" and P: "P t = Nothing"
  shows "piece_ok t held L s P (msg_call_start ev s)"
proof (cases ev)
  case (EvSend env a)
  obtain nxt s' where "msgsnd_start env a s = Some (nxt, s')" "msg_post t held L s (msg_queue s) Nothing (after_snd a nxt) s'"
    using msgsnd_start_post [OF wf t, where env = env and a = a] by blast
  then show ?thesis by (intro piece_quiet) (simp_all add: EvSend)
next
  case (EvReceive env a)
  consider nxt where "msgrcv_start env a s = Some (nxt, s)" "msg_post t held L s (msg_queue s) Nothing (after_rcv a nxt) s"
    | "rcv_ix a < 40" "msg_qbytes (msqids s ! rcv_ix a) \<noteq> 0" "msgrcv_start env a s = msgrcv_try env a s"
    using msgrcv_start_post [OF wf t, where env = env and a = a] by blast
  then show ?thesis
  proof cases
    case 1
    then show ?thesis by (intro piece_quiet) (simp_all add: EvReceive)
  next
    case 2
    then show ?thesis using piece_receive [OF wf t 2(1,2), where P = P] P by (simp add: EvReceive)
  qed
next
  case (EvControl env n cmd buf)
  let ?i = "nat (IPCID_TO_IX n)"
  obtain nxt s' where r: "msgctl_start env n cmd buf s = Some (nxt, s')"
    "msg_post t held L s (msg_queue s) Nothing (after_ctl n buf nxt) s' \<or>
     (cmd = IPC_RMID \<and> nxt = CtlReturn 0 (Some 0) \<and> msg_queue s ?i \<noteq> None \<and> msg_post t held L s ((msg_queue s)(?i := None)) Nothing Idle s')"
    using msgctl_start_post [OF wf t, where env = env and n = n and cmd = cmd and buf = buf] by blast
  have run: "msg_call_start ev s = Some (after_ctl n buf nxt, s')" using r(1) by (simp add: EvControl)
  show ?thesis
  proof (cases "msg_post t held L s (msg_queue s) Nothing (after_ctl n buf nxt) s'")
    case True
    then show ?thesis using run by (intro piece_quiet)
  next
    case False
    then have x: "after_ctl n buf nxt = Idle" "msg_queue s ?i \<noteq> None" "msg_post t held L s ((msg_queue s)(?i := None)) Nothing Idle s'"
      using r(2) by (auto simp: after_ctl_def)
    have "mq_step t (msg_queue s, P) ((msg_queue s)(?i := None), P(t := Nothing))"
      using mq_remove [of "msg_queue s" ?i P t] x(2) P by (simp add: fun_upd_idem)
    then show ?thesis unfolding run piece_ok_def using x by auto
  qed
next
  case (EvGet env key flg)
  obtain e r s' where r: "msgget env key flg s = Some (e, r, s')"
    "msg_post t held L s (msg_queue s) Nothing Idle s' \<or>
     (\<exists>i. msg_queue s i = None \<and> e = 0 \<and> msg_post t held L s ((msg_queue s)(i := Some [])) Nothing Idle s')"
    using msgget_post [OF wf t, where env = env and key = key and flg = flg] by blast
  have run: "msg_call_start ev s = Some (Idle, s')" using r(1) by (simp add: EvGet)
  show ?thesis
  proof (cases "msg_post t held L s (msg_queue s) Nothing Idle s'")
    case True
    then show ?thesis using run by (intro piece_quiet)
  next
    case False
    then obtain i where i: "msg_queue s i = None" "msg_post t held L s ((msg_queue s)(i := Some [])) Nothing Idle s'" using r(2) by blast
    have "mq_step t (msg_queue s, P) ((msg_queue s)(i := Some []), P(t := Nothing))"
      using mq_create [of "msg_queue s" i P t] i(1) P by (simp add: fun_upd_idem)
    then show ?thesis unfolding run piece_ok_def using i by auto
  qed
next
  case (EvIpcs env ie oe isz dsz ipcs)
  obtain r where "IPCS_msg_sysctl env ie oe isz dsz ipcs s = Some r" "msg_post t held L s (msg_queue s) Nothing Idle (snd (snd r))"
    using ipcs_msg_post [OF wf t] by blast
  then show ?thesis by (intro piece_quiet) (simp_all add: EvIpcs split: prod.split)
next
  case (EvContinue env slept)
  have "msg_post t held L s (msg_queue s) Nothing Idle s" by (intro post_same [OF wf t]) simp_all
  then show ?thesis using EvContinue by (intro piece_quiet) simp_all
qed

lemma piece_next:
  assumes wf: "msg_wf {} L held s" and t: "held t = phase_held p" and ok: "phase_ok L s p" and P: "P t = phase_pend s p"
    and c: "copyin_ok env" and race: "\<And>n buf. p = Setting n buf \<Longrightarrow> msg_queue s (nat (IPCID_TO_IX n)) \<noteq> None"
  shows "piece_ok t held L s P (msg_call_next env slept p s)"
proof (cases p)
  case Idle
  have "msg_post t held L s (msg_queue s) Nothing Idle s" using t Idle by (intro post_same [OF wf]) simp_all
  then show ?thesis using Idle by (intro piece_quiet) simp_all
next
  case (Setting n buf)
  have i: "nat (IPCID_TO_IX n) < 40" using ok Setting by simp
  have live: "msg_qbytes (msqids s ! nat (IPCID_TO_IX n)) \<noteq> 0" using race [OF Setting] msg_queue_eq [OF wf i] by auto
  have t0: "held t = {}" using t Setting by simp
  obtain e' ds where d: "copyin_msqid env buf = (e', ds)" by (cases "copyin_msqid env buf")
  obtain e r s' where "msgctl_set env n (e', ds) s = Some (CtlReturn e r, s')" "msg_post t held L s (msg_queue s) Nothing Idle s'"
    using msgctl_set_post [OF wf t0 i live, where env = env] by blast
  then show ?thesis by (intro piece_quiet) (simp_all add: Setting d after_ctl_def)
next
  case (Sending a nxt)
  then have i: "snd_ix a < 40" using ok by simp
  show ?thesis
  proof (cases nxt)
    case (SndReturn e)
    then show ?thesis using ok Sending by simp
  next
    case (SndSleep ch own)
    have t0: "held t = {}" using t by (simp add: Sending SndSleep)
    obtain nxt' s' where "msgsnd_wake slept a own s = Some (nxt', s')" "msg_post t held L s (msg_queue s) Nothing (after_snd a nxt') s'"
      using msgsnd_wake_post [OF wf i t0, where slept = slept and own = own] by blast
    then show ?thesis by (intro piece_quiet) (simp_all add: Sending SndSleep)
  next
    case (SndType h)
    then show ?thesis
      using piece_send_type [OF wf, of t h a P] t ok P by (simp only: Sending SndType phase_held.simps phase_pend.simps)
  next
    case (SndBody h nx left x)
    then show ?thesis using piece_send_body [OF wf _ _ _ c, of t h a nx left x P] t ok P by (simp only: Sending SndBody phase_held.simps)
  qed
next
  case (Receiving a nxt)
  then have i: "rcv_ix a < 40" using ok by simp
  show ?thesis
  proof (cases nxt)
    case (RcvReturn e r)
    then show ?thesis using ok Receiving by simp
  next
    case RcvSleep
    have t0: "held t = {}" "P t = Nothing" using t P by (simp_all add: Receiving RcvSleep)
    consider nxt where "msgrcv_wake env slept a s = Some (nxt, s)" "msg_post t held L s (msg_queue s) Nothing (after_rcv a nxt) s"
      | "msg_qbytes (msqids s ! rcv_ix a) \<noteq> 0" "msgrcv_wake env slept a s = msgrcv_try env a s"
      using msgrcv_wake_post [OF wf t0(1) i, where env = env and slept = slept] by blast
    then show ?thesis
    proof cases
      case 1
      then show ?thesis by (intro piece_quiet) (simp_all add: Receiving RcvSleep)
    next
      case 2
      then show ?thesis using piece_receive [OF wf t0(1) i 2(1), where P = P and env = env] t0(2) by (simp add: Receiving RcvSleep)
    qed
  next
    case (RcvType h sz)
    then have x: "held t = {h}" "phase_ok L s (Receiving a (RcvType h sz))" "P t = Reading (msg_value s h)" using t ok P Receiving by simp_all
    obtain nxt' s' where r: "msgrcv_type env a h sz (msg_copyout env (rcv_msgp a)) s = Some (nxt', s')"
      "msg_post t held L s (msg_queue s) Nothing (after_rcv a nxt') s' \<or> msg_post t held L s (msg_queue s) (P t) (after_rcv a nxt') s'"
      using msgrcv_type_post [OF wf x(1,2), of env "msg_copyout env (rcv_msgp a)"] x(3) by (auto simp: after_rcv_def split: if_splits)
    then have "msg_call_next env slept p s = Some (after_rcv a nxt', s')" by (simp add: Receiving RcvType)
    then show ?thesis using r(2) piece_quiet piece_stays by metis
  next
    case (RcvBody h nx len sz y)
    then have x: "held t = {h}" "phase_ok L s (Receiving a (RcvBody h nx len sz y))" "P t = Reading (msg_value s h)" using t ok P Receiving by simp_all
    obtain nxt' s' where r: "msgrcv_body a h nx len sz y (msg_copyout env y) s = Some (nxt', s')"
      "msg_post t held L s (msg_queue s) Nothing (after_rcv a nxt') s' \<or> msg_post t held L s (msg_queue s) (P t) (after_rcv a nxt') s'"
      using msgrcv_body_post [OF wf x(1,2), of "msg_copyout env y"] x(3) by (auto simp: after_rcv_def split: if_splits)
    then have "msg_call_next env slept p s = Some (after_rcv a nxt', s')" by (simp add: Receiving RcvBody)
    then show ?thesis using r(2) piece_quiet piece_stays by metis
  qed
qed

lemma uninit_lookup:
  assumes "msg_uninit s"
  shows "msq_lookup env n s = (if fst (msginit env s) then msq_lookup env n (snd (msginit env s)) else Some (Inl ENOMEM, s))"
proof (cases "fst (msginit env s)")
  case True
  obtain s0 where s0: "msginit env s = (True, s0)" using True by (cases "msginit env s") auto
  then have "msginit env s0 = (True, s0)" using msginit_done [OF msg_wfD(1) [OF msginit_wf(1) [OF assms True]]] by simp
  then show ?thesis by (simp add: msq_lookup_def s0)
next
  case False
  then show ?thesis by (simp add: msq_lookup_def msginit_fails [OF assms False])
qed

lemma uninit_start:
  assumes u: "msg_uninit s"
  shows "(\<exists>s'. msg_call_start ev s = Some (Idle, s') \<and> msg_uninit s') \<or>
    (fst (msginit (event_env ev) s) \<and> msg_call_start ev s = msg_call_start ev (snd (msginit (event_env ev) s)))"
proof -
  let ?env = "event_env ev"
  have out: "msg_uninit (msg_copy_out p d s)" for p d using u by (simp add: msg_uninit_def msg_copy_out_def)
  show ?thesis
  proof (cases "fst (msginit ?env s)")
    case False
    note f = msginit_fails [OF u False]
    have "msq_lookup ?env n s = Some (Inl ENOMEM, s)" for n using uninit_lookup [OF u] False by simp
    then show ?thesis using u out f
      by (cases ev) (auto simp: msgsnd_start_def msgrcv_start_def msgctl_start_def after_snd_def after_rcv_def after_ctl_def
        msgget_def IPCS_msg_sysctl_def ipcs_msg_iter_def Let_def)
  next
    case True
    obtain s0 where s0: "msginit ?env s = (True, s0)" using True by (cases "msginit ?env s") auto
    have s00: "msginit ?env s0 = (True, s0)" using msginit_done [OF msg_wfD(1) [OF msginit_wf(1) [OF u True]]] s0 by simp
    have l: "msq_lookup ?env n s = msq_lookup ?env n s0" for n using uninit_lookup [OF u] s0 by simp
    show ?thesis
    proof (cases ev)
      case (EvIpcs env ie oe isz dsz ipcs)
      then show ?thesis
        using u out s0 s00 by (cases "ie = 0 \<and> ipcs_magic ipcs = IPCS_MAGIC \<and> ipcs_op ipcs = IPCS_MSG_ITER")
          (auto simp: IPCS_msg_sysctl_def ipcs_msg_iter_def Let_def IPCS_MSG_CONF_def IPCS_MSG_ITER_def)
    qed (use u l s0 s00 in \<open>simp_all add: msgsnd_start_def msgrcv_start_def msgctl_start_def msgget_def\<close>)
  qed
qed

lemma conf_step:
  assumes ok: "conf_ok c" and c: "copyin_ok (event_env ev)" and race: "\<not> set_race t ev c"
  shows "\<exists>c'. msg_do t ev c = Some c' \<and> conf_ok c' \<and> mq_step t (mq_abs c) (mq_abs c')"
proof -
  obtain ph s where c_eq: "c = (ph, s)" by (cases c)
  define P where "P = (\<lambda>t. phase_pend s (ph t))"
  have abs: "mq_abs c = (msg_queue s, P)" by (simp add: mq_abs_def c_eq P_def)
  define r where "r = (case ev of EvContinue env slept \<Rightarrow> msg_call_next env slept (ph t) s
    | _ \<Rightarrow> if ph t = Idle then msg_call_start ev s else Some (ph t, s))"
  have do: "msg_do t ev c = map_option (\<lambda>(p, s). (ph(t := p), s)) r" by (simp add: msg_do_def c_eq r_def)
  show ?thesis
  proof (cases "msg_uninit s \<and> (\<forall>t. ph t = Idle)")
    case True
    then have u: "msg_uninit s" and idle: "ph = (\<lambda>t. Idle)" by auto
    have r: "r = msg_call_start ev s" by (cases ev) (simp_all add: r_def idle)
    have P: "P = (\<lambda>t. Nothing)" by (simp add: P_def idle)
    show ?thesis
    proof (cases "\<exists>s'. msg_call_start ev s = Some (Idle, s') \<and> msg_uninit s'")
      case True
      then obtain s' where s': "msg_call_start ev s = Some (Idle, s')" "msg_uninit s'" by blast
      then have "msg_do t ev c = Some (ph, s')" using do r idle by (simp add: fun_eq_iff)
      moreover have "conf_ok (ph, s')" "mq_abs (ph, s') = mq_abs c"
        using s'(2) msg_queue_uninit [OF u] msg_queue_uninit [OF s'(2)] by (simp_all add: conf_ok_def mq_abs_def c_eq idle)
      ultimately show ?thesis using mq_none by (metis abs)
    next
      case False
      let ?s = "snd (msginit (event_env ev) s)"
      have i: "fst (msginit (event_env ev) s)" "msg_call_start ev s = msg_call_start ev ?s"
        using uninit_start [OF u, of ev] False by auto
      note wf = msginit_wf(1) [OF u i(1)]
      have wf': "msg_wf {} lay_init (\<lambda>t. phase_held (ph t)) ?s" using wf by (simp add: idle)
      have okL: "phase_ok lay_init ?s (ph t)" for t by (simp add: idle)
      have pend: "(\<lambda>t. phase_pend ?s (ph t)) = P" by (simp add: P idle)
      have q: "msg_queue ?s = msg_queue s" using msginit_wf(2) [OF u i(1)] msg_queue_uninit [OF u] by simp
      have "piece_ok t (\<lambda>t. phase_held (ph t)) lay_init ?s P (msg_call_start ev ?s)"
        by (rule piece_start [OF wf']) (simp_all add: idle P)
      then obtain p s' Q v where x: "r = Some (p, s')" "msg_post t (\<lambda>t. phase_held (ph t)) lay_init ?s Q v p s'"
        "mq_step t (msg_queue s, P) (Q, P(t := v))" using i(2) r q by (auto simp: piece_ok_def)
      then show ?thesis using conf_post [OF wf' okL x(2)] do abs pend by auto
    qed
  next
    case False
    then obtain L where L: "msg_wf {} L (\<lambda>t. phase_held (ph t)) s" "\<And>t. phase_ok L s (ph t)"
      using ok by (auto simp: conf_ok_def c_eq)
    have "piece_ok t (\<lambda>t. phase_held (ph t)) L s P r"
    proof (cases "\<exists>env slept. ev = EvContinue env slept")
      case True
      then obtain env slept where ev: "ev = EvContinue env slept" by blast
      have "piece_ok t (\<lambda>t. phase_held (ph t)) L s P (msg_call_next env slept (ph t) s)"
        by (rule piece_next [OF L(1) refl L(2)]) (use c race in \<open>auto simp: ev P_def set_race_def c_eq\<close>)
      then show ?thesis by (simp add: r_def ev)
    next
      case False
      then have r: "r = (if ph t = Idle then msg_call_start ev s else Some (ph t, s))" by (cases ev) (simp_all add: r_def)
      show ?thesis
      proof (cases "ph t = Idle")
        case True
        have "piece_ok t (\<lambda>t. phase_held (ph t)) L s P (msg_call_start ev s)"
          by (rule piece_start [OF L(1)]) (simp_all add: True P_def)
        then show ?thesis by (simp add: r True)
      next
        case busy: False
        have "msg_post t (\<lambda>t. phase_held (ph t)) L s (msg_queue s) (P t) (ph t) s"
          by (rule msg_post_I [OF L(1)]) (simp_all add: P_def L(2) fun_upd_idem)
        then show ?thesis using busy by (intro piece_stays [OF r [simplified busy if_False]])
      qed
    qed
    then obtain p s' Q v where x: "r = Some (p, s')" "msg_post t (\<lambda>t. phase_held (ph t)) L s Q v p s'"
      "mq_step t (msg_queue s, P) (Q, P(t := v))" by (auto simp: piece_ok_def)
    then show ?thesis using conf_post [OF L x(2)] do abs P_def by auto
  qed
qed

inductive msg_reach :: "msg_config \<Rightarrow> bool" where
  reach_boot: "msg_reach (\<lambda>t. Idle, msg_boot_state)"
| reach_step: "msg_reach c \<Longrightarrow> copyin_ok (event_env ev) \<Longrightarrow> \<not> set_race t ev c \<Longrightarrow> msg_do t ev c = Some c' \<Longrightarrow> msg_reach c'"

lemma reach_ok: "msg_reach c \<Longrightarrow> conf_ok c"
proof (induction rule: msg_reach.induct)
  case reach_boot
  show ?case by (simp add: conf_ok_def msg_uninit_def msg_boot_state_def)
next
  case (reach_step c ev t c')
  then show ?case using conf_step [of c ev t] by auto
qed

section \<open>Accounting\<close>

definition queue_segs :: "(int \<times> u8 list) list option \<Rightarrow> nat" where
  "queue_segs q = (case q of None \<Rightarrow> 0 | Some vs \<Rightarrow> sum_list (map (\<lambda>v. seg_count (length (snd v))) vs))"

lemma body_card:
  assumes wf: "msg_wf {} L held s" and h: "h < 40" "l_hown L h \<noteq> HFree"
  shows "card (set (l_body L h)) = seg_count (length (snd (msg_value s h)))"
  using distinct_card [OF segs.chain_distinct [OF segs_wfD(3) [OF msg_wfD(2) [OF wf] h]]]
    segs_wfD(4) [OF msg_wfD(2) [OF wf] h] msg_value_length [OF wf h] by simp

lemma queue_card:
  assumes wf: "msg_wf {} L held s" and i: "i < 40"
  shows "queue_segs (msg_queue s i) = (\<Sum>h\<in>set (l_queue L i). card (set (l_body L h)))"
proof (cases "msg_qbytes (msqids s ! i) = 0")
  case True
  then show ?thesis
    using queues_wfD [OF msg_wfD(4) [OF wf] i] msg_queue_eq [OF wf i] by (simp add: queue_wf_def queue_segs_def)
next
  case False
  have dist: "distinct (l_queue L i)"
    using queues_wfD [OF msg_wfD(4) [OF wf] i] False by (auto simp: queue_wf_def intro: hdrs.chain_distinct)
  have "queue_segs (msg_queue s i) = (\<Sum>h\<leftarrow>l_queue L i. seg_count (length (snd (msg_value s h))))"
    using msg_queue_eq [OF wf i] False by (simp add: queue_segs_def comp_def)
  also have "\<dots> = (\<Sum>h\<leftarrow>l_queue L i. card (set (l_body L h)))"
    using queue_own [OF msg_wfD(3) [OF wf] i] body_card [OF wf] by (intro arg_cong [of _ _ sum_list] map_cong refl) auto
  also have "\<dots> = (\<Sum>h\<in>set (l_queue L i). card (set (l_body L h)))"
    using dist by (rule sum_list_distinct_conv_sum_set)
  finally show ?thesis .
qed

lemma segs_account:
  assumes wf: "msg_wf {} L held s" and idle: "\<And>t. held t = {}"
  shows "nfree_msgmaps s + int (\<Sum>i<40. queue_segs (msg_queue s i)) = 2048"
proof -
  note S = msg_wfD(2) [OF wf] and H = msg_wfD(3) [OF wf]
  have q: "(\<Sum>i<40. queue_segs (msg_queue s i)) = (\<Sum>i<40. \<Sum>h\<in>set (l_queue L i). card (set (l_body L h)))"
    using queue_card [OF wf] by simp
  also have "\<dots> = (\<Sum>h\<in>(\<Union>i\<in>{..<40}. set (l_queue L i)). card (set (l_body L h)))"
    by (rule sum.UNION_disjoint [symmetric]) (use hdrs_wfD(3) [OF H] in auto)
  also have "(\<Union>i\<in>{..<40}. set (l_queue L i)) = {h. h < 40 \<and> l_hown L h \<noteq> HFree}"
  proof -
    have "l_hown L h = HFree \<or> (\<exists>i<40. l_hown L h = HQueue i)" if "h < 40" for h
      using hdrs_wfD(4,5) [OF H] idle that by (cases "l_hown L h") auto
    then have "(\<exists>i<40. l_hown L h = HQueue i) \<longleftrightarrow> l_hown L h \<noteq> HFree" if "h < 40" for h using that by fastforce
    moreover have "h \<in> (\<Union>i\<in>{..<40}. set (l_queue L i)) \<longleftrightarrow> h < 40 \<and> (\<exists>i<40. l_hown L h = HQueue i)" for h
      using hdrs_wfD(3) [OF H] by blast
    ultimately show ?thesis by blast
  qed
  also have "(\<Sum>h\<in>{h. h < 40 \<and> l_hown L h \<noteq> HFree}. card (set (l_body L h))) = (\<Sum>h<40. card (set (l_body L h)))"
    by (rule sum.mono_neutral_left) (use segs_wfD(5) [OF S] in auto)
  also have "\<dots> = card (\<Union>h\<in>{..<40}. set (l_body L h))"
    by (rule card_UN_disjoint [symmetric]) (use bodies_apart(1) [OF S] in auto)
  finally have used: "(\<Sum>i<40. queue_segs (msg_queue s i)) = card (\<Union>h\<in>{..<40}. set (l_body L h))" .
  have "set (l_segs L) \<union> (\<Union>h\<in>{..<40}. set (l_body L h)) = {..<2048}"
    using segs_wfD(6-8) [OF S] by (fastforce simp: set_eq_iff)
  moreover have "set (l_segs L) \<inter> (\<Union>h\<in>{..<40}. set (l_body L h)) = {}"
    using segs_wfD(6,7) [OF S] by auto
  ultimately have "card (set (l_segs L)) + card (\<Union>h\<in>{..<40}. set (l_body L h)) = 2048"
    using card_Un_disjoint [of "set (l_segs L)" "\<Union>h\<in>{..<40}. set (l_body L h)"] by simp
  moreover have "card (set (l_segs L)) = length (l_segs L)" by (rule distinct_card [OF segs.chain_distinct [OF segs_wfD(1) [OF S]]])
  ultimately show ?thesis using used segs_wfD(2) [OF S] by simp
qed

end
