(* ===== verification/Sysv_Msg_Delivery.thy ===== *)
theory Sysv_Msg_Delivery
  imports Sysv_Msg_Threads
begin

text \<open>Sends and receives that need not sleep, run to their end, and the theorems on the message queues as a
  whole.\<close>

section \<open>A send that does not sleep\<close>

definition user_bytes :: "(u64 \<Rightarrow> u8) \<Rightarrow> u64 \<Rightarrow> nat \<Rightarrow> u8 list" where
  "user_bytes mem p n = map (\<lambda>k. mem (p + of_nat k)) [0..<n]"

lemma user_bytes_append: "user_bytes mem p m @ user_bytes mem (p + of_nat m) n = user_bytes mem p (m + n)"
proof -
  have "[0..<m + n] = [0..<m] @ map (\<lambda>k. m + k) [0..<n]"
    using map_add_upt [of m n] upt_add_eq_append [of 0 m n] by (simp add: add.commute)
  then show ?thesis by (simp add: user_bytes_def comp_def add.assoc)
qed

lemma length_user_bytes [simp]: "length (user_bytes mem p n) = n"
  by (simp add: user_bytes_def)

text \<open>The queue is there, the caller may write to it, the message fits and nothing is in the way.\<close>

definition snd_admitted :: "msg_env \<Rightarrow> snd_args \<Rightarrow> msg_state \<Rightarrow> bool" where
  "snd_admitted env a s \<longleftrightarrow>
     (let q = msqids s ! snd_ix a
      in initted s \<and> 0 \<le> IPCID_TO_IX (snd_msqid a) \<and> IPCID_TO_IX (snd_msqid a) < msgmni (msginfo s) \<and>
         msg_qbytes q \<noteq> 0 \<and> uint (ipc_seq (msg_perm q)) = IPCID_TO_SEQ (snd_msqid a) \<and>
         ipcperm (msg_cred env) (msg_perm q) IPC_W = 0 \<and> mac_sysvmsq_check_msqsnd env q = 0 \<and>
         snd_msgsz a \<le> msg_qbytes q \<and> snd_blocking a q s = None)"

lemma snd_done_ok:
  assumes "snd_done env a t held L s v e s'" "msg_queue s (snd_ix a) = Some q" "\<And>m q. mac_sysvmsq_check_enqueue env m q = 0"
  shows "e = 0 \<and> msg_post t held L s ((msg_queue s)(snd_ix a := Some (q @ [v]))) Nothing Idle s'"
  using assms by (auto simp: snd_done_def split: if_splits)

lemma msgsnd_run_body:
  assumes "msg_wf {} L held s" "held t = {h}" "phase_ok L s (Sending a (SndBody h next left p))"
    "phase_pend s (Sending a (SndBody h next left p)) = Writing (snd_ix a) n ty cs"
    "\<And>p n. copyin_bytes env p n = (0, user_bytes mem p n)" "\<And>m q. mac_sysvmsq_check_enqueue env m q = 0"
    "msg_queue s (snd_ix a) = Some q"
  shows "\<exists>s'. msgsnd_run env a (SndBody h next left p) s = Some (SndReturn 0, s') \<and> msg_out s' = msg_out s \<and>
    msg_post t held L s ((msg_queue s)(snd_ix a := Some (q @ [(ty, cs @ user_bytes mem p (unat left))]))) Nothing Idle s'"
  using assms
proof (induction "unat left" arbitrary: L s "next" left p cs rule: less_induct)
  case less
  note wf = less.prems(1) and t = less.prems(2) and ok = less.prems(3) and pend = less.prems(4)
  let ?l = "unat (snd_tlen left s)"
  have tl: "?l = min (unat left) 8" by (rule snd_tlen_unat [OF msg_wfD(1) [OF wf]])
  obtain nxt s1 where r: "msgsnd_body env a h next left p (0, user_bytes mem p ?l) s = Some (nxt, s1)" "msg_out s1 = msg_out s"
    "if left \<le> 8 then \<exists>e. nxt = SndReturn e \<and> snd_done env a t held L s (ty, cs @ user_bytes mem p ?l) e s1
     else (\<exists>next. nxt = SndBody h next (left - 8) (p + 8)) \<and>
       msg_post t held L s (msg_queue s) (Writing (snd_ix a) n ty (cs @ user_bytes mem p ?l)) (Sending a nxt) s1"
    using msgsnd_body_post [OF wf t ok, where e = 0 and bs = "user_bytes mem p ?l" and env = env] pend by (auto split: if_split_asm)
  have run: "msgsnd_run env a (SndBody h next left p) s = msgsnd_run env a nxt s1"
    by (subst msgsnd_run.simps) (simp add: less.prems(5) r(1))
  show ?case
  proof (cases "left \<le> 8")
    case True
    then have l: "?l = unat left" using tl by (simp add: word_le_nat_alt)
    obtain e where e: "nxt = SndReturn e" "snd_done env a t held L s (ty, cs @ user_bytes mem p ?l) e s1" using r(3) True by auto
    then have "msgsnd_run env a nxt s1 = Some (SndReturn e, s1)" by (subst msgsnd_run.simps) simp
    then show ?thesis using snd_done_ok [OF e(2) less.prems(7,6)] run r(2) l by auto
  next
    case False
    then have l: "?l = 8" "8 < unat left" using tl by (simp_all add: word_le_nat_alt)
    have u: "unat (left - 8) = unat left - 8" using False by (simp add: unat_sub not_le less_imp_le)
    obtain nx where nx: "nxt = SndBody h nx (left - 8) (p + 8)"
      "msg_post t held L s (msg_queue s) (Writing (snd_ix a) n ty (cs @ user_bytes mem p 8)) (Sending a nxt) s1" using r(3) False l by auto
    then obtain L1 where L1: "msg_wf {} L1 (held(t := {h})) s1" "kept (\<Union>t'\<in>- {t}. held t') L s L1 s1"
      "msg_queue s1 = msg_queue s" "phase_ok L1 s1 (Sending a nxt)" "phase_pend s1 (Sending a nxt) = Writing (snd_ix a) n ty (cs @ user_bytes mem p 8)"
      by (auto simp: msg_post_def)
    have held: "held(t := {h}) = held" using t by (simp add: fun_upd_idem)
    have lt: "unat (left - 8) < unat left" and q1: "msg_queue s1 (snd_ix a) = Some q" using l u L1(3) less.prems(7) by simp_all
    note IH = less.hyps [OF lt L1(1) [unfolded held] t L1(4) [unfolded nx(1)] L1(5) [unfolded nx(1)] less.prems(5,6) q1]
    obtain s' where s': "msgsnd_run env a nxt s1 = Some (SndReturn 0, s')" "msg_out s' = msg_out s1"
      "msg_post t held L1 s1 ((msg_queue s1)(snd_ix a := Some (q @ [(ty, (cs @ user_bytes mem p 8) @ user_bytes mem (p + 8) (unat (left - 8)))]))) Nothing Idle s'"
      using nx(1) IH by blast
    have "user_bytes mem p 8 @ user_bytes mem (p + 8) (unat (left - 8)) = user_bytes mem p (unat left)"
      using user_bytes_append [of mem p 8 "unat (left - 8)"] l u by simp
    then show ?thesis using s' run r(2) post_after [OF L1(2) s'(3) refl] L1(3) by auto
  qed
qed

lemma msgsnd_run_done [simp]:
  "msgsnd_run env a (SndReturn e) s = Some (SndReturn e, s)" "msgsnd_run env a (SndSleep c own) s = Some (SndSleep c own, s)"
  by (subst msgsnd_run.simps, simp)+

lemma msgsnd_delivers_wf:
  assumes wf: "msg_wf {} L held s" and t: "held t = {}" and adm: "snd_admitted env a s"
    and ty: "copyin_type env (snd_msgp a) = (0, ty)" "1 \<le> ty" and mem: "\<And>p n. copyin_bytes env p n = (0, user_bytes mem p n)"
    and mac: "\<And>m q. mac_sysvmsq_check_enqueue env m q = 0" and q: "msg_queue s (snd_ix a) = Some q"
  shows "\<exists>s'. msgsnd_nocancel env a s = Some (SndReturn 0, s') \<and> msg_out s' = msg_out s \<and>
    msg_post t held L s ((msg_queue s)(snd_ix a := Some (q @ [(ty, user_bytes mem (snd_msgp a + (if msg_is64 env then 8 else 4)) (unat (snd_msgsz a)))]))) Nothing Idle s'"
proof -
  note tab = msg_wfD(1) [OF wf] and tabs = tables_info [OF msg_wfD(1) [OF wf]]
  let ?q = "msqids s ! snd_ix a" and ?p = "snd_msgp a + (if msg_is64 env then 8 else 4)"
  have A: "0 \<le> IPCID_TO_IX (snd_msqid a)" "IPCID_TO_IX (snd_msqid a) < 40" "msg_qbytes ?q \<noteq> 0"
    "uint (ipc_seq (msg_perm ?q)) = IPCID_TO_SEQ (snd_msqid a)" "ipcperm (msg_cred env) (msg_perm ?q) IPC_W = 0"
    "mac_sysvmsq_check_msqsnd env ?q = 0" "snd_msgsz a \<le> msg_qbytes ?q" "snd_blocking a ?q s = None"
    using adm by (simp_all add: snd_admitted_def Let_def tabs)
  have i: "snd_ix a < 40" using A by linarith
  have look: "msq_lookup env (snd_msqid a) s = Some (Inr (snd_ix a, ?q), s)"
    using A i by (simp add: msq_lookup_def msginit_done [OF tab] tabs msq_def Let_def)
  obtain h s1 where s1: "msgsnd_try a s = Some (SndType h, s1)" "msg_out s1 = msg_out s"
    "msg_post t held L s (msg_queue s) Nothing (Sending a (SndType h)) s1"
    using msgsnd_try_post [OF wf i t A(3)] A(7,8) by (auto simp: after_snd_def)
  then obtain L1 where L1: "msg_wf {} L1 (held(t := {h})) s1" "kept (\<Union>t'\<in>- {t}. held t') L s L1 s1"
    "msg_queue s1 = msg_queue s" "phase_ok L1 s1 (Sending a (SndType h))" by (auto simp: msg_post_def)
  let ?held = "held(t := {h})"
  have t1: "?held t = {h}" by simp
  have start: "msgsnd_nocancel env a s = msgsnd_run env a (SndType h) s1"
    using A s1(1) by (simp add: msgsnd_nocancel_def msgsnd_start_def look)
  obtain nxt s2 where r: "msgsnd_type env a h (0, ty) s1 = Some (nxt, s2)" "msg_out s2 = msg_out s1"
    "if snd_msgsz a = 0 then \<exists>e. nxt = SndReturn e \<and> snd_done env a t ?held L1 s1 (ty, []) e s2
     else (\<exists>next. nxt = SndBody h next (snd_msgsz a) ?p) \<and>
       msg_post t ?held L1 s1 (msg_queue s1) (Writing (snd_ix a) (unat (snd_msgsz a)) ty []) (Sending a nxt) s2"
    using msgsnd_type_post [OF L1(1) t1 L1(4), where e = 0 and ty = ty and env = env] ty(2) by auto
  have run: "msgsnd_run env a (SndType h) s1 = msgsnd_run env a nxt s2"
    by (subst msgsnd_run.simps) (simp add: ty(1) r(1))
  have q1: "msg_queue s1 (snd_ix a) = Some q" using q L1(3) by simp
  have "\<exists>s'. msgsnd_run env a nxt s2 = Some (SndReturn 0, s') \<and> msg_out s' = msg_out s \<and>
    msg_post t ?held L1 s1 ((msg_queue s1)(snd_ix a := Some (q @ [(ty, user_bytes mem ?p (unat (snd_msgsz a)))]))) Nothing Idle s'"
  proof (cases "snd_msgsz a = 0")
    case True
    then obtain e where e: "nxt = SndReturn e" "snd_done env a t ?held L1 s1 (ty, []) e s2" using r(3) by auto
    then show ?thesis using snd_done_ok [OF e(2) q1 mac] True r(2) s1(2) by (simp add: user_bytes_def)
  next
    case False
    then obtain nx L2 where L2: "nxt = SndBody h nx (snd_msgsz a) ?p" "msg_wf {} L2 ?held s2"
      "kept (\<Union>t'\<in>- {t}. ?held t') L1 s1 L2 s2" "msg_queue s2 = msg_queue s1" "phase_ok L2 s2 (Sending a nxt)"
      "phase_pend s2 (Sending a nxt) = Writing (snd_ix a) (unat (snd_msgsz a)) ty []" using r(3) by (auto simp: msg_post_def)
    have "\<exists>s'. msgsnd_run env a (SndBody h nx (snd_msgsz a) ?p) s2 = Some (SndReturn 0, s') \<and> msg_out s' = msg_out s2 \<and>
      msg_post t ?held L2 s2 ((msg_queue s2)(snd_ix a := Some (q @ [(ty, [] @ user_bytes mem ?p (unat (snd_msgsz a)))]))) Nothing Idle s'"
      by (rule msgsnd_run_body [OF L2(2) t1 _ _ mem mac]) (use L2 q1 in simp_all)
    then obtain s' where s': "msgsnd_run env a nxt s2 = Some (SndReturn 0, s')" "msg_out s' = msg_out s2"
      "msg_post t ?held L2 s2 ((msg_queue s2)(snd_ix a := Some (q @ [(ty, user_bytes mem ?p (unat (snd_msgsz a)))]))) Nothing Idle s'"
      using L2(1) by auto
    have "msg_post t ?held L1 s1 ((msg_queue s2)(snd_ix a := Some (q @ [(ty, user_bytes mem ?p (unat (snd_msgsz a)))]))) Nothing Idle s'"
      by (rule post_after [OF L2(3) s'(3)]) (rule refl)
    then show ?thesis using s'(1,2) r(2) s1(2) unfolding L2(4) by auto
  qed
  then obtain s' where s': "msgsnd_run env a nxt s2 = Some (SndReturn 0, s')" "msg_out s' = msg_out s"
    "msg_post t ?held L1 s1 ((msg_queue s1)(snd_ix a := Some (q @ [(ty, user_bytes mem ?p (unat (snd_msgsz a)))]))) Nothing Idle s'"
    by blast
  have "msg_post t held L s ((msg_queue s1)(snd_ix a := Some (q @ [(ty, user_bytes mem ?p (unat (snd_msgsz a)))]))) Nothing Idle s'"
    by (rule post_after [OF L1(2) s'(3)]) simp
  then show ?thesis using start run s'(1,2) L1(3) by simp
qed

section \<open>A receive that does not sleep\<close>

definition rcv_admitted :: "msg_env \<Rightarrow> rcv_args \<Rightarrow> msg_state \<Rightarrow> bool" where
  "rcv_admitted env a s \<longleftrightarrow>
     (let q = msqids s ! rcv_ix a
      in initted s \<and> 0 \<le> IPCID_TO_IX (rcv_msqid a) \<and> IPCID_TO_IX (rcv_msqid a) < msgmni (msginfo s) \<and>
         msg_qbytes q \<noteq> 0 \<and> uint (ipc_seq (msg_perm q)) = IPCID_TO_SEQ (rcv_msqid a) \<and>
         ipcperm (msg_cred env) (msg_perm q) IPC_R = 0 \<and> mac_sysvmsq_check_msqrcv env q = 0)"

text \<open>The bytes that a sequence of copies stores one behind the other from an address.\<close>

fun delivered :: "u64 \<Rightarrow> (u64 \<times> msg_data) list \<Rightarrow> u8 list option" where
  "delivered p [] = Some []"
| "delivered p ((x, OutBytes bs) # outs) =
     (if x = p then map_option (\<lambda>cs. bs @ cs) (delivered (p + of_nat (length bs)) outs) else None)"
| "delivered p ((x, d) # outs) = None"

lemma msgrcv_run_done [simp]: "msgrcv_run env a (RcvReturn e r) s = Some (RcvReturn e r, s)" "msgrcv_run env a RcvSleep s = Some (RcvSleep, s)"
  by (subst msgrcv_run.simps, simp)+

lemma msgrcv_run_body:
  assumes "msg_wf {} L held s" "held t = {h}" "phase_ok L s (Receiving a (RcvBody h next len sz p))" "\<And>p. msg_copyout env p = 0"
  shows "\<exists>s' outs. msgrcv_run env a (RcvBody h next len sz p) s = Some (RcvReturn 0 (Some sz), s') \<and> msg_out s' = msg_out s @ outs \<and>
    delivered p outs = Some (drop (unat len) (take (unat sz) (snd (msg_value s h)))) \<and>
    msg_post t held L s (msg_queue s) Nothing Idle s'"
  using assms
proof (induction "unat sz - unat len" arbitrary: L s "next" len p rule: less_induct)
  case less
  note wf = less.prems(1) and t = less.prems(2) and ok = less.prems(3)
  have own: "h < 40" "l_hown L h \<noteq> HFree" using held_own [OF wf, of h t] t by auto
  let ?v = "take (unat sz) (snd (msg_value s h))" let ?d = "OutBytes (take 8 (drop (unat len) ?v))"
  have "len < sz" "sz \<le> ucast (msg_ts (msghdrs s ! h))" using ok by simp_all
  then have u: "unat len < unat sz" "unat sz \<le> unat (msg_ts (msghdrs s ! h))" by (simp_all add: word_less_nat_alt word_le_nat_alt)
  have lv: "length ?v = unat sz" using msg_value_length [OF wf own] u by simp
  have "unat (msg_ts (msghdrs s ! h)) < 2 ^ 16" using unsigned_less [of "msg_ts (msghdrs s ! h)"] by simp
  then have u8: "unat (len + 8) = unat len + 8" using u by (subst unat_add_lem [THEN iffD1]) simp_all
  obtain nxt s1 where r: "msgrcv_body a h next len sz p 0 s = Some (nxt, s1)" "msg_out s1 = msg_out s @ [(p, ?d)]"
    "if sz \<le> len + 8 then nxt = RcvReturn 0 (Some sz) \<and> msg_post t held L s (msg_queue s) Nothing Idle s1
     else (\<exists>next. nxt = RcvBody h next (len + 8) sz (p + 8)) \<and> msg_post t held L s (msg_queue s) (Reading (msg_value s h)) (Receiving a nxt) s1"
    using msgrcv_body_post [OF wf t ok, where e = 0] by (auto split: if_split_asm)
  have run: "msgrcv_run env a (RcvBody h next len sz p) s = msgrcv_run env a nxt s1"
    by (subst msgrcv_run.simps) (simp add: less.prems(4) r(1))
  show ?case
  proof (cases "sz \<le> len + 8")
    case True
    then have "unat sz \<le> unat len + 8" by (simp add: word_le_nat_alt u8)
    then have "delivered p [(p, ?d)] = Some (drop (unat len) ?v)" using lv by simp
    then show ?thesis using True r(2,3) run by (intro exI [of _ s1] exI [of _ "[(p, ?d)]"]) simp
  next
    case False
    then have big: "unat len + 8 < unat sz" by (simp add: word_le_nat_alt u8 not_le)
    obtain nx L1 where L1: "nxt = RcvBody h nx (len + 8) sz (p + 8)" "msg_wf {} L1 (held(t := {h})) s1"
      "kept (\<Union>t'\<in>- {t}. held t') L s L1 s1" "msg_queue s1 = msg_queue s" "phase_ok L1 s1 (Receiving a nxt)" "msg_value s1 h = msg_value s h"
      using r(3) False by (auto simp: msg_post_def)
    have held: "held(t := {h}) = held" using t by (simp add: fun_upd_idem)
    have lt: "unat sz - unat (len + 8) < unat sz - unat len" using big u8 by simp
    obtain s' outs where s': "msgrcv_run env a nxt s1 = Some (RcvReturn 0 (Some sz), s')" "msg_out s' = msg_out s1 @ outs"
      "delivered (p + 8) outs = Some (drop (unat (len + 8)) (take (unat sz) (snd (msg_value s1 h))))"
      "msg_post t held L1 s1 (msg_queue s1) Nothing Idle s'"
      using less.hyps [OF lt L1(2) [unfolded held] t L1(5) [unfolded L1(1)] less.prems(4)] L1(1) by blast
    have "take 8 (drop (unat len) ?v) @ drop (unat len + 8) ?v = drop (unat len) ?v"
      using append_take_drop_id [of 8 "drop (unat len) ?v"] unfolding drop_drop by (simp only: add.commute)
    moreover have "length (take 8 (drop (unat len) ?v)) = 8" using big lv by simp
    ultimately have "delivered p ((p, ?d) # outs) = Some (drop (unat len) ?v)" using s'(3) by (simp add: u8 L1(6))
    moreover have "msg_post t held L s (msg_queue s1) Nothing Idle s'" by (rule post_after [OF L1(3) s'(4)]) (rule refl)
    ultimately show ?thesis
      using s'(1,2) r(2) run L1(4) by (intro exI [of _ s'] exI [of _ "(p, ?d) # outs"]) simp
  qed
qed

lemma queue_value_length:
  assumes wf: "msg_wf {} L held s" and q: "msg_queue s i = Some q" "v \<in> set q"
  shows "length (snd v) < 2 ^ 16"
proof -
  have i: "i < 40" using msg_queue_none [OF msg_wfD(1) [OF wf]] q(1) by fastforce
  then obtain h where h: "h \<in> set (l_queue L i)" "v = msg_value s h"
    using msg_queue_eq [OF wf i] q by (auto split: if_split_asm)
  then show ?thesis
    using queue_own [OF msg_wfD(3) [OF wf] i h(1)] msg_value_length [OF wf, of h] unsigned_less [of "msg_ts (msghdrs s ! h)"] by simp
qed

lemma msgrcv_delivers_wf:
  assumes wf: "msg_wf {} L held s" and t: "held t = {}" and adm: "rcv_admitted env a s" and q: "msg_queue s (rcv_ix a) = Some q"
    and v: "find (mq_wants (rcv_msgtyp a)) q = Some v" and sz: "length (snd v) \<le> unat (rcv_msgsz a) \<or> rcv_msgflg a AND MSG_NOERROR \<noteq> 0"
    and mac: "\<And>m. mac_sysvmsq_check_msgrcv env m = 0" and out: "\<And>p. msg_copyout env p = 0"
  shows "\<exists>s' outs. msgrcv_nocancel env a s = Some (RcvReturn 0 (Some (of_nat (min (unat (rcv_msgsz a)) (length (snd v))))), s') \<and>
    msg_out s' = msg_out s @ (rcv_msgp a, OutType (if msg_is64 env then fst v else signed_take_bit 31 (fst v))) # outs \<and>
    delivered (rcv_msgp a + (if msg_is64 env then 8 else 4)) outs = Some (take (unat (rcv_msgsz a)) (snd v)) \<and>
    msg_post t held L s ((msg_queue s)(rcv_ix a := Some (remove1 v q))) Nothing Idle s'"
proof -
  note tab = msg_wfD(1) [OF wf] and tabs = tables_info [OF msg_wfD(1) [OF wf]]
  let ?q = "msqids s ! rcv_ix a" and ?p = "rcv_msgp a + (if msg_is64 env then 8 else 4)"
  let ?Q = "(msg_queue s)(rcv_ix a := Some (remove1 v q))"
  have A: "0 \<le> IPCID_TO_IX (rcv_msqid a)" "IPCID_TO_IX (rcv_msqid a) < 40" "msg_qbytes ?q \<noteq> 0"
    "uint (ipc_seq (msg_perm ?q)) = IPCID_TO_SEQ (rcv_msqid a)" "ipcperm (msg_cred env) (msg_perm ?q) IPC_R = 0"
    "mac_sysvmsq_check_msqrcv env ?q = 0"
    using adm by (simp_all add: rcv_admitted_def Let_def tabs)
  have i: "rcv_ix a < 40" using A by linarith
  have look: "msq_lookup env (rcv_msqid a) s = Some (Inr (rcv_ix a, ?q), s)"
    using A i by (simp add: msq_lookup_def msginit_done [OF tab] tabs msq_def Let_def)
  have "v \<in> set q" using v by (metis find_Some_iff nth_mem)
  then have "length (snd v) < 2 ^ 16" by (rule queue_value_length [OF wf q])
  then have len: "unat (of_nat (length (snd v)) :: u64) = length (snd v)" by (simp add: unat_of_nat)
  have usz: "\<not> rcv_msgsz a < of_nat (length (snd v)) \<or> rcv_msgflg a AND MSG_NOERROR \<noteq> 0"
    using sz by (auto simp: word_less_nat_alt len)
  obtain h s1 where s1: "msgrcv_try env a s = Some (RcvType h (min (rcv_msgsz a) (of_nat (length (snd v)))), s1)" "msg_out s1 = msg_out s"
    "msg_post t held L s ?Q (Reading v) (Receiving a (RcvType h (min (rcv_msgsz a) (of_nat (length (snd v)))))) s1"
    using msgrcv_try_post [OF wf i t A(3), where env = env] q v usz mac by (auto split: if_split_asm)
  define sz where "sz = min (rcv_msgsz a) (of_nat (length (snd v)))"
  obtain L1 where L1: "msg_wf {} L1 (held(t := {h})) s1" "kept (\<Union>t'\<in>- {t}. held t') L s L1 s1"
    "msg_queue s1 = ?Q" "phase_ok L1 s1 (Receiving a (RcvType h sz))" "msg_value s1 h = v" using s1(3) by (auto simp: msg_post_def sz_def)
  let ?held = "held(t := {h})"
  have t1: "?held t = {h}" by simp
  have own: "h < 40" "l_hown L1 h \<noteq> HFree" using held_own [OF L1(1), of h t] by auto
  have start: "msgrcv_nocancel env a s = msgrcv_run env a (RcvType h sz) s1"
    using A s1(1) by (simp add: msgrcv_nocancel_def msgrcv_start_def look sz_def)
  have un: "unat sz = min (unat (rcv_msgsz a)) (length (snd v))" by (simp add: sz_def min_def word_le_nat_alt len)
  have "of_nat (unat sz) = sz" by simp
  then have szn: "sz = of_nat (min (unat (rcv_msgsz a)) (length (snd v)))" unfolding un by (rule sym)
  have tk: "take (unat sz) (snd v) = take (unat (rcv_msgsz a)) (snd v)" by (simp add: un min_def)
  let ?ty = "OutType (if msg_is64 env then fst v else signed_take_bit 31 (fst v))"
  obtain nxt s2 where r: "msgrcv_type env a h sz 0 s1 = Some (nxt, s2)" "msg_out s2 = msg_out s1 @ [(rcv_msgp a, ?ty)]"
    "if sz = 0 then nxt = RcvReturn 0 (Some 0) \<and> msg_post t ?held L1 s1 (msg_queue s1) Nothing Idle s2
     else (\<exists>next. nxt = RcvBody h next 0 sz ?p) \<and> msg_post t ?held L1 s1 (msg_queue s1) (Reading v) (Receiving a nxt) s2"
    using msgrcv_type_post [OF L1(1) t1 L1(4), where e = 0 and env = env] L1(5) by auto
  have run: "msgrcv_run env a (RcvType h sz) s1 = msgrcv_run env a nxt s2"
    by (subst msgrcv_run.simps) (simp add: out r(1))
  have "\<exists>s' outs. msgrcv_run env a nxt s2 = Some (RcvReturn 0 (Some sz), s') \<and> msg_out s' = msg_out s2 @ outs \<and>
    delivered ?p outs = Some (take (unat sz) (snd v)) \<and> msg_post t ?held L1 s1 (msg_queue s1) Nothing Idle s'"
  proof (cases "sz = 0")
    case True
    then show ?thesis using r(3) by (intro exI [of _ s2] exI [of _ "[]"]) simp
  next
    case False
    then obtain nx L2 where L2: "nxt = RcvBody h nx 0 sz ?p" "msg_wf {} L2 ?held s2" "kept (\<Union>t'\<in>- {t}. ?held t') L1 s1 L2 s2"
      "msg_queue s2 = msg_queue s1" "phase_ok L2 s2 (Receiving a nxt)" "msg_value s2 h = v"
      using r(3) by (auto simp: msg_post_def)
    obtain s' outs where s': "msgrcv_run env a nxt s2 = Some (RcvReturn 0 (Some sz), s')" "msg_out s' = msg_out s2 @ outs"
      "delivered ?p outs = Some (drop (unat (0 :: u64)) (take (unat sz) (snd (msg_value s2 h))))" "msg_post t ?held L2 s2 (msg_queue s2) Nothing Idle s'"
      using msgrcv_run_body [OF L2(2) t1 L2(5) [unfolded L2(1)] out] L2(1) by blast
    have "msg_post t ?held L1 s1 (msg_queue s2) Nothing Idle s'" by (rule post_after [OF L2(3) s'(4)]) (rule refl)
    then show ?thesis using s'(1-3) L2(4,6) by auto
  qed
  then obtain s' outs where s': "msgrcv_run env a nxt s2 = Some (RcvReturn 0 (Some sz), s')" "msg_out s' = msg_out s2 @ outs"
    "delivered ?p outs = Some (take (unat sz) (snd v))" "msg_post t ?held L1 s1 (msg_queue s1) Nothing Idle s'" by blast
  have "msg_post t held L s ?Q Nothing Idle s'" unfolding L1(3) [symmetric] by (rule post_after [OF L1(2) s'(4)]) simp
  then show ?thesis
    using s'(1-3) r(2) s1(2) start run szn tk by (intro exI [of _ s'] exI [of _ outs]) simp
qed

lemma rcv_admitted_start:
  assumes wf: "msg_wf {} L held s" and adm: "rcv_admitted env a s"
  shows "msgrcv_start env a s = msgrcv_try env a s" "rcv_ix a < 40" "msg_qbytes (msqids s ! rcv_ix a) \<noteq> 0"
proof -
  note tab = msg_wfD(1) [OF wf] and tabs = tables_info [OF msg_wfD(1) [OF wf]]
  let ?q = "msqids s ! rcv_ix a"
  have A: "0 \<le> IPCID_TO_IX (rcv_msqid a)" "IPCID_TO_IX (rcv_msqid a) < 40" "msg_qbytes ?q \<noteq> 0"
    "uint (ipc_seq (msg_perm ?q)) = IPCID_TO_SEQ (rcv_msqid a)" "ipcperm (msg_cred env) (msg_perm ?q) IPC_R = 0"
    "mac_sysvmsq_check_msqrcv env ?q = 0"
    using adm by (simp_all add: rcv_admitted_def Let_def tabs)
  show i: "rcv_ix a < 40" using A by linarith
  have "msq_lookup env (rcv_msqid a) s = Some (Inr (rcv_ix a, ?q), s)"
    using A i by (simp add: msq_lookup_def msginit_done [OF tab] tabs msq_def Let_def)
  then show "msgrcv_start env a s = msgrcv_try env a s" using A by (simp add: msgrcv_start_def)
  show "msg_qbytes ?q \<noteq> 0" by (rule A(3))
qed

lemma rcv_size:
  fixes sz :: u64
  assumes "msg_wf {} L held s" "msg_queue s i = Some q" "find P q = Some v"
  shows "sz < of_nat (length (snd v)) \<longleftrightarrow> unat sz < length (snd v)"
proof -
  have "v \<in> set q" using assms(3) by (metis find_Some_iff nth_mem)
  then have "length (snd v) < 2 ^ 16" by (rule queue_value_length [OF assms(1,2)])
  then show ?thesis by (simp add: word_less_nat_alt unat_of_nat)
qed

lemma msgrcv_refused_wf:
  assumes wf: "msg_wf {} L held s" and t: "held t = {}" and adm: "rcv_admitted env a s" and q: "msg_queue s (rcv_ix a) = Some q"
  shows "find (mq_wants (rcv_msgtyp a)) q = None \<Longrightarrow> \<exists>s'. msgrcv_nocancel env a s =
      Some (if rcv_msgflg a AND IPC_NOWAIT \<noteq> 0 then RcvReturn ENOMSG None else RcvSleep, s') \<and> msg_out s' = msg_out s \<and> msg_queue s' = msg_queue s"
    "find (mq_wants (rcv_msgtyp a)) q = Some v \<Longrightarrow> unat (rcv_msgsz a) < length (snd v) \<Longrightarrow> rcv_msgflg a AND MSG_NOERROR = 0 \<Longrightarrow>
      \<exists>s'. msgrcv_nocancel env a s = Some (RcvReturn E2BIG None, s') \<and> msg_out s' = msg_out s \<and> msg_queue s' = msg_queue s"
proof -
  note start = rcv_admitted_start [OF wf adm]
  from msgrcv_try_post [OF wf start(2) t start(3), of env] q obtain nxt s' where
    x: "msgrcv_try env a s = Some (nxt, s')" "msg_out s' = msg_out s"
    "case find (mq_wants (rcv_msgtyp a)) q of
       None \<Rightarrow> nxt = (if rcv_msgflg a AND IPC_NOWAIT \<noteq> 0 then RcvReturn ENOMSG None else RcvSleep) \<and>
         msg_post t held L s (msg_queue s) Nothing (after_rcv a nxt) s'
     | Some v \<Rightarrow>
         if rcv_msgsz a < of_nat (length (snd v)) \<and> rcv_msgflg a AND MSG_NOERROR = 0
         then nxt = RcvReturn E2BIG None \<and> msg_post t held L s (msg_queue s) Nothing Idle s'
         else True" by (fastforce split: option.splits)
  {
    assume "find (mq_wants (rcv_msgtyp a)) q = None"
    then show "\<exists>s'. msgrcv_nocancel env a s =
        Some (if rcv_msgflg a AND IPC_NOWAIT \<noteq> 0 then RcvReturn ENOMSG None else RcvSleep, s') \<and> msg_out s' = msg_out s \<and> msg_queue s' = msg_queue s"
      using x by (auto simp: msgrcv_nocancel_def start(1) msg_post_def)
  }
  assume v: "find (mq_wants (rcv_msgtyp a)) q = Some v" "unat (rcv_msgsz a) < length (snd v)" "rcv_msgflg a AND MSG_NOERROR = 0"
  then show "\<exists>s'. msgrcv_nocancel env a s = Some (RcvReturn E2BIG None, s') \<and> msg_out s' = msg_out s \<and> msg_queue s' = msg_queue s"
    using x rcv_size [OF wf q v(1)] by (auto simp: msgrcv_nocancel_def start(1) msg_post_def)
qed

section \<open>A send leaves the identity of every queue alone\<close>

definition perm_core :: "ipc_perm \<Rightarrow> ipc_perm" where
  "perm_core p = p\<lparr>ipc_mode := ipc_mode p AND NOT MSG_LOCKED\<rparr>"

definition same_ident :: "msg_state \<Rightarrow> msg_state \<Rightarrow> bool" where
  "same_ident s s' \<longleftrightarrow> length (msqids s') = length (msqids s) \<and> msginfo s' = msginfo s \<and> initted s' = initted s \<and>
     (\<forall>j. perm_core (msg_perm (msqids s' ! j)) = perm_core (msg_perm (msqids s ! j)) \<and>
        msg_qbytes (msqids s' ! j) = msg_qbytes (msqids s ! j))"

lemma ident_refl [simp]: "same_ident s s"
  by (simp add: same_ident_def)

lemma ident_trans: "same_ident s s' \<Longrightarrow> same_ident s' s'' \<Longrightarrow> same_ident s s''"
  by (simp add: same_ident_def)

lemma ident_fields:
  "same_ident s (hdr_modify h f s')= same_ident s s'" "same_ident s (msg_wakeup c s') = same_ident s s'"
  "same_ident s (s'\<lparr>free_msghdrs := v\<rparr>) = same_ident s s'" "same_ident s (s'\<lparr>msgpool := P\<rparr>) = same_ident s s'"
  "same_ident s (s'\<lparr>free_msgmaps := F, nfree_msgmaps := N, msgmaps := M\<rparr>) = same_ident s s'"
  "same_ident s (s'\<lparr>msgmaps := M, free_msgmaps := F, nfree_msgmaps := N\<rparr>) = same_ident s s'"
  by (simp_all add: same_ident_def hdr_modify_def msg_wakeup_def)

lemma ident_sym: "same_ident s s' = same_ident s' s"
  by (auto simp: same_ident_def)

lemma ident_modify:
  assumes "\<And>q. perm_core (msg_perm (f q)) = perm_core (msg_perm q) \<and> msg_qbytes (f q) = msg_qbytes q"
  shows "same_ident s (msq_modify i f s') = same_ident s s'"
proof -
  have "same_ident s' (msq_modify i f s')" "same_ident (msq_modify i f s') s'"
    using assms by (cases "i < length (msqids s')"; simp add: same_ident_def msq_modify_def nth_list_update list_update_beyond)+
  then show ?thesis using ident_trans by blast
qed

lemma unlocked_bits: "(x OR m) AND NOT m = x AND NOT m" "(x AND NOT m) AND NOT m = x AND NOT m" for x m :: u16
  by (simp_all add: bit.conj_disj_distrib2 and.assoc)

lemma ident_lock: "same_ident s (msq_lock i s') = same_ident s s'" "same_ident s (msq_unlock i s') = same_ident s s'"
  by (simp_all only: msq_lock_def msq_unlock_def) (rule ident_modify, simp add: perm_core_def unlocked_bits)+

lemma ident_left:
  "same_ident (hdr_modify h f s') s = same_ident s' s" "same_ident (s'\<lparr>free_msghdrs := v\<rparr>) s = same_ident s' s"
  "same_ident (s'\<lparr>free_msgmaps := F, nfree_msgmaps := N, msgmaps := M\<rparr>) s = same_ident s' s"
  "same_ident (s'\<lparr>msgmaps := M, free_msgmaps := F, nfree_msgmaps := N\<rparr>) s = same_ident s' s"
  "same_ident (s'\<lparr>msgpool := P\<rparr>) s = same_ident s' s"
  "same_ident (msq_lock i s') s = same_ident s' s" "same_ident (msq_unlock i s') s = same_ident s' s"
  by (metis ident_sym ident_fields ident_lock)+

lemmas ident_simps = ident_fields ident_lock ident_left

text \<open>Reading an option-valued program backwards.\<close>

lemma ident_freeseg: "same_ident s (msg_freeseg h m nxt s)"
  by (simp add: msg_freeseg_def Let_def ident_simps)

lemma ident_freesegs:
  assumes "msg_freesegs h s = Some s'"
  shows "same_ident s s'"
proof (rule msg_freesegs.raw_induct [of "\<lambda>h. same_ident", OF _ assms])
  fix f h s y
  assume IH: "\<And>h s y. f h s = Some y \<Longrightarrow> same_ident s y"
    and run: "msg_hdr h s \<bind> (\<lambda>m. if 0 < msg_ts m
      then if msg_spot m < 0 \<or> msgseg (msginfo s) \<le> msg_spot m then None
           else msg_map (msg_spot m) s \<bind> (\<lambda>nxt. f h (msg_freeseg h m nxt s))
      else Some s) = Some y"
  from run consider "y = s" | m nxt where "f h (msg_freeseg h m nxt s) = Some y"
    by (auto simp: bind_eq_Some_conv split: if_split_asm)
  then show "same_ident s y"
  proof cases
    case 2
    show ?thesis by (rule ident_trans [OF ident_freeseg IH [OF 2]])
  qed simp
qed

lemma ident_freehdr: "msg_freehdr h s = Some s' \<Longrightarrow> same_ident s s'"
  by (auto simp: msg_freehdr_def ident_simps bind_eq_Some_conv split: if_split_asm dest!: ident_freesegs)

lemma ident_segs: "msgsnd_segs n h s = Some s' \<Longrightarrow> same_ident s s'"
proof (induction n arbitrary: s)
  case (Suc n)
  show ?case
    using Suc.prems by (auto simp: Let_def ident_simps bind_eq_Some_conv split: if_split_asm dest!: Suc.IH)
qed simp

lemma ident_try: "msgsnd_try a s = Some (nxt, s') \<Longrightarrow> same_ident s s'"
  by (auto simp: msgsnd_try_def msgsnd_alloc_def Let_def ident_simps bind_eq_Some_conv split: if_split_asm option.splits dest!: ident_segs)

lemma ident_abort: "msgsnd_abort a h e s = Some (nxt, s') \<Longrightarrow> same_ident s s'"
  by (auto simp: msgsnd_abort_def ident_simps bind_eq_Some_conv dest!: ident_freehdr)

lemma ident_enqueue: "msgsnd_enqueue env a h s = Some (nxt, s') \<Longrightarrow> same_ident s s'"
  by (auto simp: msgsnd_enqueue_def Let_def ident_simps ident_modify bind_eq_Some_conv split: option.splits)

lemma ident_finish: "msgsnd_finish env a h s = Some (nxt, s') \<Longrightarrow> same_ident s s'"
  by (auto simp: msgsnd_finish_def Let_def ident_simps bind_eq_Some_conv split: if_split_asm dest!: ident_freehdr ident_enqueue)

lemma ident_next_seg: "msgsnd_next_seg env a h nx left p s = Some (nxt, s') \<Longrightarrow> same_ident s s'"
  by (auto simp: msgsnd_next_seg_def split: if_split_asm dest!: ident_finish)

lemma ident_type: "msgsnd_type env a h c s = Some (nxt, s') \<Longrightarrow> same_ident s s'"
  by (auto simp: msgsnd_type_def Let_def ident_simps bind_eq_Some_conv split: if_split_asm prod.splits dest!: ident_abort ident_next_seg)

lemma ident_body: "msgsnd_body env a h nx left p c s = Some (nxt, s') \<Longrightarrow> same_ident s s'"
  by (auto simp: msgsnd_body_def pool_store_def Let_def ident_simps bind_eq_Some_conv split: if_split_asm prod.splits dest!: ident_abort ident_next_seg)

lemma ident_run:
  assumes "msgsnd_run env a nxt s = Some r"
  shows "same_ident s (snd r)"
proof (rule msgsnd_run.raw_induct [of "\<lambda>env a nxt s r. same_ident s (snd r)", OF _ assms])
  fix f env a nxt s r
  assume IH: "\<And>env a nxt s r. f env a nxt s = Some r \<Longrightarrow> same_ident s (snd r)"
    and run: "(case nxt of
        SndReturn eval \<Rightarrow> Some (SndReturn eval, s)
      | SndSleep chan we_own_it \<Rightarrow> Some (SndSleep chan we_own_it, s)
      | SndType h \<Rightarrow> msgsnd_type env a h (copyin_type env (snd_msgp a)) s \<bind> (\<lambda>(nxt, s). f env a nxt s)
      | SndBody h next left ptr \<Rightarrow>
          msgsnd_body env a h next left ptr (copyin_bytes env ptr (unat (snd_tlen left s))) s \<bind> (\<lambda>(nxt, s). f env a nxt s)) = Some r"
  show "same_ident s (snd r)"
  proof (cases nxt)
    case (SndType h)
    then obtain n s1 where x: "msgsnd_type env a h (copyin_type env (snd_msgp a)) s = Some (n, s1)" "f env a n s1 = Some r"
      using run by (auto simp: bind_eq_Some_conv)
    show ?thesis by (rule ident_trans [OF ident_type [OF x(1)] IH [OF x(2)]])
  next
    case (SndBody h nx left p)
    then obtain n s1 where x: "msgsnd_body env a h nx left p (copyin_bytes env p (unat (snd_tlen left s))) s = Some (n, s1)" "f env a n s1 = Some r"
      using run by (auto simp: bind_eq_Some_conv)
    show ?thesis by (rule ident_trans [OF ident_body [OF x(1)] IH [OF x(2)]])
  qed (use run in auto)
qed

lemma ident_lookup: "initted s \<Longrightarrow> msq_lookup env n s = Some (r, s') \<Longrightarrow> s' = s"
  by (auto simp: msq_lookup_def msginit_def Let_def bind_eq_Some_conv split: if_split_asm)

lemma ident_start:
  assumes i: "initted s" and run: "msgsnd_start env a s = Some (nxt, s')"
  shows "same_ident s s'"
proof -
  obtain r s1 where l: "msq_lookup env (snd_msqid a) s = Some (r, s1)" using run by (auto simp: msgsnd_start_def bind_eq_Some_conv)
  then have "s1 = s" by (rule ident_lookup [OF i])
  then show ?thesis
    using run l by (auto simp: msgsnd_start_def Let_def split: if_split_asm sum.splits dest!: ident_try)
qed

lemma ident_nocancel:
  assumes i: "initted s" and run: "msgsnd_nocancel env a s = Some (nxt, s')"
  shows "same_ident s s'"
proof -
  obtain n s1 where x: "msgsnd_start env a s = Some (n, s1)" "msgsnd_run env a n s1 = Some (nxt, s')"
    using run by (auto simp: msgsnd_nocancel_def bind_eq_Some_conv)
  show ?thesis using ident_trans [OF ident_start [OF i x(1)] ident_run [OF x(2)]] by simp
qed

lemma ipcperm_core: "perm_core p = perm_core p' \<Longrightarrow> ipcperm c p m = ipcperm c p' m"
proof -
  assume e: "perm_core p = perm_core p'"
  have "ipc_mode p AND NOT MSG_LOCKED = ipc_mode p' AND NOT MSG_LOCKED"
    "ipc_uid p = ipc_uid p'" "ipc_gid p = ipc_gid p'" "ipc_cuid p = ipc_cuid p'" "ipc_cgid p = ipc_cgid p'"
    using e by (simp_all add: perm_core_def ipc_perm.splits) (cases p; cases p'; simp)+
  note fields = this
  have "(ucast (x AND NOT MSG_LOCKED) :: u32) = ucast x AND 0xFDFF" for x :: u16
    by (simp add: MSG_LOCKED_def unsigned_and_eq)
  then have "(ucast (ipc_mode p) :: u32) AND 0xFDFF = ucast (ipc_mode p') AND 0xFDFF" using fields(1) by metis
  then have "((ucast (ipc_mode p) :: u32) AND 0xFDFF) AND k = (ucast (ipc_mode p') AND 0xFDFF) AND k" for k by simp
  then have "(ucast (ipc_mode p) :: u32) AND (0xFDFF AND k) = ucast (ipc_mode p') AND (0xFDFF AND k)" for k by (simp only: and.assoc)
  note masked = this
  from masked [of "0x1C0"] masked [of "0x38"] masked [of "0x7"]
  have "(ucast (ipc_mode p) :: u32) AND 0x1C0 = ucast (ipc_mode p') AND 0x1C0"
    "(ucast (ipc_mode p) :: u32) AND 0x38 = ucast (ipc_mode p') AND 0x38"
    "(ucast (ipc_mode p) :: u32) AND 0x7 = ucast (ipc_mode p') AND 0x7" by simp_all
  then show ?thesis unfolding ipcperm_def fields(2-5) by (simp only:)
qed

lemma rcv_admitted_ident:
  assumes "same_ident s s'" "rcv_admitted env a s" "\<And>q. mac_sysvmsq_check_msqrcv env q = 0"
  shows "rcv_admitted env a s'"
proof -
  have e: "perm_core (msg_perm (msqids s' ! rcv_ix a)) = perm_core (msg_perm (msqids s ! rcv_ix a))" using assms(1) by (simp add: same_ident_def)
  then have "ipc_seq (msg_perm (msqids s' ! rcv_ix a)) = ipc_seq (msg_perm (msqids s ! rcv_ix a))"
    by (cases "msg_perm (msqids s' ! rcv_ix a)"; cases "msg_perm (msqids s ! rcv_ix a)") (simp add: perm_core_def)
  then show ?thesis using assms ipcperm_core [OF e] by (simp add: rcv_admitted_def same_ident_def Let_def)
qed

section \<open>A call run to its end is reachable\<close>

lemma reach_send_piece:
  assumes "msg_reach (ph(t := after_snd a nxt), s)" "copyin_ok env"
  shows "nxt = SndType h \<Longrightarrow> msgsnd_type env a h (copyin_type env (snd_msgp a)) s = Some (n, s1) \<Longrightarrow> msg_reach (ph(t := after_snd a n), s1)"
    "nxt = SndBody h nx left p \<Longrightarrow> msgsnd_body env a h nx left p (copyin_bytes env p (unat (snd_tlen left s))) s = Some (n, s1) \<Longrightarrow>
      msg_reach (ph(t := after_snd a n), s1)"
  using reach_step [OF assms(1), of "EvContinue env 0" t] assms(2)
  by (auto simp: msg_do_def after_snd_def set_race_def)

lemma reach_send_run:
  assumes "msgsnd_run env a nxt s = Some r"
  shows "msg_reach (ph(t := after_snd a nxt), s) \<longrightarrow> copyin_ok env \<longrightarrow> msg_reach (ph(t := after_snd a (fst r)), snd r)"
proof (rule msgsnd_run.raw_induct [of "\<lambda>env a nxt s r. msg_reach (ph(t := after_snd a nxt), s) \<longrightarrow> copyin_ok env \<longrightarrow>
    msg_reach (ph(t := after_snd a (fst r)), snd r)", OF _ assms])
  fix f env a nxt s r
  assume IH: "\<And>env a nxt s r. f env a nxt s = Some r \<Longrightarrow> msg_reach (ph(t := after_snd a nxt), s) \<longrightarrow> copyin_ok env \<longrightarrow>
      msg_reach (ph(t := after_snd a (fst r)), snd r)"
    and run: "(case nxt of
        SndReturn eval \<Rightarrow> Some (SndReturn eval, s)
      | SndSleep chan we_own_it \<Rightarrow> Some (SndSleep chan we_own_it, s)
      | SndType h \<Rightarrow> msgsnd_type env a h (copyin_type env (snd_msgp a)) s \<bind> (\<lambda>(nxt, s). f env a nxt s)
      | SndBody h next left ptr \<Rightarrow>
          msgsnd_body env a h next left ptr (copyin_bytes env ptr (unat (snd_tlen left s))) s \<bind> (\<lambda>(nxt, s). f env a nxt s)) = Some r"
  show "msg_reach (ph(t := after_snd a nxt), s) \<longrightarrow> copyin_ok env \<longrightarrow> msg_reach (ph(t := after_snd a (fst r)), snd r)"
  proof (cases nxt)
    case (SndType h)
    then obtain n s1 where x: "msgsnd_type env a h (copyin_type env (snd_msgp a)) s = Some (n, s1)" "f env a n s1 = Some r"
      using run by (auto simp: bind_eq_Some_conv)
    show ?thesis using IH [OF x(2)] reach_send_piece(1) [OF _ _ SndType x(1)] by blast
  next
    case (SndBody h nx left p)
    then obtain n s1 where x: "msgsnd_body env a h nx left p (copyin_bytes env p (unat (snd_tlen left s))) s = Some (n, s1)" "f env a n s1 = Some r"
      using run by (auto simp: bind_eq_Some_conv)
    show ?thesis using IH [OF x(2)] reach_send_piece(2) [OF _ _ SndBody x(1)] by blast
  qed (use run in auto)
qed

lemma reach_send:
  assumes "msg_reach (ph, s)" "ph t = Idle" "copyin_ok env" "msgsnd_nocancel env a s = Some (SndReturn e, s')"
  shows "msg_reach (ph, s')"
proof -
  obtain n s1 where x: "msgsnd_start env a s = Some (n, s1)" "msgsnd_run env a n s1 = Some (SndReturn e, s')"
    using assms(4) by (auto simp: msgsnd_nocancel_def bind_eq_Some_conv)
  have "msg_reach (ph(t := after_snd a n), s1)"
    using reach_step [OF assms(1), of "EvSend env a" t] assms(2,3) x(1) by (auto simp: msg_do_def set_race_def)
  then have "msg_reach (ph(t := Idle), s')" using reach_send_run [OF x(2), of ph t] assms(3) by (simp add: after_snd_def)
  then show ?thesis using assms(2) by (simp add: fun_upd_idem)
qed

lemma user_copyin: "\<forall>p n. copyin_bytes env p n = (0, user_bytes mem p n) \<Longrightarrow> copyin_ok env"
  by (simp add: copyin_ok_def)

section \<open>A sample\<close>

text \<open>The super-user on a 64-bit system with zeroed allocations; user memory holds at each address its
  low byte, the type 7 at every message and a queue limit of 1024 bytes in every structure.\<close>

definition zero_perm :: ipc_perm where
  "zero_perm = \<lparr> ipc_uid = 0, ipc_gid = 0, ipc_cuid = 0, ipc_cgid = 0, ipc_mode = 0, ipc_seq = 0, ipc_key = 0 \<rparr>"

definition sample_msg_env :: msg_env where
  "sample_msg_env = \<lparr> msg_pid = 1, msg_cred = \<lparr> kauth_cred_getuid = 0, kauth_cred_getgid = 0, suser = 0,
       kauth_cred_ismember_gid = (\<lambda>g. (0, True)) \<rparr>, msg_is64 = True, msg_time = 0, kalloc_ok = (\<lambda>k. True),
     junk_byte = 0, junk_msg = \<lparr> msg_next = None, msg_type = 0, msg_ts = 0, msg_spot = 0 \<rparr>,
     junk_msqid = \<lparr> msg_perm = zero_perm, msg_first = None, msg_last = None, msg_cbytes = 0, msg_qnum = 0, msg_qbytes = 0,
       msg_lspid = 0, msg_lrpid = 0, msg_stime = 0, msg_rtime = 0, msg_ctime = 0 \<rparr>,
     mac_sysvmsq_check_msqctl = (\<lambda>q cmd. 0), mac_sysvmsq_check_msgrmid = (\<lambda>m. 0), mac_sysvmsq_check_msqget = (\<lambda>q. 0),
     mac_sysvmsq_check_msqsnd = (\<lambda>q. 0), mac_sysvmsq_check_enqueue = (\<lambda>m q. 0), mac_sysvmsq_check_msqrcv = (\<lambda>q. 0),
     mac_sysvmsq_check_msgrcv = (\<lambda>m. 0),
     copyin_msqid = (\<lambda>p. (0, \<lparr> xmsg_perm = zero_perm, xmsg_qnum = 0, xmsg_cbytes = 0, xmsg_qbytes = 1024, xmsg_lspid = 0,
       xmsg_lrpid = 0, xmsg_stime = 0, xmsg_rtime = 0, xmsg_ctime = 0 \<rparr>)),
     copyin_type = (\<lambda>p. (0, 7)), copyin_bytes = (\<lambda>p n. (0, user_bytes ucast p n)), msg_copyout = (\<lambda>p. 0) \<rparr>"

definition sample_msgs :: msg_state where
  "sample_msgs = msq_modify 0 (msgget_init sample_msg_env 0 0x1B6 init_msginfo) (snd (msginit sample_msg_env msg_boot_state))"

lemma sample_msg_env_simps [simp]:
  "msg_cred sample_msg_env = \<lparr> kauth_cred_getuid = 0, kauth_cred_getgid = 0, suser = 0, kauth_cred_ismember_gid = (\<lambda>g. (0, True)) \<rparr>"
  "msg_is64 sample_msg_env = True" "kalloc_ok sample_msg_env k = True" "mac_sysvmsq_check_msqctl sample_msg_env q cmd = 0"
  "mac_sysvmsq_check_msgrmid sample_msg_env m = 0" "mac_sysvmsq_check_msqget sample_msg_env q = 0" "mac_sysvmsq_check_msqsnd sample_msg_env q = 0"
  "mac_sysvmsq_check_enqueue sample_msg_env m q = 0" "mac_sysvmsq_check_msqrcv sample_msg_env q = 0" "mac_sysvmsq_check_msgrcv sample_msg_env m = 0"
  "copyin_type sample_msg_env p = (0, 7)" "copyin_bytes sample_msg_env p n = (0, user_bytes ucast p n)" "msg_copyout sample_msg_env p = 0"
  by (simp_all add: sample_msg_env_def)

lemma ipcperm_root [simp]: "suser c = 0 \<Longrightarrow> ipcperm c perm mode = 0"
  by (simp add: ipcperm_def)

lemma sample_copyin: "copyin_ok sample_msg_env"
  by (simp add: copyin_ok_def)

lemma boot_uninit: "msg_uninit msg_boot_state"
  by (simp add: msg_uninit_def msg_boot_state_def)

lemma sample_init: "fst (msginit sample_msg_env msg_boot_state)"
  by (simp add: msginit_def Let_def)

lemma boot_msginfo [simp]: "msginfo msg_boot_state = init_msginfo" "\<not> initted msg_boot_state"
  by (simp_all add: msg_boot_state_def)

lemma sample_msginit:
  "msginit sample_msg_env msg_boot_state = (True, msg_boot_state\<lparr>msgpool := replicate 16384 0, msgmaps := msgmaps_init 2048,
     free_msgmaps := 0, nfree_msgmaps := 2048, msghdrs := msghdrs_init 40 (junk_msg sample_msg_env), free_msghdrs := Some 0,
     msqids := msqids_init 40 (junk_msqid sample_msg_env), initted := True\<rparr>)"
proof -
  have "junk_byte sample_msg_env = 0" by (simp add: sample_msg_env_def)
  moreover have "nat (msgmax init_msginfo) = 16384" "nat (msgseg init_msginfo) = 2048" "msgseg init_msginfo = 2048"
    "nat (msgtql init_msginfo) = 40" "nat (msgmni init_msginfo) = 40"
    by (simp_all add: init_msginfo_def MSGMAX_def MSGSSZ_def MSGSEG_def MSGTQL_def MSGMNI_def)
  ultimately show ?thesis by (simp add: msginit_def init_msginfo_checked Let_def)
qed

lemma sample_table: "msqids_init n (junk_msqid sample_msg_env) = replicate n (junk_msqid sample_msg_env)"
proof -
  have "(junk_msqid sample_msg_env)\<lparr>msg_qbytes := 0, msg_perm := (msg_perm (junk_msqid sample_msg_env))\<lparr>ipc_seq := 0, ipc_mode := 0\<rparr>\<rparr> = junk_msqid sample_msg_env"
    by (simp add: sample_msg_env_def zero_perm_def)
  then show ?thesis by (simp add: msqids_init_def)
qed

lemma sample_msqids:
  "msqids sample_msgs ! 0 = msgget_init sample_msg_env 0 0x1B6 init_msginfo (junk_msqid sample_msg_env)"
  "msginfo sample_msgs = init_msginfo" "initted sample_msgs" "nfree_msgmaps sample_msgs = 2048" "free_msghdrs sample_msgs = Some 0"
  "length (msqids sample_msgs) = 40"
  by (simp_all add: sample_msgs_def sample_msginit msq_modify_def sample_table)

lemma msq_find_replicate: "P x \<Longrightarrow> msq_find P i (replicate (Suc n) x) = i"
  by simp

lemma sample_perm: "msg_perm (msgget_init sample_msg_env 0 0x1B6 init_msginfo (junk_msqid sample_msg_env)) = zero_perm\<lparr>ipc_mode := 0x1B6, ipc_seq := 1\<rparr>"
  "msg_qbytes (msgget_init sample_msg_env 0 0x1B6 init_msginfo (junk_msqid sample_msg_env)) = 2048"
  "msg_cbytes (msgget_init sample_msg_env 0 0x1B6 init_msginfo (junk_msqid sample_msg_env)) = 0"
  "msg_qnum (msgget_init sample_msg_env 0 0x1B6 init_msginfo (junk_msqid sample_msg_env)) = 0"
  by (simp_all add: msgget_init_def sample_msg_env_def zero_perm_def init_msginfo_def MSGMNB_def)

lemma sample_get: "msgget sample_msg_env 0 0x1B6 msg_boot_state = Some (0, Some 65536, sample_msgs)"
proof -
  define s0 where "s0 = snd (msginit sample_msg_env msg_boot_state)"
  have i: "msginit sample_msg_env msg_boot_state = (True, s0)" by (simp add: s0_def sample_msginit)
  have n: "nat (msgmni (msginfo s0)) = 40" by (simp add: s0_def sample_msginit init_msginfo_def MSGMNI_def)
  have "take 40 (msqids s0) = replicate (Suc 39) (junk_msqid sample_msg_env)"
    by (simp add: s0_def sample_msginit sample_table del: replicate_Suc)
  then have f: "msq_find (\<lambda>q. msg_qbytes q = 0 \<and> \<not> msq_locked q) 0 (take 40 (msqids s0)) = 0"
    by (simp only:) (rule msq_find_replicate, simp add: sample_msg_env_def msq_locked_def zero_perm_def)
  have "msq 0 s0 \<noteq> None" by (simp add: msq_def s0_def sample_msginit sample_table)
  moreover have "msginfo s0 = init_msginfo" by (simp add: s0_def sample_msginit)
  moreover have "msgget_found 0 sample_msgs = Some (0, Some 65536, sample_msgs)"
    by (simp add: msgget_found_def msq_def sample_msqids sample_perm IXSEQ_TO_IPCID_def)
  ultimately show ?thesis
    unfolding msgget_def i Let_def prod.case n f by (auto simp: IPC_PRIVATE_def sample_msgs_def s0_def)
qed

lemma sample_reach: "msg_reach (\<lambda>t. Idle, sample_msgs)"
proof (rule reach_step [OF reach_boot])
  show "msg_do 0 (EvGet sample_msg_env 0 0x1B6) (\<lambda>t. Idle, msg_boot_state) = Some (\<lambda>t. Idle, sample_msgs)"
    by (simp add: msg_do_def sample_get fun_upd_idem)
qed (simp_all add: sample_copyin set_race_def)

lemma sample_queue: "msg_queue sample_msgs 0 = Some []"
  by (simp add: msg_queue_def sample_msqids sample_perm)

definition sample_send :: snd_args where
  "sample_send = \<lparr> snd_msqid = 65536, snd_msgp = 0x1000, snd_msgsz = 12, snd_msgflg = 0 \<rparr>"

lemma sample_ix: "IPCID_TO_IX 65536 = 0" "IPCID_TO_SEQ 65536 = 1"
  by (simp_all add: IPCID_TO_IX_def IPCID_TO_SEQ_def)

lemma init_msginfo_simps [simp]:
  "msgmni init_msginfo = 40" "msgssz init_msginfo = 8" "msgmnb init_msginfo = 2048" "msgseg init_msginfo = 2048"
  by (simp_all add: init_msginfo_def MSGMNI_def MSGSSZ_def MSGMNB_def MSGSEG_def)

lemma sample_admitted: "snd_admitted sample_msg_env sample_send sample_msgs"
  by (simp add: snd_admitted_def sample_send_def sample_ix sample_msqids sample_perm Let_def snd_blocking_def segs_needed_def
    msq_locked_def MSG_LOCKED_def zero_perm_def)

section \<open>The message queues as a whole\<close>

lemma conf_initted:
  assumes "conf_ok (ph, s)" "initted s"
  obtains L where "msg_wf {} L (\<lambda>t. phase_held (ph t)) s" "\<And>t. phase_ok L s (ph t)"
  using assms by (auto simp: conf_ok_def msg_uninit_def)

lemma conf_thread:
  assumes "msg_reach (ph, s)" "initted s" "ph t = Idle"
  obtains L where "msg_wf {} L (\<lambda>t. phase_held (ph t)) s" "\<And>t. phase_ok L s (ph t)" "phase_held (ph t) = {}"
  using conf_initted [OF reach_ok [OF assms(1)] assms(2)] assms(3) by auto

text \<open>C6. From boot, whatever calls the threads make, with whatever arguments, user memory and policy
  decisions, and however the pieces of their calls interleave, no piece reads or writes outside a table,
  follows a bad link or reaches a \<open>panic\<close>: the next event is always carried out.  The one event excluded
  is the end of an \<open>IPC_SET\<close> whose queue was removed while it had released the lock.\<close>
theorem msg_no_crash:
  assumes "msg_reach c" "copyin_ok (event_env ev)" "\<not> set_race t ev c"
  shows "msg_do t ev c \<noteq> None"
  using conf_step [OF reach_ok [OF assms(1)] assms(2,3)] by auto

theorem msg_no_crash_witness: "msg_do 3 (EvSend sample_msg_env sample_send) (\<lambda>t. Idle, sample_msgs) \<noteq> None"
  using msg_no_crash [OF sample_reach, of "EvSend sample_msg_env sample_send" 3] sample_copyin by (simp add: set_race_def)



text \<open>C11. No segment of the message pool is lost or counted twice: when no call is in progress, the free
  segments and those of the messages in the queues add up to the 2048 of the pool.\<close>
theorem msg_no_leak:
  assumes "msg_reach (ph, s)" "initted s" "\<forall>t. ph t = Idle"
  shows "nfree_msgmaps s + int (\<Sum>i<40. queue_segs (msg_queue s i)) = 2048"
proof -
  obtain L where L: "msg_wf {} L (\<lambda>t. phase_held (ph t)) s" using conf_initted [OF reach_ok [OF assms(1)] assms(2)] by blast
  then show ?thesis using segs_account [OF L] assms(3) by simp
qed

theorem msg_no_leak_witness: "nfree_msgmaps sample_msgs + int (\<Sum>i<40. queue_segs (msg_queue sample_msgs i)) = 2048"
  using msg_no_leak [OF sample_reach] sample_msqids(3) by simp

text \<open>C9. A send that is permitted, fits and finds room returns zero after finitely many segments, with the
  message, its type and all its bytes in order, at the end of its queue and every other queue as it was.\<close>
theorem msgsnd_delivers:
  assumes "msg_reach (ph, s)" "ph t = Idle" "snd_admitted env a s" "msg_queue s (snd_ix a) = Some q"
    "copyin_type env (snd_msgp a) = (0, ty)" "1 \<le> ty" "\<forall>p n. copyin_bytes env p n = (0, user_bytes mem p n)"
    "\<forall>m q. mac_sysvmsq_check_enqueue env m q = 0"
  shows "\<exists>s'. msgsnd_nocancel env a s = Some (SndReturn 0, s') \<and> msg_reach (ph, s') \<and>
    msg_queue s' = (msg_queue s)(snd_ix a := Some (q @ [(ty, user_bytes mem (snd_msgp a + (if msg_is64 env then 8 else 4)) (unat (snd_msgsz a)))]))"
proof -
  have "initted s" using assms(3) by (simp add: snd_admitted_def Let_def)
  then obtain L where L: "msg_wf {} L (\<lambda>t. phase_held (ph t)) s" "\<And>t. phase_ok L s (ph t)"
    using conf_initted [OF reach_ok [OF assms(1)]] by blast
  let ?Q = "(msg_queue s)(snd_ix a := Some (q @ [(ty, user_bytes mem (snd_msgp a + (if msg_is64 env then 8 else 4)) (unat (snd_msgsz a)))]))"
  obtain s' where s': "msgsnd_nocancel env a s = Some (SndReturn 0, s')" "msg_post t (\<lambda>t. phase_held (ph t)) L s ?Q Nothing Idle s'"
    using msgsnd_delivers_wf [OF L(1) _ assms(3,5,6) _ _ assms(4), of t mem] assms(2,7,8) by auto
  then show ?thesis using reach_send [OF assms(1,2) user_copyin [OF assms(7)] s'(1)] by (auto simp: msg_post_def)
qed

theorem msgsnd_delivers_witness:
  "\<exists>s'. msgsnd_nocancel sample_msg_env sample_send sample_msgs = Some (SndReturn 0, s') \<and> msg_reach (\<lambda>t. Idle, s') \<and>
    msg_queue s' = (msg_queue sample_msgs)(0 \<mapsto> [(7, user_bytes ucast 0x1008 12)])"
proof -
  have "snd_ix sample_send = 0" by (simp add: sample_send_def sample_ix)
  then show ?thesis
    using msgsnd_delivers [of "\<lambda>t. Idle" sample_msgs 0 sample_msg_env sample_send "[]" 7 ucast, OF sample_reach refl sample_admitted] sample_queue
    by (simp add: sample_send_def)
qed

definition sample_receive :: rcv_args where
  "sample_receive = \<lparr> rcv_msqid = 65536, rcv_msgp = 0x2000, rcv_msgsz = 64, rcv_msgtyp = 7, rcv_msgflg = 0 \<rparr>"

lemma sample_rcv_admitted: "rcv_admitted sample_msg_env sample_receive sample_msgs"
  by (simp add: rcv_admitted_def sample_receive_def sample_ix sample_msqids sample_perm Let_def zero_perm_def)

lemma find_appended: "\<forall>x\<in>set xs. \<not> P x \<Longrightarrow> P y \<Longrightarrow> find P (xs @ [y]) = Some y"
  by (induction xs) auto

lemma find_appended_remove: "\<forall>x\<in>set xs. \<not> P x \<Longrightarrow> P y \<Longrightarrow> remove1 y (xs @ [y]) = xs"
  by (induction xs) auto

text \<open>C8. A message that was sent and that no earlier message of the queue forestalls is received as it was
  sent: the receive returns the size of the send, the type and the bytes copied out are those copied
  in, and the queues are as before.\<close>
theorem msg_roundtrip:
  assumes "msg_reach (ph, s)" "ph t = Idle" "snd_admitted env a s" "rcv_admitted env' b s" "rcv_ix b = snd_ix a"
    "msg_queue s (snd_ix a) = Some q" "copyin_type env (snd_msgp a) = (0, ty)" "1 \<le> ty"
    "\<forall>p n. copyin_bytes env p n = (0, user_bytes mem p n)" "\<forall>m q. mac_sysvmsq_check_enqueue env m q = 0"
    "\<forall>q. mac_sysvmsq_check_msqrcv env' q = 0" "\<forall>m. mac_sysvmsq_check_msgrcv env' m = 0" "\<forall>p. msg_copyout env' p = 0"
    "\<forall>v\<in>set q. \<not> mq_wants (rcv_msgtyp b) v" "rcv_msgtyp b = 0 \<or> rcv_match (rcv_msgtyp b) ty" "snd_msgsz a \<le> rcv_msgsz b"
  shows "\<exists>s1 s2 outs. msgsnd_nocancel env a s = Some (SndReturn 0, s1) \<and>
    msgrcv_nocancel env' b s1 = Some (RcvReturn 0 (Some (snd_msgsz a)), s2) \<and>
    msg_out s2 = msg_out s @ (rcv_msgp b, OutType (if msg_is64 env' then ty else signed_take_bit 31 ty)) # outs \<and>
    delivered (rcv_msgp b + (if msg_is64 env' then 8 else 4)) outs =
      Some (user_bytes mem (snd_msgp a + (if msg_is64 env then 8 else 4)) (unat (snd_msgsz a))) \<and>
    msg_queue s2 = msg_queue s"
proof -
  let ?held = "\<lambda>t. phase_held (ph t)" and ?i = "snd_ix a"
  define bs where "bs = user_bytes mem (snd_msgp a + (if msg_is64 env then 8 else 4)) (unat (snd_msgsz a))"
  have len: "length bs = unat (snd_msgsz a)" by (simp add: bs_def)
  have wants: "mq_wants (rcv_msgtyp b) (ty, bs)" using assms(15) by (simp add: mq_wants_def)
  have i: "initted s" using assms(3) by (simp add: snd_admitted_def Let_def)
  obtain L where L: "msg_wf {} L ?held s" "phase_held (ph t) = {}" using conf_thread [OF assms(1) i assms(2)] by metis
  obtain s1 where s1: "msgsnd_nocancel env a s = Some (SndReturn 0, s1)" "msg_out s1 = msg_out s"
    "msg_post t ?held L s ((msg_queue s)(?i := Some (q @ [(ty, bs)]))) Nothing Idle s1"
    using msgsnd_delivers_wf [OF L assms(3,7,8) _ _ assms(6), of mem] assms(9,10) unfolding bs_def by auto
  have adm: "rcv_admitted env' b s1"
    using rcv_admitted_ident [OF ident_nocancel [OF i s1(1)] assms(4)] assms(11) by simp
  obtain L1 where L1: "msg_wf {} L1 (?held(t := {})) s1" "msg_queue s1 = (msg_queue s)(?i := Some (q @ [(ty, bs)]))"
    using s1(3) by (auto simp: msg_post_def)
  have q1: "msg_queue s1 (rcv_ix b) = Some (q @ [(ty, bs)])" using L1(2) assms(5) by simp
  have n: "unat (snd_msgsz a) \<le> unat (rcv_msgsz b)" using assms(16) by (simp add: word_le_nat_alt)
  obtain s2 outs where s2: "msgrcv_nocancel env' b s1 = Some (RcvReturn 0 (Some (of_nat (min (unat (rcv_msgsz b)) (length bs)))), s2)"
    "msg_out s2 = msg_out s1 @ (rcv_msgp b, OutType (if msg_is64 env' then ty else signed_take_bit 31 ty)) # outs"
    "delivered (rcv_msgp b + (if msg_is64 env' then 8 else 4)) outs = Some (take (unat (rcv_msgsz b)) bs)"
    "msg_post t (?held(t := {})) L1 s1 ((msg_queue s1)(rcv_ix b := Some (remove1 (ty, bs) (q @ [(ty, bs)])))) Nothing Idle s2"
    using msgrcv_delivers_wf [OF L1(1) _ adm q1 find_appended [OF assms(14) wants], of t] assms(12,13) n len by auto
  have "msg_queue s2 = msg_queue s"
    using s2(4) find_appended_remove [OF assms(14) wants] L1(2) assms(5,6) by (auto simp add: msg_post_def fun_upd_idem)
  moreover have "min (unat (rcv_msgsz b)) (length bs) = unat (snd_msgsz a)" "take (unat (rcv_msgsz b)) bs = bs" using n len by simp_all
  ultimately show ?thesis using s1(1,2) s2(1-3) unfolding bs_def by auto
qed

theorem msg_roundtrip_witness:
  "\<exists>s1 s2 outs. msgsnd_nocancel sample_msg_env sample_send sample_msgs = Some (SndReturn 0, s1) \<and>
    msgrcv_nocancel sample_msg_env sample_receive s1 = Some (RcvReturn 0 (Some 12), s2) \<and>
    msg_out s2 = msg_out sample_msgs @ (0x2000, OutType 7) # outs \<and>
    delivered 0x2008 outs = Some (user_bytes ucast 0x1008 12) \<and> msg_queue s2 = msg_queue sample_msgs"
proof -
  have ix: "snd_ix sample_send = 0" "rcv_ix sample_receive = 0" by (simp_all add: sample_send_def sample_receive_def sample_ix)
  then show ?thesis
    using msg_roundtrip [of "\<lambda>t. Idle" sample_msgs 0 sample_msg_env sample_send sample_msg_env sample_receive "[]" 7 ucast,
        OF sample_reach refl sample_admitted sample_rcv_admitted] sample_queue
    by (simp add: sample_send_def sample_receive_def rcv_match_def)
qed


lemma sample_sent:
  "\<exists>s1. msgsnd_nocancel sample_msg_env sample_send sample_msgs = Some (SndReturn 0, s1) \<and> msg_reach (\<lambda>t. Idle, s1) \<and>
    msg_queue s1 0 = Some [(7, user_bytes ucast 0x1008 12)] \<and> rcv_admitted sample_msg_env sample_receive s1"
proof -
  have ix: "snd_ix sample_send = 0" by (simp add: sample_send_def sample_ix)
  obtain L where L: "msg_wf {} L (\<lambda>t. {}) sample_msgs" using conf_initted [OF reach_ok [OF sample_reach] sample_msqids(3)] by auto
  obtain s1 where s1: "msgsnd_nocancel sample_msg_env sample_send sample_msgs = Some (SndReturn 0, s1)"
    "msg_queue s1 0 = Some [(7, user_bytes ucast 0x1008 12)]"
    using msgsnd_delivers_wf [OF L _ sample_admitted, where t = 0 and ty = 7 and mem = ucast and q = "[]"] sample_queue ix
    by (auto simp: msg_post_def sample_send_def)
  have "rcv_admitted sample_msg_env sample_receive s1"
    by (rule rcv_admitted_ident [OF ident_nocancel [OF sample_msqids(3) s1(1)] sample_rcv_admitted]) simp
  then show ?thesis using s1 reach_send [OF sample_reach _ sample_copyin s1(1)] by auto
qed


end
