(* ===== verification/Sysv_Msg_Races.thy ===== *)
theory Sysv_Msg_Races
  imports Sysv_Msg_Delivery
begin

text \<open>A run from boot in which \<open>msgctl\<close> works on a queue that was removed while it had released the lock.\<close>

section \<open>An \<open>IPC_SET\<close> that outlives its queue\<close>

text \<open>Events in a row.\<close>

fun msg_trace :: "(nat \<times> msg_event) list \<Rightarrow> msg_config \<Rightarrow> msg_config option" where
  "msg_trace [] c = Some c"
| "msg_trace ((t, ev) # evs) c = Option.bind (msg_do t ev c) (msg_trace evs)"

text \<open>The sample with another header 0, another queue 0 and another start of the free list.\<close>

definition altered :: "msg \<Rightarrow> user_msqid_ds \<Rightarrow> nat option \<Rightarrow> msg_chan list \<Rightarrow> msg_state" where
  "altered m q f w = sample_msgs\<lparr>msghdrs := (msghdrs sample_msgs)[0 := m], msqids := (msqids sample_msgs)[0 := q],
     free_msghdrs := f, msg_woken := w\<rparr>"

lemma sample_msghdrs: "msghdrs sample_msgs = msghdrs_init 40 (junk_msg sample_msg_env)"
  by (simp add: sample_msgs_def sample_msginit msq_modify_def)

lemma altered_hdr:
  "msg_hdr 0 (altered m q f w) = Some m"
  "0 < h \<Longrightarrow> h < 40 \<Longrightarrow> msg_hdr h (altered m q f w) =
    Some ((junk_msg sample_msg_env)\<lparr>msg_next := (if Suc h < 40 then Some (Suc h) else None)\<rparr>)"
  by (simp_all add: msg_hdr_def altered_def sample_msghdrs msghdrs_init_def sample_msg_env_def)

lemma altered_simps [simp]:
  "msq 0 (altered m q f w) = Some q" "msq_modify 0 g (altered m q f w) = altered m (g q) f w"
  "hdr_modify 0 k (altered m q f w) = altered (k m) q f w" "free_msghdrs (altered m q f w) = f"
  "(altered m q f w)\<lparr>free_msghdrs := f'\<rparr> = altered m q f' w" "msg_wakeup c (altered m q f w) = altered m q f (w @ [c])"
  "msginfo (altered m q f w) = init_msginfo" "initted (altered m q f w)" "nfree_msgmaps (altered m q f w) = 2048"
  by (simp_all add: altered_def sample_msqids sample_msghdrs msghdrs_init_def msq_def msq_modify_def hdr_modify_def msg_wakeup_def)

lemma sample_altered: "sample_msgs = altered (msghdrs sample_msgs ! 0) (msqids sample_msgs ! 0) (Some 0) []"
proof -
  have "msg_woken sample_msgs = []" by (simp add: sample_msgs_def sample_msginit msq_modify_def) (simp add: msg_boot_state_def)
  then show ?thesis using sample_msqids(5) by (intro msg_state.equality) (simp_all add: altered_def)
qed

lemma altered_lookup: "msg_qbytes q \<noteq> 0 \<Longrightarrow> ipc_seq (msg_perm q) = 1 \<Longrightarrow>
  msq_lookup env 65536 (altered m q f w) = Some (Inr (0, q), altered m q f w)"
  by (simp add: msq_lookup_def msginit_def sample_ix Let_def)

text \<open>A message of no bytes.\<close>

definition empty_send :: snd_args where
  "empty_send = sample_send\<lparr>snd_msgsz := 0\<rparr>"

lemma empty_send_simps [simp]: "snd_msqid empty_send = 65536" "snd_msgsz empty_send = 0" "IPCID_TO_IX 65536 = 0"
  by (simp_all add: empty_send_def sample_send_def sample_ix)

lemma altered_send:
  assumes "msg_qbytes q = 2048" "ipc_seq (msg_perm q) = 1" "msg_cbytes q = 0" "\<not> msq_locked q" "msg_first q = None"
  shows "\<exists>m' q' w'. msg_trace [(0, EvSend sample_msg_env empty_send), (0, EvContinue sample_msg_env 0)] (\<lambda>t. Idle, altered m q (Some 0) w) =
    Some (\<lambda>t. Idle, altered m' q' (msg_next m) w') \<and> msg_ts m' = 0 \<and> msg_spot m' = - 1 \<and> msg_next m' = None \<and>
    msg_qbytes q' = 2048 \<and> ipc_seq (msg_perm q') = 1 \<and> msg_cbytes q' = 0 \<and> msg_first q' = Some 0 \<and> msg_qnum q' = msg_qnum q + 1"
proof -
  have st: "msgsnd_start sample_msg_env empty_send (altered m q (Some 0) w) =
    Some (SndType 0, altered (m\<lparr>msg_spot := - 1, msg_ts := 0\<rparr>) (q\<lparr>msg_perm := (msg_perm q)\<lparr>ipc_mode := ipc_mode (msg_perm q) OR MSG_LOCKED\<rparr>\<rparr>) (msg_next m) w)"
    using assms by (simp add: msgsnd_start_def altered_lookup msgsnd_try_def snd_blocking_def segs_needed_def msgsnd_alloc_def
        altered_hdr msq_lock_def Let_def)
  show ?thesis
    using assms by (simp add: msg_do_def st after_snd_def msgsnd_type_def altered_hdr msgsnd_next_seg_def
      msgsnd_finish_def msq_unlock_def msgsnd_enqueue_def Let_def fun_upd_idem)
      (intro exI conjI, rule refl, simp_all)
qed

text \<open>The queue disappears, its header goes to the free list; its descriptor keeps the link.\<close>

lemma rmid_check_free:
  assumes "0 < h" "h < 40"
  shows "msgrmid_check sample_msg_env (Some h) (altered m q f w) = Some 0"
  using assms
proof (induction "40 - h" arbitrary: h)
  case (Suc n)
  then show ?case
    using msgrmid_check.simps [of sample_msg_env None] by (subst msgrmid_check.simps) (cases "Suc h < 40"; simp add: altered_hdr)
qed simp

lemma altered_free:
  assumes "msg_ts m = 0" "msg_spot m = - 1"
  shows "msg_freehdr 0 (altered m q f w) = Some (altered (m\<lparr>msg_next := f\<rparr>) q (Some 0) (w @ [ChanFree]))"
  using assms by (simp add: msg_freehdr_def msg_freesegs.simps altered_hdr)

lemma altered_rmid:
  assumes "msg_ts m = 0" "msg_spot m = - 1" "msg_next m = None" "msg_first q = Some 0" "msg_cbytes q = 0" "msg_qnum q = 1"
  shows "msg_rmid sample_msg_env 0 (altered m q f w) = Some (CtlReturn 0 (Some 0),
    altered (m\<lparr>msg_next := f\<rparr>) (q\<lparr>msg_cbytes := 0, msg_qnum := 0, msg_qbytes := 0\<rparr>) (Some 0) (w @ [ChanFree, ChanQueue 0]))"
proof -
  have "msgrmid_check sample_msg_env (Some 0) (altered m q f w) = Some 0"
    using assms by (subst msgrmid_check.simps) (simp add: altered_hdr, subst msgrmid_check.simps, simp)
  moreover have "msgrmid_free 0 None s = Some s" for s by (subst msgrmid_free.simps) simp
  then have "msgrmid_free 0 (Some 0) (altered m q f w) =
    Some (altered (m\<lparr>msg_next := f\<rparr>) (q\<lparr>msg_cbytes := 0, msg_qnum := 0\<rparr>) (Some 0) (w @ [ChanFree]))"
    using assms by (subst msgrmid_free.simps) (simp add: altered_hdr altered_free)
  ultimately show ?thesis using assms by (simp add: msg_rmid_def)
qed

text \<open>Removing the queue once more walks from its old header into the free list.\<close>

lemma altered_rmid_again:
  assumes "msg_ts m = 0" "msg_spot m = - 1" "msg_next m = Some 1" "msg_first q = Some 0"
  shows "msg_rmid sample_msg_env 0 (altered m q f w) = None"
proof -
  have "msgrmid_check sample_msg_env (Some 0) (altered m q f w) = Some 0"
    using assms rmid_check_free [of 1] by (subst msgrmid_check.simps) (simp add: altered_hdr)
  moreover have "msgrmid_free 0 (Some 1) (altered m q f w) = None" for m q f w
  proof -
    have "msg_freehdr 1 (altered m q f w) = None" for m q f w
      by (simp add: msg_freehdr_def msg_freesegs.simps altered_hdr) (simp add: sample_msg_env_def)
    then show ?thesis by (subst msgrmid_free.simps) (simp add: altered_hdr)
  qed
  then have "msgrmid_free 0 (Some 0) (altered m q f w) = None"
    using assms by (subst msgrmid_free.simps) (simp add: altered_hdr altered_free)
  ultimately show ?thesis using assms by (simp add: msg_rmid_def)
qed

lemma trace_append: "msg_trace xs c = Some c' \<Longrightarrow> msg_trace ys c' = r \<Longrightarrow> msg_trace (xs @ ys) c = r"
proof (induction xs arbitrary: c)
  case (Cons x xs)
  then show ?case by (cases x) (auto simp: bind_eq_Some_conv simp del: split_paired_Ex)
qed simp

lemma altered_control:
  assumes "msg_qbytes q \<noteq> 0" "ipc_seq (msg_perm q) = 1"
  shows "msgctl_start sample_msg_env 65536 IPC_RMID 0 (altered m q f w) = msg_rmid sample_msg_env 0 (altered m q f w)"
    "msgctl_start sample_msg_env 65536 IPC_SET 0 (altered m q f w) = Some (CtlSet, altered m q f w)"
  using assms by (simp_all add: msgctl_start_def altered_lookup IPC_RMID_def IPC_SET_def)


end
