(* ===== verification/Sysv_Shm.thy ===== *)
theory Sysv_Shm
  imports Sysv_Ipc
begin

text \<open>
  System V shared memory: \<^verbatim>\<open>src/bsd/kern/sysv_shm.c\<close> with the structures of
  \<^verbatim>\<open>src/bsd/sys/shm_internal.h\<close>, in the x86 configuration (pages of 4096 bytes).  Every call holds the lock
  of the subsystem from beginning to end and is one function.  The operations of the virtual memory
  system are parameters, and what they were asked to do is logged in \<open>shm_vm\<close>.  \<open>None\<close> is a \<open>panic\<close>, an access
  outside a table, or a call that never returns.
\<close>

section \<open>Constants\<close>

definition SHMSEG_FREE :: u16 where "SHMSEG_FREE = 0x200"
definition SHMSEG_REMOVED :: u16 where "SHMSEG_REMOVED = 0x400"
definition SHMSEG_ALLOCATED :: u16 where "SHMSEG_ALLOCATED = 0x800"
definition SHMSEG_WANTED :: u16 where "SHMSEG_WANTED = 0x1000"

definition SHMID_UNALLOCATED :: int where "SHMID_UNALLOCATED = - 1"
definition SHMID_SENTINEL :: int where "SHMID_SENTINEL = - 2"

definition SHMID_IS_VALID :: "int \<Rightarrow> bool" where
  "SHMID_IS_VALID x \<longleftrightarrow> x \<ge> 0"

definition SHM_RDONLY :: u32 where "SHM_RDONLY = 0x1000"
definition SHM_RND :: u32 where "SHM_RND = 0x2000"
definition EMFILE :: int where "EMFILE = 24"

definition KERN_SUCCESS :: int where "KERN_SUCCESS = 0"
definition KERN_INVALID_ADDRESS :: int where "KERN_INVALID_ADDRESS = 1"
definition KERN_PROTECTION_FAILURE :: int where "KERN_PROTECTION_FAILURE = 2"
definition KERN_NO_SPACE :: int where "KERN_NO_SPACE = 3"

text \<open>\<open>VM_PROT_READ\<close> and \<open>VM_PROT_READ | VM_PROT_WRITE\<close>.\<close>

datatype vm_prot = ProtRead | ProtReadWrite

definition PAGE_MASK :: u64 where "PAGE_MASK = 4095"
definition ANON_MAX_SIZE :: u64 where "ANON_MAX_SIZE = push_bit 12 0xFFFFFFFF"

text \<open>Bytes to pages; the macro converts its argument to \<open>unsigned\<close>.\<close>

definition btoc :: "u64 \<Rightarrow> u32" where
  "btoc x = drop_bit 12 (ucast x + 4095)"

definition vm_map_round_page :: "u64 \<Rightarrow> u64 \<Rightarrow> u64" where
  "vm_map_round_page x pgmask = (x + pgmask) AND NOT pgmask"

definition mach_vm_round_page_overflow :: "u64 \<Rightarrow> bool \<times> u64" where
  "mach_vm_round_page_overflow x = (uint x + uint PAGE_MASK \<ge> 2 ^ 64, (x + PAGE_MASK) AND NOT PAGE_MASK)"

section \<open>Data\<close>

text \<open>A memory entry is known by a number.  The chunks of a segment, linked through \<open>shm_handle_next\<close> from
  \<open>shm_internal\<close>, are a list.\<close>

record shm_handle =
  shm_object :: nat
  shm_handle_size :: u64

record shmid_kernel =
  shm_perm :: ipc_perm
  shm_segsz :: u64
  shm_lpid :: int
  shm_cpid :: int
  shm_nattch :: u16
  shm_atime :: int
  shm_dtime :: int
  shm_ctime :: int
  shm_internal :: "shm_handle list"

text \<open>The structure that crosses the user boundary; its \<open>shm_internal\<close> is always null.\<close>

record ext_shmid_ds =
  xshm_perm :: ipc_perm
  xshm_segsz :: int
  xshm_lpid :: int
  xshm_cpid :: int
  xshm_nattch :: int
  xshm_atime :: int
  xshm_dtime :: int
  xshm_ctime :: int

record shmmap_state =
  shm_va :: u64
  map_shmid :: int

record shminfo =
  shmmax :: int
  shmmin :: int
  shmmni :: int
  shmseg :: int
  shmall :: int

definition init_shminfo :: shminfo where
  "init_shminfo = \<lparr> shmmax = 4 * 1024 * 1024, shmmin = 1, shmmni = 32, shmseg = 8, shmall = 1024 \<rparr>"

text \<open>What the virtual memory system was asked to do, with success: create and release a memory entry,
  reserve a range of the address space of a process, map an entry there, remove a range.\<close>

datatype vm_event =
    EntryMade nat
  | EntryReleased nat
  | VmReserved nat u64 u64
  | VmMapped nat u64 u64 nat vm_prot
  | VmRemoved nat u64 u64

datatype shm_data = OutShmid ext_shmid_ds | OutShminfo shminfo

text \<open>\<open>vm_shm\<close> is the table of attachments of each process, with its sentinel.\<close>

record shm_state =
  shm_limits :: shminfo
  shm_inited :: bool
  shm_last_free :: int
  shm_nused :: int
  shm_committed :: u32
  shmsegs :: "shmid_kernel list"
  vm_shm :: "nat \<Rightarrow> shmmap_state list option"
  shm_vm :: "vm_event list"
  shm_out :: "(u64 \<times> shm_data) list"

definition zero_shmid :: shmid_kernel where
  "zero_shmid = \<lparr> shm_perm = \<lparr> ipc_uid = 0, ipc_gid = 0, ipc_cuid = 0, ipc_cgid = 0, ipc_mode = 0, ipc_seq = 0, ipc_key = 0 \<rparr>,
     shm_segsz = 0, shm_lpid = 0, shm_cpid = 0, shm_nattch = 0, shm_atime = 0, shm_dtime = 0, shm_ctime = 0, shm_internal = [] \<rparr>"

definition shm_boot_state :: shm_state where
  "shm_boot_state = \<lparr> shm_limits = init_shminfo, shm_inited = False, shm_last_free = 0, shm_nused = 0, shm_committed = 0,
     shmsegs = [], vm_shm = (\<lambda>p. None), shm_vm = [], shm_out = [] \<rparr>"

text \<open>What the rest of the kernel answers to the calling process \<open>shm_proc\<close>.  A call may ask for several
  chunks and mappings: \<open>make_entry\<close> is given the offset and the size of the chunk and returns, with the
  result, the size and the entry; \<open>vm_reserve\<close> and \<open>vm_map_entry\<close> return the address they used;
  \<open>shm_tsleep k\<close> is the result of the \<open>k\<close>-th sleep of the call.\<close>

record shm_env =
  shm_proc :: nat
  shm_pid :: int
  shm_cred :: cred
  shm_is64 :: bool
  shm_time :: int
  map_page_mask :: u64
  zalloc_ok :: bool
  shmmap_ok :: bool
  junk_va :: "nat \<Rightarrow> u64"
  make_entry :: "u64 \<Rightarrow> u64 \<Rightarrow> int \<times> u64 \<times> nat"
  vm_reserve :: "u64 \<Rightarrow> u64 \<Rightarrow> bool \<Rightarrow> int \<times> u64"
  vm_map_entry :: "u64 \<Rightarrow> u64 \<Rightarrow> nat \<Rightarrow> vm_prot \<Rightarrow> int \<times> u64"
  vm_deallocate :: "u64 \<Rightarrow> u64 \<Rightarrow> int"
  shm_tsleep :: "nat \<Rightarrow> int"
  mac_sysvshm_check_shmat :: "shmid_kernel \<Rightarrow> u32 \<Rightarrow> int"
  mac_sysvshm_check_shmctl :: "shmid_kernel \<Rightarrow> int \<Rightarrow> int"
  mac_sysvshm_check_shmdt :: "shmid_kernel \<Rightarrow> int"
  mac_sysvshm_check_shmget :: "shmid_kernel \<Rightarrow> u32 \<Rightarrow> int"
  copyin_shmid :: "u64 \<Rightarrow> int \<times> ext_shmid_ds"
  shm_copyout :: "u64 \<Rightarrow> int"

section \<open>Access to the tables\<close>

definition shm_seg :: "nat \<Rightarrow> shm_state \<Rightarrow> shmid_kernel option" where
  "shm_seg i s = (if i < length (shmsegs s) then Some (shmsegs s ! i) else None)"

definition seg_modify :: "nat \<Rightarrow> (shmid_kernel \<Rightarrow> shmid_kernel) \<Rightarrow> shm_state \<Rightarrow> shm_state" where
  "seg_modify i f s = s\<lparr>shmsegs := (shmsegs s)[i := f (shmsegs s ! i)]\<rparr>"

definition seg_mode :: "shmid_kernel \<Rightarrow> u16" where
  "seg_mode g = ipc_mode (shm_perm g)"

definition slot_modify :: "nat \<Rightarrow> nat \<Rightarrow> (shmmap_state \<Rightarrow> shmmap_state) \<Rightarrow> shm_state \<Rightarrow> shm_state" where
  "slot_modify p k f s = s\<lparr>vm_shm := (vm_shm s)(p := map_option (\<lambda>m. m[k := f (m ! k)]) (vm_shm s p))\<rparr>"

definition shm_log :: "vm_event list \<Rightarrow> shm_state \<Rightarrow> shm_state" where
  "shm_log es s = s\<lparr>shm_vm := shm_vm s @ es\<rparr>"

definition shm_copy_out :: "u64 \<Rightarrow> shm_data \<Rightarrow> shm_state \<Rightarrow> shm_state" where
  "shm_copy_out addr d s = s\<lparr>shm_out := shm_out s @ [(addr, d)]\<rparr>"

section \<open>User-visible structure\<close>

definition shmid_ds_64 :: "shmid_kernel \<Rightarrow> ext_shmid_ds" where
  "shmid_ds_64 g = \<lparr> xshm_perm = shm_perm g, xshm_segsz = uint (shm_segsz g), xshm_lpid = shm_lpid g, xshm_cpid = shm_cpid g,
     xshm_nattch = sint (shm_nattch g), xshm_atime = shm_atime g, xshm_dtime = shm_dtime g, xshm_ctime = shm_ctime g \<rparr>"

definition shmid_ds_64to32 :: "shmid_kernel \<Rightarrow> ext_shmid_ds" where
  "shmid_ds_64to32 g = \<lparr> xshm_perm = shm_perm g, xshm_segsz = take_bit 32 (uint (shm_segsz g)), xshm_lpid = shm_lpid g,
     xshm_cpid = shm_cpid g, xshm_nattch = sint (shm_nattch g), xshm_atime = take_bit 32 (shm_atime g),
     xshm_dtime = take_bit 32 (shm_dtime g), xshm_ctime = take_bit 32 (shm_ctime g) \<rparr>"

definition shmid_ds_user :: "shm_env \<Rightarrow> shmid_kernel \<Rightarrow> ext_shmid_ds" where
  "shmid_ds_user env g = (if shm_is64 env then shmid_ds_64 g else shmid_ds_64to32 g)"

section \<open>Initialisation\<close>

definition sizeof_shmid_kernel :: int where "sizeof_shmid_kernel = 88"

definition shminit :: "shm_env \<Rightarrow> shm_state \<Rightarrow> int \<times> shm_state" where
  "shminit env s =
     (if shm_inited s then (0, s)
      else if shmmni (shm_limits s) < 0 \<or> shmmni (shm_limits s) * sizeof_shmid_kernel \<ge> 2 ^ 64 then (ENOMEM, s)
      else if \<not> zalloc_ok env then (ENOMEM, s)
      else (0, s\<lparr>shmsegs := replicate (nat (shmmni (shm_limits s)))
              (zero_shmid\<lparr>shm_perm := (shm_perm zero_shmid)\<lparr>ipc_mode := SHMSEG_FREE, ipc_seq := 0\<rparr>\<rparr>),
            shm_last_free := 0, shm_nused := 0, shm_committed := 0, shm_inited := True\<rparr>))"

section \<open>Segments\<close>

fun seg_search :: "(shmid_kernel \<Rightarrow> bool) \<Rightarrow> nat \<Rightarrow> shmid_kernel list \<Rightarrow> nat option" where
  "seg_search P i [] = None"
| "seg_search P i (g # gs) = (if P g then Some i else seg_search P (Suc i) gs)"

definition shm_find_segment_by_key :: "int \<Rightarrow> shm_state \<Rightarrow> nat option" where
  "shm_find_segment_by_key key s =
     seg_search (\<lambda>g. seg_mode g AND SHMSEG_ALLOCATED \<noteq> 0 \<and> ipc_key (shm_perm g) = key) 0
       (take (nat (shmmni (shm_limits s))) (shmsegs s))"

definition shm_find_segment_by_shmid :: "int \<Rightarrow> shm_state \<Rightarrow> nat option option" where
  "shm_find_segment_by_shmid shmid s =
     (let segnum = IPCID_TO_IX shmid
      in if segnum < 0 \<or> segnum \<ge> shmmni (shm_limits s) then Some None
         else do {
           g \<leftarrow> shm_seg (nat segnum) s;
           Some (if seg_mode g AND (SHMSEG_ALLOCATED OR SHMSEG_REMOVED) \<noteq> SHMSEG_ALLOCATED \<or>
                    uint (ipc_seq (shm_perm g)) \<noteq> IPCID_TO_SEQ shmid
                 then None else Some (nat segnum))
         })"

definition release_events :: "shm_handle list \<Rightarrow> vm_event list" where
  "release_events hs = map (\<lambda>h. EntryReleased (shm_object h)) hs"

definition shm_deallocate_segment :: "shm_env \<Rightarrow> nat \<Rightarrow> shm_state \<Rightarrow> shm_state option" where
  "shm_deallocate_segment env i s = do {
     g \<leftarrow> shm_seg i s;
     let s = shm_log (release_events (shm_internal g)) s;
     let size = vm_map_round_page (shm_segsz g) (map_page_mask env);
     let s = s\<lparr>shm_committed := shm_committed s - btoc size, shm_nused := shm_nused s - 1\<rparr>;
     Some (seg_modify i (\<lambda>g. g\<lparr>shm_internal := [], shm_perm := (shm_perm g)\<lparr>ipc_mode := SHMSEG_FREE\<rparr>\<rparr>) s)
   }"

text \<open>\<open>k\<close> is the slot of process \<open>p\<close> that \<open>shmmap_s\<close> points to.\<close>

definition shm_delete_mapping :: "shm_env \<Rightarrow> nat \<Rightarrow> nat \<Rightarrow> bool \<Rightarrow> shm_state \<Rightarrow> (int \<times> shm_state) option" where
  "shm_delete_mapping env p k deallocate s = do {
     m \<leftarrow> vm_shm s p;
     let segnum = nat (IPCID_TO_IX (map_shmid (m ! k)));
     g \<leftarrow> shm_seg segnum s;
     let size = vm_map_round_page (shm_segsz g) (map_page_mask env);
     if deallocate \<and> vm_deallocate env (shm_va (m ! k)) size \<noteq> KERN_SUCCESS then Some (EINVAL, s)
     else do {
       let s = (if deallocate then shm_log [VmRemoved (shm_proc env) (shm_va (m ! k)) size] s else s);
       let s = slot_modify p k (\<lambda>x. x\<lparr>map_shmid := SHMID_UNALLOCATED\<rparr>) s;
       let s = seg_modify segnum (\<lambda>g. g\<lparr>shm_dtime := shm_time env, shm_nattch := shm_nattch g - 1\<rparr>) s;
       if sint (shm_nattch g - 1) \<le> 0 \<and> seg_mode g AND SHMSEG_REMOVED \<noteq> 0 then do {
         s \<leftarrow> shm_deallocate_segment env segnum s;
         Some (0, s\<lparr>shm_last_free := int segnum\<rparr>)
       }
       else Some (0, s)
     }
   }"

section \<open>Detaching\<close>

text \<open>The loop of \<open>shmdt\<close>: the slot where it stops, at the sentinel at the latest.\<close>

fun slot_search :: "u64 \<Rightarrow> nat \<Rightarrow> shmmap_state list \<Rightarrow> nat option" where
  "slot_search addr k [] = None"
| "slot_search addr k (x # xs) =
     (if map_shmid x = SHMID_SENTINEL \<or> SHMID_IS_VALID (map_shmid x) \<and> shm_va x = addr then Some k
      else slot_search addr (Suc k) xs)"

definition shmdt :: "shm_env \<Rightarrow> u64 \<Rightarrow> shm_state \<Rightarrow> (int \<times> int option \<times> shm_state) option" where
  "shmdt env shmaddr s =
     (case shminit env s of (e, s) \<Rightarrow>
        if e \<noteq> 0 then Some (e, None, s)
        else case vm_shm s (shm_proc env) of
          None \<Rightarrow> Some (EINVAL, None, s)
        | Some m \<Rightarrow> do {
            k \<leftarrow> slot_search shmaddr 0 m;
            if \<not> SHMID_IS_VALID (map_shmid (m ! k)) then Some (EINVAL, None, s)
            else do {
              g \<leftarrow> shm_seg (nat (IPCID_TO_IX (map_shmid (m ! k)))) s;
              let e = mac_sysvshm_check_shmdt env g;
              if e \<noteq> 0 then Some (e, None, s)
              else do {
                (e, s) \<leftarrow> shm_delete_mapping env (shm_proc env) k True s;
                Some (e, if e = 0 then Some 0 else None, s)
              }
            }
          })"

end
