(* ===== verification/Sysv_Shm_Calls.thy ===== *)
theory Sysv_Shm_Calls
  imports Sysv_Shm
begin

text \<open>
  The calls of \<^verbatim>\<open>src/bsd/kern/sysv_shm.c\<close> that create, attach, control, inherit and list shared memory
  segments.  The assertions of the source are empty in a release kernel and are left out.
\<close>

section \<open>Attaching\<close>

record shmat_args =
  at_shmid :: int
  at_shmaddr :: u64
  at_shmflg :: u32

text \<open>The table of a process is allocated when it first attaches a segment.\<close>

definition shmmap_new :: "shm_env \<Rightarrow> nat \<Rightarrow> shmmap_state list" where
  "shmmap_new env n =
     map (\<lambda>k. \<lparr> shm_va = junk_va env k, map_shmid = (if k < n then SHMID_UNALLOCATED else SHMID_SENTINEL) \<rparr>) [0..<Suc n]"

definition shmat_table :: "shm_env \<Rightarrow> shm_state \<Rightarrow> int \<times> shm_state" where
  "shmat_table env s =
     (case vm_shm s (shm_proc env) of
        Some m \<Rightarrow> (0, s)
      | None \<Rightarrow>
          let nsegs = signed_take_bit 31 (shmseg (shm_limits s))
          in if nsegs \<le> 0 then (EMFILE, s)
             else if \<not> shmmap_ok env then (ENOMEM, s)
             else (0, s\<lparr>vm_shm := (vm_shm s)(shm_proc env := Some (shmmap_new env (nat nsegs)))\<rparr>))"

fun slot_free :: "nat \<Rightarrow> shmmap_state list \<Rightarrow> nat option" where
  "slot_free k [] = None"
| "slot_free k (x # xs) = (if SHMID_IS_VALID (map_shmid x) then slot_free (Suc k) xs else Some k)"

text \<open>The loop that maps the chunks over the reserved range; the result is that of the last mapping, with
  the number of bytes mapped.\<close>

fun shmat_map :: "shm_env \<Rightarrow> vm_prot \<Rightarrow> u64 \<Rightarrow> shm_handle list \<Rightarrow> u64 \<Rightarrow> u64 \<Rightarrow> shm_state \<Rightarrow> int \<times> u64 \<times> shm_state" where
  "shmat_map env prot map_size [] attach_va mapped_size s = (KERN_SUCCESS, mapped_size, s)"
| "shmat_map env prot map_size (h # hs) attach_va mapped_size s =
     (let chunk_size = (if shm_handle_size h > map_size - mapped_size then map_size - mapped_size else shm_handle_size h);
          (rv, va) = vm_map_entry env attach_va chunk_size (shm_object h) prot
      in if rv \<noteq> KERN_SUCCESS then (rv, mapped_size, s)
         else shmat_map env prot map_size hs (va + chunk_size) (mapped_size + chunk_size)
           (shm_log [VmMapped (shm_proc env) va chunk_size (shm_object h) prot] s))"

definition vm_errno :: "int \<Rightarrow> int" where
  "vm_errno rv =
     (if rv = KERN_INVALID_ADDRESS \<or> rv = KERN_NO_SPACE then ENOMEM
      else if rv = KERN_PROTECTION_FAILURE then EACCES else EINVAL)"

text \<open>The label \<open>out\<close>.\<close>

definition shmat_fail :: "shm_env \<Rightarrow> nat \<Rightarrow> int \<Rightarrow> u64 \<Rightarrow> shm_state \<Rightarrow> int \<times> u64 option \<times> shm_state" where
  "shmat_fail env k rv mapped_size s =
     (let va = shm_va (the (vm_shm s (shm_proc env)) ! k);
          s = (if mapped_size > 0 \<and> vm_deallocate env va mapped_size = KERN_SUCCESS
               then shm_log [VmRemoved (shm_proc env) va mapped_size] s else s)
      in (vm_errno rv, None, s))"

text \<open>The part of \<open>shmat\<close> from the size of the mapping on: segment \<open>i\<close> into slot \<open>k\<close>.\<close>

definition shmat_attach ::
  "shm_env \<Rightarrow> shmat_args \<Rightarrow> nat \<Rightarrow> shmid_kernel \<Rightarrow> nat \<Rightarrow> shm_state \<Rightarrow> int \<times> u64 option \<times> shm_state" where
  "shmat_attach env a i g k s =
     (let map_size = vm_map_round_page (shm_segsz g) (map_page_mask env);
          prot = (if at_shmflg a AND SHM_RDONLY = 0 then ProtReadWrite else ProtRead);
          shmlba = map_page_mask env + 1;
          attach_va = (if at_shmflg a AND SHM_RND \<noteq> 0 then at_shmaddr a AND NOT (shmlba - 1) else at_shmaddr a)
      in if at_shmflg a AND SHM_RND = 0 \<and> attach_va AND (shmlba - 1) \<noteq> 0 then (EINVAL, None, s)
         else case vm_reserve env attach_va map_size (at_shmaddr a \<noteq> 0) of (rv, attach_va) \<Rightarrow>
           if rv \<noteq> KERN_SUCCESS then shmat_fail env k rv 0 s
           else
             let s = shm_log [VmReserved (shm_proc env) attach_va map_size] s;
                 s = slot_modify (shm_proc env) k (\<lambda>x. x\<lparr>shm_va := attach_va\<rparr>) s
             in case shmat_map env prot map_size (shm_internal g) attach_va 0 s of (rv, mapped_size, s) \<Rightarrow>
               if rv \<noteq> KERN_SUCCESS then shmat_fail env k rv mapped_size s
               else (0, Some attach_va,
                 seg_modify i (\<lambda>g. g\<lparr>shm_lpid := shm_pid env, shm_atime := shm_time env, shm_nattch := shm_nattch g + 1\<rparr>)
                   (slot_modify (shm_proc env) k (\<lambda>x. x\<lparr>map_shmid := at_shmid a\<rparr>) s)))"

definition shmat :: "shm_env \<Rightarrow> shmat_args \<Rightarrow> shm_state \<Rightarrow> (int \<times> u64 option \<times> shm_state) option" where
  "shmat env a s =
     (case shminit env s of (e, s) \<Rightarrow>
        if e \<noteq> 0 then Some (e, None, s)
        else case shmat_table env s of (e, s) \<Rightarrow>
          if e \<noteq> 0 then Some (e, None, s)
          else do {
            found \<leftarrow> shm_find_segment_by_shmid (at_shmid a) s;
            case found of
              None \<Rightarrow> Some (EINVAL, None, s)
            | Some i \<Rightarrow> do {
                g \<leftarrow> shm_seg i s;
                let e = ipcperm (shm_cred env) (shm_perm g) (if at_shmflg a AND SHM_RDONLY \<noteq> 0 then IPC_R else IPC_R OR IPC_W);
                if e \<noteq> 0 then Some (e, None, s)
                else if mac_sysvshm_check_shmat env g (at_shmflg a) \<noteq> 0
                then Some (mac_sysvshm_check_shmat env g (at_shmflg a), None, s)
                else do {
                  m \<leftarrow> vm_shm s (shm_proc env);
                  k \<leftarrow> slot_free 0 m;
                  if map_shmid (m ! k) \<noteq> SHMID_UNALLOCATED then Some (EMFILE, None, s)
                  else Some (shmat_attach env a i g k s)
                }
              }
          })"

section \<open>Control\<close>

definition shmctl_stat :: "shm_env \<Rightarrow> shmid_kernel \<Rightarrow> u64 \<Rightarrow> shm_state \<Rightarrow> int \<times> int option \<times> shm_state" where
  "shmctl_stat env g buf s =
     (let e = ipcperm (shm_cred env) (shm_perm g) IPC_R
      in if e \<noteq> 0 then (e, None, s)
         else if shm_copyout env buf \<noteq> 0 then (shm_copyout env buf, None, s)
         else (0, Some 0, shm_copy_out buf (OutShmid (shmid_ds_user env g)) s))"

definition shmctl_set :: "shm_env \<Rightarrow> nat \<Rightarrow> shmid_kernel \<Rightarrow> u64 \<Rightarrow> shm_state \<Rightarrow> int \<times> int option \<times> shm_state" where
  "shmctl_set env i g buf s =
     (let e = ipcperm (shm_cred env) (shm_perm g) IPC_M
      in if e \<noteq> 0 then (e, None, s)
         else case copyin_shmid env buf of (e, inbuf) \<Rightarrow>
           if e \<noteq> 0 then (e, None, s)
           else (0, Some 0, seg_modify i (\<lambda>g. g\<lparr>shm_perm := (shm_perm g)
                     \<lparr>ipc_uid := ipc_uid (xshm_perm inbuf), ipc_gid := ipc_gid (xshm_perm inbuf),
                      ipc_mode := (seg_mode g AND NOT 0x1FF) OR (ipc_mode (xshm_perm inbuf) AND 0x1FF)\<rparr>,
                   shm_ctime := shm_time env\<rparr>) s))"

definition shmctl_rmid :: "shm_env \<Rightarrow> nat \<Rightarrow> shmid_kernel \<Rightarrow> shm_state \<Rightarrow> (int \<times> int option \<times> shm_state) option" where
  "shmctl_rmid env i g s =
     (let e = ipcperm (shm_cred env) (shm_perm g) IPC_M
      in if e \<noteq> 0 then Some (e, None, s)
         else
           let s = seg_modify i (\<lambda>g. g\<lparr>shm_perm := (shm_perm g)
             \<lparr>ipc_key := IPC_PRIVATE, ipc_mode := seg_mode g OR SHMSEG_REMOVED\<rparr>\<rparr>) s
           in if sint (shm_nattch g) \<le> 0 then do {
                s \<leftarrow> shm_deallocate_segment env i s;
                Some (0, Some 0, s\<lparr>shm_last_free := int i\<rparr>)
              }
              else Some (0, Some 0, s))"

definition shmctl :: "shm_env \<Rightarrow> int \<Rightarrow> int \<Rightarrow> u64 \<Rightarrow> shm_state \<Rightarrow> (int \<times> int option \<times> shm_state) option" where
  "shmctl env shmid cmd buf s =
     (case shminit env s of (e, s) \<Rightarrow>
        if e \<noteq> 0 then Some (e, None, s)
        else do {
          found \<leftarrow> shm_find_segment_by_shmid shmid s;
          case found of
            None \<Rightarrow> Some (EINVAL, None, s)
          | Some i \<Rightarrow> do {
              g \<leftarrow> shm_seg i s;
              let e = mac_sysvshm_check_shmctl env g cmd;
              if e \<noteq> 0 then Some (e, None, s)
              else if cmd = IPC_STAT then Some (shmctl_stat env g buf s)
              else if cmd = IPC_SET then Some (shmctl_set env i g buf s)
              else if cmd = IPC_RMID then shmctl_rmid env i g s
              else Some (EINVAL, None, s)
            }
        })"

section \<open>Creating and finding\<close>

record shmget_args =
  get_key :: int
  get_size :: u64
  get_shmflg :: u32

text \<open>\<open>shmget_existing\<close> with the result of its sleep, should it go to sleep.\<close>

definition shmget_existing :: "shm_env \<Rightarrow> shmget_args \<Rightarrow> u32 \<Rightarrow> nat \<Rightarrow> int \<Rightarrow> shm_state \<Rightarrow> (int \<times> int option \<times> shm_state) option" where
  "shmget_existing env a mode i slept s = do {
     g \<leftarrow> shm_seg i s;
     if seg_mode g AND SHMSEG_REMOVED \<noteq> 0 then
       (let s = seg_modify i (\<lambda>g. g\<lparr>shm_perm := (shm_perm g)\<lparr>ipc_mode := seg_mode g OR SHMSEG_WANTED\<rparr>\<rparr>) s
        in if slept \<noteq> 0 then Some (slept, None, s) else Some (EAGAIN, None, s))
     else if ucast (seg_mode g) AND mode \<noteq> mode then Some (EACCES, None, s)
     else if mac_sysvshm_check_shmget env g (get_shmflg a) \<noteq> 0
     then Some (mac_sysvshm_check_shmget env g (get_shmflg a), None, s)
     else if get_size a \<noteq> 0 \<and> get_size a > shm_segsz g then Some (EINVAL, None, s)
     else if get_shmflg a AND (IPC_CREAT OR IPC_EXCL) = (IPC_CREAT OR IPC_EXCL) then Some (EEXIST, None, s)
     else Some (0, Some (IXSEQ_TO_IPCID (int i) (shm_perm g)), s)
   }"

text \<open>The loop that creates the memory entries: the last result, the size of the last chunk, and the state
  with the chunks made so far.  The first chunk becomes the head of the list.\<close>

partial_function (option) shmget_chunks ::
  "shm_env \<Rightarrow> nat \<Rightarrow> u64 \<Rightarrow> u64 \<Rightarrow> u64 \<Rightarrow> bool \<Rightarrow> shm_state \<Rightarrow> (int \<times> u64 \<times> shm_state) option" where
  "shmget_chunks env i total_size alloc_size sz first s =
     (if alloc_size < total_size then
        let want = min (total_size - alloc_size) ANON_MAX_SIZE;
            (kret, sz, obj) = make_entry env alloc_size want
        in if kret \<noteq> KERN_SUCCESS then Some (kret, sz, s)
           else
             let h = \<lparr> shm_object = obj, shm_handle_size = sz \<rparr>;
                 s = shm_log [EntryMade obj] s;
                 s = seg_modify i (\<lambda>g. g\<lparr>shm_internal := (if first then [h] else shm_internal g @ [h])\<rparr>) s
             in shmget_chunks env i total_size (alloc_size + sz) sz False s
      else Some (KERN_SUCCESS, sz, s))"

text \<open>The slot for a new segment.\<close>

definition shmget_slot :: "shm_state \<Rightarrow> (nat \<times> shm_state) option" where
  "shmget_slot s =
     (if shm_last_free s < 0 then
        map_option (\<lambda>i. (i, s)) (seg_search (\<lambda>g. seg_mode g AND SHMSEG_FREE \<noteq> 0) 0 (take (nat (shmmni (shm_limits s))) (shmsegs s)))
      else Some (nat (shm_last_free s), s\<lparr>shm_last_free := - 1\<rparr>))"

definition shmget_finish :: "shm_env \<Rightarrow> shmget_args \<Rightarrow> u32 \<Rightarrow> nat \<Rightarrow> u64 \<Rightarrow> shm_state \<Rightarrow> (int \<times> int option \<times> shm_state) option" where
  "shmget_finish env a mode i sz s = do {
     g \<leftarrow> shm_seg i s;
     let s = seg_modify i (\<lambda>g. g\<lparr>shm_perm := (shm_perm g)
                 \<lparr>ipc_cuid := kauth_cred_getuid (shm_cred env), ipc_uid := kauth_cred_getuid (shm_cred env),
                  ipc_cgid := kauth_cred_getgid (shm_cred env), ipc_gid := kauth_cred_getgid (shm_cred env),
                  ipc_mode := ((seg_mode g AND SHMSEG_WANTED) OR ucast (mode AND 0x1FF) OR SHMSEG_ALLOCATED) AND NOT SHMSEG_WANTED\<rparr>,
               shm_segsz := get_size a, shm_cpid := shm_pid env, shm_lpid := 0, shm_nattch := 0,
               shm_atime := 0, shm_dtime := 0, shm_ctime := shm_time env\<rparr>) s;
     Some (0, Some (IXSEQ_TO_IPCID (int i) (shm_perm g)),
       s\<lparr>shm_committed := shm_committed s + btoc sz, shm_nused := shm_nused s + 1\<rparr>)
   }"

text \<open>The part of \<open>shmget_allocate_segment\<close> after the choice of the slot.\<close>

definition shmget_create ::
  "shm_env \<Rightarrow> shmget_args \<Rightarrow> u32 \<Rightarrow> u64 \<Rightarrow> nat \<Rightarrow> shm_state \<Rightarrow> (int \<times> int option \<times> shm_state) option" where
  "shmget_create env a mode total_size i s = do {
     _ \<leftarrow> shm_seg i s;
     let s = seg_modify i (\<lambda>g. g\<lparr>shm_perm := (shm_perm g)\<lparr>ipc_mode := SHMSEG_ALLOCATED OR SHMSEG_REMOVED,
       ipc_key := get_key a, ipc_seq := (ipc_seq (shm_perm g) + 1) AND 0x7FFF\<rparr>\<rparr>) s;
     (kret, sz, s) \<leftarrow> shmget_chunks env i total_size 0 0 True s;
     if kret \<noteq> KERN_SUCCESS then do {
       g \<leftarrow> shm_seg i s;
       let s = shm_log (release_events (shm_internal g)) s;
       Some (vm_errno kret, None, seg_modify i (\<lambda>g. g\<lparr>shm_internal := []\<rparr>) s)
     }
     else shmget_finish env a mode i sz s
   }"

definition shmget_allocate_segment ::
  "shm_env \<Rightarrow> shmget_args \<Rightarrow> u32 \<Rightarrow> shm_state \<Rightarrow> (int \<times> int option \<times> shm_state) option" where
  "shmget_allocate_segment env a mode s =
     (if get_size a = 0 \<or> get_size a < word_of_int (shmmin (shm_limits s)) \<or> get_size a > word_of_int (shmmax (shm_limits s))
      then Some (EINVAL, None, s)
      else if shm_nused s \<ge> shmmni (shm_limits s) then Some (ENOSPC, None, s)
      else case mach_vm_round_page_overflow (get_size a) of (overflow, total_size) \<Rightarrow>
        if overflow then Some (EINVAL, None, s)
        else if uint (shm_committed s + btoc total_size) > shmall (shm_limits s) then Some (ENOMEM, None, s)
        else do {
          (i, s) \<leftarrow> shmget_slot s;
          shmget_create env a mode total_size i s
        })"

text \<open>The part of \<open>shmget\<close> from the label \<open>again\<close> on, after \<open>k\<close> sleeps.\<close>

partial_function (option) shmget_again ::
  "shm_env \<Rightarrow> shmget_args \<Rightarrow> u32 \<Rightarrow> nat \<Rightarrow> shm_state \<Rightarrow> (int \<times> int option \<times> shm_state) option" where
  "shmget_again env a mode k s =
     (case shm_find_segment_by_key (get_key a) s of
        Some i \<Rightarrow> do {
          (e, r, s) \<leftarrow> shmget_existing env a mode i (shm_tsleep env k) s;
          if e = EAGAIN then shmget_again env a mode (Suc k) s else Some (e, r, s)
        }
      | None \<Rightarrow>
          if get_shmflg a AND IPC_CREAT = 0 then Some (ENOENT, None, s)
          else shmget_allocate_segment env a mode s)"

definition shmget :: "shm_env \<Rightarrow> shmget_args \<Rightarrow> shm_state \<Rightarrow> (int \<times> int option \<times> shm_state) option" where
  "shmget env a s =
     (case shminit env s of (e, s) \<Rightarrow>
        if e \<noteq> 0 then Some (e, None, s)
        else
          let mode = get_shmflg a AND 0x1FF
          in if get_key a \<noteq> IPC_PRIVATE then shmget_again env a mode 0 s
             else shmget_allocate_segment env a mode s)"

section \<open>Dispatch\<close>

datatype shm_call = Call_shmat | Call_oshmctl | Call_shmdt | Call_shmget | Call_shmctl

definition oshmctl :: int where "oshmctl = EINVAL"

definition shmsys :: "nat \<Rightarrow> int + shm_call" where
  "shmsys which =
     (if which \<ge> 5 then Inl EINVAL
      else Inr ([Call_shmat, Call_oshmctl, Call_shmdt, Call_shmget, Call_shmctl] ! which))"

section \<open>Processes\<close>

fun shmfork_count :: "shmmap_state list \<Rightarrow> shm_state \<Rightarrow> shm_state option" where
  "shmfork_count [] s = None"
| "shmfork_count (x # xs) s =
     (if map_shmid x = SHMID_SENTINEL then Some s
      else if SHMID_IS_VALID (map_shmid x) then do {
        let i = nat (IPCID_TO_IX (map_shmid x));
        _ \<leftarrow> shm_seg i s;
        shmfork_count xs (seg_modify i (\<lambda>g. g\<lparr>shm_nattch := shm_nattch g + 1\<rparr>) s)
      }
      else shmfork_count xs s)"

text \<open>The copied part of a table: up to and with the sentinel.\<close>

fun shmmap_copy :: "shmmap_state list \<Rightarrow> shmmap_state list option" where
  "shmmap_copy [] = None"
| "shmmap_copy (x # xs) =
     (if map_shmid x = SHMID_SENTINEL then Some [x] else map_option (\<lambda>ys. x # ys) (shmmap_copy xs))"

definition shmfork :: "shm_env \<Rightarrow> nat \<Rightarrow> nat \<Rightarrow> shm_state \<Rightarrow> (int \<times> shm_state) option" where
  "shmfork env p1 p2 s =
     (case shminit env s of (e, s) \<Rightarrow>
        if e \<noteq> 0 then Some (1, s)
        else do {
          src \<leftarrow> vm_shm s p1;
          copy \<leftarrow> shmmap_copy src;
          if \<not> shmmap_ok env then Some (1, s)
          else do {
            s \<leftarrow> shmfork_count copy (s\<lparr>vm_shm := (vm_shm s)(p2 := Some copy)\<rparr>);
            Some (0, s)
          }
        })"

fun shmcleanup_slots :: "shm_env \<Rightarrow> nat \<Rightarrow> bool \<Rightarrow> nat \<Rightarrow> shmmap_state list \<Rightarrow> shm_state \<Rightarrow> shm_state option" where
  "shmcleanup_slots env p deallocate k [] s = None"
| "shmcleanup_slots env p deallocate k (x # xs) s =
     (if map_shmid x = SHMID_SENTINEL then Some s
      else if SHMID_IS_VALID (map_shmid x) then do {
        (_, s) \<leftarrow> shm_delete_mapping env p k deallocate s;
        shmcleanup_slots env p deallocate (Suc k) xs s
      }
      else shmcleanup_slots env p deallocate (Suc k) xs s)"

text \<open>Freeing the table also clears the pointer to it.\<close>

definition shmcleanup :: "shm_env \<Rightarrow> nat \<Rightarrow> bool \<Rightarrow> shm_state \<Rightarrow> shm_state option" where
  "shmcleanup env p deallocate s = do {
     m \<leftarrow> vm_shm s p;
     s \<leftarrow> shmcleanup_slots env p deallocate 0 m s;
     Some (s\<lparr>vm_shm := (vm_shm s)(p := None)\<rparr>)
   }"

definition shmexit :: "shm_env \<Rightarrow> nat \<Rightarrow> shm_state \<Rightarrow> shm_state option" where
  "shmexit env p s = shmcleanup env p True s"

definition shmexec :: "shm_env \<Rightarrow> nat \<Rightarrow> shm_state \<Rightarrow> shm_state option" where
  "shmexec env p s = shmcleanup env p False s"

section \<open>Limits\<close>

datatype shminfo_field = Field_shmmax | Field_shmmin | Field_shmseg | Field_shmmni | Field_shmall

fun shminfo_store :: "shminfo_field \<Rightarrow> int \<Rightarrow> shminfo \<Rightarrow> shminfo" where
  "shminfo_store Field_shmmax v si = si\<lparr>shmmax := v\<rparr>"
| "shminfo_store Field_shmmin v si = si\<lparr>shmmin := v\<rparr>"
| "shminfo_store Field_shmseg v si = si\<lparr>shmseg := v\<rparr>"
| "shminfo_store Field_shmmni v si = si\<lparr>shmmni := v\<rparr>"
| "shminfo_store Field_shmall v si = si\<lparr>shmall := v\<rparr>"

fun shminfo_accepts :: "shminfo_field \<Rightarrow> int \<Rightarrow> bool" where
  "shminfo_accepts Field_shmmax v \<longleftrightarrow> \<not> (v AND uint PAGE_MASK \<noteq> 0 \<or> v < 0)"
| "shminfo_accepts Field_shmmin v \<longleftrightarrow> \<not> v < 0"
| "shminfo_accepts Field_shmseg v \<longleftrightarrow> \<not> (v > 0x7FFFFFFF \<or> v < 0)"
| "shminfo_accepts Field_shmmni v \<longleftrightarrow> \<not> (v > 0x7FFFFFFF \<or> v < 0)"
| "shminfo_accepts Field_shmall v \<longleftrightarrow> \<not> (v > 0x7FFFFFFF \<or> v < 0)"

text \<open>\<open>out_err\<close> and \<open>in_err\<close> are the results of copying the old value out and the new one, if any, in.\<close>

definition sysctl_shminfo :: "shminfo_field \<Rightarrow> int \<Rightarrow> (int \<times> int) option \<Rightarrow> shm_state \<Rightarrow> int \<times> shm_state" where
  "sysctl_shminfo field out_err new s =
     (case new of
        None \<Rightarrow> (out_err, s)
      | Some (in_err, v) \<Rightarrow>
          if out_err \<noteq> 0 then (out_err, s)
          else if shm_inited s \<and> field = Field_shmmni then (EPERM, s)
          else if in_err \<noteq> 0 then (in_err, s)
          else if \<not> shminfo_accepts field v then (EINVAL, s)
          else (0, s\<lparr>shm_limits := shminfo_store field v (shm_limits s)\<rparr>))"

section \<open>Listing\<close>

definition IPCS_SHM_CONF :: int where "IPCS_SHM_CONF = 1"
definition IPCS_SHM_ITER :: int where "IPCS_SHM_ITER = 2"

definition ipcs_shm_iter ::
  "shm_env \<Rightarrow> int \<Rightarrow> int \<Rightarrow> ipcs_command \<Rightarrow> shm_state \<Rightarrow> (int \<times> ipcs_command \<times> shm_state) option" where
  "ipcs_shm_iter env out_err ds_sz ipcs s =
     (let cursor = ipcs_cursor ipcs; n = shmmni (shm_limits s)
      in if cursor < 0 \<or> cursor \<ge> n then Some (ERANGE, ipcs, s)
         else if ipcs_datalen ipcs \<noteq> ds_sz then Some (EINVAL, ipcs, s)
         else case seg_search (\<lambda>g. seg_mode g AND SHMSEG_ALLOCATED \<noteq> 0) (nat cursor) (drop (nat cursor) (take (nat n) (shmsegs s))) of
           None \<Rightarrow> Some (ENOENT, ipcs, s)
         | Some c \<Rightarrow> do {
             g \<leftarrow> shm_seg c s;
             let err = shm_copyout env (ipcs_data ipcs);
             if err \<noteq> 0 then Some (err, ipcs, s)
             else Some (out_err, ipcs\<lparr>ipcs_cursor := int c + 1\<rparr>, shm_copy_out (ipcs_data ipcs) (OutShmid (shmid_ds_user env g)) s)
           })"

definition IPCS_shm_sysctl ::
  "shm_env \<Rightarrow> int \<Rightarrow> int \<Rightarrow> int \<Rightarrow> int \<Rightarrow> ipcs_command \<Rightarrow> shm_state \<Rightarrow> (int \<times> ipcs_command \<times> shm_state) option" where
  "IPCS_shm_sysctl env in_err out_err info_sz ds_sz ipcs s =
     (case shminit env s of (e, s) \<Rightarrow>
        if e \<noteq> 0 then Some (e, ipcs, s)
        else if in_err \<noteq> 0 then Some (in_err, ipcs, s)
        else if ipcs_magic ipcs \<noteq> IPCS_MAGIC then Some (EINVAL, ipcs, s)
        else if ipcs_op ipcs = IPCS_SHM_CONF then
          (if ipcs_datalen ipcs \<noteq> info_sz then Some (if ipcs_cursor ipcs \<noteq> 0 then ENOMEM else ERANGE, ipcs, s)
           else
             let err = shm_copyout env (ipcs_data ipcs)
             in Some (err, ipcs, if err = 0 then shm_copy_out (ipcs_data ipcs) (OutShminfo (shm_limits s)) s else s))
        else if ipcs_op ipcs = IPCS_SHM_ITER then ipcs_shm_iter env out_err ds_sz ipcs s
        else Some (EINVAL, ipcs, s))"

end
