(* ===== verification/Sysv_Shm_Inv.thy ===== *)
theory Sysv_Shm_Inv
  imports Sysv_Shm_Calls
begin

text \<open>
  The invariant of the shared memory subsystem: how often each segment is attached, counted over the
  tables of all processes; the protocol of making, mapping and releasing memory entries; the shape of a
  descriptor, a slot and a table; and the frame lemmas with which every operation shows that it keeps
  them.  The lemmas on \<open>shm_deallocate_segment\<close> and \<open>shm_delete_mapping\<close> are here too.
\<close>

section \<open>Counting attachments\<close>

definition slot_of :: "nat \<Rightarrow> shmmap_state \<Rightarrow> bool" where
  "slot_of i x \<longleftrightarrow> SHMID_IS_VALID (map_shmid x) \<and> nat (IPCID_TO_IX (map_shmid x)) = i"

definition att :: "nat \<Rightarrow> shmmap_state list option \<Rightarrow> nat" where
  "att i m = (case m of None \<Rightarrow> 0 | Some xs \<Rightarrow> length (filter (slot_of i) xs))"

definition attached :: "(nat \<Rightarrow> shmmap_state list option) \<Rightarrow> nat \<Rightarrow> nat" where
  "attached V i = (\<Sum>p | V p \<noteq> None. att i (V p))"

lemma att_simps [simp]: "att i None = 0" "att i (Some xs) = length (filter (slot_of i) xs)"
  by (simp_all add: att_def)

lemma attached_remove:
  assumes "finite {p. V p \<noteq> None}"
  shows "attached V i = attached (V(p := None)) i + att i (V p)"
proof (cases "V p")
  case (Some m)
  have "{q. (V(p := None)) q \<noteq> None} = {q. V q \<noteq> None} - {p}" by auto
  moreover have "(\<Sum>q\<in>{q. V q \<noteq> None} - {p}. att i ((V(p := None)) q)) = (\<Sum>q\<in>{q. V q \<noteq> None} - {p}. att i (V q))"
    by (rule sum.cong) auto
  ultimately show ?thesis
    using sum.remove [OF assms, of p "\<lambda>q. att i (V q)"] Some by (simp add: attached_def)
qed (simp add: fun_upd_idem)

lemma attached_update:
  assumes "finite {p. V p \<noteq> None}"
  shows "attached (V(p := m)) i + att i (V p) = attached V i + att i m"
proof -
  have "finite {q. (V(p := m)) q \<noteq> None}" by (rule finite_subset [OF _ finite_insert [THEN iffD2, OF assms]]) auto
  then have "attached (V(p := m)) i = attached ((V(p := m))(p := None)) i + att i ((V(p := m)) p)" by (rule attached_remove)
  with attached_remove [OF assms, of i p] show ?thesis by simp
qed

lemma attached_zero:
  assumes "finite {p. V p \<noteq> None}" "attached V i = 0" "V p = Some m" "x \<in> set m"
  shows "\<not> slot_of i x"
proof -
  have "att i (V p) = 0" using attached_remove [OF assms(1), of i p] assms(2) by simp
  then show ?thesis using assms(3,4) by (auto simp: filter_empty_conv)
qed

lemma att_slot:
  assumes "k < length m"
  shows "length (filter P (m[k := x])) + (if P (m ! k) then 1 else 0) = length (filter P m) + (if P x then 1 else 0)"
proof -
  have "filter P m = filter P (take k m) @ filter P (m ! k # drop (Suc k) m)"
    using id_take_nth_drop [OF assms] by (metis filter_append)
  then show ?thesis by (simp add: upd_conv_take_nth_drop [OF assms])
qed

section \<open>The life of memory entries\<close>

text \<open>The protocol of the memory entries: an entry is made when it is not in use, mapped and released only
  while it is.\<close>

fun entry_run :: "vm_event list \<Rightarrow> nat set \<Rightarrow> nat set option" where
  "entry_run [] S = Some S"
| "entry_run (EntryMade e # es) S = (if e \<in> S then None else entry_run es (insert e S))"
| "entry_run (EntryReleased e # es) S = (if e \<in> S then entry_run es (S - {e}) else None)"
| "entry_run (VmMapped p va sz e prot # es) S = (if e \<in> S then entry_run es S else None)"
| "entry_run (VmReserved p va sz # es) S = entry_run es S"
| "entry_run (VmRemoved p va sz # es) S = entry_run es S"

lemma entry_run_append: "entry_run (xs @ ys) S = Option.bind (entry_run xs S) (entry_run ys)"
  by (induction xs S rule: entry_run.induct) auto

lemma entry_run_release:
  "distinct (map shm_object hs) \<Longrightarrow> set (map shm_object hs) \<subseteq> S \<Longrightarrow>
   entry_run (release_events hs) S = Some (S - set (map shm_object hs))"
proof (induction hs arbitrary: S)
  case (Cons h hs)
  have "set (map shm_object hs) \<subseteq> S - {shm_object h}" using Cons.prems by (simp add: subset_Diff_insert)
  then have "entry_run (release_events hs) (S - {shm_object h}) = Some (S - {shm_object h} - set (map shm_object hs))"
    using Cons.prems by (intro Cons.IH) simp_all
  then show ?case using Cons.prems by (simp add: release_events_def Diff_insert2 [symmetric])
qed (simp add: release_events_def)

lemma entry_run_made:
  "distinct es \<Longrightarrow> set es \<inter> S = {} \<Longrightarrow> entry_run (map EntryMade es) S = Some (S \<union> set es)"
  by (induction es arbitrary: S) auto

section \<open>The invariant\<close>

definition objects :: "shmid_kernel list \<Rightarrow> nat list" where
  "objects gs = concat (map (\<lambda>g. map shm_object (shm_internal g)) gs)"

definition seg_live :: "shmid_kernel \<Rightarrow> bool" where
  "seg_live g \<longleftrightarrow> shm_internal g \<noteq> []"

definition seg_pages :: "shmid_kernel \<Rightarrow> u32" where
  "seg_pages g = (if seg_live g then btoc (vm_map_round_page (shm_segsz g) PAGE_MASK) else 0)"

text \<open>A descriptor with \<open>a\<close> attachments: free; or allocated, with its entries, and attached to when it is marked
  as removed (\<open>x\<close> waives this for the moment); or left behind by an allocation that failed.\<close>

definition seg_left :: "shmid_kernel \<Rightarrow> bool" where
  "seg_left g \<longleftrightarrow> \<not> seg_live g \<and> bit (seg_mode g) 11 \<and> bit (seg_mode g) 10 \<and> \<not> bit (seg_mode g) 9"

definition seg_ok :: "bool \<Rightarrow> nat \<Rightarrow> shmid_kernel \<Rightarrow> bool" where
  "seg_ok x a g \<longleftrightarrow> uint (ipc_seq (shm_perm g)) < 2 ^ 15 \<and> shm_nattch g = of_nat a \<and> a < 2 ^ 15 \<and>
     (if seg_live g then bit (seg_mode g) 11 \<and> \<not> bit (seg_mode g) 9 \<and>
        map shm_handle_size (shm_internal g) = [vm_map_round_page (shm_segsz g) PAGE_MASK] \<and>
        (bit (seg_mode g) 10 \<longrightarrow> ipc_key (shm_perm g) = IPC_PRIVATE \<and> (x \<or> 0 < a))
      else a = 0 \<and> (seg_mode g = SHMSEG_FREE \<or> seg_left g))"

definition slot_ok :: "shmid_kernel list \<Rightarrow> shmmap_state \<Rightarrow> bool" where
  "slot_ok gs x \<longleftrightarrow> map_shmid x = SHMID_UNALLOCATED \<or>
     SHMID_IS_VALID (map_shmid x) \<and> nat (IPCID_TO_IX (map_shmid x)) < length gs \<and>
     seg_live (gs ! nat (IPCID_TO_IX (map_shmid x))) \<and>
     uint (ipc_seq (shm_perm (gs ! nat (IPCID_TO_IX (map_shmid x))))) = IPCID_TO_SEQ (map_shmid x)"

definition table_ok :: "shmid_kernel list \<Rightarrow> shmmap_state list \<Rightarrow> bool" where
  "table_ok gs m \<longleftrightarrow> m \<noteq> [] \<and> map_shmid (last m) = SHMID_SENTINEL \<and> (\<forall>x\<in>set (butlast m). slot_ok gs x)"

definition shm_ok :: "nat set \<Rightarrow> shm_state \<Rightarrow> bool" where
  "shm_ok X s \<longleftrightarrow> shm_inited s \<and> 0 \<le> shmmni (shm_limits s) \<and> shmmni (shm_limits s) \<le> 65536 \<and>
     length (shmsegs s) = nat (shmmni (shm_limits s)) \<and>
     (\<forall>i < length (shmsegs s). seg_ok (i \<in> X) (attached (vm_shm s) i) (shmsegs s ! i)) \<and>
     (shm_last_free s = - 1 \<or> shmsegs s = [] \<or> 0 \<le> shm_last_free s \<and> nat (shm_last_free s) < length (shmsegs s) \<and>
        seg_mode (shmsegs s ! nat (shm_last_free s)) = SHMSEG_FREE) \<and>
     shm_nused s = int (length (filter seg_live (shmsegs s))) \<and>
     shm_committed s = sum_list (map seg_pages (shmsegs s)) \<and>
     finite {p. vm_shm s p \<noteq> None} \<and> (\<forall>p m. vm_shm s p = Some m \<longrightarrow> table_ok (shmsegs s) m) \<and>
     distinct (objects (shmsegs s)) \<and> entry_run (shm_vm s) {} = Some (set (objects (shmsegs s)))"

section \<open>Changing one descriptor\<close>

text \<open>A change that keeps the memory of the segment and its sequence number.\<close>

definition seg_same :: "shmid_kernel \<Rightarrow> shmid_kernel \<Rightarrow> bool" where
  "seg_same g g' \<longleftrightarrow> shm_internal g' = shm_internal g \<and> shm_segsz g' = shm_segsz g \<and>
     ipc_seq (shm_perm g') = ipc_seq (shm_perm g) \<and> (seg_mode g = SHMSEG_FREE \<longrightarrow> seg_mode g' = SHMSEG_FREE)"

lemma seg_same_live: "seg_same g g' \<Longrightarrow> seg_live g' = seg_live g" "seg_same g g' \<Longrightarrow> seg_pages g' = seg_pages g"
  by (simp_all add: seg_same_def seg_live_def seg_pages_def)

lemma map_update_same: "f x = f (xs ! i) \<Longrightarrow> map f (xs[i := x]) = map f xs"
  by (cases "i < length xs") (simp_all add: map_update list_update_same_conv list_update_beyond)

lemma filter_update_same: "P x = P (xs ! i) \<Longrightarrow> length (filter P (xs[i := x])) = length (filter P xs)"
  using att_slot [of i xs P x] by (cases "i < length xs") (auto simp: list_update_beyond split: if_splits)

lemma segs_same:
  assumes "seg_same (gs ! i) g'"
  shows "objects (gs[i := g']) = objects gs" "length (filter seg_live (gs[i := g'])) = length (filter seg_live gs)"
    "map seg_pages (gs[i := g']) = map seg_pages gs"
  using assms seg_same_live [OF assms]
  by (simp_all add: objects_def map_update_same filter_update_same seg_same_def)

lemma table_same:
  assumes "seg_same (gs ! i) g'"
  shows "table_ok (gs[i := g']) m = table_ok gs m"
proof -
  have "slot_ok (gs[i := g']) x = slot_ok gs x" for x
    using assms seg_same_live(1) [OF assms] by (cases "i < length gs") (auto simp: slot_ok_def nth_list_update seg_same_def list_update_beyond)
  then show ?thesis by (simp add: table_ok_def)
qed

lemma shm_okD:
  assumes "shm_ok X s"
  shows "shm_inited s" "0 \<le> shmmni (shm_limits s)" "shmmni (shm_limits s) \<le> 65536" "length (shmsegs s) = nat (shmmni (shm_limits s))"
    "i < length (shmsegs s) \<Longrightarrow> seg_ok (i \<in> X) (attached (vm_shm s) i) (shmsegs s ! i)"
    "shm_last_free s = - 1 \<or> shmsegs s = [] \<or> 0 \<le> shm_last_free s \<and> nat (shm_last_free s) < length (shmsegs s) \<and>
        seg_mode (shmsegs s ! nat (shm_last_free s)) = SHMSEG_FREE"
    "shm_nused s = int (length (filter seg_live (shmsegs s)))" "shm_committed s = sum_list (map seg_pages (shmsegs s))"
    "finite {p. vm_shm s p \<noteq> None}" "vm_shm s p = Some m \<Longrightarrow> table_ok (shmsegs s) m" "distinct (objects (shmsegs s))"
    "entry_run (shm_vm s) {} = Some (set (objects (shmsegs s)))"
  using assms unfolding shm_ok_def by blast+

lemma shm_ok_change:
  assumes ok: "shm_ok X s" and same: "seg_same (shmsegs s ! i) g'"
    and s': "shmsegs s' = (shmsegs s)[i := g']" "shm_limits s' = shm_limits s" "shm_inited s' = shm_inited s"
      "shm_last_free s' = shm_last_free s" "shm_nused s' = shm_nused s" "shm_committed s' = shm_committed s"
    and seg: "i < length (shmsegs s) \<Longrightarrow> seg_ok (i \<in> X') (attached (vm_shm s') i) g'"
    and others: "\<And>j. j \<noteq> i \<Longrightarrow> j < length (shmsegs s) \<Longrightarrow> attached (vm_shm s') j = attached (vm_shm s) j" "X - {i} \<subseteq> X'"
    and tables: "finite {p. vm_shm s' p \<noteq> None}" "\<And>p m. vm_shm s' p = Some m \<Longrightarrow> table_ok (shmsegs s) m"
    and run: "entry_run (shm_vm s') {} = Some (set (objects (shmsegs s)))"
  shows "shm_ok X' s'"
proof -
  note ok = shm_okD [OF ok]
  have free: "seg_mode (shmsegs s' ! j) = SHMSEG_FREE" if "seg_mode (shmsegs s ! j) = SHMSEG_FREE" "j < length (shmsegs s)" for j
    using that same s'(1) by (cases "j = i") (auto simp: seg_same_def)
  have "seg_ok (j \<in> X') (attached (vm_shm s') j) (shmsegs s' ! j)" if "j < length (shmsegs s)" for j
  proof (cases "j = i")
    case True
    then show ?thesis using seg that s'(1) by simp
  next
    case False
    have "j \<in> X \<Longrightarrow> j \<in> X'" using others(2) False by blast
    then show ?thesis
      using ok(5) [OF that] others(1) [OF False that] False s'(1) by (auto simp: seg_ok_def split: if_splits)
  qed
  then show ?thesis
    using ok(1-4,6-9,11) s' tables run free unfolding shm_ok_def
    by (auto simp: segs_same [OF same] table_same [OF same])
qed

lemma sum_list_change: "i < length xs \<Longrightarrow> sum_list (map f (xs[i := x])) = sum_list (map f xs) - f (xs ! i) + f x" for f :: "'a \<Rightarrow> u32"
proof -
  assume i: "i < length xs"
  have "sum_list (map f xs) = sum_list (map f (take i xs)) + (f (xs ! i) + sum_list (map f (drop (Suc i) xs)))"
    using id_take_nth_drop [OF i] by (metis list.simps(9) map_append sum_list.Cons sum_list_append)
  then show ?thesis by (simp add: upd_conv_take_nth_drop [OF i])
qed

abbreviation seg_objects :: "shmid_kernel \<Rightarrow> nat list" where
  "seg_objects g \<equiv> map shm_object (shm_internal g)"

lemma objects_split:
  assumes "i < length gs"
  shows "objects (gs[i := g]) = objects (take i gs) @ seg_objects g @ objects (drop (Suc i) gs)"
    "objects gs = objects (take i gs) @ seg_objects (gs ! i) @ objects (drop (Suc i) gs)"
proof -
  show "objects (gs[i := g]) = objects (take i gs) @ seg_objects g @ objects (drop (Suc i) gs)"
    by (simp add: objects_def upd_conv_take_nth_drop [OF assms])
  show "objects gs = objects (take i gs) @ seg_objects (gs ! i) @ objects (drop (Suc i) gs)"
    by (subst id_take_nth_drop [OF assms]) (simp add: objects_def)
qed

lemma objects_seg:
  assumes "i < length gs" "distinct (objects gs)"
  shows "distinct (seg_objects (gs ! i))" "set (seg_objects (gs ! i)) \<subseteq> set (objects gs)"
    "shm_internal g' = [] \<Longrightarrow> distinct (objects (gs[i := g']))"
    "shm_internal g' = [] \<Longrightarrow> set (objects (gs[i := g'])) = set (objects gs) - set (seg_objects (gs ! i))"
proof -
  have d: "distinct (objects (take i gs) @ seg_objects (gs ! i) @ objects (drop (Suc i) gs))"
    using assms objects_split(2) [OF assms(1)] by metis
  then show "distinct (seg_objects (gs ! i))" by simp
  show "set (seg_objects (gs ! i)) \<subseteq> set (objects gs)" using objects_split(2) [OF assms(1)] by (metis set_append sup_ge1 le_supI2)
  assume "shm_internal g' = []"
  then have o: "objects (gs[i := g']) = objects (take i gs) @ objects (drop (Suc i) gs)" using objects_split(1) [OF assms(1)] by simp
  show "distinct (objects (gs[i := g']))" using d by (simp add: o) blast
  show "set (objects (gs[i := g'])) = set (objects gs) - set (seg_objects (gs ! i))"
    using d unfolding o objects_split(2) [OF assms(1)] by (simp add: Un_Diff) blast
qed

lemma slot_ok_other: "\<not> slot_of i x \<Longrightarrow> slot_ok (gs[i := g]) x = slot_ok gs x"
  by (auto simp: slot_ok_def slot_of_def)

lemma table_ok_other: "(\<And>x. x \<in> set m \<Longrightarrow> \<not> slot_of i x) \<Longrightarrow> table_ok (gs[i := g]) m = table_ok gs m"
  using slot_ok_other [of i _ gs g] in_set_butlastD [of _ m] unfolding table_ok_def by blast

lemma deallocate_ok:
  assumes ok: "shm_ok X s" and i: "i < length (shmsegs s)" and live: "seg_live (shmsegs s ! i)" and a: "attached (vm_shm s) i = 0"
    and env: "map_page_mask env = PAGE_MASK"
  shows "\<exists>s'. shm_deallocate_segment env i s = Some s' \<and> shm_ok (X - {i}) (s'\<lparr>shm_last_free := int i\<rparr>) \<and>
    vm_shm s' = vm_shm s \<and> shm_limits s' = shm_limits s \<and>
    shmsegs s' = (shmsegs s)[i := (shmsegs s ! i)\<lparr>shm_internal := [], shm_perm := (shm_perm (shmsegs s ! i))\<lparr>ipc_mode := SHMSEG_FREE\<rparr>\<rparr>] \<and>
    shm_vm s' = shm_vm s @ release_events (shm_internal (shmsegs s ! i))"
proof -
  note okD = shm_okD [OF ok]
  let ?g = "shmsegs s ! i" let ?g' = "?g\<lparr>shm_internal := [], shm_perm := (shm_perm ?g)\<lparr>ipc_mode := SHMSEG_FREE\<rparr>\<rparr>"
  define s' where "s' = s\<lparr>shm_vm := shm_vm s @ release_events (shm_internal ?g), shm_committed := shm_committed s - seg_pages ?g,
    shm_nused := shm_nused s - 1, shmsegs := (shmsegs s)[i := ?g']\<rparr>"
  have run: "shm_deallocate_segment env i s = Some s'"
    using i live env by (simp add: shm_deallocate_segment_def shm_seg_def shm_log_def seg_modify_def s'_def seg_pages_def Let_def)
  note obj = objects_seg [OF i okD(11)]
  have none: "\<not> slot_of i x" if "vm_shm s p = Some m" "x \<in> set m" for p m x
    using attached_zero [OF okD(9) a that] .
  have g': "\<not> seg_live ?g'" "seg_pages ?g' = 0" "seg_mode ?g' = SHMSEG_FREE" "shm_internal ?g' = []"
    by (simp_all add: seg_live_def seg_pages_def seg_mode_def)
  have seg': "seg_ok False 0 ?g'" using okD(5) [OF i] a by (simp add: seg_ok_def g' seg_live_def seg_mode_def)
  have segs: "seg_ok (j \<in> X - {i}) (attached (vm_shm s) j) ((shmsegs s)[i := ?g'] ! j)" if "j < length (shmsegs s)" for j
    using that seg' a okD(5) [OF that] i by (cases "j = i") (simp_all add: nth_list_update)
  have used: "int (length (filter seg_live ((shmsegs s)[i := ?g']))) = shm_nused s - 1"
    using att_slot [OF i, of seg_live ?g'] live g'(1) okD(7) by simp
  have "shm_ok (X - {i}) (s'\<lparr>shm_last_free := int i\<rparr>)"
    unfolding shm_ok_def s'_def
    using okD(1-4,9) okD(10) none segs used obj(3,4) [OF g'(4)] okD(8,12) i g'
    by (simp add: sum_list_change table_ok_other entry_run_append entry_run_release [OF obj(1,2)])
  then show ?thesis using run by (auto simp: s'_def)
qed

section \<open>Detaching\<close>

lemma mode_bits:
  "(x AND SHMSEG_REMOVED \<noteq> 0) = bit x 10" "(x AND SHMSEG_ALLOCATED \<noteq> 0) = bit x 11" "(x AND SHMSEG_FREE \<noteq> 0) = bit x 9" for x :: u16
proof -
  have m: "SHMSEG_REMOVED = push_bit 10 1" "SHMSEG_ALLOCATED = push_bit 11 1" "SHMSEG_FREE = push_bit 9 1"
    by (simp_all add: SHMSEG_REMOVED_def SHMSEG_ALLOCATED_def SHMSEG_FREE_def)
  show "(x AND SHMSEG_REMOVED \<noteq> 0) = bit x 10" "(x AND SHMSEG_ALLOCATED \<noteq> 0) = bit x 11" "(x AND SHMSEG_FREE \<noteq> 0) = bit x 9"
    unfolding m and_push_bit_1_eq_0 by simp_all
qed

lemma sint_small: "a < 2 ^ 15 \<Longrightarrow> sint (of_nat a :: u16) = int a"
  by (simp add: sint_uint uint_nat unat_of_nat signed_take_bit_int_eq_self)

lemma count_down: "0 < a \<Longrightarrow> a < 2 ^ 15 \<Longrightarrow> of_nat a - 1 = (of_nat (a - 1) :: u16)"
  by (cases a) simp_all

lemma valid_slot:
  assumes "table_ok gs m" "k < length m" "SHMID_IS_VALID (map_shmid (m ! k))"
  shows "Suc k < length m" "slot_ok gs (m ! k)" "slot_of (nat (IPCID_TO_IX (map_shmid (m ! k)))) (m ! k)"
    "nat (IPCID_TO_IX (map_shmid (m ! k))) < length gs" "seg_live (gs ! nat (IPCID_TO_IX (map_shmid (m ! k))))"
proof -
  have "m \<noteq> []" "map_shmid (last m) = SHMID_SENTINEL" using assms(1) by (simp_all add: table_ok_def)
  then have "k \<noteq> length m - 1" using assms(3) by (auto simp: last_conv_nth SHMID_IS_VALID_def SHMID_SENTINEL_def)
  then show s: "Suc k < length m" using assms(2) by simp
  then have "k < length (butlast m)" by simp
  then have "m ! k \<in> set (butlast m)" using nth_butlast nth_mem by metis
  then show ok: "slot_ok gs (m ! k)" using assms(1) by (simp add: table_ok_def)
  show "slot_of (nat (IPCID_TO_IX (map_shmid (m ! k)))) (m ! k)" using assms(3) by (simp add: slot_of_def)
  show "nat (IPCID_TO_IX (map_shmid (m ! k))) < length gs" "seg_live (gs ! nat (IPCID_TO_IX (map_shmid (m ! k))))"
    using ok assms(3) by (auto simp: slot_ok_def SHMID_IS_VALID_def SHMID_UNALLOCATED_def)
qed

lemma table_ok_update:
  assumes "table_ok gs m" "Suc k < length m" "slot_ok gs x"
  shows "table_ok gs (m[k := x])"
proof -
  have "m \<noteq> []" using assms(2) by auto
  then have "last (m[k := x]) = last m" using assms(2) by (subst last_list_update) auto
  moreover have "set (butlast (m[k := x])) \<subseteq> insert x (set (butlast m))"
    using assms(2) set_update_subset_insert [of "butlast m" k x] by (auto simp add: butlast_list_update)
  ultimately show ?thesis using assms(1,3) unfolding table_ok_def by auto
qed

lemma attached_slot:
  assumes "finite {p. V p \<noteq> None}" "V p = Some m" "k < length m"
  shows "attached (V(p := Some (m[k := x]))) i + (if slot_of i (m ! k) then 1 else 0) = attached V i + (if slot_of i x then 1 else 0)"
  using attached_update [OF assms(1), of p "Some (m[k := x])" i] att_slot [OF assms(3), of "slot_of i" x] assms(2) by simp

lemma entry_run_quiet:
  "entry_run es {} = Some S \<Longrightarrow> entry_run (es @ [VmRemoved p va sz]) {} = Some S"
  "entry_run es {} = Some S \<Longrightarrow> entry_run (es @ [VmReserved p va sz]) {} = Some S"
  by (simp_all add: entry_run_append)

lemma delete_mapping_ok:
  assumes ok: "shm_ok {} s" and m: "vm_shm s p = Some m" "k < length m" "SHMID_IS_VALID (map_shmid (m ! k))"
    and env: "map_page_mask env = PAGE_MASK"
  shows "\<exists>e s'. shm_delete_mapping env p k d s = Some (e, s') \<and> shm_ok {} s' \<and> shm_limits s' = shm_limits s \<and>
    (if d \<and> vm_deallocate env (shm_va (m ! k)) (vm_map_round_page (shm_segsz (shmsegs s ! nat (IPCID_TO_IX (map_shmid (m ! k))))) PAGE_MASK) \<noteq> KERN_SUCCESS
     then e = EINVAL \<and> s' = s
     else e = 0 \<and> vm_shm s' = (vm_shm s)(p := Some (m[k := (m ! k)\<lparr>map_shmid := SHMID_UNALLOCATED\<rparr>])))"
proof -
  note okD = shm_okD [OF ok]
  note slot = valid_slot [OF okD(10) [OF m(1)] m(2,3)]
  define i where "i = nat (IPCID_TO_IX (map_shmid (m ! k)))"
  note slot = slot [folded i_def]
  let ?g = "shmsegs s ! i" let ?x = "(m ! k)\<lparr>map_shmid := SHMID_UNALLOCATED\<rparr>"
  let ?size = "vm_map_round_page (shm_segsz ?g) PAGE_MASK"
  define a where "a = attached (vm_shm s) i"
  let ?V = "(vm_shm s)(p := Some (m[k := ?x]))"
  have x: "\<not> slot_of j ?x" "slot_ok (shmsegs s) ?x" for j by (simp_all add: slot_of_def slot_ok_def SHMID_IS_VALID_def SHMID_UNALLOCATED_def)
  have cnt: "attached ?V j + (if slot_of j (m ! k) then 1 else 0) = attached (vm_shm s) j" for j
    using attached_slot [OF okD(9) m(1,2), of ?x j] x(1) by simp
  have a0: "0 < a" and a': "attached ?V i = a - 1" using cnt [of i] slot(3) by (simp_all add: a_def)
  have other: "attached ?V j = attached (vm_shm s) j" if "j \<noteq> i" for j using cnt [of j] that by (simp add: slot_of_def i_def)
  have seg: "seg_ok False a ?g" using okD(5) [OF slot(4)] by (simp add: a_def)
  then have na: "shm_nattch ?g = of_nat a" "a < 2 ^ 15" by (simp_all add: seg_ok_def)
  have down: "shm_nattch ?g - 1 = of_nat (a - 1)" "sint (shm_nattch ?g - 1) \<le> 0 \<longleftrightarrow> a = 1"
    using count_down [OF a0 na(2)] sint_small [of "a - 1"] na a0 by auto
  show ?thesis
  proof (cases "d \<and> vm_deallocate env (shm_va (m ! k)) ?size \<noteq> KERN_SUCCESS")
    case True
    then show ?thesis using ok slot(4) m env by (simp add: shm_delete_mapping_def shm_seg_def i_def Let_def)
  next
    case False
    define s1 where "s1 = seg_modify i (\<lambda>g. g\<lparr>shm_dtime := shm_time env, shm_nattch := shm_nattch g - 1\<rparr>)
      (slot_modify p k (\<lambda>x. x\<lparr>map_shmid := SHMID_UNALLOCATED\<rparr>) (if d then shm_log [VmRemoved (shm_proc env) (shm_va (m ! k)) ?size] s else s))"
    let ?g' = "?g\<lparr>shm_dtime := shm_time env, shm_nattch := shm_nattch ?g - 1\<rparr>"
    have s1: "shmsegs s1 = (shmsegs s)[i := ?g']" "vm_shm s1 = ?V" "shm_limits s1 = shm_limits s" "shm_inited s1 = shm_inited s"
      "shm_last_free s1 = shm_last_free s" "shm_nused s1 = shm_nused s" "shm_committed s1 = shm_committed s"
      "shm_vm s1 = shm_vm s @ (if d then [VmRemoved (shm_proc env) (shm_va (m ! k)) ?size] else [])"
      using m by (simp_all add: s1_def seg_modify_def slot_modify_def shm_log_def)
    have run: "shm_delete_mapping env p k d s = (if a = 1 \<and> bit (seg_mode ?g) 10 then map_option (\<lambda>s. (0, s\<lparr>shm_last_free := int i\<rparr>)) (shm_deallocate_segment env i s1)
        else Some (0, s1))"
      using False slot(4) m env down(2)
      by (simp add: shm_delete_mapping_def shm_seg_def i_def [symmetric] mode_bits s1_def Let_def map_option_case Option.bind_map_option split: option.split)
    have ok1: "shm_ok X s1" if "a = 1 \<and> bit (seg_mode ?g) 10 \<Longrightarrow> i \<in> X" for X
    proof (rule shm_ok_change [OF ok _ s1(1,3-7)])
      show "seg_same ?g ?g'" by (simp add: seg_same_def seg_mode_def)
      show "seg_ok (i \<in> X) (attached (vm_shm s1) i) ?g'"
        using seg slot(5) that a0 down(1) unfolding s1(2) a' by (auto simp: seg_ok_def seg_live_def seg_mode_def)
      show "attached (vm_shm s1) j = attached (vm_shm s) j" if "j \<noteq> i" for j using other [OF that] by (simp add: s1(2))
      show "finite {p. vm_shm s1 p \<noteq> None}" unfolding s1(2) by (rule finite_subset [OF _ finite_insert [THEN iffD2, OF okD(9)]]) auto
      show "table_ok (shmsegs s) m'" if "vm_shm s1 q = Some m'" for q m'
        using that okD(10) table_ok_update [OF okD(10) [OF m(1)] slot(1) x(2)] by (auto simp: s1(2) split: if_splits)
      show "entry_run (shm_vm s1) {} = Some (set (objects (shmsegs s)))" using okD(12) by (simp add: s1(8) entry_run_quiet)
    qed simp
    show ?thesis
    proof (cases "a = 1 \<and> bit (seg_mode ?g) 10")
      case True
      have "seg_live (shmsegs s1 ! i)" using slot(4,5) by (simp add: s1(1) seg_live_def)
      moreover have "attached (vm_shm s1) i = 0" using a' True by (simp add: s1(2))
      ultimately obtain s' where "shm_deallocate_segment env i s1 = Some s'" "shm_ok {} (s'\<lparr>shm_last_free := int i\<rparr>)"
        "vm_shm s' = vm_shm s1" "shm_limits s' = shm_limits s1"
        using deallocate_ok [OF ok1 [of "{i}"] _ _ _ env, of i] slot(4) by (auto simp: s1(1))
      then show ?thesis unfolding i_def [symmetric] using run False True s1(2,3) by auto
    next
      case nodealloc: False
      then show ?thesis unfolding i_def [symmetric] using run False ok1 [of "{}"] s1(2,3) by auto
    qed
  qed
qed

section \<open>Changing every descriptor\<close>

lemma length_filter_map: "length (filter P xs) = length (filter id (map P xs))"
  by (induction xs) auto

lemma shm_ok_all:
  assumes ok: "shm_ok X s" and len: "length (shmsegs s') = length (shmsegs s)"
    and same: "\<And>i. i < length (shmsegs s) \<Longrightarrow> seg_same (shmsegs s ! i) (shmsegs s' ! i)"
    and s': "shm_limits s' = shm_limits s" "shm_inited s' = shm_inited s"
      "shm_last_free s' = shm_last_free s" "shm_nused s' = shm_nused s" "shm_committed s' = shm_committed s"
    and seg: "\<And>i. i < length (shmsegs s) \<Longrightarrow> seg_ok (i \<in> X') (attached (vm_shm s') i) (shmsegs s' ! i)"
    and tables: "finite {p. vm_shm s' p \<noteq> None}" "\<And>p m. vm_shm s' p = Some m \<Longrightarrow> table_ok (shmsegs s) m"
    and run: "entry_run (shm_vm s') {} = Some (set (objects (shmsegs s)))"
  shows "shm_ok X' s'"
proof -
  note okD = shm_okD [OF ok]
  have live: "map seg_live (shmsegs s') = map seg_live (shmsegs s)"
    using len same by (intro nth_equalityI) (auto simp: seg_same_live)
  have pages: "map seg_pages (shmsegs s') = map seg_pages (shmsegs s)"
    using len same by (intro nth_equalityI) (auto simp: seg_same_live)
  have "map seg_objects (shmsegs s') = map seg_objects (shmsegs s)"
    using len same by (intro nth_equalityI) (auto simp: seg_same_def)
  then have obj: "objects (shmsegs s') = objects (shmsegs s)" by (simp add: objects_def)
  have "slot_ok (shmsegs s') x = slot_ok (shmsegs s) x" for x
    using len same [of "nat (IPCID_TO_IX (map_shmid x))"] by (auto simp: slot_ok_def seg_same_def seg_live_def)
  then have tab: "table_ok (shmsegs s') m = table_ok (shmsegs s) m" for m by (simp add: table_ok_def)
  have free: "seg_mode (shmsegs s' ! j) = SHMSEG_FREE" if "seg_mode (shmsegs s ! j) = SHMSEG_FREE" "j < length (shmsegs s)" for j
    using that same by (auto simp: seg_same_def)
  have used: "length (filter seg_live (shmsegs s')) = length (filter seg_live (shmsegs s))"
    using live length_filter_map [of seg_live] by metis
  have "shmsegs s = [] \<Longrightarrow> shmsegs s' = []" using len by simp
  then have lf: "shm_last_free s' = - 1 \<or> shmsegs s' = [] \<or> 0 \<le> shm_last_free s' \<and> nat (shm_last_free s') < length (shmsegs s') \<and>
        seg_mode (shmsegs s' ! nat (shm_last_free s')) = SHMSEG_FREE"
    using okD(6) free len s'(3) by auto
  show ?thesis
    unfolding shm_ok_def tab obj pages used
    using okD(1-4,7,8,9,11) s' len seg tables run lf by simp
qed

text \<open>A change of the tables of the processes that moves no attachment.\<close>

lemma shm_ok_tables:
  assumes ok: "shm_ok X s"
    and s': "shmsegs s' = shmsegs s" "shm_limits s' = shm_limits s" "shm_inited s' = shm_inited s"
      "shm_last_free s' = shm_last_free s" "shm_nused s' = shm_nused s" "shm_committed s' = shm_committed s"
    and cnt: "\<And>i. attached (vm_shm s') i = attached (vm_shm s) i"
    and tables: "finite {p. vm_shm s' p \<noteq> None}" "\<And>p m. vm_shm s' p = Some m \<Longrightarrow> table_ok (shmsegs s) m"
    and run: "entry_run (shm_vm s') {} = Some (set (objects (shmsegs s)))"
  shows "shm_ok X s'"
  using shm_okD(5) [OF ok] cnt by (intro shm_ok_all [OF ok _ _ s'(2-6) _ tables run]) (simp_all add: s'(1) seg_same_def)

lemma shm_ok_simps [simp]:
  "shm_ok X (shm_copy_out a d s) = shm_ok X s" "shm_limits (shm_copy_out a d s) = shm_limits s"
  by (simp_all add: shm_copy_out_def shm_ok_def)

section \<open>Initialisation\<close>

definition shm_idle :: "shm_state \<Rightarrow> bool" where
  "shm_idle s \<longleftrightarrow> \<not> shm_inited s \<and> shmsegs s = [] \<and> vm_shm s = (\<lambda>p. None) \<and> shm_vm s = [] \<and>
     0 \<le> shmmni (shm_limits s) \<and> shmmni (shm_limits s) \<le> 65536"

definition shm_wf :: "shm_state \<Rightarrow> bool" where
  "shm_wf s \<longleftrightarrow> shm_idle s \<or> shm_ok {} s"

lemma shminit_done [simp]: "shm_ok X s \<Longrightarrow> shminit env s = (0, s)"
  by (simp add: shminit_def shm_okD(1))

lemma shminit_wf:
  assumes "shm_wf s"
  obtains "shminit env s = (ENOMEM, s)" | s' where "shminit env s = (0, s')" "shm_ok {} s'" "shm_limits s' = shm_limits s"
    "vm_shm s' = vm_shm s" "shm_inited s \<Longrightarrow> s' = s"
proof (cases "shm_inited s")
  case True
  then have "shm_ok {} s" using assms by (simp add: shm_wf_def shm_idle_def)
  then show ?thesis using that(2) [of s] by simp
next
  case False
  then have i: "shm_idle s" using assms shm_okD(1) by (auto simp: shm_wf_def)
  define n where "n = nat (shmmni (shm_limits s))"
  let ?g = "zero_shmid\<lparr>shm_perm := (shm_perm zero_shmid)\<lparr>ipc_mode := SHMSEG_FREE, ipc_seq := 0\<rparr>\<rparr>"
  let ?s = "s\<lparr>shmsegs := replicate n ?g, shm_last_free := 0, shm_nused := 0, shm_committed := 0, shm_inited := True\<rparr>"
  have g: "\<not> seg_live ?g" "seg_pages ?g = 0" "seg_mode ?g = SHMSEG_FREE" "seg_ok False 0 ?g" "shm_internal ?g = []"
    by (simp_all add: seg_live_def seg_pages_def seg_mode_def seg_ok_def zero_shmid_def)
  have "objects (replicate n ?g) = []" by (simp add: objects_def g)
  then have "shm_ok {} ?s"
    using i g by (simp add: shm_ok_def shm_idle_def n_def attached_def sum_list_replicate) (cases "shmmni (shm_limits s) = 0"; simp)
  moreover have "shminit env s = (ENOMEM, s) \<or> shminit env s = (0, ?s)"
    using i by (simp add: shminit_def shm_idle_def n_def)
  ultimately show ?thesis using that(1) that(2) [of ?s] i False by auto
qed

end
