(* ===== verification/Sysv_Shm_Ops.thy ===== *)
theory Sysv_Shm_Ops
  imports Sysv_Shm_Inv
begin

text \<open>
  Each call of the shared memory subsystem except \<open>shmget\<close> keeps the invariant: detaching, the exit and the
  \<open>exec\<close> of a process, control, attaching and forking; and the arithmetic of pages that \<open>shmget\<close> needs.
\<close>

section \<open>The calls keep the invariant\<close>

lemma slot_search_stops:
  assumes "m \<noteq> []" "map_shmid (last m) = SHMID_SENTINEL"
  shows "\<exists>k < length m. slot_search addr j m = Some (j + k) \<and>
    (map_shmid (m ! k) = SHMID_SENTINEL \<or> SHMID_IS_VALID (map_shmid (m ! k)) \<and> shm_va (m ! k) = addr)"
  using assms
proof (induction m arbitrary: j)
  case (Cons x m)
  show ?case
  proof (cases "map_shmid x = SHMID_SENTINEL \<or> SHMID_IS_VALID (map_shmid x) \<and> shm_va x = addr")
    case False
    then have "m \<noteq> []" using Cons.prems by auto
    with Cons.IH [of "Suc j"] Cons.prems False show ?thesis by fastforce
  qed (auto intro: exI [of _ 0])
qed simp

lemma shmdt_ok:
  assumes ok: "shm_ok {} s" and env: "map_page_mask env = PAGE_MASK"
  shows "\<exists>e r s'. shmdt env addr s = Some (e, r, s') \<and> shm_ok {} s' \<and> shm_limits s' = shm_limits s"
proof (cases "vm_shm s (shm_proc env)")
  case None
  then show ?thesis using ok by (simp add: shmdt_def)
next
  case (Some m)
  note tab = shm_okD(10) [OF ok Some]
  obtain k where k: "k < length m" "slot_search addr 0 m = Some k"
    using slot_search_stops [of m addr 0] tab by (auto simp: table_ok_def)
  show ?thesis
  proof (cases "SHMID_IS_VALID (map_shmid (m ! k))")
    case False
    then show ?thesis using ok Some k by (simp add: shmdt_def)
  next
    case True
    let ?g = "shmsegs s ! nat (IPCID_TO_IX (map_shmid (m ! k)))"
    have g: "shm_seg (nat (IPCID_TO_IX (map_shmid (m ! k)))) s = Some ?g" using valid_slot(4) [OF tab k(1) True] by (simp add: shm_seg_def)
    obtain e s' where "shm_delete_mapping env (shm_proc env) k True s = Some (e, s')" "shm_ok {} s'" "shm_limits s' = shm_limits s"
      using delete_mapping_ok [OF ok Some k(1) True env, of True] by blast
    then show ?thesis using ok Some k True g by (cases "mac_sysvshm_check_shmdt env ?g = 0") (simp_all add: shmdt_def)
  qed
qed

lemma cleanup_slots_ok:
  assumes "shm_ok {} s" "vm_shm s p = Some (ys @ xs)" "xs \<noteq> []" "\<And>y. y \<in> set ys \<Longrightarrow> \<not> SHMID_IS_VALID (map_shmid y)"
    and env: "map_page_mask env = PAGE_MASK" "d \<Longrightarrow> \<forall>va sz. vm_deallocate env va sz = KERN_SUCCESS"
  shows "\<exists>s' m. shmcleanup_slots env p d (length ys) xs s = Some s' \<and> shm_ok {} s' \<and> shm_limits s' = shm_limits s \<and>
    vm_shm s' = (vm_shm s)(p := Some m) \<and> (\<forall>y\<in>set m. \<not> SHMID_IS_VALID (map_shmid y))"
  using assms(1-4)
proof (induction xs arbitrary: ys s)
  case (Cons x xs)
  note tab = shm_okD(10) [OF Cons.prems(1,2)]
  show ?case
  proof (cases "map_shmid x = SHMID_SENTINEL")
    case True
    have "xs = []"
    proof (rule ccontr)
      assume "xs \<noteq> []"
      then have "x \<in> set (butlast (ys @ x # xs))" by (simp add: butlast_append)
      then have "slot_ok (shmsegs s) x" using tab by (simp add: table_ok_def)
      then show False using True by (simp add: slot_ok_def SHMID_SENTINEL_def SHMID_UNALLOCATED_def SHMID_IS_VALID_def)
    qed
    then have "\<not> SHMID_IS_VALID (map_shmid y)" if "y \<in> set (ys @ x # xs)" for y
      using that Cons.prems(4) True by (auto simp: SHMID_SENTINEL_def SHMID_IS_VALID_def)
    then show ?thesis using True Cons.prems(1,2) by (intro exI [of _ s] exI [of _ "ys @ x # xs"]) (simp add: fun_upd_idem)
  next
    case False
    then have xs: "xs \<noteq> []" using tab by (auto simp: table_ok_def)
    show ?thesis
    proof (cases "SHMID_IS_VALID (map_shmid x)")
      case True
      let ?x = "x\<lparr>map_shmid := SHMID_UNALLOCATED\<rparr>"
      obtain s1 where s1: "shm_delete_mapping env p (length ys) d s = Some (0, s1)" "shm_ok {} s1" "shm_limits s1 = shm_limits s"
        "vm_shm s1 = (vm_shm s)(p := Some ((ys @ [?x]) @ xs))"
        using delete_mapping_ok [OF Cons.prems(1,2), of "length ys" env d] True env by (auto simp: list_update_append)
      have "\<not> SHMID_IS_VALID (map_shmid y)" if "y \<in> set (ys @ [?x])" for y
        using that Cons.prems(4) by (auto simp: SHMID_UNALLOCATED_def SHMID_IS_VALID_def)
      moreover have "vm_shm s1 p = Some ((ys @ [?x]) @ xs)" using s1(4) by simp
      ultimately obtain s' m where "shmcleanup_slots env p d (length (ys @ [?x])) xs s1 = Some s'" "shm_ok {} s'"
        "shm_limits s' = shm_limits s1" "vm_shm s' = (vm_shm s1)(p := Some m)" "\<forall>y\<in>set m. \<not> SHMID_IS_VALID (map_shmid y)"
        using Cons.IH [OF s1(2) _ xs] by metis
      then show ?thesis using s1 True False by (intro exI [of _ s'] exI [of _ m]) simp
    next
      case False
      then have "\<not> SHMID_IS_VALID (map_shmid y)" if "y \<in> set (ys @ [x])" for y using that Cons.prems(4) by auto
      from Cons.IH [OF Cons.prems(1) _ xs this] Cons.prems(2) False \<open>map_shmid x \<noteq> SHMID_SENTINEL\<close> show ?thesis by simp
    qed
  qed
qed simp

lemma cleanup_ok:
  assumes ok: "shm_ok {} s" and m: "vm_shm s p = Some m"
    and env: "map_page_mask env = PAGE_MASK" "d \<Longrightarrow> \<forall>va sz. vm_deallocate env va sz = KERN_SUCCESS"
  shows "\<exists>s'. shmcleanup env p d s = Some s' \<and> shm_ok {} s' \<and> shm_limits s' = shm_limits s \<and> vm_shm s' = (vm_shm s)(p := None)"
proof -
  have "m \<noteq> []" using shm_okD(10) [OF ok m] by (simp add: table_ok_def)
  then obtain s1 m1 where s1: "shmcleanup_slots env p d 0 m s = Some s1" "shm_ok {} s1" "shm_limits s1 = shm_limits s"
    "vm_shm s1 = (vm_shm s)(p := Some m1)" "\<And>y. y \<in> set m1 \<Longrightarrow> \<not> SHMID_IS_VALID (map_shmid y)"
    using cleanup_slots_ok [OF ok, of p "[]" m env d] m env by auto
  note okD = shm_okD [OF s1(2)]
  let ?s = "s1\<lparr>vm_shm := (vm_shm s1)(p := None)\<rparr>"
  have "att i (vm_shm s1 p) = 0" for i using s1(4,5) by (auto simp: filter_empty_conv slot_of_def)
  then have "attached (vm_shm ?s) i = attached (vm_shm s1) i" for i using attached_remove [OF okD(9), of i p] by simp
  then have "shm_ok {} ?s"
    by (rule shm_ok_tables [OF s1(2), rotated 6]) (use okD in \<open>auto split: if_splits elim: rev_finite_subset\<close>)
  then show ?thesis using m s1(1,3,4) by (simp add: shmcleanup_def)
qed

section \<open>Finding a segment\<close>

lemma shmid_nonneg:
  assumes "- (2 ^ 31) \<le> x" "IPCID_TO_SEQ x < 2 ^ 15"
  shows "0 \<le> x"
proof (rule ccontr)
  assume "\<not> 0 \<le> x"
  then have "- 2147483648 \<le> x" "x < 0" using assms(1) by simp_all
  then have y: "- 32768 \<le> x div 65536" "x div 65536 < 0" using zdiv_mono1 [of "- 2147483648" x 65536] by (simp_all add: pos_imp_zdiv_neg_iff)
  then have "(x div 65536 + 65536) mod 65536 = x div 65536 + 65536" by (intro mod_pos_pos_trivial) simp_all
  then have "32768 \<le> (x div 65536) mod 65536" using y by (simp only: mod_add_self2)
  moreover have "IPCID_TO_SEQ x = (x div 65536) mod 65536"
    using take_bit_eq_mask [of 16 "drop_bit 16 x"] by (simp add: IPCID_TO_SEQ_def drop_bit_eq_div take_bit_eq_mod mask_eq_exp_minus_1)
  ultimately show False using assms(2) by simp
qed

lemma seg_bits [simp]: "bit SHMSEG_ALLOCATED n \<longleftrightarrow> n = 11" "bit SHMSEG_REMOVED n \<longleftrightarrow> n = 10" "bit SHMSEG_FREE n \<longleftrightarrow> n = 9"
proof -
  have m: "SHMSEG_REMOVED = push_bit 10 1" "SHMSEG_ALLOCATED = push_bit 11 1" "SHMSEG_FREE = push_bit 9 1"
    by (simp_all add: SHMSEG_REMOVED_def SHMSEG_ALLOCATED_def SHMSEG_FREE_def)
  show "bit SHMSEG_ALLOCATED n \<longleftrightarrow> n = 11" "bit SHMSEG_REMOVED n \<longleftrightarrow> n = 10" "bit SHMSEG_FREE n \<longleftrightarrow> n = 9"
    unfolding m by (simp_all only: bit_push_bit_iff bit_1_iff) auto
qed

lemma find_mode: "x AND (SHMSEG_ALLOCATED OR SHMSEG_REMOVED) = SHMSEG_ALLOCATED \<longleftrightarrow> bit x 11 \<and> \<not> bit x 10" for x :: u16
  unfolding bit_eq_iff [of _ SHMSEG_ALLOCATED] by (auto simp: bit_and_iff bit_or_iff dest: spec [of _ 10] spec [of _ 11])

lemma find_ok:
  assumes ok: "shm_ok {} s" and id: "- (2 ^ 31) \<le> shmid"
  obtains "shm_find_segment_by_shmid shmid s = Some None"
  | i where "shm_find_segment_by_shmid shmid s = Some (Some i)" "i = nat (IPCID_TO_IX shmid)" "i < length (shmsegs s)" "seg_live (shmsegs s ! i)"
    "\<not> bit (seg_mode (shmsegs s ! i)) 10" "uint (ipc_seq (shm_perm (shmsegs s ! i))) = IPCID_TO_SEQ shmid" "SHMID_IS_VALID shmid"
proof -
  note okD = shm_okD [OF ok]
  define i where "i = nat (IPCID_TO_IX shmid)"
  have ix: "0 \<le> IPCID_TO_IX shmid" by (simp add: IPCID_TO_IX_def)
  show ?thesis
  proof (cases "IPCID_TO_IX shmid < shmmni (shm_limits s) \<and> bit (seg_mode (shmsegs s ! i)) 11 \<and> \<not> bit (seg_mode (shmsegs s ! i)) 10 \<and>
      uint (ipc_seq (shm_perm (shmsegs s ! i))) = IPCID_TO_SEQ shmid")
    case True
    then have i: "i < length (shmsegs s)" using okD(4) ix by (simp add: i_def)
    then have f: "shm_find_segment_by_shmid shmid s = Some (Some i)"
      using True ix by (simp add: shm_find_segment_by_shmid_def shm_seg_def i_def [symmetric] find_mode Let_def)
    have seg: "seg_ok False (attached (vm_shm s) i) (shmsegs s ! i)" using okD(5) [OF i] by simp
    have live: "seg_live (shmsegs s ! i)" using seg True by (auto simp: seg_ok_def seg_left_def split: if_splits)
    have "IPCID_TO_SEQ shmid < 2 ^ 15" using seg True by (simp add: seg_ok_def)
    then have "SHMID_IS_VALID shmid" using shmid_nonneg [OF id] by (simp add: SHMID_IS_VALID_def)
    then show ?thesis using that(2) [OF f i_def i live] True by simp
  next
    case False
    have "shm_find_segment_by_shmid shmid s = Some None"
    proof (cases "IPCID_TO_IX shmid < shmmni (shm_limits s)")
      case True
      then have "i < length (shmsegs s)" using okD(4) ix by (simp add: i_def)
      then show ?thesis using False True ix by (auto simp: shm_find_segment_by_shmid_def shm_seg_def i_def [symmetric] find_mode Let_def)
    qed (simp add: shm_find_segment_by_shmid_def)
    then show ?thesis by (rule that(1))
  qed
qed

lemma mode_set: "n = 9 \<or> n = 10 \<or> n = 11 \<Longrightarrow> bit ((m AND NOT 0x1FF) OR (x AND 0x1FF)) n = bit m n" for m x :: u16
proof -
  have "(0x1FF :: u16) = mask 9" by (simp add: mask_eq_exp_minus_1)
  then have "bit (0x1FF :: u16) n = (n < 9)" if "n < 16" using that by (simp only: bit_mask_iff) simp
  then show "n = 9 \<or> n = 10 \<or> n = 11 \<Longrightarrow> bit ((m AND NOT 0x1FF) OR (x AND 0x1FF)) n = bit m n"
    by (auto simp: bit_or_iff bit_and_iff bit_not_iff)
qed

lemma shm_ok_seg:
  assumes ok: "shm_ok X s" and same: "seg_same (shmsegs s ! i) (f (shmsegs s ! i))"
    and seg: "i < length (shmsegs s) \<Longrightarrow> seg_ok (i \<in> X') (attached (vm_shm s) i) (f (shmsegs s ! i))" and X: "X - {i} \<subseteq> X'"
  shows "shm_ok X' (seg_modify i f s)"
  by (rule shm_ok_change [OF ok same]) (use shm_okD [OF ok] seg X in \<open>simp_all add: seg_modify_def\<close>)

lemma shmctl_set_ok:
  assumes ok: "shm_ok {} s" and i: "i < length (shmsegs s)" "seg_live (shmsegs s ! i)" "\<not> bit (seg_mode (shmsegs s ! i)) 10"
  shows "shm_ok {} (seg_modify i (\<lambda>g. g\<lparr>shm_perm := (shm_perm g)\<lparr>ipc_uid := u, ipc_gid := v,
     ipc_mode := (seg_mode g AND NOT 0x1FF) OR (x AND 0x1FF)\<rparr>, shm_ctime := t\<rparr>) s)"
proof -
  let ?g = "shmsegs s ! i"
  let ?g' = "?g\<lparr>shm_perm := (shm_perm ?g)\<lparr>ipc_uid := u, ipc_gid := v, ipc_mode := (seg_mode ?g AND NOT 0x1FF) OR (x AND 0x1FF)\<rparr>, shm_ctime := t\<rparr>"
  note okD = shm_okD [OF ok]
  have seg: "seg_ok False (attached (vm_shm s) i) ?g" using okD(5) [OF i(1)] by simp
  then have "seg_mode ?g \<noteq> SHMSEG_FREE" using i(2) by (auto simp: seg_ok_def)
  then have same: "seg_same ?g ?g'" by (simp add: seg_same_def)
  have b: "bit (seg_mode ?g') n = bit (seg_mode ?g) n" if "n = 9 \<or> n = 10 \<or> n = 11" for n
    using mode_set [OF that, of "seg_mode ?g" x] by (simp add: seg_mode_def)
  have "seg_ok False (attached (vm_shm s) i) ?g'"
    using seg i(2,3) b [of 9] b [of 10] b [of 11] by (simp add: seg_ok_def seg_live_def)
  then show ?thesis using same by (intro shm_ok_seg [OF ok]) simp_all
qed

lemma shmctl_rmid_ok:
  assumes ok: "shm_ok {} s" and i: "i < length (shmsegs s)" "seg_live (shmsegs s ! i)" and env: "map_page_mask env = PAGE_MASK"
  shows "\<exists>e r s'. shmctl_rmid env i (shmsegs s ! i) s = Some (e, r, s') \<and> shm_ok {} s' \<and> shm_limits s' = shm_limits s"
proof -
  let ?g = "shmsegs s ! i" let ?g' = "?g\<lparr>shm_perm := (shm_perm ?g)\<lparr>ipc_key := IPC_PRIVATE, ipc_mode := seg_mode ?g OR SHMSEG_REMOVED\<rparr>\<rparr>"
  note okD = shm_okD [OF ok]
  define a where "a = attached (vm_shm s) i"
  have seg: "seg_ok False a ?g" using okD(5) [OF i(1)] by (simp add: a_def)
  then have "seg_mode ?g \<noteq> SHMSEG_FREE" using i(2) by (auto simp: seg_ok_def)
  then have same: "seg_same ?g ?g'" by (simp add: seg_same_def)
  define s1 where "s1 = seg_modify i (\<lambda>g. g\<lparr>shm_perm := (shm_perm g)\<lparr>ipc_key := IPC_PRIVATE, ipc_mode := seg_mode g OR SHMSEG_REMOVED\<rparr>\<rparr>) s"
  have s1: "shmsegs s1 = (shmsegs s)[i := ?g']" "vm_shm s1 = vm_shm s" "shm_limits s1 = shm_limits s" by (simp_all add: s1_def seg_modify_def)
  have ok1: "shm_ok X s1" if "a = 0 \<Longrightarrow> i \<in> X" for X
  proof -
    have "seg_ok (i \<in> X) a ?g'" using seg i(2) that by (auto simp: seg_ok_def seg_live_def seg_mode_def bit_or_iff)
    then show ?thesis unfolding s1_def using same by (intro shm_ok_seg [OF ok]) (simp_all add: a_def)
  qed
  have n: "sint (shm_nattch ?g) \<le> 0 \<longleftrightarrow> a = 0" using seg sint_small [of a] by (simp add: seg_ok_def)
  consider "ipcperm (shm_cred env) (shm_perm ?g) IPC_M \<noteq> 0" | "ipcperm (shm_cred env) (shm_perm ?g) IPC_M = 0" "a = 0"
    | "ipcperm (shm_cred env) (shm_perm ?g) IPC_M = 0" "a \<noteq> 0" by blast
  then show ?thesis
  proof cases
    case 1
    then show ?thesis using ok by (simp add: shmctl_rmid_def)
  next
    case 2
    have "i < length (shmsegs s1)" "seg_live (shmsegs s1 ! i)" "attached (vm_shm s1) i = 0"
      using i 2(2) by (simp_all add: s1 seg_live_def a_def)
    from deallocate_ok [OF ok1 [of "{i}"] this env] 2 n s1 show ?thesis by (auto simp: shmctl_rmid_def s1_def [symmetric] Let_def)
  next
    case 3
    then show ?thesis using n ok1 [of "{}"] s1 by (simp add: shmctl_rmid_def s1_def [symmetric] Let_def)
  qed
qed

lemma shmctl_ok:
  assumes ok: "shm_ok {} s" and id: "- (2 ^ 31) \<le> shmid" and env: "map_page_mask env = PAGE_MASK"
  shows "\<exists>e r s'. shmctl env shmid cmd buf s = Some (e, r, s') \<and> shm_ok {} s' \<and> shm_limits s' = shm_limits s"
proof (rule find_ok [OF ok id])
  assume "shm_find_segment_by_shmid shmid s = Some None"
  then show ?thesis using ok by (simp add: shmctl_def)
next
  fix i
  assume f: "shm_find_segment_by_shmid shmid s = Some (Some i)" and i: "i < length (shmsegs s)" "seg_live (shmsegs s ! i)"
    "\<not> bit (seg_mode (shmsegs s ! i)) 10"
  let ?g = "shmsegs s ! i"
  have g: "shm_seg i s = Some ?g" using i(1) by (simp add: shm_seg_def)
  consider "mac_sysvshm_check_shmctl env ?g cmd \<noteq> 0" | "mac_sysvshm_check_shmctl env ?g cmd = 0" "cmd = IPC_STAT"
    | "mac_sysvshm_check_shmctl env ?g cmd = 0" "cmd = IPC_SET" | "mac_sysvshm_check_shmctl env ?g cmd = 0" "cmd = IPC_RMID"
    | "mac_sysvshm_check_shmctl env ?g cmd = 0" "cmd \<noteq> IPC_STAT" "cmd \<noteq> IPC_SET" "cmd \<noteq> IPC_RMID" by blast
  then show ?thesis
  proof cases
    case 2
    then show ?thesis using ok f g by (simp add: shmctl_def shmctl_stat_def Let_def)
  next
    case 3
    then have "shmctl env shmid cmd buf s = Some (shmctl_set env i ?g buf s)" using ok f g by (simp add: shmctl_def IPC_STAT_def IPC_SET_def)
    moreover have "shm_limits (seg_modify i h s) = shm_limits s" for h by (simp add: seg_modify_def)
    ultimately show ?thesis using shmctl_set_ok [OF ok i] ok
      by (cases "copyin_shmid env buf") (simp add: shmctl_set_def Let_def)
  next
    case 4
    then show ?thesis using shmctl_rmid_ok [OF ok i(1,2) env] ok f g by (simp add: shmctl_def IPC_STAT_def IPC_SET_def IPC_RMID_def)
  qed (use ok f g in \<open>simp_all add: shmctl_def\<close>)
qed

section \<open>Attaching\<close>

lemma finite_procs: "finite {p. V p \<noteq> None} \<Longrightarrow> finite {p. (V(q := m)) p \<noteq> None}"
  by (rule finite_subset [of _ "insert q {p. V p \<noteq> None}"]) auto

lemma slot_free_stops:
  assumes "m \<noteq> []" "map_shmid (last m) = SHMID_SENTINEL"
  shows "\<exists>k < length m. slot_free j m = Some (j + k) \<and> \<not> SHMID_IS_VALID (map_shmid (m ! k)) \<and> (\<forall>i < k. SHMID_IS_VALID (map_shmid (m ! i)))"
  using assms
proof (induction m arbitrary: j)
  case (Cons x m)
  show ?case
  proof (cases "SHMID_IS_VALID (map_shmid x)")
    case True
    then have "m \<noteq> []" using Cons.prems by (auto simp: SHMID_IS_VALID_def SHMID_SENTINEL_def)
    with Cons.IH [of "Suc j"] Cons.prems obtain k where k: "k < length m" "slot_free (Suc j) m = Some (Suc j + k)"
      "\<not> SHMID_IS_VALID (map_shmid (m ! k))" "\<forall>i < k. SHMID_IS_VALID (map_shmid (m ! i))" by auto
    then show ?thesis using True by (intro exI [of _ "Suc k"]) (auto simp: less_Suc_eq_0_disj)
  qed (auto intro: exI [of _ 0])
qed simp

lemma table_new: "0 < n \<Longrightarrow> table_ok gs (shmmap_new env n)" "slot_of i x \<Longrightarrow> x \<notin> set (shmmap_new env n)"
proof -
  have "set (butlast (shmmap_new env n)) \<subseteq> (\<lambda>k. \<lparr> shm_va = junk_va env k, map_shmid = SHMID_UNALLOCATED \<rparr>) ` {0..<n}"
    by (auto simp: shmmap_new_def butlast_append)
  then show "table_ok gs (shmmap_new env n)" by (auto simp: table_ok_def slot_ok_def shmmap_new_def)
  show "slot_of i x \<Longrightarrow> x \<notin> set (shmmap_new env n)"
    by (auto simp: shmmap_new_def slot_of_def SHMID_IS_VALID_def SHMID_UNALLOCATED_def SHMID_SENTINEL_def)
qed

lemma shmat_table_ok:
  assumes ok: "shm_ok {} s"
  obtains e where "e \<noteq> 0" "shmat_table env s = (e, s)"
  | s' m where "shmat_table env s = (0, s')" "shm_ok {} s'" "vm_shm s' (shm_proc env) = Some m" "shm_limits s' = shm_limits s"
    "shmsegs s' = shmsegs s" "\<And>i. attached (vm_shm s') i = attached (vm_shm s) i" "s' = s\<lparr>vm_shm := vm_shm s'\<rparr>"
proof (cases "vm_shm s (shm_proc env)")
  case (Some m)
  then show ?thesis using that(2) [of s m] ok by (simp add: shmat_table_def)
next
  case None
  define n where "n = signed_take_bit 31 (shmseg (shm_limits s))"
  define s' where "s' = s\<lparr>vm_shm := (vm_shm s)(shm_proc env := Some (shmmap_new env (nat n)))\<rparr>"
  consider "shmat_table env s = (EMFILE, s)" | "shmat_table env s = (ENOMEM, s)" | "0 < n" "shmat_table env s = (0, s')"
    using None by (cases "n \<le> 0"; cases "shmmap_ok env") (simp_all add: shmat_table_def n_def [symmetric] s'_def Let_def)
  then show ?thesis
  proof cases
    case 3
    have "att i (Some (shmmap_new env (nat n))) = 0" for i using table_new(2) by (auto simp: filter_empty_conv)
    then have cnt: "attached (vm_shm s') i = attached (vm_shm s) i" for i
      using attached_update [OF shm_okD(9) [OF ok], of "shm_proc env" "Some (shmmap_new env (nat n))" i] None by (simp add: s'_def)
    have "shm_ok {} s'"
      by (rule shm_ok_tables [OF ok]) (use shm_okD [OF ok] cnt finite_procs [OF shm_okD(9) [OF ok]] table_new(1) [of "nat n"] 3(1) in
        \<open>auto simp: s'_def split: if_splits\<close>)
    then show ?thesis using that(2) [OF 3(2), of "shmmap_new env (nat n)"] cnt by (simp add: s'_def)
  qed (use that(1) in \<open>auto simp: EMFILE_def ENOMEM_def\<close>)
qed

lemma shmat_map_log:
  "\<exists>rv k es. shmat_map env prot n hs va j s = (rv, k, shm_log es s) \<and> (\<forall>S. set (map shm_object hs) \<subseteq> S \<longrightarrow> entry_run es S = Some S)"
proof (induction hs arbitrary: va j s)
  case (Cons h hs)
  define c where "c = (if shm_handle_size h > n - j then n - j else shm_handle_size h)"
  obtain rv va' where v: "vm_map_entry env va c (shm_object h) prot = (rv, va')" by fastforce
  show ?case
  proof (cases "rv = KERN_SUCCESS")
    case True
    obtain rv' k es where "shmat_map env prot n hs (va' + c) (j + c) (shm_log [VmMapped (shm_proc env) va' c (shm_object h) prot] s) =
        (rv', k, shm_log es (shm_log [VmMapped (shm_proc env) va' c (shm_object h) prot] s))"
      "\<And>S. set (map shm_object hs) \<subseteq> S \<Longrightarrow> entry_run es S = Some S" using Cons.IH by blast
    then show ?thesis using v True by (intro exI [of _ rv'] exI [of _ k] exI [of _ "VmMapped (shm_proc env) va' c (shm_object h) prot # es"])
      (simp add: c_def [symmetric] shm_log_def)
  next
    case False
    then show ?thesis using v by (intro exI [of _ rv] exI [of _ j] exI [of _ "[]"]) (simp add: c_def [symmetric] shm_log_def)
  qed
qed (auto simp: shm_log_def intro: exI [of _ "[]"])

lemma shmat_fail_ok:
  assumes ok: "shm_ok {} s"
  shows "\<exists>e s'. shmat_fail env k rv n s = (e, None, s') \<and> e \<noteq> 0 \<and> shm_ok {} s' \<and> shm_limits s' = shm_limits s \<and> shmsegs s' = shmsegs s \<and> vm_shm s' = vm_shm s"
proof -
  let ?va = "shm_va (the (vm_shm s (shm_proc env)) ! k)"
  have "shm_ok {} (shm_log [VmRemoved (shm_proc env) ?va n] s)"
    by (rule shm_ok_tables [OF ok]) (use shm_okD [OF ok] in \<open>simp_all add: shm_log_def entry_run_quiet\<close>)
  then show ?thesis
    using ok by (auto simp: shmat_fail_def vm_errno_def errno_defs shm_log_def Let_def)
qed

definition shmat_prot :: "shmat_args \<Rightarrow> vm_prot" where
  "shmat_prot a = (if at_shmflg a AND SHM_RDONLY = 0 then ProtReadWrite else ProtRead)"

lemma shmat_map_one:
  assumes "map shm_handle_size hs = [n]" "shmat_map env prot n hs va 0 s = (KERN_SUCCESS, k, s')"
  shows "\<exists>h va'. hs = [h] \<and> vm_map_entry env va n (shm_object h) prot = (KERN_SUCCESS, va') \<and>
    s' = shm_log [VmMapped (shm_proc env) va' n (shm_object h) prot] s"
  using assms by (auto simp: Let_def split: prod.splits if_splits)

lemma shmat_attach_ok:
  assumes ok: "shm_ok {} s" and m: "vm_shm s (shm_proc env) = Some m" "k < length m" "map_shmid (m ! k) = SHMID_UNALLOCATED"
    and i: "i = nat (IPCID_TO_IX (at_shmid a))" "i < length (shmsegs s)" "seg_live (shmsegs s ! i)"
      "uint (ipc_seq (shm_perm (shmsegs s ! i))) = IPCID_TO_SEQ (at_shmid a)" "SHMID_IS_VALID (at_shmid a)"
    and fit: "Suc (attached (vm_shm s) i) < 2 ^ 15"
  shows "\<exists>e r s'. shmat_attach env a i (shmsegs s ! i) k s = (e, r, s') \<and> shm_ok {} s' \<and> shm_limits s' = shm_limits s \<and>
    (if e = 0 then \<exists>va. r = Some va \<and> vm_shm s' = (vm_shm s)(shm_proc env := Some (m[k := \<lparr> shm_va = va, map_shmid = at_shmid a \<rparr>])) \<and>
        shmsegs s' = (shmsegs s)[i := (shmsegs s ! i)\<lparr>shm_lpid := shm_pid env, shm_atime := shm_time env, shm_nattch := shm_nattch (shmsegs s ! i) + 1\<rparr>] \<and>
        (map_page_mask env = PAGE_MASK \<longrightarrow> (\<exists>h va'. shm_internal (shmsegs s ! i) = [h] \<and>
          vm_map_entry env va (shm_handle_size h) (shm_object h) (shmat_prot a) = (KERN_SUCCESS, va') \<and>
          shm_vm s' = shm_vm s @ [VmReserved (shm_proc env) va (shm_handle_size h), VmMapped (shm_proc env) va' (shm_handle_size h) (shm_object h) (shmat_prot a)]))
     else r = None \<and> shmsegs s' = shmsegs s)"
proof -
  note okD = shm_okD [OF ok]
  let ?g = "shmsegs s ! i" and ?p = "shm_proc env"
  let ?size = "vm_map_round_page (shm_segsz ?g) (map_page_mask env)"
  have tab: "table_ok (shmsegs s) m" by (rule okD(10) [OF m(1)])
  have k: "Suc k < length m"
    using tab m(2,3) by (cases "k = length m - 1") (auto simp: table_ok_def last_conv_nth SHMID_SENTINEL_def SHMID_UNALLOCATED_def)
  define addr where "addr = (if at_shmflg a AND SHM_RND \<noteq> 0 then at_shmaddr a AND NOT (map_page_mask env) else at_shmaddr a)"
  obtain rv va where v: "vm_reserve env addr ?size (at_shmaddr a \<noteq> 0) = (rv, va)" by fastforce
  define s1 where "s1 = slot_modify ?p k (\<lambda>x. x\<lparr>shm_va := va\<rparr>) (shm_log [VmReserved ?p va ?size] s)"
  let ?x = "(m ! k)\<lparr>shm_va := va\<rparr>"
  have s1: "vm_shm s1 = (vm_shm s)(?p := Some (m[k := ?x]))" "shmsegs s1 = shmsegs s" "shm_limits s1 = shm_limits s"
    "shm_vm s1 = shm_vm s @ [VmReserved ?p va ?size]" "shm_inited s1 = shm_inited s" "shm_last_free s1 = shm_last_free s"
    "shm_nused s1 = shm_nused s" "shm_committed s1 = shm_committed s"
    using m(1) by (simp_all add: s1_def slot_modify_def shm_log_def)
  have un: "\<not> slot_of j (m ! k)" "\<not> slot_of j ?x" "slot_ok (shmsegs s) ?x" for j
    using m(3) by (simp_all add: slot_of_def slot_ok_def SHMID_IS_VALID_def SHMID_UNALLOCATED_def)
  have cnt1: "attached (vm_shm s1) j = attached (vm_shm s) j" for j
    using attached_slot [OF okD(9) m(1,2), of ?x j] un by (simp add: s1)
  have ok1: "shm_ok {} s1"
    by (rule shm_ok_tables [OF ok s1(2,3,5-8) cnt1]) (use finite_procs [OF okD(9)] okD(10,12) table_ok_update [OF tab k un(3)] in
      \<open>auto simp: s1(1,4) entry_run_quiet split: if_splits\<close>)
  obtain rv' n es where map: "shmat_map env (shmat_prot a) ?size (shm_internal ?g) va 0 s1 = (rv', n, shm_log es s1)"
    "\<And>S. set (seg_objects ?g) \<subseteq> S \<Longrightarrow> entry_run es S = Some S" using shmat_map_log by metis
  have es: "entry_run (shm_vm s1 @ es) {} = Some (set (objects (shmsegs s)))"
    using shm_okD(12) [OF ok1] map(2) [OF objects_seg(2) [OF i(2) okD(11)]] unfolding s1(2) by (simp add: entry_run_append [of "shm_vm s1"])
  have ok2: "shm_ok {} (shm_log es s1)"
    by (rule shm_ok_tables [OF ok1]) (use shm_okD [OF ok1] es in \<open>simp_all add: shm_log_def s1\<close>)
  have l2: "shm_limits (shm_log es s1) = shm_limits s" "shmsegs (shm_log es s1) = shmsegs s" using s1 by (simp_all add: shm_log_def)
  define s3 where "s3 = seg_modify i (\<lambda>g. g\<lparr>shm_lpid := shm_pid env, shm_atime := shm_time env, shm_nattch := shm_nattch g + 1\<rparr>)
    (slot_modify ?p k (\<lambda>x. x\<lparr>map_shmid := at_shmid a\<rparr>) (shm_log es s1))"
  let ?y = "\<lparr> shm_va = va, map_shmid = at_shmid a \<rparr>"
  let ?g' = "?g\<lparr>shm_lpid := shm_pid env, shm_atime := shm_time env, shm_nattch := shm_nattch ?g + 1\<rparr>"
  have yx: "(m ! k)\<lparr>shm_va := va, map_shmid := at_shmid a\<rparr> = ?y" by (cases "m ! k") simp
  have s3: "vm_shm s3 = (vm_shm s)(?p := Some (m[k := ?y]))" "shmsegs s3 = (shmsegs s)[i := ?g']" "shm_limits s3 = shm_limits s"
    "shm_vm s3 = shm_vm s1 @ es" "shm_inited s3 = shm_inited s" "shm_last_free s3 = shm_last_free s" "shm_nused s3 = shm_nused s"
    "shm_committed s3 = shm_committed s"
    using s1 m(2) by (simp_all add: s3_def s1_def seg_modify_def slot_modify_def shm_log_def m(1) yx)
  have y: "slot_of j ?y \<longleftrightarrow> j = i" "slot_ok (shmsegs s) ?y" for j using i by (auto simp: slot_of_def slot_ok_def)
  have cnt3: "attached (vm_shm s3) j = attached (vm_shm s) j + (if j = i then 1 else 0)" for j
    using attached_slot [OF okD(9) m(1,2), of ?y j] un(1) y(1) by (simp add: s3)
  have ok3: "shm_ok {} s3"
  proof (rule shm_ok_change [OF ok _ s3(2,3,5-8)])
    show "seg_same ?g ?g'" by (simp add: seg_same_def seg_mode_def)
    show "seg_ok (i \<in> {}) (attached (vm_shm s3) i) ?g'"
      using okD(5) [OF i(2)] i(3) fit by (auto simp: cnt3 seg_ok_def seg_live_def seg_mode_def)
    show "entry_run (shm_vm s3) {} = Some (set (objects (shmsegs s)))" using es s3(4) by simp
  qed (use cnt3 finite_procs [OF okD(9)] okD(10) table_ok_update [OF tab k y(2)] in \<open>auto simp: s3(1) split: if_splits\<close>)
  have step: "shmat_attach env a i ?g k s =
    (if at_shmflg a AND SHM_RND = 0 \<and> addr AND map_page_mask env \<noteq> 0 then (EINVAL, None, s)
     else if rv \<noteq> KERN_SUCCESS then shmat_fail env k rv 0 s
     else if rv' \<noteq> KERN_SUCCESS then shmat_fail env k rv' n (shm_log es s1) else (0, Some va, s3))"
    unfolding shmat_attach_def Let_def add_diff_cancel_right' addr_def [symmetric] shmat_prot_def [symmetric] v prod.case s1_def [symmetric] map(1) s3_def [symmetric]
    by (rule refl)
  have one: "\<exists>h va'. shm_internal ?g = [h] \<and> vm_map_entry env va (shm_handle_size h) (shm_object h) (shmat_prot a) = (KERN_SUCCESS, va') \<and>
      shm_vm s3 = shm_vm s @ [VmReserved ?p va (shm_handle_size h), VmMapped ?p va' (shm_handle_size h) (shm_object h) (shmat_prot a)]"
    if pm: "map_page_mask env = PAGE_MASK" and rv': "rv' = KERN_SUCCESS"
  proof -
    have sz: "map shm_handle_size (shm_internal ?g) = [?size]" using okD(5) [OF i(2)] i(3) pm by (simp add: seg_ok_def)
    obtain h va' where h: "shm_internal ?g = [h]" "vm_map_entry env va ?size (shm_object h) (shmat_prot a) = (KERN_SUCCESS, va')"
      "shm_log es s1 = shm_log [VmMapped ?p va' ?size (shm_object h) (shmat_prot a)] s1"
      using shmat_map_one [OF sz, of env "shmat_prot a" va s1 n "shm_log es s1"] map(1) rv' by auto
    have "es = [VmMapped ?p va' ?size (shm_object h) (shmat_prot a)]" using arg_cong [OF h(3), of shm_vm] by (simp add: shm_log_def)
    then show ?thesis using h sz s3(4) s1(4) by auto
  qed
  show ?thesis
    using step ok one shmat_fail_ok [OF ok, of env k rv 0] shmat_fail_ok [OF ok2, of env k rv' n] ok3 s3(1-3) l2
    by (auto simp: EINVAL_def)
qed

lemma shmat_ok:
  assumes ok: "shm_ok {} s" and id: "- (2 ^ 31) \<le> at_shmid a" and fit: "\<And>i. Suc (attached (vm_shm s) i) < 2 ^ 15"
  shows "\<exists>e r s'. shmat env a s = Some (e, r, s') \<and> shm_ok {} s' \<and> shm_limits s' = shm_limits s"
proof (rule shmat_table_ok [OF ok, of env])
  fix e
  assume "e \<noteq> 0" "shmat_table env s = (e, s)"
  then show ?thesis using ok by (simp add: shmat_def)
next
  fix s1 m
  assume s1: "shmat_table env s = (0, s1)" "shm_ok {} s1" "vm_shm s1 (shm_proc env) = Some m" "shm_limits s1 = shm_limits s"
    "\<And>i. attached (vm_shm s1) i = attached (vm_shm s) i"
  show ?thesis
  proof (rule find_ok [OF s1(2) id])
    assume "shm_find_segment_by_shmid (at_shmid a) s1 = Some None"
    then show ?thesis using s1 ok by (simp add: shmat_def)
  next
    fix i
    assume f: "shm_find_segment_by_shmid (at_shmid a) s1 = Some (Some i)" and i: "i = nat (IPCID_TO_IX (at_shmid a))" "i < length (shmsegs s1)"
      "seg_live (shmsegs s1 ! i)" "uint (ipc_seq (shm_perm (shmsegs s1 ! i))) = IPCID_TO_SEQ (at_shmid a)" "SHMID_IS_VALID (at_shmid a)"
    have g: "shm_seg i s1 = Some (shmsegs s1 ! i)" using i(2) by (simp add: shm_seg_def)
    obtain k where k: "k < length m" "slot_free 0 m = Some k"
      using slot_free_stops [of m 0] shm_okD(10) [OF s1(2,3)] by (auto simp: table_ok_def)
    have "Suc (attached (vm_shm s1) i) < 2 ^ 15" using fit s1(5) by simp
    from shmat_attach_ok [OF s1(2,3) k(1) _ i this] s1(1-4) ok f g k(2) show ?thesis
      by (auto simp: shmat_def Let_def)
  qed
qed

section \<open>Forking\<close>

lemma table_copy: "table_ok gs m \<Longrightarrow> shmmap_copy m = Some m"
proof -
  have "m \<noteq> [] \<Longrightarrow> map_shmid (last m) = SHMID_SENTINEL \<Longrightarrow> \<forall>x\<in>set (butlast m). map_shmid x \<noteq> SHMID_SENTINEL \<Longrightarrow> shmmap_copy m = Some m"
    by (induction m) (auto split: if_splits)
  moreover have "map_shmid x \<noteq> SHMID_SENTINEL" if "slot_ok gs x" for x
    using that by (auto simp: slot_ok_def SHMID_SENTINEL_def SHMID_UNALLOCATED_def SHMID_IS_VALID_def)
  ultimately show "table_ok gs m \<Longrightarrow> shmmap_copy m = Some m" unfolding table_ok_def by blast
qed

lemma fork_count:
  assumes "xs \<noteq> []" "map_shmid (last xs) = SHMID_SENTINEL" "\<forall>x\<in>set (butlast xs). slot_ok gs x" "length (shmsegs s) = length gs"
  shows "\<exists>gs'. shmfork_count xs s = Some (s\<lparr>shmsegs := gs'\<rparr>) \<and> length gs' = length gs \<and>
    (\<forall>i < length gs. gs' ! i = (shmsegs s ! i)\<lparr>shm_nattch := shm_nattch (shmsegs s ! i) + of_nat (att i (Some xs))\<rparr>)"
  using assms
proof (induction xs arbitrary: s)
  case (Cons x xs)
  show ?case
  proof (cases "xs = []")
    case True
    then have "\<not> SHMID_IS_VALID (map_shmid x)" using Cons.prems by (simp add: SHMID_SENTINEL_def SHMID_IS_VALID_def)
    then show ?thesis using True Cons.prems by (intro exI [of _ "shmsegs s"]) (simp add: slot_of_def)
  next
    case False
    have x: "slot_ok gs x" "map_shmid x \<noteq> SHMID_SENTINEL"
      using Cons.prems(3) False by (auto simp: slot_ok_def SHMID_SENTINEL_def SHMID_UNALLOCATED_def SHMID_IS_VALID_def)
    have prems: "map_shmid (last xs) = SHMID_SENTINEL" "\<forall>x\<in>set (butlast xs). slot_ok gs x" using Cons.prems False by auto
    show ?thesis
    proof (cases "SHMID_IS_VALID (map_shmid x)")
      case False
      then show ?thesis using Cons.IH [OF \<open>xs \<noteq> []\<close> prems Cons.prems(4)] x(2) by (simp add: slot_of_def)
    next
      case True
      define i where "i = nat (IPCID_TO_IX (map_shmid x))"
      have i: "i < length gs" using x(1) True by (auto simp: slot_ok_def i_def SHMID_UNALLOCATED_def SHMID_IS_VALID_def)
      let ?s = "seg_modify i (\<lambda>g. g\<lparr>shm_nattch := shm_nattch g + 1\<rparr>) s"
      have "length (shmsegs ?s) = length gs" using Cons.prems(4) by (simp add: seg_modify_def)
      from Cons.IH [OF \<open>xs \<noteq> []\<close> prems this] obtain gs' where gs': "shmfork_count xs ?s = Some (?s\<lparr>shmsegs := gs'\<rparr>)" "length gs' = length gs"
        "\<forall>j < length gs. gs' ! j = (shmsegs ?s ! j)\<lparr>shm_nattch := shm_nattch (shmsegs ?s ! j) + of_nat (att j (Some xs))\<rparr>" by blast
      have "shmfork_count (x # xs) s = Some (s\<lparr>shmsegs := gs'\<rparr>)"
        using True x(2) i gs'(1) Cons.prems(4) by (simp add: i_def [symmetric] shm_seg_def seg_modify_def Let_def)
      moreover have "slot_of j x \<longleftrightarrow> j = i" for j using True by (auto simp: slot_of_def i_def)
      ultimately show ?thesis
        using gs'(2,3) i Cons.prems(4) by (intro exI [of _ gs']) (auto simp: seg_modify_def nth_list_update)
    qed
  qed
qed simp

lemma shmfork_ok:
  assumes ok: "shm_ok {} s" and p: "vm_shm s p1 = Some m" "vm_shm s p2 = None"
    and fit: "\<And>i. attached (vm_shm s) i + att i (Some m) < 2 ^ 15"
  shows "\<exists>e s'. shmfork env p1 p2 s = Some (e, s') \<and> shm_ok {} s' \<and> shm_limits s' = shm_limits s \<and>
    (if shmmap_ok env then e = 0 \<and> vm_shm s' = (vm_shm s)(p2 := Some m) else e = 1 \<and> s' = s)"
proof (cases "shmmap_ok env")
  case False
  then show ?thesis using ok p table_copy [OF shm_okD(10) [OF ok p(1)]] by (simp add: shmfork_def)
next
  case True
  note okD = shm_okD [OF ok]
  let ?V = "(vm_shm s)(p2 := Some m)" and ?s = "s\<lparr>vm_shm := (vm_shm s)(p2 := Some m)\<rparr>"
  have tab: "table_ok (shmsegs s) m" by (rule okD(10) [OF p(1)])
  obtain gs' where gs': "shmfork_count m ?s = Some (?s\<lparr>shmsegs := gs'\<rparr>)" "length gs' = length (shmsegs s)"
    "\<And>i. i < length (shmsegs s) \<Longrightarrow> gs' ! i = (shmsegs s ! i)\<lparr>shm_nattch := shm_nattch (shmsegs s ! i) + of_nat (att i (Some m))\<rparr>"
    using fork_count [of m "shmsegs s" ?s] tab by (auto simp: table_ok_def)
  have cnt: "attached ?V i = attached (vm_shm s) i + att i (Some m)" for i
    using attached_update [OF okD(9), of p2 "Some m" i] p(2) by simp
  have zero: "att i (Some m) = 0" if "\<not> seg_live (shmsegs s ! i)" "i < length (shmsegs s)" for i
    using okD(5) [OF that(2)] that(1) attached_remove [OF okD(9), of i p1] p(1) by (simp add: seg_ok_def)
  have "shm_ok {} (?s\<lparr>shmsegs := gs'\<rparr>)"
  proof (rule shm_ok_all [OF ok])
    fix i
    assume i: "i < length (shmsegs s)"
    show "seg_same (shmsegs s ! i) (shmsegs (?s\<lparr>shmsegs := gs'\<rparr>) ! i)" using gs'(3) [OF i] by (simp add: seg_same_def seg_mode_def)
    show "seg_ok (i \<in> {}) (attached (vm_shm (?s\<lparr>shmsegs := gs'\<rparr>)) i) (shmsegs (?s\<lparr>shmsegs := gs'\<rparr>) ! i)"
      using okD(5) [OF i] gs'(3) [OF i] fit [of i] zero [OF _ i] by (auto simp: cnt seg_ok_def seg_live_def seg_left_def seg_mode_def)
  qed (use okD gs'(2) finite_procs [OF okD(9)] tab in \<open>auto split: if_splits\<close>)
  then show ?thesis using ok True p gs'(1) table_copy [OF tab] by (simp add: shmfork_def)
qed

section \<open>Creating\<close>

lemma seg_search_Some: "seg_search P j gs = Some i \<Longrightarrow> j \<le> i \<and> i - j < length gs \<and> P (gs ! (i - j))"
proof (induction gs arbitrary: j)
  case (Cons g gs)
  show ?case
  proof (cases "P g")
    case False
    then have "Suc j \<le> i \<and> i - Suc j < length gs \<and> P (gs ! (i - Suc j))" using Cons by simp
    then show ?thesis by (auto simp: nth_Cons' Suc_diff_Suc)
  qed (use Cons.prems in auto)
qed simp

lemma seg_search_None: "seg_search P j gs = None \<longleftrightarrow> (\<forall>g\<in>set gs. \<not> P g)"
  by (induction gs arbitrary: j) auto

lemma page_mask: "PAGE_MASK = mask 12"
  by (simp add: PAGE_MASK_def mask_eq_exp_minus_1)

lemma round_page_unat:
  assumes "unat x + 4095 < 2 ^ 64"
  shows "unat (vm_map_round_page x PAGE_MASK) = (unat x + 4095) div 4096 * 4096"
proof -
  have "(x + PAGE_MASK) AND NOT PAGE_MASK = push_bit 12 (drop_bit 12 (x + PAGE_MASK))"
    unfolding page_mask by (rule bit_eqI) (auto simp: bit_simps)
  moreover have "unat (x + PAGE_MASK) = unat x + 4095" using assms by (simp add: PAGE_MASK_def unat_add_lem [THEN iffD1])
  moreover have "unat (push_bit 12 y) = unat y * 4096" if "unat y * 4096 < 2 ^ 64" for y :: u64
    using that by (simp add: push_bit_eq_mult unat_mult_lem [THEN iffD1])
  moreover have "unat (drop_bit 12 (x + PAGE_MASK)) = (unat x + 4095) div 4096"
    using calculation(2) by (simp add: drop_bit_eq_div unat_div)
  moreover have "(unat x + 4095) div 4096 * 4096 < 2 ^ 64" using assms div_times_less_eq_dividend [of "unat x + 4095" 4096] by linarith
  ultimately show ?thesis unfolding vm_map_round_page_def by metis
qed

lemma round_page_bounds:
  assumes "x \<noteq> 0" "x \<le> ANON_MAX_SIZE"
  shows "0 < vm_map_round_page x PAGE_MASK" "vm_map_round_page x PAGE_MASK \<le> ANON_MAX_SIZE"
proof -
  have c: "unat ANON_MAX_SIZE = 4294967295 * 4096" by (simp add: ANON_MAX_SIZE_def)
  have x: "0 < unat x" "unat x \<le> 4294967295 * 4096" using assms c by (simp_all add: word_le_nat_alt unat_gt_0)
  then have r: "unat (vm_map_round_page x PAGE_MASK) = (unat x + 4095) div 4096 * 4096" by (intro round_page_unat) simp
  have "0 < (unat x + 4095) div 4096" "(unat x + 4095) div 4096 \<le> 4294967295" using x by (simp_all add: div_greater_zero_iff less_Suc_eq_le [symmetric] div_less_iff_less_mult)
  then show "0 < vm_map_round_page x PAGE_MASK" "vm_map_round_page x PAGE_MASK \<le> ANON_MAX_SIZE"
    using r c by (simp_all add: word_less_nat_alt word_le_nat_alt)
qed

text \<open>The documented behaviour of \<open>mach_make_memory_entry_64\<close>: a new entry of the size asked for.\<close>

definition entries_fresh :: "shm_env \<Rightarrow> shm_state \<Rightarrow> bool" where
  "entries_fresh env s \<longleftrightarrow> (\<forall>off want sz obj. make_entry env off want = (KERN_SUCCESS, sz, obj) \<longrightarrow>
     sz = want \<and> obj \<notin> set (objects (shmsegs s)))"

lemma chunks_one:
  assumes "0 < n" "n \<le> ANON_MAX_SIZE" "make_entry env 0 n = (kret, sz, obj)" "kret = KERN_SUCCESS \<Longrightarrow> sz = n"
  shows "shmget_chunks env i n 0 0 True s = Some
    (if kret \<noteq> KERN_SUCCESS then (kret, sz, s)
     else (KERN_SUCCESS, n, seg_modify i (\<lambda>g. g\<lparr>shm_internal := [\<lparr> shm_object = obj, shm_handle_size = n \<rparr>]\<rparr>) (shm_log [EntryMade obj] s)))"
proof -
  have "min n ANON_MAX_SIZE = n" using assms(2) by simp
  moreover have "shmget_chunks env i n n n False s' = Some (KERN_SUCCESS, n, s')" for s' by (subst shmget_chunks.simps) simp
  ultimately show ?thesis using assms by (subst shmget_chunks.simps) (simp add: Let_def)
qed

lemma shm_ok_fresh:
  assumes ok: "shm_ok {} s" and i: "i < length (shmsegs s)" "\<not> seg_live (shmsegs s ! i)"
    and g': "seg_ok False 0 g'" "distinct (seg_objects g')" "set (seg_objects g') \<inter> set (objects (shmsegs s)) = {}"
    and s': "shmsegs s' = (shmsegs s)[i := g']" "shm_limits s' = shm_limits s" "shm_inited s' = shm_inited s" "shm_last_free s' = - 1"
      "shm_nused s' = shm_nused s + (if seg_live g' then 1 else 0)" "shm_committed s' = shm_committed s + seg_pages g'" "vm_shm s' = vm_shm s"
    and run: "entry_run (shm_vm s') {} = Some (set (objects (shmsegs s)) \<union> set (seg_objects g'))"
  shows "shm_ok {} s'"
proof -
  note okD = shm_okD [OF ok]
  have a: "attached (vm_shm s) i = 0" using okD(5) [OF i(1)] i(2) by (simp add: seg_ok_def)
  have none: "\<not> slot_of i x" if "vm_shm s p = Some m" "x \<in> set m" for p m x using attached_zero [OF okD(9) a that] .
  have tab: "table_ok ((shmsegs s)[i := g']) m" if "vm_shm s p = Some m" for p m
    using table_ok_other [OF none [OF that]] okD(10) [OF that] by simp
  have segs: "seg_ok False (attached (vm_shm s) j) ((shmsegs s)[i := g'] ! j)" if "j < length (shmsegs s)" for j
    using that g'(1) a okD(5) [OF that] by (cases "j = i") simp_all
  have used: "int (length (filter seg_live ((shmsegs s)[i := g']))) = shm_nused s'"
    using att_slot [OF i(1), of seg_live g'] i(2) okD(7) s'(5) by (auto split: if_splits)
  have e: "seg_objects (shmsegs s ! i) = []" "seg_pages (shmsegs s ! i) = 0" using i(2) by (simp_all add: seg_live_def seg_pages_def)
  have obj: "distinct (objects ((shmsegs s)[i := g']))" "set (objects ((shmsegs s)[i := g'])) = set (objects (shmsegs s)) \<union> set (seg_objects g')"
    using okD(11) g'(2,3) unfolding objects_split(1) [OF i(1), of g'] objects_split(2) [OF i(1)] e(1) by auto
  show ?thesis
    unfolding shm_ok_def s'(1-4,7) used obj(2) run
    using okD(1-4,8,9) segs tab obj(1) i(1) e(2) s'(6) by (simp add: sum_list_change)
qed

end
