(* ===== verification/Sysv_Shm_Get.thy ===== *)
theory Sysv_Shm_Get
  imports Sysv_Shm_Ops
begin

text \<open>
  \<open>shmget\<close> keeps the invariant, and returns unless an earlier allocation failed half-way.
\<close>

text \<open>A slot for a new segment is free; there is none only when a failed allocation left one behind.\<close>

lemma shmget_slot_ok:
  assumes ok: "shm_ok {} s" and room: "shm_nused s < shmmni (shm_limits s)"
  obtains "shmget_slot s = None" "\<exists>g\<in>set (shmsegs s). seg_left g"
  | i where "shmget_slot s = Some (i, s\<lparr>shm_last_free := - 1\<rparr>)" "i < length (shmsegs s)" "\<not> seg_live (shmsegs s ! i)" "seg_mode (shmsegs s ! i) = SHMSEG_FREE"
proof -
  note okD = shm_okD [OF ok]
  have n: "length (filter seg_live (shmsegs s)) < length (shmsegs s)" using okD(4,7) room by linarith
  have free: "\<not> seg_live g \<longleftrightarrow> seg_mode g = SHMSEG_FREE \<or> seg_left g" if "g \<in> set (shmsegs s)" for g
  proof -
    obtain i where "i < length (shmsegs s)" "g = shmsegs s ! i" using \<open>g \<in> set (shmsegs s)\<close> by (auto simp: in_set_conv_nth)
    then have "seg_ok False (attached (vm_shm s) i) g" using okD(5) by simp
    then show ?thesis by (auto simp: seg_ok_def seg_left_def split: if_splits)
  qed
  show ?thesis
  proof (cases "shm_last_free s < 0")
    case False
    then have "shm_last_free s \<noteq> - 1" "shmsegs s \<noteq> []" using n by auto
    then have lf: "nat (shm_last_free s) < length (shmsegs s)" "seg_mode (shmsegs s ! nat (shm_last_free s)) = SHMSEG_FREE" using okD(6) by auto
    then have "\<not> seg_live (shmsegs s ! nat (shm_last_free s))" using free by auto
    then show ?thesis using that(2) [OF _ lf(1) _ lf(2)] False by (simp add: shmget_slot_def)
  next
    case True
    then have lf: "shm_last_free s = - 1" using okD(6) n by auto
    then have s: "s\<lparr>shm_last_free := - 1\<rparr> = s" by simp
    let ?P = "\<lambda>g. seg_mode g AND SHMSEG_FREE \<noteq> 0"
    have slot: "shmget_slot s = map_option (\<lambda>i. (i, s)) (seg_search ?P 0 (shmsegs s))" using True okD(4) by (simp add: shmget_slot_def)
    show ?thesis
    proof (cases "seg_search ?P 0 (shmsegs s)")
      case None
      then have nf: "\<not> bit (seg_mode g) 9" if "g \<in> set (shmsegs s)" for g using that by (simp only: seg_search_None mode_bits) blast
      obtain g where "g \<in> set (shmsegs s)" "\<not> seg_live g" using n filter_id_conv [of seg_live] by (metis less_irrefl)
      then have "seg_left g" using free nf by fastforce
      then show ?thesis using that(1) slot None \<open>g \<in> set (shmsegs s)\<close> by auto
    next
      case (Some i)
      then have i: "i < length (shmsegs s)" "bit (seg_mode (shmsegs s ! i)) 9" using seg_search_Some [OF Some] by (simp_all add: mode_bits)
      then have "seg_ok False (attached (vm_shm s) i) (shmsegs s ! i)" using okD(5) by simp
      then have "seg_mode (shmsegs s ! i) = SHMSEG_FREE" "\<not> seg_live (shmsegs s ! i)" using i(2) by (auto simp: seg_ok_def seg_left_def split: if_splits)
      then show ?thesis using that(2) [OF _ i(1)] slot Some s by simp
    qed
  qed
qed

lemma seq_bound: "uint ((x + 1) AND 0x7FFF) < 2 ^ 15" for x :: u16
proof -
  have "uint ((x + 1) AND 0x7FFF) = take_bit 15 (uint (x + 1))"
    using take_bit_eq_mask [of 15 "uint (x + 1)"] by (simp add: unsigned_and_eq mask_eq_exp_minus_1)
  then show ?thesis using take_bit_int_less_exp [of 15 "uint (x + 1)"] by simp
qed

lemma new_mode:
  fixes mode :: u32 and m :: u16
  assumes "m = SHMSEG_ALLOCATED OR SHMSEG_REMOVED"
  defines "x \<equiv> ((m AND SHMSEG_WANTED) OR ucast (mode AND 0x1FF) OR SHMSEG_ALLOCATED) AND NOT SHMSEG_WANTED"
  shows "bit x 11" "\<not> bit x 10" "\<not> bit x 9"
proof -
  have w: "SHMSEG_WANTED = push_bit 12 1" by (simp add: SHMSEG_WANTED_def)
  have wb: "bit SHMSEG_WANTED n \<longleftrightarrow> n = 12" for n unfolding w by (simp only: bit_push_bit_iff bit_1_iff) auto
  have k: "(0x1FF :: u32) = mask 9" by (simp add: mask_eq_exp_minus_1)
  have lt: "bit (ucast (mode AND 0x1FF) :: u16) n \<Longrightarrow> n < 9" for n unfolding k by (simp add: bit_simps)
  show "bit x 11" "\<not> bit x 10" "\<not> bit x 9"
    unfolding x_def assms(1) by (auto simp: bit_and_iff bit_or_iff bit_not_iff wb dest: lt)
qed

lemma shmget_create_ok:
  assumes ok: "shm_ok {} s" and fresh: "entries_fresh env s"
    and i: "i < length (shmsegs s)" "\<not> seg_live (shmsegs s ! i)" "seg_mode (shmsegs s ! i) = SHMSEG_FREE"
    and size: "0 < vm_map_round_page (get_size a) PAGE_MASK" "vm_map_round_page (get_size a) PAGE_MASK \<le> ANON_MAX_SIZE"
  shows "\<exists>e r s'. shmget_create env a mode (vm_map_round_page (get_size a) PAGE_MASK) i (s\<lparr>shm_last_free := - 1\<rparr>) = Some (e, r, s') \<and>
    shm_ok {} s' \<and> shm_limits s' = shm_limits s"
proof -
  note okD = shm_okD [OF ok]
  let ?total = "vm_map_round_page (get_size a) PAGE_MASK" let ?g = "shmsegs s ! i"
  have seg: "seg_ok False 0 ?g" using okD(5) [OF i(1)] i(2) by (simp add: seg_ok_def)
  define g1 where "g1 = ?g\<lparr>shm_perm := (shm_perm ?g)\<lparr>ipc_mode := SHMSEG_ALLOCATED OR SHMSEG_REMOVED,
    ipc_key := get_key a, ipc_seq := (ipc_seq (shm_perm ?g) + 1) AND 0x7FFF\<rparr>\<rparr>"
  define s1 where "s1 = s\<lparr>shm_last_free := - 1, shmsegs := (shmsegs s)[i := g1]\<rparr>"
  have g1: "shm_internal g1 = []" "seg_mode g1 = SHMSEG_ALLOCATED OR SHMSEG_REMOVED" "shm_nattch g1 = 0" "uint (ipc_seq (shm_perm g1)) < 2 ^ 15"
    using seg i(2) seq_bound by (simp_all add: g1_def seg_live_def seg_mode_def seg_ok_def)
  have s1: "seg_modify i (\<lambda>g. g\<lparr>shm_perm := (shm_perm g)\<lparr>ipc_mode := SHMSEG_ALLOCATED OR SHMSEG_REMOVED,
      ipc_key := get_key a, ipc_seq := (ipc_seq (shm_perm g) + 1) AND 0x7FFF\<rparr>\<rparr>) (s\<lparr>shm_last_free := - 1\<rparr>) = s1"
    by (simp add: seg_modify_def s1_def g1_def)
  have at: "shm_seg i (s\<lparr>shm_last_free := - 1\<rparr>) = Some ?g" "shm_seg i s1 = Some g1" using i(1) by (simp_all add: shm_seg_def s1_def)
  obtain kret sz obj where e: "make_entry env 0 ?total = (kret, sz, obj)" by (cases "make_entry env 0 ?total")
  have f: "kret = KERN_SUCCESS \<Longrightarrow> sz = ?total \<and> obj \<notin> set (objects (shmsegs s))" using fresh e by (auto simp: entries_fresh_def)
  note chunks = chunks_one [OF size e, of i s1]
  show ?thesis
  proof (cases "kret = KERN_SUCCESS")
    case False
    have "seg_ok False 0 g1" using g1 by (simp add: seg_ok_def seg_live_def seg_left_def bit_or_iff)
    then have "shm_ok {} s1"
      by (rule shm_ok_fresh [OF ok i(1,2)]) (use okD(12) g1(1) in \<open>simp_all add: s1_def seg_live_def seg_pages_def\<close>)
    moreover have same: "g1\<lparr>shm_internal := []\<rparr> = g1" using g1(1) by (cases g1) simp
    have "s1 = seg_modify i (\<lambda>g. g\<lparr>shm_internal := []\<rparr>) (shm_log (release_events (shm_internal g1)) s1)"
      using g1(1) i(1) by (simp add: seg_modify_def shm_log_def release_events_def s1_def same)
    ultimately show ?thesis using chunks False at g1 by (simp add: shmget_create_def s1 Let_def) (simp add: s1_def)
  next
    case True
    let ?h = "\<lparr> shm_object = obj, shm_handle_size = ?total \<rparr>"
    define g2 where "g2 = g1\<lparr>shm_internal := [?h], shm_perm := (shm_perm g1)
                 \<lparr>ipc_cuid := kauth_cred_getuid (shm_cred env), ipc_uid := kauth_cred_getuid (shm_cred env),
                  ipc_cgid := kauth_cred_getgid (shm_cred env), ipc_gid := kauth_cred_getgid (shm_cred env),
                  ipc_mode := ((seg_mode g1 AND SHMSEG_WANTED) OR ucast (mode AND 0x1FF) OR SHMSEG_ALLOCATED) AND NOT SHMSEG_WANTED\<rparr>,
               shm_segsz := get_size a, shm_cpid := shm_pid env, shm_lpid := 0, shm_nattch := 0,
               shm_atime := 0, shm_dtime := 0, shm_ctime := shm_time env\<rparr>"
    define s2 where "s2 = s\<lparr>shm_last_free := - 1, shmsegs := (shmsegs s)[i := g2], shm_vm := shm_vm s @ [EntryMade obj],
      shm_committed := shm_committed s + btoc ?total, shm_nused := shm_nused s + 1\<rparr>"
    have g2: "shm_internal g2 = [?h]" "shm_segsz g2 = get_size a" "shm_nattch g2 = 0" "ipc_seq (shm_perm g2) = ipc_seq (shm_perm g1)"
      "seg_mode g2 = ((seg_mode g1 AND SHMSEG_WANTED) OR ucast (mode AND 0x1FF) OR SHMSEG_ALLOCATED) AND NOT SHMSEG_WANTED"
      by (simp_all add: g2_def seg_mode_def)
    have "seg_ok False 0 g2" using g1(4) g2 new_mode [OF g1(2), of mode] by (simp add: seg_ok_def seg_live_def)
    then have "shm_ok {} s2"
      by (rule shm_ok_fresh [OF ok i(1,2)])
        (use okD(12) g2(1,2) f True in \<open>simp_all add: s2_def seg_live_def seg_pages_def entry_run_append\<close>)
    moreover have "shmget_finish env a mode i ?total (seg_modify i (\<lambda>g. g\<lparr>shm_internal := [?h]\<rparr>) (shm_log [EntryMade obj] s1)) =
        Some (0, Some (IXSEQ_TO_IPCID (int i) (shm_perm g1)), s2)"
      using i(1) by (simp add: shmget_finish_def shm_seg_def seg_modify_def shm_log_def s1_def s2_def g2_def seg_mode_def)
    ultimately show ?thesis using chunks True f at by (simp add: shmget_create_def s1 Let_def) (simp add: s2_def)
  qed
qed

lemma shmget_allocate_ok:
  assumes ok: "shm_ok {} s" and fresh: "entries_fresh env s" and lim: "0 \<le> shmmax (shm_limits s)" "shmmax (shm_limits s) \<le> uint ANON_MAX_SIZE"
  shows "(shmget_allocate_segment env a mode s = None \<and> (\<exists>g\<in>set (shmsegs s). seg_left g)) \<or>
    (\<exists>e r s'. shmget_allocate_segment env a mode s = Some (e, r, s') \<and> shm_ok {} s' \<and> shm_limits s' = shm_limits s)"
proof -
  note okD = shm_okD [OF ok]
  let ?total = "vm_map_round_page (get_size a) PAGE_MASK"
  let ?bad = "get_size a = 0 \<or> get_size a < word_of_int (shmmin (shm_limits s)) \<or> get_size a > word_of_int (shmmax (shm_limits s))"
  show ?thesis
  proof (cases "?bad \<or> shm_nused s \<ge> shmmni (shm_limits s) \<or> uint (get_size a) + uint PAGE_MASK \<ge> 2 ^ 64 \<or>
      uint (shm_committed s + btoc ?total) > shmall (shm_limits s)")
    case True
    then show ?thesis using ok by (auto simp: shmget_allocate_segment_def mach_vm_round_page_overflow_def vm_map_round_page_def)
  next
    case False
    have "get_size a \<le> word_of_int (shmmax (shm_limits s))" using False by auto
    also have "\<dots> \<le> ANON_MAX_SIZE" using lim by (simp add: word_le_def ANON_MAX_SIZE_def uint_word_of_int)
    finally have total: "0 < ?total" "?total \<le> ANON_MAX_SIZE" using round_page_bounds False by auto
    have room: "shm_nused s < shmmni (shm_limits s)" using False by simp
    let ?s = "s\<lparr>shm_last_free := - 1\<rparr>"
    have unfolded: "shmget_allocate_segment env a mode s = shmget_slot s \<bind> (\<lambda>(i, s). shmget_create env a mode ?total i s)"
      using False by (simp add: shmget_allocate_segment_def mach_vm_round_page_overflow_def vm_map_round_page_def)
    show ?thesis
    proof (rule shmget_slot_ok [OF ok room])
      assume "shmget_slot s = None" "\<exists>g\<in>set (shmsegs s). seg_left g"
      then show ?thesis using unfolded by simp
    next
      fix i
      assume slot: "shmget_slot s = Some (i, ?s)" "i < length (shmsegs s)" "\<not> seg_live (shmsegs s ! i)" "seg_mode (shmsegs s ! i) = SHMSEG_FREE"
      have "\<exists>e r s'. shmget_create env a mode ?total i ?s = Some (e, r, s') \<and> shm_ok {} s' \<and> shm_limits s' = shm_limits s"
        by (rule shmget_create_ok [OF ok fresh slot(2-4) total])
      then show ?thesis using unfolded slot(1) by simp
    qed
  qed
qed

lemma find_key_ok:
  assumes "shm_ok {} s" "shm_find_segment_by_key key s = Some i"
  shows "i < length (shmsegs s)" "bit (seg_mode (shmsegs s ! i)) 11" "ipc_key (shm_perm (shmsegs s ! i)) = key"
proof -
  have "seg_search (\<lambda>g. seg_mode g AND SHMSEG_ALLOCATED \<noteq> 0 \<and> ipc_key (shm_perm g) = key) 0 (shmsegs s) = Some i"
    using assms shm_okD(4) [OF assms(1)] by (simp add: shm_find_segment_by_key_def)
  from seg_search_Some [OF this] show "i < length (shmsegs s)" "bit (seg_mode (shmsegs s ! i)) 11" "ipc_key (shm_perm (shmsegs s ! i)) = key"
    by (simp_all add: mode_bits)
qed

text \<open>Only a segment left behind by a failed allocation makes \<open>shmget\<close> sleep.\<close>

lemma shmget_existing_ok:
  assumes ok: "shm_ok {} s" and i: "shm_find_segment_by_key (get_key a) s = Some i" and key: "get_key a \<noteq> IPC_PRIVATE"
  shows "\<exists>e r s'. shmget_existing env a mode i slept s = Some (e, r, s') \<and> shm_ok {} s' \<and> shm_limits s' = shm_limits s \<and>
    objects (shmsegs s') = objects (shmsegs s) \<and> (seg_left (shmsegs s ! i) \<or> s' = s \<and> (e = EAGAIN \<longrightarrow> mac_sysvshm_check_shmget env (shmsegs s ! i) (get_shmflg a) = EAGAIN))"
proof -
  note f = find_key_ok [OF ok i]
  let ?g = "shmsegs s ! i"
  have at: "shm_seg i s = Some ?g" using f(1) by (simp add: shm_seg_def)
  have seg: "seg_ok False (attached (vm_shm s) i) ?g" using shm_okD(5) [OF ok f(1)] by simp
  show ?thesis
  proof (cases "bit (seg_mode ?g) 10")
    case False
    have "\<exists>e r. shmget_existing env a mode i slept s = Some (e, r, s) \<and> (e = EAGAIN \<longrightarrow> mac_sysvshm_check_shmget env ?g (get_shmflg a) = EAGAIN)"
      using at False by (auto simp: shmget_existing_def mode_bits errno_defs)
    then show ?thesis using ok by blast
  next
    case True
    then have left: "seg_left ?g" using seg f(2,3) key by (auto simp: seg_ok_def seg_left_def split: if_splits)
    let ?f = "\<lambda>g. g\<lparr>shm_perm := (shm_perm g)\<lparr>ipc_mode := seg_mode g OR SHMSEG_WANTED\<rparr>\<rparr>"
    have w: "SHMSEG_WANTED = push_bit 12 1" by (simp add: SHMSEG_WANTED_def)
    have wb: "bit SHMSEG_WANTED n \<longleftrightarrow> n = 12" for n unfolding w by (simp only: bit_push_bit_iff bit_1_iff) auto
    have nf: "seg_mode ?g \<noteq> SHMSEG_FREE" using f(2) by auto
    then have same: "seg_same ?g (?f ?g)" by (simp add: seg_same_def)
    have "seg_ok False (attached (vm_shm s) i) (?f ?g)"
      using seg left by (auto simp: seg_ok_def seg_left_def seg_live_def seg_mode_def bit_or_iff wb)
    then have "shm_ok {} (seg_modify i ?f s)" using same by (intro shm_ok_seg [OF ok]) simp_all
    moreover have "objects (shmsegs (seg_modify i ?f s)) = objects (shmsegs s)" using segs_same(1) [OF same] by (simp add: seg_modify_def)
    ultimately show ?thesis using at True left by (auto simp: shmget_existing_def mode_bits seg_modify_def Let_def)
  qed
qed

definition limits_ok :: "shminfo \<Rightarrow> bool" where
  "limits_ok l \<longleftrightarrow> 0 \<le> shmmax l \<and> shmmax l \<le> uint ANON_MAX_SIZE"

lemma shmget_again_keeps:
  assumes "shmget_again env a mode k s = Some r"
  shows "shm_ok {} s \<and> entries_fresh env s \<and> limits_ok (shm_limits s) \<and> get_key a \<noteq> IPC_PRIVATE \<longrightarrow>
    shm_ok {} (snd (snd r)) \<and> shm_limits (snd (snd r)) = shm_limits s"
proof (rule shmget_again.raw_induct [of "\<lambda>env a mode k s r. shm_ok {} s \<and> entries_fresh env s \<and> limits_ok (shm_limits s) \<and> get_key a \<noteq> IPC_PRIVATE \<longrightarrow>
    shm_ok {} (snd (snd r)) \<and> shm_limits (snd (snd r)) = shm_limits s", OF _ assms], intro impI)
  fix f env a mode k s r
  assume IH: "\<And>env a mode k s r. f env a mode k s = Some r \<Longrightarrow> shm_ok {} s \<and> entries_fresh env s \<and> limits_ok (shm_limits s) \<and> get_key a \<noteq> IPC_PRIVATE \<longrightarrow>
      shm_ok {} (snd (snd r)) \<and> shm_limits (snd (snd r)) = shm_limits s"
    and run: "(case shm_find_segment_by_key (get_key a) s of
        None \<Rightarrow> if get_shmflg a AND IPC_CREAT = 0 then Some (ENOENT, None, s) else shmget_allocate_segment env a mode s
      | Some i \<Rightarrow> shmget_existing env a mode i (shm_tsleep env k) s \<bind>
          (\<lambda>(e, r, s). if e = EAGAIN then f env a mode (Suc k) s else Some (e, r, s))) = Some r"
    and pre: "shm_ok {} s \<and> entries_fresh env s \<and> limits_ok (shm_limits s) \<and> get_key a \<noteq> IPC_PRIVATE"
  show "shm_ok {} (snd (snd r)) \<and> shm_limits (snd (snd r)) = shm_limits s"
  proof (cases "shm_find_segment_by_key (get_key a) s")
    case None
    then show ?thesis
      using run pre shmget_allocate_ok [of s env a mode] by (auto simp: limits_ok_def split: if_splits)
  next
    case (Some i)
    obtain e q s' where x: "shmget_existing env a mode i (shm_tsleep env k) s = Some (e, q, s')" "shm_ok {} s'" "shm_limits s' = shm_limits s"
      "objects (shmsegs s') = objects (shmsegs s)" using shmget_existing_ok [OF _ Some] pre by metis
    have "entries_fresh env s'" using pre x(4) by (simp add: entries_fresh_def)
    then show ?thesis using run Some x pre IH [of env a mode "Suc k" s' r] by (auto split: if_splits)
  qed
qed

lemma shmget_again_returns:
  assumes ok: "shm_ok {} s" and fresh: "entries_fresh env s" and lim: "limits_ok (shm_limits s)" and key: "get_key a \<noteq> IPC_PRIVATE"
    and left: "\<forall>g\<in>set (shmsegs s). \<not> seg_left g" and mac: "\<And>g f. mac_sysvshm_check_shmget env g f \<noteq> EAGAIN"
  shows "shmget_again env a mode k s \<noteq> None"
proof (cases "shm_find_segment_by_key (get_key a) s")
  case None
  then show ?thesis
    using shmget_allocate_ok [OF ok fresh, of a mode] lim left by (subst shmget_again.simps) (auto simp: limits_ok_def)
next
  case (Some i)
  have "\<not> seg_left (shmsegs s ! i)" using left find_key_ok(1) [OF ok Some] by simp
  then show ?thesis
    using shmget_existing_ok [OF ok Some key, of env mode "shm_tsleep env k"] mac Some by (subst shmget_again.simps) auto
qed

lemma shmget_ok:
  assumes ok: "shm_ok {} s" and fresh: "entries_fresh env s" and lim: "limits_ok (shm_limits s)"
  shows "shmget env a s = Some (e, r, s') \<Longrightarrow> shm_ok {} s' \<and> shm_limits s' = shm_limits s"
    "\<forall>g\<in>set (shmsegs s). \<not> seg_left g \<Longrightarrow> (\<And>g f. mac_sysvshm_check_shmget env g f \<noteq> EAGAIN) \<Longrightarrow> shmget env a s \<noteq> None"
proof -
  note alloc = shmget_allocate_ok [OF ok fresh, of a "get_shmflg a AND 0x1FF"] lim
  show "shmget env a s = Some (e, r, s') \<Longrightarrow> shm_ok {} s' \<and> shm_limits s' = shm_limits s"
    using alloc shmget_again_keeps [of env a "get_shmflg a AND 0x1FF" 0 s "(e, r, s')"] ok fresh
    by (auto simp: shmget_def limits_ok_def Let_def split: if_splits)
  show "\<forall>g\<in>set (shmsegs s). \<not> seg_left g \<Longrightarrow> (\<And>g f. mac_sysvshm_check_shmget env g f \<noteq> EAGAIN) \<Longrightarrow> shmget env a s \<noteq> None"
    using alloc shmget_again_returns [OF ok fresh lim, of a "get_shmflg a AND 0x1FF" 0] ok
    by (auto simp: shmget_def limits_ok_def Let_def)
qed

end
