(* ===== verification/Sysv_Shm_Reach.thy ===== *)
theory Sysv_Shm_Reach
  imports Sysv_Shm_Get
begin

text \<open>
  The states of the shared memory subsystem that any sequence of calls of any processes reaches from
  boot, and that each of them satisfies the invariant.
\<close>

section \<open>The subsystem\<close>

text \<open>The calls of all processes, one after the other.  The kernel calls \<open>shmfork\<close> only for a parent with a table
  and a child without one, and \<open>shmexit\<close> and \<open>shmexec\<close> only for a process with a table.\<close>

datatype shm_op =
    OpGet shm_env shmget_args
  | OpAt shm_env shmat_args
  | OpDt shm_env u64
  | OpCtl shm_env int int u64
  | OpFork shm_env nat nat
  | OpExit shm_env
  | OpExec shm_env
  | OpLimit shminfo_field int "(int \<times> int) option"
  | OpIpcs shm_env int int int int ipcs_command

fun shm_do :: "shm_op \<Rightarrow> shm_state \<Rightarrow> shm_state option" where
  "shm_do (OpGet env a) s = map_option (\<lambda>(e, r, s). s) (shmget env a s)"
| "shm_do (OpAt env a) s = map_option (\<lambda>(e, r, s). s) (shmat env a s)"
| "shm_do (OpDt env addr) s = map_option (\<lambda>(e, r, s). s) (shmdt env addr s)"
| "shm_do (OpCtl env n cmd buf) s = map_option (\<lambda>(e, r, s). s) (shmctl env n cmd buf s)"
| "shm_do (OpFork env p1 p2) s =
     (if vm_shm s p1 \<noteq> None \<and> vm_shm s p2 = None then map_option snd (shmfork env p1 p2 s) else Some s)"
| "shm_do (OpExit env) s = (if vm_shm s (shm_proc env) \<noteq> None then shmexit env (shm_proc env) s else Some s)"
| "shm_do (OpExec env) s = (if vm_shm s (shm_proc env) \<noteq> None then shmexec env (shm_proc env) s else Some s)"
| "shm_do (OpLimit field out_err new) s = Some (snd (sysctl_shminfo field out_err new s))"
| "shm_do (OpIpcs env in_err out_err isz dsz ipcs) s = map_option (\<lambda>(e, r, s). s) (IPCS_shm_sysctl env in_err out_err isz dsz ipcs s)"

text \<open>What is asked of the surroundings: memory entries are new and have the size asked for, a policy
  module does not answer \<open>EAGAIN\<close>, all maps have pages of 4096 bytes, the mappings of an exiting process can be
  removed, identifiers are 32-bit integers.  The counter of attachments is a \<open>short\<close> and must not
  overflow, and the administrator must not set limits that an identifier or a single memory entry
  cannot express.\<close>

fun op_ok :: "shm_op \<Rightarrow> shm_state \<Rightarrow> bool" where
  "op_ok (OpGet env a) s \<longleftrightarrow> entries_fresh env s \<and> (\<forall>g f. mac_sysvshm_check_shmget env g f \<noteq> EAGAIN)"
| "op_ok (OpAt env a) s \<longleftrightarrow> - (2 ^ 31) \<le> at_shmid a \<and> (\<forall>i. Suc (attached (vm_shm s) i) < 2 ^ 15)"
| "op_ok (OpDt env addr) s \<longleftrightarrow> map_page_mask env = PAGE_MASK"
| "op_ok (OpCtl env n cmd buf) s \<longleftrightarrow> - (2 ^ 31) \<le> n \<and> map_page_mask env = PAGE_MASK"
| "op_ok (OpFork env p1 p2) s \<longleftrightarrow> (\<forall>i. attached (vm_shm s) i + att i (vm_shm s p1) < 2 ^ 15)"
| "op_ok (OpExit env) s \<longleftrightarrow> map_page_mask env = PAGE_MASK \<and> (\<forall>va sz. vm_deallocate env va sz = KERN_SUCCESS)"
| "op_ok (OpExec env) s \<longleftrightarrow> map_page_mask env = PAGE_MASK"
| "op_ok (OpLimit field out_err new) s \<longleftrightarrow> (\<forall>e v. new = Some (e, v) \<longrightarrow>
     (field = Field_shmmax \<longrightarrow> v \<le> uint ANON_MAX_SIZE) \<and> (field = Field_shmmni \<longrightarrow> v \<le> 65536))"
| "op_ok (OpIpcs env in_err out_err isz dsz ipcs) s \<longleftrightarrow> True"

inductive shm_reach :: "shm_state \<Rightarrow> bool" where
  shm_reach_boot: "shm_reach shm_boot_state"
| shm_reach_step: "shm_reach s \<Longrightarrow> op_ok op s \<Longrightarrow> shm_do op s = Some s' \<Longrightarrow> shm_reach s'"

definition shm_inv :: "shm_state \<Rightarrow> bool" where
  "shm_inv s \<longleftrightarrow> shm_wf s \<and> limits_ok (shm_limits s)"

text \<open>A call on the uninitialised subsystem is a call on the initialised one, or fails.\<close>

lemma after_init:
  assumes "shminit env s = (0, s')" "shminit env s' = (0, s')"
  shows "shmget env a s = shmget env a s'" "shmat env b s = shmat env b s'" "shmdt env addr s = shmdt env addr s'"
    "shmctl env n cmd buf s = shmctl env n cmd buf s'" "IPCS_shm_sysctl env ie oe isz dsz ipcs s = IPCS_shm_sysctl env ie oe isz dsz ipcs s'"
  using assms by (simp_all add: shmget_def shmat_def shmdt_def shmctl_def IPCS_shm_sysctl_def)

lemma failed_init:
  assumes "shminit env s = (ENOMEM, s)"
  shows "shmget env a s = Some (ENOMEM, None, s)" "shmat env b s = Some (ENOMEM, None, s)" "shmdt env addr s = Some (ENOMEM, None, s)"
    "shmctl env n cmd buf s = Some (ENOMEM, None, s)" "IPCS_shm_sysctl env ie oe isz dsz ipcs s = Some (ENOMEM, ipcs, s)"
  using assms by (simp_all add: shmget_def shmat_def shmdt_def shmctl_def IPCS_shm_sysctl_def ENOMEM_def)

lemma ipcs_shm_ok:
  assumes ok: "shm_ok {} s"
  shows "\<exists>e r s'. IPCS_shm_sysctl env ie oe isz dsz ipcs s = Some (e, r, s') \<and> shm_ok {} s' \<and> shm_limits s' = shm_limits s"
proof -
  let ?n = "shmmni (shm_limits s)" and ?c = "ipcs_cursor ipcs" and ?P = "\<lambda>g. seg_mode g AND SHMSEG_ALLOCATED \<noteq> 0"
  have len: "length (shmsegs s) = nat ?n" by (rule shm_okD(4) [OF ok])
  have at: "\<exists>g. shm_seg i s = Some g" if "seg_search ?P (nat ?c) (drop (nat ?c) (take (nat ?n) (shmsegs s))) = Some i" for i
    using seg_search_Some [OF that] len by (auto simp: shm_seg_def)
  have "\<exists>e r s'. ipcs_shm_iter env oe dsz ipcs s = Some (e, r, s') \<and> shm_ok {} s' \<and> shm_limits s' = shm_limits s"
  proof (cases "seg_search ?P (nat ?c) (drop (nat ?c) (take (nat ?n) (shmsegs s)))")
    case (Some i)
    then show ?thesis using ok at [OF Some] by (auto simp: ipcs_shm_iter_def Let_def)
  qed (use ok in \<open>simp add: ipcs_shm_iter_def Let_def\<close>)
  then show ?thesis using ok by (simp add: IPCS_shm_sysctl_def Let_def)
qed

lemma shm_ok_limits: "shmmni l = shmmni (shm_limits s) \<Longrightarrow> shm_ok X (s\<lparr>shm_limits := l\<rparr>) = shm_ok X s"
  unfolding shm_ok_def by simp

text \<open>One call: what it leaves, and that it returns unless a failed allocation left a segment behind.\<close>

lemma step_ok:
  assumes ok: "shm_ok {} s" and lim: "limits_ok (shm_limits s)" and op: "op_ok op s"
  shows "shm_do op s = Some s' \<Longrightarrow> shm_ok {} s' \<and> limits_ok (shm_limits s')"
    "\<forall>g\<in>set (shmsegs s). \<not> seg_left g \<Longrightarrow> shm_do op s \<noteq> None"
proof -
  have "(\<exists>s'. shm_do op s = Some s' \<and> shm_ok {} s' \<and> limits_ok (shm_limits s')) \<or>
    (\<exists>env a. op = OpGet env a)"
  proof (cases op)
    case (OpAt env a)
    then show ?thesis using shmat_ok [OF ok, of a env] op lim by auto
  next
    case (OpDt env addr)
    then show ?thesis using shmdt_ok [OF ok, of env addr] op lim by auto
  next
    case (OpCtl env n cmd buf)
    then show ?thesis using shmctl_ok [OF ok, of n env cmd buf] op lim by auto
  next
    case (OpFork env p1 p2)
    then show ?thesis using shmfork_ok [OF ok, of p1 _ p2 env] op lim ok by (cases "vm_shm s p1") fastforce+
  next
    case (OpExit env)
    then show ?thesis using cleanup_ok [OF ok, of "shm_proc env" _ env True] op lim ok by (auto simp: shmexit_def)
  next
    case (OpExec env)
    then show ?thesis using cleanup_ok [OF ok, of "shm_proc env" _ env False] op lim ok by (auto simp: shmexec_def)
  next
    case (OpLimit field out_err new)
    have "shm_ok {} (s\<lparr>shm_limits := shminfo_store field v (shm_limits s)\<rparr>)" if "field \<noteq> Field_shmmni" for v
      using ok that by (cases field) (simp_all add: shm_ok_limits)
    moreover have "limits_ok (shminfo_store field v (shm_limits s))" if "shminfo_accepts field v" "field = Field_shmmax \<Longrightarrow> v \<le> uint ANON_MAX_SIZE" for v
      using that lim by (cases field) (auto simp: limits_ok_def)
    ultimately show ?thesis using OpLimit op ok lim shm_okD(1) [OF ok] by (cases new) (auto simp: sysctl_shminfo_def)
  next
    case (OpIpcs env in_err out_err isz dsz ipcs)
    then show ?thesis using ipcs_shm_ok [OF ok, of env in_err out_err isz dsz ipcs] lim by auto
  qed auto
  then show "shm_do op s = Some s' \<Longrightarrow> shm_ok {} s' \<and> limits_ok (shm_limits s')"
    "\<forall>g\<in>set (shmsegs s). \<not> seg_left g \<Longrightarrow> shm_do op s \<noteq> None"
    using shmget_ok [OF ok _ lim] op lim by fastforce+
qed

lemma shminit_idle:
  assumes "shm_idle s" "shminit env s = (0, s')"
  shows "\<forall>g\<in>set (shmsegs s'). \<not> seg_left g" "objects (shmsegs s') = []"
  using assms by (auto simp: shm_idle_def shminit_def ENOMEM_def seg_left_def seg_mode_def objects_def zero_shmid_def split: if_splits)

lemma idle_step:
  assumes idle: "shm_idle s" and lim: "limits_ok (shm_limits s)" and op: "op_ok op s"
  shows "\<exists>s'. shm_do op s = Some s' \<and> shm_wf s' \<and> limits_ok (shm_limits s')"
proof -
  have wf: "shm_wf s" using idle by (simp add: shm_wf_def)
  have obj: "objects (shmsegs s) = []" using idle by (simp add: shm_idle_def objects_def)
  have call: "\<exists>s'. shm_do op s = Some s' \<and> shm_wf s' \<and> limits_ok (shm_limits s')"
    if "\<And>s1. shminit env s = (0, s1) \<Longrightarrow> shminit env s1 = (0, s1) \<Longrightarrow> shm_do op s = shm_do op s1"
      "shminit env s = (ENOMEM, s) \<Longrightarrow> shm_do op s = Some s" "\<And>s1. vm_shm s1 = vm_shm s \<Longrightarrow> objects (shmsegs s1) = objects (shmsegs s) \<Longrightarrow> op_ok op s1" for env
  proof (rule shminit_wf [OF wf, of env])
    assume "shminit env s = (ENOMEM, s)"
    then show ?thesis using that(2) wf lim by simp
  next
    fix s1
    assume s1: "shminit env s = (0, s1)" "shm_ok {} s1" "shm_limits s1 = shm_limits s" "vm_shm s1 = vm_shm s"
    have "op_ok op s1" by (rule that(3)) (simp_all add: s1(4) shminit_idle(2) [OF idle s1(1)] obj)
    then show ?thesis
      using step_ok [OF s1(2), of op] that(1) [OF s1(1)] s1 lim shminit_idle(1) [OF idle s1(1)] by (auto simp: shm_wf_def)
  qed
  have none: "vm_shm s p = None" for p using idle by (simp add: shm_idle_def)
  show ?thesis
  proof (cases op)
    case (OpGet env a)
    show ?thesis
    proof (rule call [of env])
      show "shm_do op s = shm_do op s1" if "shminit env s = (0, s1)" "shminit env s1 = (0, s1)" for s1
        unfolding OpGet shm_do.simps after_init(1) [OF that] by (rule refl)
      show "shm_do op s = Some s" if "shminit env s = (ENOMEM, s)" using failed_init(1) [OF that] by (simp add: OpGet)
    qed (use op OpGet in \<open>simp add: entries_fresh_def\<close>)
  next
    case (OpAt env a)
    show ?thesis
    proof (rule call [of env])
      show "shm_do op s = shm_do op s1" if "shminit env s = (0, s1)" "shminit env s1 = (0, s1)" for s1
        unfolding OpAt shm_do.simps after_init(2) [OF that] by (rule refl)
      show "shm_do op s = Some s" if "shminit env s = (ENOMEM, s)" using failed_init(2) [OF that] by (simp add: OpAt)
    qed (use op OpAt in \<open>simp\<close>)
  next
    case (OpDt env addr)
    show ?thesis
    proof (rule call [of env])
      show "shm_do op s = shm_do op s1" if "shminit env s = (0, s1)" "shminit env s1 = (0, s1)" for s1
        unfolding OpDt shm_do.simps after_init(3) [OF that] by (rule refl)
      show "shm_do op s = Some s" if "shminit env s = (ENOMEM, s)" using failed_init(3) [OF that] by (simp add: OpDt)
    qed (use op OpDt in \<open>simp\<close>)
  next
    case (OpCtl env n cmd buf)
    show ?thesis
    proof (rule call [of env])
      show "shm_do op s = shm_do op s1" if "shminit env s = (0, s1)" "shminit env s1 = (0, s1)" for s1
        unfolding OpCtl shm_do.simps after_init(4) [OF that] by (rule refl)
      show "shm_do op s = Some s" if "shminit env s = (ENOMEM, s)" using failed_init(4) [OF that] by (simp add: OpCtl)
    qed (use op OpCtl in \<open>simp\<close>)
  next
    case (OpIpcs env in_err out_err isz dsz ipcs)
    show ?thesis
    proof (rule call [of env])
      show "shm_do op s = shm_do op s1" if "shminit env s = (0, s1)" "shminit env s1 = (0, s1)" for s1
        unfolding OpIpcs shm_do.simps after_init(5) [OF that] by (rule refl)
      show "shm_do op s = Some s" if "shminit env s = (ENOMEM, s)" using failed_init(5) [OF that] by (simp add: OpIpcs)
    qed (use op OpIpcs in \<open>simp\<close>)
  next
    case (OpLimit field out_err new)
    have "shm_idle (s\<lparr>shm_limits := shminfo_store field v (shm_limits s)\<rparr>)" if "shminfo_accepts field v" "field = Field_shmmni \<Longrightarrow> v \<le> 65536" for v
      using idle that by (cases field) (auto simp: shm_idle_def)
    moreover have "limits_ok (shminfo_store field v (shm_limits s))" if "shminfo_accepts field v" "field = Field_shmmax \<Longrightarrow> v \<le> uint ANON_MAX_SIZE" for v
      using that lim by (cases field) (auto simp: limits_ok_def)
    ultimately show ?thesis using OpLimit op wf lim by (cases new) (auto simp: sysctl_shminfo_def shm_wf_def)
  qed (use none wf lim in simp_all)
qed

lemma shm_reach_inv: "shm_reach s \<Longrightarrow> shm_inv s"
proof (induction rule: shm_reach.induct)
  case shm_reach_boot
  show ?case by (simp add: shm_inv_def shm_wf_def shm_idle_def shm_boot_state_def limits_ok_def init_shminfo_def ANON_MAX_SIZE_def)
next
  case (shm_reach_step s op s')
  then show ?case using idle_step [of s op] step_ok(1) [of s op s'] by (auto simp: shm_inv_def shm_wf_def)
qed

end
