(* ===== verification/Sysv_Shm_Facts.thy ===== *)
theory Sysv_Shm_Facts
  imports Sysv_Shm_Reach
begin

text \<open>
  The theorems on shared memory: the books of the subsystem balance, no call crashes, attaching and
  detaching cancel out, and what a failed allocation leaves behind; with a concrete run.
\<close>

section \<open>Theorems\<close>



section \<open>Attaching and detaching\<close>

lemma slot_search_first:
  assumes "k < length m" "SHMID_IS_VALID (map_shmid (m ! k))" "shm_va (m ! k) = addr"
    "\<And>j. j < k \<Longrightarrow> map_shmid (m ! j) \<noteq> SHMID_SENTINEL \<and> \<not> (SHMID_IS_VALID (map_shmid (m ! j)) \<and> shm_va (m ! j) = addr)"
  shows "slot_search addr n m = Some (n + k)"
  using assms
proof (induction m arbitrary: k n)
  case (Cons x m)
  show ?case
  proof (cases k)
    case (Suc j)
    have "slot_search addr (Suc n) m = Some (Suc n + j)"
      using Cons.prems Suc by (intro Cons.IH) force+
    then show ?thesis using Cons.prems(4) [of 0] Suc by simp
  qed (use Cons.prems in simp)
qed simp

lemma attach_slot_found:
  assumes "table_ok gs m" "k < length m" "SHMID_IS_VALID n" "\<And>x. x \<in> set m \<Longrightarrow> SHMID_IS_VALID (map_shmid x) \<Longrightarrow> shm_va x \<noteq> va"
  shows "slot_search va 0 (m[k := \<lparr> shm_va = va, map_shmid = n \<rparr>]) = Some k"
proof -
  let ?m = "m[k := \<lparr> shm_va = va, map_shmid = n \<rparr>]"
  have "slot_search va 0 ?m = Some (0 + k)"
  proof (rule slot_search_first)
    fix j assume j: "j < k"
    have "j < length (butlast m)" using j assms(2) by simp
    then have "slot_ok gs (m ! j)" using assms(1) nth_mem [of j "butlast m"] by (simp add: table_ok_def nth_butlast)
    then show "map_shmid (?m ! j) \<noteq> SHMID_SENTINEL \<and> \<not> (SHMID_IS_VALID (map_shmid (?m ! j)) \<and> shm_va (?m ! j) = va)"
      using j assms(2) assms(4) [of "m ! j"] by (auto simp: slot_ok_def SHMID_SENTINEL_def SHMID_UNALLOCATED_def SHMID_IS_VALID_def)
  qed (use assms in simp_all)
  then show ?thesis by simp
qed

lemma shmat_success:
  assumes ok: "shm_ok {} s" and id: "- (2 ^ 31) \<le> at_shmid a" and fit: "\<And>i. Suc (attached (vm_shm s) i) < 2 ^ 15"
    and pm: "map_page_mask env = PAGE_MASK" and run: "shmat env a s = Some (0, Some va, s')"
    and i_def: "i = nat (IPCID_TO_IX (at_shmid a))" and p_def: "p = shm_proc env"
  obtains h va' m k where "i < length (shmsegs s)" "SHMID_IS_VALID (at_shmid a)"
    "\<not> bit (seg_mode (shmsegs s ! i)) 10" "shm_ok {} s'" "k < length m" "map_shmid (m ! k) = SHMID_UNALLOCATED" "table_ok (shmsegs s) m"
    "vm_shm s p = Some m \<or> vm_shm s p = None \<and> (\<forall>x\<in>set m. \<not> SHMID_IS_VALID (map_shmid x))"
    "\<And>j. attached ((vm_shm s)(p := Some m)) j = attached (vm_shm s) j"
    "vm_shm s' = (vm_shm s)(p := Some (m[k := \<lparr> shm_va = va, map_shmid = at_shmid a \<rparr>]))"
    "shmsegs s' = (shmsegs s)[i := (shmsegs s ! i)\<lparr>shm_lpid := shm_pid env, shm_atime := shm_time env, shm_nattch := shm_nattch (shmsegs s ! i) + 1\<rparr>]"
    "shm_internal (shmsegs s ! i) = [h]" "vm_map_entry env va (shm_handle_size h) (shm_object h) (shmat_prot a) = (KERN_SUCCESS, va')"
    "shm_vm s' = shm_vm s @ [VmReserved p va (shm_handle_size h), VmMapped p va' (shm_handle_size h) (shm_object h) (shmat_prot a)]"
proof (rule shmat_table_ok [OF ok, of env])
  fix e
  assume "e \<noteq> 0" "shmat_table env s = (e, s)"
  then show ?thesis using run ok by (simp add: shmat_def)
next
  fix s1 m
  assume s1: "shmat_table env s = (0, s1)" "shm_ok {} s1" "vm_shm s1 (shm_proc env) = Some m" "shm_limits s1 = shm_limits s"
    "\<And>i. attached (vm_shm s1) i = attached (vm_shm s) i"
  have keep: "shmsegs s1 = shmsegs s" "shm_vm s1 = shm_vm s" "vm_shm s1 = (vm_shm s)(shm_proc env := Some m)"
    "vm_shm s (shm_proc env) = Some m \<or> vm_shm s (shm_proc env) = None \<and> (\<forall>x\<in>set m. \<not> SHMID_IS_VALID (map_shmid x))"
    using s1(1,3) by (auto simp: shmat_table_def shmmap_new_def SHMID_IS_VALID_def SHMID_UNALLOCATED_def SHMID_SENTINEL_def Let_def EMFILE_def ENOMEM_def
      split: option.splits if_splits)
  show ?thesis
  proof (rule find_ok [OF s1(2) id])
    assume "shm_find_segment_by_shmid (at_shmid a) s1 = Some None"
    then show ?thesis using run s1 ok by (simp add: shmat_def EINVAL_def)
  next
    fix i
    assume f: "shm_find_segment_by_shmid (at_shmid a) s1 = Some (Some i)" and i: "i = nat (IPCID_TO_IX (at_shmid a))" "i < length (shmsegs s1)"
      "seg_live (shmsegs s1 ! i)" "uint (ipc_seq (shm_perm (shmsegs s1 ! i))) = IPCID_TO_SEQ (at_shmid a)" "SHMID_IS_VALID (at_shmid a)"
    have g: "shm_seg i s1 = Some (shmsegs s1 ! i)" using i(2) by (simp add: shm_seg_def)
    have nr: "\<not> bit (seg_mode (shmsegs s1 ! i)) 10"
      using f g i(1) by (auto simp: shm_find_segment_by_shmid_def find_mode Let_def split: if_splits)
    obtain k where k: "k < length m" "slot_free 0 m = Some k"
      using slot_free_stops [of m 0] shm_okD(10) [OF s1(2,3)] by (auto simp: table_ok_def)
    have at: "shmat_attach env a i (shmsegs s1 ! i) k s1 = (0, Some va, s')" and un: "map_shmid (m ! k) = SHMID_UNALLOCATED"
      using run s1(1,3) ok f g k(2) by (auto simp: shmat_def Let_def EMFILE_def split: if_splits)
    have "Suc (attached (vm_shm s1) i) < 2 ^ 15" using fit s1(5) by simp
    from shmat_attach_ok [OF s1(2,3) k(1) un i this] obtain h va' where r:
      "shm_ok {} s'" "vm_shm s' = (vm_shm s1)(shm_proc env := Some (m[k := \<lparr> shm_va = va, map_shmid = at_shmid a \<rparr>]))"
      "shmsegs s' = (shmsegs s1)[i := (shmsegs s1 ! i)\<lparr>shm_lpid := shm_pid env, shm_atime := shm_time env, shm_nattch := shm_nattch (shmsegs s1 ! i) + 1\<rparr>]"
      "shm_internal (shmsegs s1 ! i) = [h]" "vm_map_entry env va (shm_handle_size h) (shm_object h) (shmat_prot a) = (KERN_SUCCESS, va')"
      "shm_vm s' = shm_vm s1 @ [VmReserved (shm_proc env) va (shm_handle_size h), VmMapped (shm_proc env) va' (shm_handle_size h) (shm_object h) (shmat_prot a)]"
      using at pm by auto
    show ?thesis
      by (rule that [OF _ i(5) _ r(1) k(1) un _ keep(4) [folded p_def] _ _ _ _ r(5)])
        (use i(1,2) nr shm_okD(10) [OF s1(2,3)] s1(5) r keep in \<open>simp_all add: i_def p_def\<close>)
  qed
qed

lemma delete_mapping_plain:
  assumes "vm_shm s p = Some m" "i = nat (IPCID_TO_IX (map_shmid (m ! k)))" "i < length (shmsegs s)" "\<not> bit (seg_mode (shmsegs s ! i)) 10"
    "map_page_mask env = PAGE_MASK" "shm_delete_mapping env p k True s = Some (0, s')"
  shows "shm_vm s' = shm_vm s @ [VmRemoved (shm_proc env) (shm_va (m ! k)) (vm_map_round_page (shm_segsz (shmsegs s ! i)) PAGE_MASK)]"
    "shmsegs s' = (shmsegs s)[i := (shmsegs s ! i)\<lparr>shm_dtime := shm_time env, shm_nattch := shm_nattch (shmsegs s ! i) - 1\<rparr>]"
  using assms by (auto simp: shm_delete_mapping_def shm_seg_def mode_bits shm_log_def slot_modify_def seg_modify_def Let_def EINVAL_def split: if_splits)

text \<open>C14. \<open>shmdt\<close> undoes \<open>shmat\<close>: after a successful attach, one more attachment of exactly that segment is
  counted and its memory is mapped, whole and with the protection asked for, over the range reserved for it; detaching at
  the returned address succeeds, removes exactly that range, and all counts are as before.\<close>
theorem shmat_shmdt_roundtrip:
  assumes "shm_reach s" "shm_inited s" "op_ok (OpAt env a) s" "map_page_mask env = PAGE_MASK" "map_page_mask env' = PAGE_MASK"
    and run: "shmat env a s = Some (0, Some va, s1)"
    and new: "\<And>m x. vm_shm s (shm_proc env) = Some m \<Longrightarrow> x \<in> set m \<Longrightarrow> SHMID_IS_VALID (map_shmid x) \<Longrightarrow> shm_va x \<noteq> va"
    and env': "shm_proc env' = shm_proc env" "\<And>g. mac_sysvshm_check_shmdt env' g = 0" "\<And>n. vm_deallocate env' va n = KERN_SUCCESS"
    and fixed: "\<And>n e prot. snd (vm_map_entry env va n e prot) = va"
  defines "i \<equiv> nat (IPCID_TO_IX (at_shmid a))" and "p \<equiv> shm_proc env"
  shows "\<exists>s2 h. shmdt env' va s1 = Some (0, Some 0, s2) \<and> shm_internal (shmsegs s ! i) = [h] \<and>
    (\<forall>j. attached (vm_shm s1) j = attached (vm_shm s) j + (if j = i then 1 else 0)) \<and>
    (\<forall>j. attached (vm_shm s2) j = attached (vm_shm s) j) \<and>
    map shm_nattch (shmsegs s2) = map shm_nattch (shmsegs s) \<and> map shm_internal (shmsegs s2) = map shm_internal (shmsegs s) \<and>
    shm_vm s2 = shm_vm s @ [VmReserved p va (shm_handle_size h), VmMapped p va (shm_handle_size h) (shm_object h) (shmat_prot a),
      VmRemoved p va (shm_handle_size h)]"
proof -
  have ok: "shm_ok {} s" using shm_reach_inv [OF assms(1)] assms(2) by (simp add: shm_inv_def shm_wf_def shm_idle_def)
  have id: "- (2 ^ 31) \<le> at_shmid a" and fit: "Suc (attached (vm_shm s) j) < 2 ^ 15" for j using assms(3) by simp_all
  obtain h va' m k where i: "i < length (shmsegs s)" "SHMID_IS_VALID (at_shmid a)" "\<not> bit (seg_mode (shmsegs s ! i)) 10"
    and ok1: "shm_ok {} s1" and k: "k < length m" "map_shmid (m ! k) = SHMID_UNALLOCATED" "table_ok (shmsegs s) m"
      "vm_shm s p = Some m \<or> vm_shm s p = None \<and> (\<forall>x\<in>set m. \<not> SHMID_IS_VALID (map_shmid x))"
    and cnt: "\<And>j. attached ((vm_shm s)(p := Some m)) j = attached (vm_shm s) j"
    and s1: "vm_shm s1 = (vm_shm s)(p := Some (m[k := \<lparr> shm_va = va, map_shmid = at_shmid a \<rparr>]))"
      "shmsegs s1 = (shmsegs s)[i := (shmsegs s ! i)\<lparr>shm_lpid := shm_pid env, shm_atime := shm_time env, shm_nattch := shm_nattch (shmsegs s ! i) + 1\<rparr>]"
    and h: "shm_internal (shmsegs s ! i) = [h]" "vm_map_entry env va (shm_handle_size h) (shm_object h) (shmat_prot a) = (KERN_SUCCESS, va')"
      "shm_vm s1 = shm_vm s @ [VmReserved p va (shm_handle_size h), VmMapped p va' (shm_handle_size h) (shm_object h) (shmat_prot a)]"
    apply (rule shmat_success [OF ok id fit assms(4) run meta_eq_to_obj_eq [OF i_def] meta_eq_to_obj_eq [OF p_def]])
    subgoal premises q by (rule q(1) [OF q(2-)])
    done
  let ?y = "\<lparr> shm_va = va, map_shmid = at_shmid a \<rparr>" let ?m = "m[k := ?y]" let ?x = "?y\<lparr>map_shmid := SHMID_UNALLOCATED\<rparr>"
  have va': "va' = va" using fixed [of "shm_handle_size h" "shm_object h" "shmat_prot a"] h(2) by simp
  have un: "\<not> slot_of j (m ! k)" "\<not> slot_of j ?x" "slot_of j ?y \<longleftrightarrow> j = i" for j
    using k(2) i(2) by (auto simp: slot_of_def i_def SHMID_IS_VALID_def SHMID_UNALLOCATED_def)
  have fin: "finite {q. ((vm_shm s)(p := Some m)) q \<noteq> None}" by (rule finite_procs [OF shm_okD(9) [OF ok]])
  have cnt1: "attached (vm_shm s1) j = attached (vm_shm s) j + (if j = i then 1 else 0)" for j
    using attached_slot [of "(vm_shm s)(p := Some m)" p m k ?y j, OF fin _ k(1)] un cnt [of j] by (simp add: s1(1))
  have cnt2: "attached ((vm_shm s)(p := Some (m[k := ?x]))) j = attached (vm_shm s) j" for j
    using attached_slot [of "(vm_shm s)(p := Some m)" p m k ?x j, OF fin _ k(1)] un cnt [of j] by simp
  have search: "slot_search va 0 ?m = Some k" by (rule attach_slot_found [OF k(3,1) i(2)]) (use k(4) new in \<open>auto simp: p_def\<close>)
  have m1: "vm_shm s1 p = Some ?m" "k < length ?m" "SHMID_IS_VALID (map_shmid (?m ! k))" using s1(1) k(1) i(2) by simp_all
  obtain s2 where s2: "shm_delete_mapping env' p k True s1 = Some (0, s2)" "vm_shm s2 = (vm_shm s)(p := Some (m[k := ?x]))"
    using delete_mapping_ok [OF ok1 m1 assms(5), of True] env'(3) k(1) s1(1) by auto
  have live: "seg_live (shmsegs s ! i)" using h(1) by (simp add: seg_live_def)
  have sz: "vm_map_round_page (shm_segsz (shmsegs s ! i)) PAGE_MASK = shm_handle_size h" using shm_okD(5) [OF ok i(1)] live h(1) by (simp add: seg_ok_def)
  have g1: "i = nat (IPCID_TO_IX (map_shmid (?m ! k)))" "i < length (shmsegs s1)" "\<not> bit (seg_mode (shmsegs s1 ! i)) 10"
    using k(1) i s1(2) by (simp_all add: i_def seg_mode_def)
  note plain = delete_mapping_plain [OF m1(1) g1 assms(5) s2(1)]
  have "shmdt env' va s1 = Some (0, Some 0, s2)"
    using ok1 m1 search s2(1) g1(1,2) env' by (simp add: shmdt_def shm_seg_def p_def Let_def)
  moreover have "map shm_nattch (shmsegs s2) = map shm_nattch (shmsegs s)" "map shm_internal (shmsegs s2) = map shm_internal (shmsegs s)"
    using plain(2) i(1) by (simp_all add: s1(2) map_update_same)
  moreover have "shm_vm s2 = shm_vm s @ [VmReserved p va (shm_handle_size h), VmMapped p va (shm_handle_size h) (shm_object h) (shmat_prot a),
      VmRemoved p va (shm_handle_size h)]"
    using plain(1) h(3) va' k(1) i(1) sz env'(1) by (simp add: s1(2) p_def)
  ultimately show ?thesis using h(1) cnt1 cnt2 s2(2) by auto
qed

section \<open>A failed allocation\<close>

lemma seg_search_update: "P g = P (gs ! i) \<Longrightarrow> seg_search P j (gs[i := g]) = seg_search P j gs"
  by (induction gs arbitrary: i j) (auto split: nat.split)

lemma shmget_again_never:
  assumes "shmget_again env a mode k s = Some r"
  shows "\<not> (\<exists>i < length (shmsegs s). shm_find_segment_by_key (get_key a) s = Some i \<and> bit (seg_mode (shmsegs s ! i)) 10 \<and> (\<forall>n. shm_tsleep env n = 0))"
proof (rule shmget_again.raw_induct [of "\<lambda>env a mode k s r. \<not> (\<exists>i < length (shmsegs s). shm_find_segment_by_key (get_key a) s = Some i \<and>
    bit (seg_mode (shmsegs s ! i)) 10 \<and> (\<forall>n. shm_tsleep env n = 0))", OF _ assms], rule notI, elim exE conjE)
  fix f env a mode k s r i
  assume IH: "\<And>env a mode k s r. f env a mode k s = Some r \<Longrightarrow> \<not> (\<exists>i < length (shmsegs s). shm_find_segment_by_key (get_key a) s = Some i \<and>
      bit (seg_mode (shmsegs s ! i)) 10 \<and> (\<forall>n. shm_tsleep env n = 0))"
    and run: "(case shm_find_segment_by_key (get_key a) s of
        None \<Rightarrow> if get_shmflg a AND IPC_CREAT = 0 then Some (ENOENT, None, s) else shmget_allocate_segment env a mode s
      | Some i \<Rightarrow> shmget_existing env a mode i (shm_tsleep env k) s \<bind>
          (\<lambda>(e, r, s). if e = EAGAIN then f env a mode (Suc k) s else Some (e, r, s))) = Some r"
    and i: "i < length (shmsegs s)" "shm_find_segment_by_key (get_key a) s = Some i" "bit (seg_mode (shmsegs s ! i)) 10" "\<forall>n. shm_tsleep env n = 0"
  let ?g = "shmsegs s ! i" let ?w = "\<lambda>g. g\<lparr>shm_perm := (shm_perm g)\<lparr>ipc_mode := seg_mode g OR SHMSEG_WANTED\<rparr>\<rparr>"
  have "shmget_existing env a mode i (shm_tsleep env k) s = Some (EAGAIN, None, seg_modify i ?w s)"
    using i by (simp add: shmget_existing_def shm_seg_def mode_bits Let_def)
  then have f: "f env a mode (Suc k) (seg_modify i ?w s) = Some r" using run i(2) by simp
  have w: "SHMSEG_WANTED = push_bit 12 1" by (simp add: SHMSEG_WANTED_def)
  have wb: "bit SHMSEG_WANTED n \<longleftrightarrow> n = 12" for n unfolding w by (simp only: bit_push_bit_iff bit_1_iff) auto
  have same: "seg_mode (?w ?g) AND SHMSEG_ALLOCATED \<noteq> 0 \<and> ipc_key (shm_perm (?w ?g)) = key \<longleftrightarrow> seg_mode ?g AND SHMSEG_ALLOCATED \<noteq> 0 \<and> ipc_key (shm_perm ?g) = key" for key
    unfolding mode_bits by (simp add: seg_mode_def bit_or_iff wb)
  have "shm_find_segment_by_key (get_key a) (seg_modify i ?w s) = shm_find_segment_by_key (get_key a) s"
    unfolding shm_find_segment_by_key_def
    by (cases "i < nat (shmmni (shm_limits s))") (use same in \<open>simp_all add: seg_modify_def take_update_swap list_update_beyond seg_search_update\<close>)
  then show False
    using IH [OF f] i by (auto simp: seg_modify_def seg_mode_def bit_or_iff)
qed

lemma seg_search_new: "seg_search P j gs = None \<Longrightarrow> i < length gs \<Longrightarrow> P g \<Longrightarrow> seg_search P j (gs[i := g]) = Some (j + i)"
  by (induction gs arbitrary: i j) (auto split: nat.split if_splits)

lemma shmget_create_fails:
  assumes i: "i < length (shmsegs s)" "shm_internal (shmsegs s ! i) = []"
    and size: "0 < n" "n \<le> ANON_MAX_SIZE" and e: "make_entry env 0 n = (kret, sz, obj)" "kret \<noteq> KERN_SUCCESS"
  shows "shmget_create env a mode n i s = Some (vm_errno kret, None, seg_modify i (\<lambda>g. g\<lparr>shm_perm := (shm_perm g)
    \<lparr>ipc_mode := SHMSEG_ALLOCATED OR SHMSEG_REMOVED, ipc_key := get_key a, ipc_seq := (ipc_seq (shm_perm g) + 1) AND 0x7FFF\<rparr>\<rparr>) s)"
proof -
  have same: "g\<lparr>shm_internal := []\<rparr> = g" if "shm_internal g = []" for g :: shmid_kernel using that by (cases g) simp
  show ?thesis
    unfolding shmget_create_def Let_def chunks_one [OF size e(1)]
    using i e(2) by (simp add: shmget_create_def shm_seg_def seg_modify_def shm_log_def release_events_def same chunks_one [OF size e(1)])
qed

text \<open>C15. A failed \<open>shmget\<close> poisons its key.  When \<open>mach_make_memory_entry_64\<close> fails, the call reports the error
  but leaves the descriptor allocated, removed and under the key: a later \<open>shmget\<close> of that key, of any process, never
  returns as long as its sleeps are not interrupted, and \<open>shmctl\<close> cannot get at the descriptor to remove it.\<close>
theorem failed_shmget_poisons_key:
  assumes "shm_reach s" "shm_inited s" "\<not> (\<exists>g\<in>set (shmsegs s). seg_left g)"
    and key: "get_key a \<noteq> IPC_PRIVATE" "shm_find_segment_by_key (get_key a) s = None" "get_shmflg a AND IPC_CREAT \<noteq> 0"
    and size: "0 < get_size a" "word_of_int (shmmin (shm_limits s)) \<le> get_size a" "get_size a \<le> word_of_int (shmmax (shm_limits s))"
    and room: "shm_nused s < shmmni (shm_limits s)" "uint (shm_committed s + btoc (vm_map_round_page (get_size a) PAGE_MASK)) \<le> shmall (shm_limits s)"
    and fails: "make_entry env 0 (vm_map_round_page (get_size a) PAGE_MASK) = (kret, sz, obj)" "kret \<noteq> KERN_SUCCESS"
  shows "\<exists>s' i. shmget env a s = Some (vm_errno kret, None, s') \<and> shm_nused s' = shm_nused s \<and>
    (\<forall>env' b. get_key b = get_key a \<and> (\<forall>k. shm_tsleep env' k = 0) \<longrightarrow> shmget env' b s' = None) \<and>
    shm_find_segment_by_key (get_key a) s' = Some i \<and>
    (\<forall>env' shmid cmd buf. IPCID_TO_IX shmid = int i \<longrightarrow> shmctl env' shmid cmd buf s' = Some (EINVAL, None, s'))"
proof -
  have inv: "shm_ok {} s" "limits_ok (shm_limits s)"
    using shm_reach_inv [OF assms(1)] assms(2) by (simp_all add: shm_inv_def shm_wf_def shm_idle_def)
  note okD = shm_okD [OF inv(1)]
  let ?n = "vm_map_round_page (get_size a) PAGE_MASK"
  have "word_of_int (shmmax (shm_limits s)) \<le> ANON_MAX_SIZE" using inv(2) by (simp add: limits_ok_def word_le_def ANON_MAX_SIZE_def uint_word_of_int)
  then have le: "get_size a \<le> ANON_MAX_SIZE" using size(3) by (rule order_trans [rotated])
  then have total: "0 < ?n" "?n \<le> ANON_MAX_SIZE" using round_page_bounds size(1) by auto
  have fit: "uint (get_size a) + uint PAGE_MASK < 2 ^ 64" using le by (simp add: word_le_def ANON_MAX_SIZE_def PAGE_MASK_def)
  let ?lf = "s\<lparr>shm_last_free := - 1\<rparr>"
  obtain i where i: "shmget_slot s = Some (i, ?lf)" "i < length (shmsegs s)" "\<not> seg_live (shmsegs s ! i)"
    using shmget_slot_ok [OF inv(1) room(1)] assms(3) by metis
  define g where "g = (shmsegs s ! i)\<lparr>shm_perm := (shm_perm (shmsegs s ! i))\<lparr>ipc_mode := SHMSEG_ALLOCATED OR SHMSEG_REMOVED,
    ipc_key := get_key a, ipc_seq := (ipc_seq (shm_perm (shmsegs s ! i)) + 1) AND 0x7FFF\<rparr>\<rparr>"
  define s' where "s' = ?lf\<lparr>shmsegs := (shmsegs s)[i := g]\<rparr>"
  have none: "shm_internal (shmsegs s ! i) = []" using i(3) by (simp add: seg_live_def)
  have "shmget_create env a (get_shmflg a AND 0x1FF) ?n i ?lf = Some (vm_errno kret, None, s')"
    using shmget_create_fails [of i ?lf ?n env kret sz obj a "get_shmflg a AND 0x1FF"] i(2) none total fails
    by (simp add: s'_def g_def seg_modify_def)
  then have "shmget_allocate_segment env a (get_shmflg a AND 0x1FF) s = Some (vm_errno kret, None, s')"
    using size room i(1) fit by (auto simp: shmget_allocate_segment_def mach_vm_round_page_overflow_def vm_map_round_page_def [symmetric])
  then have run: "shmget env a s = Some (vm_errno kret, None, s')"
    using inv(1) key by (simp add: shmget_def shmget_again.simps Let_def)
  have g: "bit (seg_mode g) 11" "bit (seg_mode g) 10" "ipc_key (shm_perm g) = get_key a" by (simp_all add: g_def seg_mode_def bit_or_iff)
  have find: "shm_find_segment_by_key (get_key a) s' = Some i"
    using key(2) seg_search_new [of _ 0 "shmsegs s" i g] i(2) okD(4) g by (simp add: shm_find_segment_by_key_def s'_def mode_bits)
  have s': "shm_inited s'" "i < length (shmsegs s')" "shmsegs s' ! i = g" "shm_limits s' = shm_limits s" using okD(1) i(2) by (simp_all add: s'_def)
  have "shmget env' b s' = None" if "get_key b = get_key a" "\<forall>k. shm_tsleep env' k = 0" for env' b
    using shmget_again_never [of env' b "get_shmflg b AND 0x1FF" 0 s'] that find s' g(2) key(1)
    by (cases "shmget_again env' b (get_shmflg b AND 0x1FF) 0 s'") (simp_all add: shmget_def shminit_def Let_def)
  moreover have "shmctl env' shmid cmd buf s' = Some (EINVAL, None, s')" if "IPCID_TO_IX shmid = int i" for env' shmid cmd buf
    using that s' g(2) okD(4) i(2) find_mode by (simp add: shmctl_def shminit_def shm_find_segment_by_shmid_def shm_seg_def Let_def)
  moreover have "shm_nused s' = shm_nused s" by (simp add: s'_def)
  ultimately show ?thesis using run find by blast
qed

section \<open>A concrete run\<close>

definition sample_shm_env :: shm_env where
  "sample_shm_env = \<lparr> shm_proc = 1, shm_pid = 7, shm_cred = \<lparr> kauth_cred_getuid = 0, kauth_cred_getgid = 0, suser = 0, kauth_cred_ismember_gid = (\<lambda>g. (0, True)) \<rparr>,
     shm_is64 = True, shm_time = 100, map_page_mask = PAGE_MASK, zalloc_ok = True, shmmap_ok = True, junk_va = (\<lambda>k. 0),
     make_entry = (\<lambda>off n. (0, n, 3)), vm_reserve = (\<lambda>va n there. (0, if there then va else 0x100000)), vm_map_entry = (\<lambda>va n e prot. (0, va)),
     vm_deallocate = (\<lambda>va n. 0), shm_tsleep = (\<lambda>k. 0), mac_sysvshm_check_shmat = (\<lambda>g f. 0), mac_sysvshm_check_shmctl = (\<lambda>g c. 0),
     mac_sysvshm_check_shmdt = (\<lambda>g. 0), mac_sysvshm_check_shmget = (\<lambda>g f. 0), copyin_shmid = (\<lambda>a. (0, shmid_ds_64 zero_shmid)), shm_copyout = (\<lambda>a. 0) \<rparr>"

definition sample_get :: shmget_args where
  "sample_get = \<lparr> get_key = 5, get_size = 100, get_shmflg = 0x380 \<rparr>"

definition sample_at :: shmat_args where
  "sample_at = \<lparr> at_shmid = 0x10000, at_shmaddr = 0, at_shmflg = 0 \<rparr>"

text \<open>Two descriptors; the second is still as \<open>shminit\<close> left it.\<close>

definition sample_limits :: shminfo where
  "sample_limits = init_shminfo\<lparr>shmmni := 2\<rparr>"

definition free_shmid :: shmid_kernel where
  "free_shmid = zero_shmid\<lparr>shm_perm := (shm_perm zero_shmid)\<lparr>ipc_mode := SHMSEG_FREE, ipc_seq := 0\<rparr>\<rparr>"

definition sample_seg :: shmid_kernel where
  "sample_seg = \<lparr> shm_perm = \<lparr> ipc_uid = 0, ipc_gid = 0, ipc_cuid = 0, ipc_cgid = 0, ipc_mode = 0x980, ipc_seq = 1, ipc_key = 5 \<rparr>,
     shm_segsz = 100, shm_lpid = 0, shm_cpid = 7, shm_nattch = 0, shm_atime = 0, shm_dtime = 0, shm_ctime = 100,
     shm_internal = [\<lparr> shm_object = 3, shm_handle_size = 0x1000 \<rparr>] \<rparr>"

definition sample_created :: shm_state where
  "sample_created = \<lparr> shm_limits = sample_limits, shm_inited = True, shm_last_free = - 1, shm_nused = 1, shm_committed = 1,
     shmsegs = [sample_seg, free_shmid], vm_shm = (\<lambda>p. None), shm_vm = [EntryMade 3], shm_out = [] \<rparr>"

definition sample_attached :: shm_state where
  "sample_attached = sample_created\<lparr>shmsegs := [sample_seg\<lparr>shm_lpid := 7, shm_atime := 100, shm_nattch := 1\<rparr>, free_shmid],
     vm_shm := (\<lambda>p. None)(1 := Some (\<lparr> shm_va = 0x100000, map_shmid = 0x10000 \<rparr> # replicate 7 \<lparr> shm_va = 0, map_shmid = - 1 \<rparr> @ [\<lparr> shm_va = 0, map_shmid = - 2 \<rparr>])),
     shm_vm := [EntryMade 3, VmReserved 1 0x100000 0x1000, VmMapped 1 0x100000 0x1000 3 ProtReadWrite]\<rparr>"

lemma sample_idle: "shm_do (OpLimit Field_shmmni 0 (Some (0, 2))) shm_boot_state = Some (shm_boot_state\<lparr>shm_limits := sample_limits\<rparr>)"
  by (simp add: sysctl_shminfo_def shm_boot_state_def sample_limits_def)

lemma sample_shmget: "shmget sample_shm_env sample_get (shm_boot_state\<lparr>shm_limits := sample_limits\<rparr>) = Some (0, Some 0x10000, sample_created)"
proof -
  define s where "s = shm_boot_state\<lparr>shm_limits := sample_limits, shmsegs := [free_shmid, free_shmid], shm_inited := True\<rparr>"
  have init: "shminit sample_shm_env (shm_boot_state\<lparr>shm_limits := sample_limits\<rparr>) = (0, s)"
    by (simp add: shminit_def s_def shm_boot_state_def sample_limits_def init_shminfo_def sample_shm_env_def free_shmid_def numeral_2_eq_2 sizeof_shmid_kernel_def)
  have find: "shm_find_segment_by_key 5 s = None"
    by (simp add: shm_find_segment_by_key_def s_def shm_boot_state_def sample_limits_def init_shminfo_def free_shmid_def seg_mode_def zero_shmid_def
      SHMSEG_FREE_def SHMSEG_ALLOCATED_def numeral_2_eq_2)
  have round: "vm_map_round_page 100 PAGE_MASK = 0x1000" by (simp add: vm_map_round_page_def PAGE_MASK_def)
  define s1 where "s1 = s\<lparr>shm_last_free := - 1\<rparr>"
  have slot: "shmget_slot s = Some (0, s1)" by (simp add: shmget_slot_def s_def s1_def shm_boot_state_def)
  have chunks: "shmget_chunks sample_shm_env 0 0x1000 0 0 True t = Some (KERN_SUCCESS, 0x1000,
      seg_modify 0 (\<lambda>g. g\<lparr>shm_internal := [\<lparr> shm_object = 3, shm_handle_size = 0x1000 \<rparr>]\<rparr>) (shm_log [EntryMade 3] t))" for t
    using chunks_one [of "0x1000" sample_shm_env 0 "0x1000" 3 0 t] by (simp add: sample_shm_env_def ANON_MAX_SIZE_def KERN_SUCCESS_def)
  have "shmget_create sample_shm_env sample_get 0x180 0x1000 0 s1 = Some (0, Some 0x10000, sample_created)"
    unfolding shmget_create_def Let_def chunks
    by (simp add: shm_seg_def s1_def s_def shmget_finish_def seg_modify_def shm_log_def sample_get_def free_shmid_def zero_shmid_def
        sample_created_def sample_seg_def sample_limits_def seg_mode_def SHMSEG_ALLOCATED_def SHMSEG_REMOVED_def SHMSEG_WANTED_def sample_shm_env_def
        shm_boot_state_def btoc_def IXSEQ_TO_IPCID_def Let_def)
  moreover have "shmget_allocate_segment sample_shm_env sample_get 0x180 s = shmget_create sample_shm_env sample_get 0x180 0x1000 0 s1"
    by (simp add: shmget_allocate_segment_def slot sample_get_def mach_vm_round_page_overflow_def PAGE_MASK_def)
      (simp add: s_def shm_boot_state_def sample_limits_def init_shminfo_def btoc_def)
  ultimately show ?thesis
    unfolding shmget_def init prod.case Let_def
    by (simp add: shmget_again.simps find sample_get_def IPC_PRIVATE_def IPC_CREAT_def)
qed

lemma sample_shm_reach: "shm_reach sample_created"
proof -
  have "shm_reach (shm_boot_state\<lparr>shm_limits := sample_limits\<rparr>)"
    by (rule shm_reach_step [OF shm_reach_boot _ sample_idle]) simp
  then show ?thesis
    by (rule shm_reach_step [of _ "OpGet sample_shm_env sample_get"])
      (simp_all add: sample_shmget, simp add: entries_fresh_def objects_def shm_boot_state_def sample_shm_env_def EAGAIN_def)
qed

lemma attached_none: "attached (\<lambda>p. None) i = 0"
  by (simp add: attached_def)

lemma sample_at_ok: "op_ok (OpAt sample_shm_env sample_at) sample_created"
  by (simp add: sample_at_def sample_created_def attached_none)

lemma sample_shmat: "shmat sample_shm_env sample_at sample_created = Some (0, Some 0x100000, sample_attached)"
proof -
  have m: "shmmap_new sample_shm_env 8 = \<lparr> shm_va = 0, map_shmid = - 1 \<rparr> # replicate 7 \<lparr> shm_va = 0, map_shmid = - 1 \<rparr> @ [\<lparr> shm_va = 0, map_shmid = - 2 \<rparr>]"
    by (simp add: shmmap_new_def sample_shm_env_def upt_rec numeral_eq_Suc SHMID_UNALLOCATED_def SHMID_SENTINEL_def)
  define s where "s = sample_created\<lparr>vm_shm := (\<lambda>p. None)(1 := Some (shmmap_new sample_shm_env 8))\<rparr>"
  have table: "shmat_table sample_shm_env sample_created = (0, s)"
    by (simp add: shmat_table_def s_def sample_created_def sample_limits_def init_shminfo_def) (simp add: sample_shm_env_def)
  have find: "shm_find_segment_by_shmid 0x10000 s = Some (Some 0)" "shm_seg 0 s = Some sample_seg"
    by (simp_all add: shm_find_segment_by_shmid_def s_def sample_created_def sample_limits_def init_shminfo_def shm_seg_def seg_mode_def sample_seg_def
      IPCID_TO_IX_def IPCID_TO_SEQ_def SHMSEG_ALLOCATED_def SHMSEG_REMOVED_def Let_def)
  have attach: "shmat_attach sample_shm_env sample_at 0 sample_seg 0 s = (0, Some 0x100000, sample_attached)"
    by (simp add: shmat_attach_def Let_def sample_at_def sample_seg_def vm_map_round_page_def PAGE_MASK_def KERN_SUCCESS_def SHM_RND_def SHM_RDONLY_def
      sample_shm_env_def shm_log_def seg_modify_def slot_modify_def s_def m [unfolded sample_shm_env_def PAGE_MASK_def, simplified] sample_attached_def sample_created_def fun_eq_iff)
  have "shm_inited sample_created" by (simp add: sample_created_def)
  moreover have "vm_shm s (shm_proc sample_shm_env) = Some (shmmap_new sample_shm_env 8)" by (simp add: s_def sample_shm_env_def)
  ultimately show ?thesis
    using find attach table
    by (simp add: shmat_def shminit_def sample_at_def ipcperm_def m SHMID_IS_VALID_def SHMID_UNALLOCATED_def Let_def) (simp add: sample_shm_env_def)
qed

lemma sample_reach_attached: "shm_reach sample_attached" "shm_inited sample_attached"
  by (rule shm_reach_step [OF sample_shm_reach sample_at_ok]) (simp_all add: sample_shmat, simp add: sample_attached_def sample_created_def)

lemma sample_not_left: "\<not> (\<exists>g\<in>set (shmsegs sample_created). seg_left g)" "\<not> (\<exists>g\<in>set (shmsegs sample_attached). seg_left g)"
  by (simp_all add: sample_created_def sample_attached_def seg_left_def seg_live_def sample_seg_def free_shmid_def zero_shmid_def seg_mode_def)



theorem shmat_shmdt_roundtrip_witness:
  "shmat sample_shm_env sample_at sample_created = Some (0, Some 0x100000, sample_attached) \<and>
   (\<exists>s2. shmdt sample_shm_env 0x100000 sample_attached = Some (0, Some 0, s2) \<and>
     (\<forall>j. attached (vm_shm s2) j = attached (vm_shm sample_created) j))"
proof -
  have env: "shm_inited sample_created" "map_page_mask sample_shm_env = PAGE_MASK" "vm_shm sample_created p = None"
    "mac_sysvshm_check_shmdt sample_shm_env g = 0" "vm_deallocate sample_shm_env 0x100000 n = KERN_SUCCESS"
    "snd (vm_map_entry sample_shm_env 0x100000 n e prot) = 0x100000" for p g n e prot
    by (simp_all add: sample_created_def sample_shm_env_def KERN_SUCCESS_def)
  show ?thesis
    using shmat_shmdt_roundtrip [OF sample_shm_reach env(1) sample_at_ok env(2,2) sample_shmat _ refl env(4-6)] env(3) sample_shmat by auto
qed

definition failing_shm_env :: shm_env where
  "failing_shm_env = sample_shm_env\<lparr>make_entry := (\<lambda>off n. (KERN_NO_SPACE, n, 0))\<rparr>"

theorem failed_shmget_poisons_key_witness:
  "\<exists>s'. shmget failing_shm_env (sample_get\<lparr>get_key := 9\<rparr>) sample_created = Some (ENOMEM, None, s') \<and>
     shmget sample_shm_env (sample_get\<lparr>get_key := 9\<rparr>) s' = None"
proof -
  have "shm_find_segment_by_key 9 sample_created = None"
    by (simp add: shm_find_segment_by_key_def sample_created_def sample_limits_def init_shminfo_def free_shmid_def seg_mode_def zero_shmid_def
      sample_seg_def SHMSEG_FREE_def SHMSEG_ALLOCATED_def numeral_2_eq_2)
  moreover have "shm_inited sample_created" "shm_tsleep sample_shm_env k = 0" for k by (simp_all add: sample_created_def sample_shm_env_def)
  moreover have "vm_errno KERN_NO_SPACE = ENOMEM" by (simp add: vm_errno_def)
  moreover have "uint (shm_committed sample_created + btoc (vm_map_round_page 100 PAGE_MASK)) \<le> shmall (shm_limits sample_created)"
    by (simp add: sample_created_def sample_limits_def init_shminfo_def btoc_def vm_map_round_page_def PAGE_MASK_def)
  ultimately show ?thesis
    using failed_shmget_poisons_key [OF sample_shm_reach _ sample_not_left(1), of "sample_get\<lparr>get_key := 9\<rparr>" failing_shm_env KERN_NO_SPACE
        "vm_map_round_page 100 PAGE_MASK" 0]
    by (auto simp: sample_get_def failing_shm_env_def IPC_PRIVATE_def IPC_CREAT_def KERN_NO_SPACE_def KERN_SUCCESS_def
      sample_created_def sample_limits_def init_shminfo_def)
qed

end
