(* ===== verification/Kern_Strings.thy ===== *)
theory Kern_Strings
  imports Xnu_Prelude "HOL-Library.Signed_Division"
begin

text \<open>
  The string and memory routines of the kernel, \<^verbatim>\<open>src/osfmk/device/subrs.c\<close>, as they are compiled for x86:
  only \<open>bcopy\<close>, \<open>bzero\<close>, \<open>memcpy\<close>, \<open>memmove\<close> and \<open>memset\<close> come from the architecture.  A pointer is the list of
  the characters that may be accessed from it on; \<open>None\<close> is an access outside of it, a \<open>panic\<close>, or an overflow of
  a signed integer.  Source and destination of a copy are different buffers.
\<close>

section \<open>Characters\<close>

abbreviation NUL :: char where "NUL \<equiv> CHR 0x00"

text \<open>The values of a \<open>char\<close> and of an \<open>unsigned char\<close>.\<close>

definition schar :: "char \<Rightarrow> int" where
  "schar c = signed_take_bit 7 (int (of_char c))"

definition uchar :: "char \<Rightarrow> int" where
  "uchar c = int (of_char c)"

text \<open>The cast of an integer to \<open>char\<close>.\<close>

definition to_char :: "int \<Rightarrow> char" where
  "to_char n = char_of (nat (n mod 256))"

definition rd :: "'a list \<Rightarrow> nat \<Rightarrow> 'a option" where
  "rd s i = (if i < length s then Some (s ! i) else None)"

definition tolower :: "int \<Rightarrow> int" where
  "tolower ch = (if ch \<ge> 65 \<and> ch \<le> 90 then 97 + (ch - 65) else ch)"

section \<open>Comparing memory\<close>

text \<open>The loop of \<open>bcmp\<close>: the count that is left.\<close>

fun bcmp_loop :: "string \<Rightarrow> string \<Rightarrow> u64 \<Rightarrow> u64 option" where
  "bcmp_loop (x # a) (y # b) len =
     (if x \<noteq> y then Some len else if len - 1 \<noteq> 0 then bcmp_loop a b (len - 1) else Some 0)"
| "bcmp_loop _ _ len = None"

definition bcmp_impl :: "string \<Rightarrow> string \<Rightarrow> u64 \<Rightarrow> int option" where
  "bcmp_impl pa pb len =
     (if len = 0 then Some 0
      else do {
        len \<leftarrow> bcmp_loop pa pb len;
        Some (if len AND 0xFFFFFFFF00000000 \<noteq> 0 \<and> len AND 0x00000000FFFFFFFF = 0 then - 1
              else sint (ucast len :: u32))
      })"

fun memcmp_impl :: "string \<Rightarrow> string \<Rightarrow> nat \<Rightarrow> int option" where
  "memcmp_impl s1 s2 0 = Some 0"
| "memcmp_impl (x # s1) (y # s2) (Suc n) = (if x \<noteq> y then Some (uchar x - uchar y) else memcmp_impl s1 s2 n)"
| "memcmp_impl _ _ (Suc n) = None"

text \<open>The loop of \<open>memcmp_zero_ptr_aligned\<close> over groups of four words from the end.\<close>

function zero_loop :: "u64 list \<Rightarrow> nat \<Rightarrow> u64 \<Rightarrow> u64 \<Rightarrow> u64 \<Rightarrow> u64 \<Rightarrow> u64 option" where
  "zero_loop p count a b c d =
     (if count > 4 then do {
        let count = count - 4;
        w0 \<leftarrow> rd p (count + 0);
        w1 \<leftarrow> rd p (count + 1);
        w2 \<leftarrow> rd p (count + 2);
        w3 \<leftarrow> rd p (count + 3);
        zero_loop p count (a OR w0) (b OR w1) (c OR w2) (d OR w3)
      }
      else Some (a OR (b OR c OR d)))"
  by pat_completeness auto
termination
  by (relation "measure (\<lambda>(p, count, _). count)") auto

declare zero_loop.simps [simp del]

definition memcmp_zero_ptr_aligned_impl :: "u64 list \<Rightarrow> nat \<Rightarrow> u64 option" where
  "memcmp_zero_ptr_aligned_impl p sz = do {
     a \<leftarrow> rd p 0;
     if sz < 32 then
       (if sz > 8 then do {
          w1 \<leftarrow> rd p 1;
          if sz > 16 then do { w2 \<leftarrow> rd p 2; Some (a OR w1 OR w2) }
          else Some (a OR w1)
        }
        else Some a)
     else do {
       b \<leftarrow> rd p 1;
       c \<leftarrow> rd p 2;
       d \<leftarrow> rd p 3;
       zero_loop p (sz div 8) a b c d
     }
   }"

section \<open>Lengths\<close>

fun strlen_impl :: "string \<Rightarrow> nat option" where
  "strlen_impl [] = None"
| "strlen_impl (c # s) = (if c \<noteq> NUL then map_option Suc (strlen_impl s) else Some 0)"

fun strnlen_impl :: "string \<Rightarrow> nat \<Rightarrow> nat option" where
  "strnlen_impl s 0 = Some 0"
| "strnlen_impl [] (Suc n) = None"
| "strnlen_impl (c # s) (Suc n) = (if c \<noteq> NUL then map_option Suc (strnlen_impl s n) else Some 0)"

section \<open>Comparing strings\<close>

fun strcmp_impl :: "string \<Rightarrow> string \<Rightarrow> int option" where
  "strcmp_impl (x # s1) (y # s2) =
     (if schar x \<noteq> schar y then Some (schar x - schar y) else if x \<noteq> NUL then strcmp_impl s1 s2 else Some 0)"
| "strcmp_impl _ _ = None"

text \<open>\<open>strbufcmp\<close> and \<open>strbufcasecmp\<close> differ in what they do to a character before they look at it.  The loop
  returns a result or runs to the end of the shorter buffer.\<close>

function strbufcmp_loop :: "(int \<Rightarrow> int) \<Rightarrow> string \<Rightarrow> string \<Rightarrow> nat \<Rightarrow> nat \<Rightarrow> int option option" where
  "strbufcmp_loop f a b len i =
     (if i < len then do {
        x \<leftarrow> rd a i;
        y \<leftarrow> rd b i;
        let ca = f (schar x);
        let cb = f (schar y);
        if ca \<noteq> cb then Some (Some (ca - cb))
        else if ca = 0 then Some (Some 0)
        else strbufcmp_loop f a b len (Suc i)
      }
      else Some None)"
  by pat_completeness auto
termination
  by (relation "measure (\<lambda>(f, a, b, len, i). len - i)") auto

declare strbufcmp_loop.simps [simp del]

definition strbufcmp_with :: "(int \<Rightarrow> int) \<Rightarrow> string \<Rightarrow> nat \<Rightarrow> string \<Rightarrow> nat \<Rightarrow> int option" where
  "strbufcmp_with f a alen b blen = do {
     let len = (if alen < blen then alen else blen);
     r \<leftarrow> strbufcmp_loop f a b len 0;
     case r of
       Some v \<Rightarrow> Some v
     | None \<Rightarrow>
         if alen < blen then map_option (\<lambda>y. 0 - f (schar y)) (rd b len)
         else if blen < alen then map_option (\<lambda>x. f (schar x) - 0) (rd a len)
         else Some 0
   }"

definition strbufcmp_impl :: "string \<Rightarrow> nat \<Rightarrow> string \<Rightarrow> nat \<Rightarrow> int option" where
  "strbufcmp_impl = strbufcmp_with (\<lambda>ch. ch)"

definition strncmp_impl :: "string \<Rightarrow> string \<Rightarrow> nat \<Rightarrow> int option" where
  "strncmp_impl s1 s2 n = strbufcmp_impl s1 n s2 n"

definition strlcmp_impl :: "string \<Rightarrow> string \<Rightarrow> nat \<Rightarrow> int option" where
  "strlcmp_impl s1 s2 n = do { l \<leftarrow> strlen_impl s2; strbufcmp_impl s1 n s2 l }"

fun strprefix_impl :: "string \<Rightarrow> string \<Rightarrow> bool option" where
  "strprefix_impl s1 [] = None"
| "strprefix_impl s1 (c # s2) =
     (if c = NUL then Some True
      else case s1 of [] \<Rightarrow> None | d # s1 \<Rightarrow> if c \<noteq> d then Some False else strprefix_impl s1 s2)"

fun strcasecmp_impl :: "string \<Rightarrow> string \<Rightarrow> int option" where
  "strcasecmp_impl (x # us1) (y # us2) =
     (if tolower (uchar x) = tolower (uchar y) then (if x = NUL then Some 0 else strcasecmp_impl us1 us2)
      else Some (tolower (uchar x) - tolower (uchar y)))"
| "strcasecmp_impl _ _ = None"

definition strbufcasecmp_impl :: "string \<Rightarrow> nat \<Rightarrow> string \<Rightarrow> nat \<Rightarrow> int option" where
  "strbufcasecmp_impl = strbufcmp_with tolower"

definition strncasecmp_impl :: "string \<Rightarrow> string \<Rightarrow> nat \<Rightarrow> int option" where
  "strncasecmp_impl s1 s2 n = strbufcasecmp_impl s1 n s2 n"

definition strlcasecmp_impl :: "string \<Rightarrow> string \<Rightarrow> nat \<Rightarrow> int option" where
  "strlcasecmp_impl s1 s2 n = do { l \<leftarrow> strlen_impl s2; strbufcasecmp_impl s1 n s2 l }"

section \<open>Searching\<close>

text \<open>A pointer into the string is an index; \<open>Some None\<close> is the null pointer.\<close>

fun strchr_loop :: "nat \<Rightarrow> string \<Rightarrow> int \<Rightarrow> nat option option" where
  "strchr_loop k [] c = None"
| "strchr_loop k (x # s) c = (if schar x = c then Some (Some k) else if x \<noteq> NUL then strchr_loop (Suc k) s c else Some None)"

definition strchr_impl :: "string option \<Rightarrow> int \<Rightarrow> nat option option" where
  "strchr_impl s c = (case s of None \<Rightarrow> Some None | Some s \<Rightarrow> strchr_loop 0 s c)"

fun strrchr_loop :: "nat \<Rightarrow> nat option \<Rightarrow> string \<Rightarrow> int \<Rightarrow> nat option option" where
  "strrchr_loop k found [] c = None"
| "strrchr_loop k found (x # s) c =
     (let found = (if schar x = c then Some k else found)
      in if x \<noteq> NUL then strrchr_loop (Suc k) found s c else Some found)"

definition strrchr_impl :: "string option \<Rightarrow> int \<Rightarrow> nat option option" where
  "strrchr_impl s c = (case s of None \<Rightarrow> Some None | Some s \<Rightarrow> strrchr_loop 0 None s c)"

fun strnstr_loop :: "char \<Rightarrow> string \<Rightarrow> nat \<Rightarrow> nat \<Rightarrow> string \<Rightarrow> nat \<Rightarrow> nat option option" where
  "strnstr_loop c fnd len k [] slen = None"
| "strnstr_loop c fnd len k (sc # s) slen =
     (if sc = NUL \<or> slen < 1 then Some None
      else
        let slen = slen - 1
        in if sc \<noteq> c then strnstr_loop c fnd len (Suc k) s slen
           else if len > slen then Some None
           else do {
             r \<leftarrow> strncmp_impl s fnd len;
             if r \<noteq> 0 then strnstr_loop c fnd len (Suc k) s slen else Some (Some k)
           })"

definition strnstr_impl :: "string \<Rightarrow> string \<Rightarrow> nat \<Rightarrow> nat option option" where
  "strnstr_impl s fnd slen = do {
     c \<leftarrow> rd fnd 0;
     if c \<noteq> NUL then do {
       len \<leftarrow> strlen_impl (tl fnd);
       strnstr_loop c (tl fnd) len 0 s slen
     }
     else Some (Some 0)
   }"

section \<open>Copying\<close>

text \<open>\<open>memcpy\<close> and \<open>memmove\<close> of the architecture to offset \<open>off\<close> of \<open>dst\<close>, \<open>memset\<close>, and an assignment.\<close>

definition memcpy_impl :: "string \<Rightarrow> nat \<Rightarrow> string \<Rightarrow> nat \<Rightarrow> string option" where
  "memcpy_impl dst off src n =
     (if off + n \<le> length dst \<and> n \<le> length src then Some (take off dst @ take n src @ drop (off + n) dst) else None)"

definition memset_impl :: "string \<Rightarrow> nat \<Rightarrow> char \<Rightarrow> nat \<Rightarrow> string option" where
  "memset_impl dst off c n =
     (if off + n \<le> length dst then Some (take off dst @ replicate n c @ drop (off + n) dst) else None)"

definition put :: "string \<Rightarrow> nat \<Rightarrow> char \<Rightarrow> string option" where
  "put dst i c = (if i < length dst then Some (dst[i := c]) else None)"

fun strcpy_impl :: "string \<Rightarrow> string \<Rightarrow> string option" where
  "strcpy_impl (t # to) (c # from) = (if c \<noteq> NUL then map_option (\<lambda>r. c # r) (strcpy_impl to from) else Some (c # to))"
| "strcpy_impl _ _ = None"

definition strncpy_impl :: "string \<Rightarrow> string \<Rightarrow> nat \<Rightarrow> string option" where
  "strncpy_impl dst src maxlen = do {
     srclen \<leftarrow> strnlen_impl src maxlen;
     if srclen < maxlen then do {
       dst \<leftarrow> memcpy_impl dst 0 src srclen;
       memset_impl dst srclen NUL (maxlen - srclen)
     }
     else memcpy_impl dst 0 src maxlen
   }"

definition strlcpy_impl :: "string \<Rightarrow> string \<Rightarrow> nat \<Rightarrow> (nat \<times> string) option" where
  "strlcpy_impl dst src maxlen = do {
     srclen \<leftarrow> strlen_impl src;
     if srclen + 1 < maxlen then do {
       dst \<leftarrow> memcpy_impl dst 0 src (srclen + 1);
       Some (srclen, dst)
     }
     else if maxlen \<noteq> 0 then do {
       dst \<leftarrow> memcpy_impl dst 0 src (maxlen - 1);
       dst \<leftarrow> put dst (maxlen - 1) NUL;
       Some (srclen, dst)
     }
     else Some (srclen, dst)
   }"

text \<open>The result is the null pointer (\<open>False\<close>) or \<open>dst\<close>, at offset \<open>off\<close> of its buffer.\<close>

definition strbufcpy_impl :: "string \<Rightarrow> nat \<Rightarrow> nat \<Rightarrow> string \<Rightarrow> nat \<Rightarrow> (bool \<times> string) option" where
  "strbufcpy_impl dst off dstsz src srcsz =
     (if dstsz = 0 then Some (False, dst)
      else do {
        copymax \<leftarrow> strnlen_impl src srcsz;
        if copymax < dstsz then do {
          dst \<leftarrow> memcpy_impl dst off src copymax;
          dst \<leftarrow> put dst (off + copymax) NUL;
          Some (True, dst)
        }
        else do {
          dst \<leftarrow> memcpy_impl dst off src dstsz;
          dst \<leftarrow> put dst (off + (dstsz - 1)) NUL;
          Some (True, dst)
        }
      })"

definition strbufcat_impl :: "string \<Rightarrow> nat \<Rightarrow> string \<Rightarrow> nat \<Rightarrow> (bool \<times> string) option" where
  "strbufcat_impl dst dstsz src srcsz =
     (if dstsz = 0 then Some (False, dst)
      else do {
        len \<leftarrow> strnlen_impl dst dstsz;
        (_, dst) \<leftarrow> strbufcpy_impl dst len (dstsz - len) src srcsz;
        Some (True, dst)
      })"

fun strcat_impl :: "string \<Rightarrow> string \<Rightarrow> string option" where
  "strcat_impl [] src = None"
| "strcat_impl (c # dest) src =
     (if c \<noteq> NUL then map_option (\<lambda>r. c # r) (strcat_impl dest src) else strcpy_impl (c # dest) src)"

text \<open>The loops of \<open>strlcat\<close>: to the end of \<open>dst\<close>, and over \<open>src\<close> with room for \<open>n\<close> characters from \<open>d\<close> on.\<close>

fun strlcat_scan :: "string \<Rightarrow> nat \<Rightarrow> nat \<Rightarrow> nat option" where
  "strlcat_scan dst 0 d = Some d"
| "strlcat_scan dst (Suc n) d = do { c \<leftarrow> rd dst d; if c \<noteq> NUL then strlcat_scan dst n (Suc d) else Some d }"

fun strlcat_copy :: "string \<Rightarrow> nat \<Rightarrow> nat \<Rightarrow> string \<Rightarrow> (string \<times> nat) option" where
  "strlcat_copy dst d n [] = None"
| "strlcat_copy dst d n (c # s) =
     (if c \<noteq> NUL then
        (if n \<noteq> 1 then do { dst \<leftarrow> put dst d c; strlcat_copy dst (Suc d) (n - 1) s }
         else strlcat_copy dst d n s)
      else Some (dst, d))"

definition strlcat_impl :: "string \<Rightarrow> string \<Rightarrow> nat \<Rightarrow> (nat \<times> string) option" where
  "strlcat_impl dst src siz = do {
     dlen \<leftarrow> strlcat_scan dst siz 0;
     let n = siz - dlen;
     slen \<leftarrow> strlen_impl src;
     if n = 0 then Some (dlen + slen, dst)
     else do {
       (dst, d) \<leftarrow> strlcat_copy dst dlen n src;
       dst \<leftarrow> put dst d NUL;
       Some (dlen + slen, dst)
     }
   }"

fun strncat_copy :: "string \<Rightarrow> nat \<Rightarrow> string \<Rightarrow> nat \<Rightarrow> string option" where
  "strncat_copy s1 d s 0 = put s1 d NUL"
| "strncat_copy s1 d [] (Suc n) = None"
| "strncat_copy s1 d (c # s) (Suc n) = do {
     s1 \<leftarrow> put s1 d c;
     if c = NUL then put s1 d NUL else strncat_copy s1 (Suc d) s n
   }"

definition strncat_impl :: "string \<Rightarrow> string \<Rightarrow> nat \<Rightarrow> string option" where
  "strncat_impl s1 s2 n =
     (if n \<noteq> 0 then do { d \<leftarrow> strlen_impl s1; strncat_copy s1 d s2 n } else Some s1)"

section \<open>Numbers\<close>

fun atoi_loop :: "int \<Rightarrow> string \<Rightarrow> int option" where
  "atoi_loop number [] = None"
| "atoi_loop number (c # cp) =
     (if 48 \<le> schar c \<and> schar c \<le> 57 then
        (let number = number * 10 + (schar c - 48) in if number < 2 ^ 31 then atoi_loop number cp else None)
      else Some number)"

definition atoi :: "string \<Rightarrow> int option" where
  "atoi cp = atoi_loop 0 cp"

text \<open>The digits of \<open>itoa\<close>, last digit first, as they are put into an array of 11.\<close>

function itoa_digits :: "int \<Rightarrow> string" where
  "itoa_digits num = (if num = 0 then [] else to_char (48 + num smod 10) # itoa_digits (num sdiv 10))"
  by pat_completeness auto
termination
proof (relation "measure (\<lambda>num. nat \<bar>num\<bar>)")
  fix num :: int
  assume "num \<noteq> 0"
  then have "\<bar>num\<bar> div 10 < \<bar>num\<bar>" by (intro int_div_less_self) auto
  then show "(num sdiv 10, num) \<in> measure (\<lambda>num. nat \<bar>num\<bar>)"
    by (simp add: signed_divide_int_def abs_mult)
qed simp

declare itoa_digits.simps [simp del]

definition itoa :: "int \<Rightarrow> string \<Rightarrow> string option" where
  "itoa num str =
     (if num = 0 then memcpy_impl str 0 [CHR ''0'', NUL] 2
      else
        let digits = itoa_digits num
        in if length digits > 11 then None
           else memcpy_impl str 0 (rev digits @ [NUL]) (length digits + 1))"

section \<open>Checked variants\<close>

definition memcpy_chk :: "string \<Rightarrow> string \<Rightarrow> nat \<Rightarrow> nat \<Rightarrow> string option" where
  "memcpy_chk dst src s chk_size = (if chk_size < s then None else memcpy_impl dst 0 src s)"

definition memmove_chk :: "string \<Rightarrow> string \<Rightarrow> nat \<Rightarrow> nat \<Rightarrow> string option" where
  "memmove_chk dst src s chk_size = (if chk_size < s then None else memcpy_impl dst 0 src s)"

definition memset_chk :: "string \<Rightarrow> char \<Rightarrow> nat \<Rightarrow> nat \<Rightarrow> string option" where
  "memset_chk dst c s chk_size = (if chk_size < s then None else memset_impl dst 0 c s)"

definition strlcat_chk :: "string \<Rightarrow> string \<Rightarrow> nat \<Rightarrow> nat \<Rightarrow> (nat \<times> string) option" where
  "strlcat_chk dst src s chk_size = (if chk_size < s then None else strlcat_impl dst src s)"

definition strlcpy_chk :: "string \<Rightarrow> string \<Rightarrow> nat \<Rightarrow> nat \<Rightarrow> (nat \<times> string) option" where
  "strlcpy_chk dst src s chk_size = (if chk_size < s then None else strlcpy_impl dst src s)"

definition strncpy_chk :: "string \<Rightarrow> string \<Rightarrow> nat \<Rightarrow> nat \<Rightarrow> string option" where
  "strncpy_chk dst src len chk_size = (if chk_size < len then None else strncpy_impl dst src len)"

definition strncat_chk :: "string \<Rightarrow> string \<Rightarrow> nat \<Rightarrow> nat \<Rightarrow> string option" where
  "strncat_chk dst src len chk_size = do {
     len1 \<leftarrow> strlen_impl dst;
     len2 \<leftarrow> strnlen_impl src len;
     if chk_size < len1 + len2 + 1 then None else strncat_impl dst src len
   }"

definition strcpy_chk :: "string \<Rightarrow> string \<Rightarrow> nat \<Rightarrow> string option" where
  "strcpy_chk dst src chk_size = do {
     len \<leftarrow> strlen_impl src;
     if chk_size < len + 1 then None else memcpy_impl dst 0 src (len + 1)
   }"

definition strcat_chk :: "string \<Rightarrow> string \<Rightarrow> nat \<Rightarrow> string option" where
  "strcat_chk dst src chk_size = do {
     len1 \<leftarrow> strlen_impl dst;
     len2 \<leftarrow> strlen_impl src;
     if chk_size < len1 + len2 + 1 then None else memcpy_impl dst len1 src (len2 + 1)
   }"

end
