(* ===== verification/Kern_Strings_Facts.thy ===== *)
theory Kern_Strings_Facts
  imports Kern_Strings
begin

text \<open>
  What the routines of \<open>Kern_Strings\<close> compute, in terms of the string that a buffer holds: its characters before
  the first NUL.
\<close>

section \<open>The string in a buffer\<close>

definition ctext :: "string \<Rightarrow> string" where
  "ctext s = takeWhile (\<lambda>c. c \<noteq> NUL) s"

lemma ctext_simps [simp]: "ctext [] = []" "ctext (c # s) = (if c = NUL then [] else c # ctext s)"
  by (simp_all add: ctext_def)

lemma ctext_no_nul [simp]: "NUL \<notin> set (ctext s)"
  by (induction s) auto

lemma ctext_append: "NUL \<notin> set s \<Longrightarrow> ctext (s @ t) = s @ ctext t"
  by (induction s) auto

lemma ctext_id: "NUL \<notin> set s \<Longrightarrow> ctext s = s"
  by (induction s) auto

lemma terminated_split: "NUL \<in> set s \<Longrightarrow> s = ctext s @ NUL # drop (Suc (length (ctext s))) s"
  by (induction s) auto

lemma ctext_length: "length (ctext s) \<le> length s" "NUL \<in> set s \<Longrightarrow> length (ctext s) < length s"
  by (induction s) auto

lemma ctext_take: "take n (ctext s) = ctext (take n s)"
  by (induction s arbitrary: n) (auto simp: take_Cons split: nat.split)

lemma take_ctext: "n \<le> length (ctext s) \<Longrightarrow> take n s = take n (ctext s)"
  by (induction s arbitrary: n) (auto simp: take_Cons split: nat.split if_splits)

lemma strlen_impl_eq: "strlen_impl s = (if NUL \<in> set s then Some (length (ctext s)) else None)"
  by (induction s) auto

lemma strnlen_impl_eq:
  "NUL \<in> set s \<or> n \<le> length s \<Longrightarrow> strnlen_impl s n = Some (min n (length (ctext s)))"
  by (induction s n rule: strnlen_impl.induct) auto

section \<open>Bounded copies\<close>

lemma strlcpy_spec:
  assumes "NUL \<in> set src" "n \<le> length dst"
  shows "strlcpy_impl dst src n = Some (length (ctext src),
    if n = 0 then dst else take (n - 1) (ctext src) @ NUL # drop (Suc (min (n - 1) (length (ctext src)))) dst)"
proof (cases "Suc (length (ctext src)) < n")
  case True
  have "take (Suc (length (ctext src))) src = ctext src @ [NUL]"
    by (subst terminated_split [OF assms(1)]) simp
  then show ?thesis
    using True assms ctext_length(2) [OF assms(1)] by (simp add: strlcpy_impl_def strlen_impl_eq memcpy_impl_def)
next
  case False
  then have "take (n - 1) src = take (n - 1) (ctext src)" by (intro take_ctext) simp
  then show ?thesis
    using False assms ctext_length(2) [OF assms(1)]
    by (cases n) (auto simp: strlcpy_impl_def strlen_impl_eq memcpy_impl_def put_def list_update_append upd_conv_take_nth_drop min_def)
qed

lemma strlcat_scan_eq:
  "d + n \<le> length dst \<Longrightarrow> strlcat_scan dst n d = Some (d + length (ctext (take n (drop d dst))))"
proof (induction n arbitrary: d)
  case (Suc n)
  then have "take (Suc n) (drop d dst) = dst ! d # take n (drop (Suc d) dst)"
    by (simp add: Cons_nth_drop_Suc [symmetric])
  then show ?case using Suc by (simp add: rd_def)
qed simp

lemma strlcat_copy_eq:
  assumes "NUL \<in> set src" "0 < n" "d + n \<le> length dst"
  shows "strlcat_copy dst d n src = Some (take d dst @ take (n - 1) (ctext src) @ drop (d + min (n - 1) (length (ctext src))) dst,
    d + min (n - 1) (length (ctext src)))"
  using assms
proof (induction src arbitrary: dst d n)
  case (Cons c src)
  show ?case
  proof (cases "c = NUL \<or> n = 1")
    case True
    then show ?thesis using Cons by auto
  next
    case False
    then have n: "1 < n" "d < length dst" using Cons.prems by auto
    have "strlcat_copy (dst[d := c]) (Suc d) (n - 1) src = Some (take (Suc d) (dst[d := c]) @ take (n - 1 - 1) (ctext src) @
        drop (Suc d + min (n - 1 - 1) (length (ctext src))) (dst[d := c]), Suc d + min (n - 1 - 1) (length (ctext src)))"
      using Cons.prems False n by (intro Cons.IH) auto
    moreover have "take (Suc d) (dst[d := c]) = take d dst @ [c]" using n by (simp add: take_Suc_conv_app_nth)
    ultimately show ?thesis using False n by (cases n) (auto simp: put_def take_Cons' min_def)
  qed
qed simp

lemma strlcat_spec:
  assumes "NUL \<in> set src" "n \<le> length dst"
  defines "t \<equiv> ctext (take n dst)"
  shows "strlcat_impl dst src n = Some (length t + length (ctext src),
    if length t = n then dst
    else t @ take (n - 1 - length t) (ctext src) @ NUL # drop (Suc (length t + min (n - 1 - length t) (length (ctext src)))) dst)"
proof -
  have scan: "strlcat_scan dst n 0 = Some (length t)" using strlcat_scan_eq [of 0 n dst] assms(2) by (simp add: t_def)
  have le: "length t \<le> n" using ctext_length(1) [of "take n dst"] by (simp add: t_def)
  have pre: "take (length t) dst = t"
  proof -
    have "take (length t) (take n dst) = t" using take_ctext [of "length t" "take n dst"] by (simp add: t_def)
    then show ?thesis using le by (simp add: min_absorb1)
  qed
  show ?thesis
  proof (cases "length t = n")
    case True
    then show ?thesis using scan assms(1) by (simp add: strlcat_impl_def strlen_impl_eq)
  next
    case False
    let ?k = "min (n - length t - 1) (length (ctext src))"
    have "strlcat_copy dst (length t) (n - length t) src = Some (take (length t) dst @ take (n - length t - 1) (ctext src) @
        drop (length t + ?k) dst, length t + ?k)"
      using assms(1,2) False le by (intro strlcat_copy_eq) auto
    moreover have "length t + ?k < length dst" using False le assms(2) by auto
    then have "drop (length t + ?k) dst = dst ! (length t + ?k) # drop (Suc (length t + ?k)) dst" by (rule Cons_nth_drop_Suc [symmetric])
    ultimately show ?thesis
      using scan assms(1) False le pre by (simp add: strlcat_impl_def strlen_impl_eq put_def list_update_append min.commute)
  qed
qed

text \<open>C26. \<open>strlcpy\<close> and \<open>strlcat\<close> never leave a destination of the size they are told: on a terminated source they
  return, the string in the destination is the intended one cut off after \<open>siz - 1\<close> characters and terminated,
  everything behind the terminator is as before, and the result is the length the full string would have.\<close>
theorem strl_truncates:
  assumes "NUL \<in> set src" "siz \<le> length dst"
  shows "\<exists>cpy cat. strlcpy_impl dst src siz = Some (length (ctext src), cpy) \<and> length cpy = length dst \<and>
      (if siz = 0 then cpy = dst
       else NUL \<in> set (take siz cpy) \<and> ctext cpy = take (siz - 1) (ctext src) \<and>
         drop (Suc (length (ctext cpy))) cpy = drop (Suc (length (ctext cpy))) dst) \<and>
    strlcat_impl dst src siz = Some (length (ctext (take siz dst)) + length (ctext src), cat) \<and> length cat = length dst \<and>
      (if NUL \<in> set (take siz dst)
       then NUL \<in> set (take siz cat) \<and> ctext cat = take (siz - 1) (ctext dst @ ctext src) \<and>
         drop (Suc (length (ctext cat))) cat = drop (Suc (length (ctext cat))) dst
       else cat = dst)"
proof -
  define s t where "s = ctext src" and "t = ctext (take siz dst)"
  define cpy where "cpy = (if siz = 0 then dst else take (siz - 1) s @ NUL # drop (Suc (min (siz - 1) (length s))) dst)"
  have nn: "NUL \<notin> set (take k s)" for k using ctext_no_nul [of src] unfolding s_def by (meson in_set_takeD)
  have run: "strlcpy_impl dst src siz = Some (length s, cpy)" unfolding s_def cpy_def by (rule strlcpy_spec [OF assms])
  have cpy: "length cpy = length dst" "if siz = 0 then cpy = dst
       else NUL \<in> set (take siz cpy) \<and> ctext cpy = take (siz - 1) s \<and> drop (Suc (length (ctext cpy))) cpy = drop (Suc (length (ctext cpy))) dst"
    using assms(2) nn [of "siz - 1"] by (auto simp: cpy_def ctext_append min.commute take_Cons')
  define cat where "cat = (if length t = siz then dst
    else t @ take (siz - 1 - length t) s @ NUL # drop (Suc (length t + min (siz - 1 - length t) (length s))) dst)"
  have cat: "strlcat_impl dst src siz = Some (length t + length s, cat)" unfolding s_def t_def cat_def by (rule strlcat_spec [OF assms])
  have "length cat = length dst \<and> (if NUL \<in> set (take siz dst)
       then NUL \<in> set (take siz cat) \<and> ctext cat = take (siz - 1) (ctext dst @ s) \<and>
         drop (Suc (length (ctext cat))) cat = drop (Suc (length (ctext cat))) dst
       else cat = dst)"
  proof (cases "NUL \<in> set (take siz dst)")
    case True
    have lt: "length t < siz" using ctext_length(2) [OF True] by (simp add: t_def)
    have td: "ctext dst = t"
      using True terminated_split [OF True] unfolding t_def
      by (metis append_take_drop_id ctext_append ctext_no_nul ctext_simps(2) append.assoc append_Cons append_Nil2)
    have ct: "cat = t @ take (siz - 1 - length t) s @ NUL # drop (Suc (length t + min (siz - 1 - length t) (length s))) dst"
      using lt by (simp add: cat_def)
    have cat_text: "ctext cat = take (siz - 1) (t @ s)" using lt nn by (simp add: ct ctext_append) (simp add: t_def ctext_append)
    then have "length (ctext cat) = length t + min (siz - 1 - length t) (length s)" using lt by auto
    then show ?thesis unfolding td using True lt assms(2) cat_text by (auto simp: ct min.commute take_Cons')
  next
    case False
    then show ?thesis using assms(2) by (simp add: cat_def t_def ctext_id)
  qed
  then show ?thesis using run cpy cat unfolding s_def t_def by blast
qed

theorem strl_truncates_witness:
  "\<exists>cpy cat. strlcpy_impl ''abcd'' (''xyz'' @ [NUL]) 3 = Some (3, cpy) \<and> ctext cpy = ''xy'' \<and>
     strlcat_impl (CHR ''a'' # NUL # ''cd'') (''xyz'' @ [NUL]) 4 = Some (4, cat) \<and> ctext cat = ''axy''"
proof -
  obtain cpy where "strlcpy_impl ''abcd'' (''xyz'' @ [NUL]) 3 = Some (3, cpy)" "ctext cpy = ''xy''"
    using strl_truncates [of "''xyz'' @ [NUL]" 3 "''abcd''"] by auto
  moreover obtain cat where "strlcat_impl (CHR ''a'' # NUL # ''cd'') (''xyz'' @ [NUL]) 4 = Some (4, cat)" "ctext cat = ''axy''"
    using strl_truncates [of "''xyz'' @ [NUL]" 4 "CHR ''a'' # NUL # ''cd''"] by auto
  ultimately show ?thesis by blast
qed

section \<open>Comparisons\<close>

lemma uchar_bounds: "0 \<le> uchar c" "uchar c < 256"
  using nat_of_char_less_256 [of c] by (simp_all add: uchar_def)

lemma uchar_inj [simp]: "uchar x = uchar y \<longleftrightarrow> x = y"
  by (simp add: uchar_def)

lemma schar_inj [simp]: "schar x = schar y \<longleftrightarrow> x = y"
proof
  assume "schar x = schar y"
  then have "take_bit 8 (uchar x) = take_bit 8 (uchar y)" by (simp add: schar_def uchar_def signed_take_bit_eq_iff_take_bit_eq)
  then show "x = y" using uchar_bounds [of x] uchar_bounds [of y] by (simp add: take_bit_int_eq_self)
qed simp

lemma schar_nul [simp]: "schar NUL = 0" "schar x = 0 \<longleftrightarrow> x = NUL"
proof -
  show z: "schar NUL = 0" by (simp add: schar_def)
  show "schar x = 0 \<longleftrightarrow> x = NUL" using schar_inj [of x NUL] by (simp only: z)
qed

text \<open>The common loop on what is left of the two buffers.\<close>

lemma strbufcmp_with_Cons:
  assumes "f 0 = 0" "\<And>x. f (schar x) = 0 \<Longrightarrow> x = NUL"
  shows "strbufcmp_with f (x # a) (Suc n) (y # b) (Suc m) =
    (if f (schar x) \<noteq> f (schar y) then Some (f (schar x) - f (schar y)) else if x = NUL then Some 0 else strbufcmp_with f a n b m)"
proof -
  have shift: "strbufcmp_loop f (x # a) (y # b) (Suc k) (Suc i) = strbufcmp_loop f a b k i" for k i
    by (induction f a b k i rule: strbufcmp_loop.induct)
      (subst strbufcmp_loop.simps, subst (2) strbufcmp_loop.simps, auto simp: rd_def Let_def split: bind_splits)
  have nul: "f (schar x) = 0 \<longleftrightarrow> x = NUL" using assms by auto
  have first: "strbufcmp_loop f (x # a) (y # b) (Suc k) 0 = (if f (schar x) \<noteq> f (schar y) then Some (Some (f (schar x) - f (schar y)))
      else if x = NUL then Some (Some 0) else strbufcmp_loop f a b k 0)" for k
    using assms(1) by (subst strbufcmp_loop.simps) (simp add: rd_def Let_def shift nul)
  have rd: "rd (x # a) (Suc k) = rd a k" "rd (y # b) (Suc k) = rd b k" for k by (simp_all add: rd_def)
  show ?thesis
    unfolding strbufcmp_with_def Let_def Suc_less_eq if_distrib [of Suc, symmetric] first rd
    by (auto simp: first rd)
qed

lemmas strbufcmp_plain_Cons = strbufcmp_with_Cons [of "\<lambda>ch. ch", simplified]

lemma strbufcmp_with_Nil:
  "strbufcmp_with f a 0 (y # b) (Suc m) = Some (- f (schar y))" "strbufcmp_with f (x # a) (Suc n) b 0 = Some (f (schar x))"
  "strbufcmp_with f a 0 b 0 = Some 0"
  by (simp_all add: strbufcmp_with_def strbufcmp_loop.simps rd_def Let_def)

lemma strbufcmp_impl_views:
  assumes "alen \<le> length a \<or> NUL \<in> set a" "blen \<le> length b \<or> NUL \<in> set b"
  shows "strbufcmp_impl a alen b blen = strcmp_impl (ctext (take alen a) @ [NUL]) (ctext (take blen b) @ [NUL])"
  using assms
proof (induction a arbitrary: alen b blen)
  case Nil
  then show ?case
    by (cases b; cases blen) (auto simp: strbufcmp_impl_def strbufcmp_with_Nil)
next
  case (Cons x a)
  show ?case
  proof (cases alen)
    case 0
    then show ?thesis using Cons.prems
      by (cases b; cases blen) (auto simp: strbufcmp_impl_def strbufcmp_with_Nil)
  next
    case (Suc n)
    show ?thesis
    proof (cases blen)
      case 0
      then show ?thesis using Suc by (auto simp: strbufcmp_impl_def strbufcmp_with_Nil)
    next
      case (Suc m)
      then obtain y b' where "b = y # b'" using Cons.prems by (cases b) auto
      then show ?thesis
        using Cons Suc \<open>alen = Suc n\<close> by (auto simp: strbufcmp_impl_def strbufcmp_plain_Cons)
    qed
  qed
qed

lemma strcmp_texts:
  "NUL \<notin> set s \<Longrightarrow> NUL \<notin> set t \<Longrightarrow> \<exists>r. strcmp_impl (s @ [NUL]) (t @ [NUL]) = Some r \<and> (r = 0 \<longleftrightarrow> s = t)"
proof (induction s arbitrary: t)
  case Nil
  then show ?case by (cases t) auto
next
  case (Cons x s)
  then show ?case by (cases t) auto
qed

text \<open>The same for buffers that end early with their terminator.\<close>

lemma strcmp_impl_ctext: "NUL \<in> set s \<Longrightarrow> NUL \<in> set t \<Longrightarrow> strcmp_impl s t = strcmp_impl (ctext s @ [NUL]) (ctext t @ [NUL])"
  by (induction s t rule: strcmp_impl.induct) auto

section \<open>Memory\<close>

lemma bcmp_loop_eq:
  assumes "unat len \<le> length a" "unat len \<le> length b" "0 < unat len"
  shows "\<exists>r. bcmp_loop a b len = Some r \<and> (r = 0 \<longleftrightarrow> take (unat len) a = take (unat len) b)"
  using assms
proof (induction a b len rule: bcmp_loop.induct)
  case (1 x a y b len)
  have u: "unat len = Suc (unat (len - 1))" using 1(4) by (simp add: unat_minus_one unat_gt_0)
  show ?case
  proof (cases "len - 1 = 0")
    case True
    then have "unat len = 1" using u by simp
    then show ?thesis using True 1(4) by (auto simp: unat_gt_0)
  next
    case False
    then have "0 < unat (len - 1)" by (simp add: unat_gt_0)
    then have "x = y \<Longrightarrow> \<exists>r. bcmp_loop a b (len - 1) = Some r \<and> (r = 0 \<longleftrightarrow> take (unat (len - 1)) a = take (unat (len - 1)) b)"
      using 1 False u by auto
    moreover have "len \<noteq> 0" using 1(4) by auto
    ultimately show ?thesis using False unfolding u by auto
  qed
qed auto

lemma bcmp_result_zero:
  fixes len :: u64
  shows "(if len AND 0xFFFFFFFF00000000 \<noteq> 0 \<and> len AND 0x00000000FFFFFFFF = 0 then - 1 else sint (ucast len :: u32)) = 0 \<longleftrightarrow> len = 0"
proof -
  have m: "(0xFFFFFFFF :: u64) = mask 32" "(0xFFFFFFFF00000000 :: u64) = NOT (mask 32)" by (simp_all add: mask_eq_exp_minus_1)
  have low: "(ucast len :: u32) = 0 \<longleftrightarrow> len AND mask 32 = 0"
  proof
    assume "(ucast len :: u32) = 0"
    then have "\<not> bit (ucast len :: u32) n" for n by simp
    then show "len AND mask 32 = 0" unfolding bit_eq_iff [of "len AND mask 32"] by (auto simp: bit_simps)
  next
    assume zero: "len AND mask 32 = 0"
    have "\<not> bit len n" if "n < 32" for n
    proof -
      have "\<not> bit (len AND mask 32) n" using zero by simp
      then show ?thesis using that by (simp add: bit_simps)
    qed
    then show "(ucast len :: u32) = 0" unfolding bit_eq_iff [of "ucast len :: u32"] by (auto simp: bit_simps)
  qed
  have "len = 0" if "len AND mask 32 = 0" "len AND NOT (mask 32) = 0"
  proof -
    have "len = (len AND mask 32) OR (len AND NOT (mask 32))" by (auto simp: bit_eq_iff [of len] bit_simps)
    then show ?thesis using that by simp
  qed
  then show ?thesis unfolding m using low by (auto simp: signed_eq_0_iff)
qed

lemma bcmp_zero_iff:
  assumes "unat len \<le> length a" "unat len \<le> length b"
  shows "\<exists>r. bcmp_impl a b len = Some r \<and> (r = 0 \<longleftrightarrow> take (unat len) a = take (unat len) b)"
proof (cases "len = 0")
  case False
  then obtain l where l: "bcmp_loop a b len = Some l" "l = 0 \<longleftrightarrow> take (unat len) a = take (unat len) b"
    using bcmp_loop_eq [OF assms] by (auto simp: unat_gt_0)
  then show ?thesis using False bcmp_result_zero [of l] by (simp add: bcmp_impl_def)
qed (simp add: bcmp_impl_def)

lemma memcmp_zero_iff:
  assumes "n \<le> length a" "n \<le> length b"
  shows "\<exists>r. memcmp_impl a b n = Some r \<and> (r = 0 \<longleftrightarrow> take n a = take n b)"
  using assms
proof (induction a b n rule: memcmp_impl.induct)
  case (2 x a y b n)
  then show ?case by auto
qed auto

lemma or_zero_iff: "x OR y = 0 \<longleftrightarrow> x = 0 \<and> y = 0" for x y :: u64
proof -
  have "x = 0 \<and> y = 0" if z: "x OR y = 0"
  proof -
    have "\<not> bit (x OR y) n" for n using z by simp
    then have n: "\<not> bit x n" "\<not> bit y n" for n by (simp_all add: bit_or_iff)
    show ?thesis unfolding bit_eq_iff [of x] bit_eq_iff [of y] using n by simp
  qed
  then show ?thesis by auto
qed

lemma zero_loop_eq:
  assumes "count \<le> length p"
  shows "\<exists>r m. zero_loop p count a b c d = Some r \<and> m \<le> 4 \<and>
    (r = 0 \<longleftrightarrow> a = 0 \<and> b = 0 \<and> c = 0 \<and> d = 0 \<and> (\<forall>k. m \<le> k \<and> k < count \<longrightarrow> p ! k = 0))"
  using assms
proof (induction p count a b c d rule: zero_loop.induct)
  case (1 p count a b c d)
  show ?case
  proof (cases "count > 4")
    case True
    let ?j = "count - 4"
    have rd: "rd p (?j + 0) = Some (p ! ?j)" "rd p (?j + 1) = Some (p ! (?j + 1))" "rd p (?j + 2) = Some (p ! (?j + 2))" "rd p (?j + 3) = Some (p ! (?j + 3))"
      using True 1(2) by (auto simp: rd_def)
    let ?z = "zero_loop p ?j (a OR p ! ?j) (b OR p ! (?j + 1)) (c OR p ! (?j + 2)) (d OR p ! (?j + 3))"
    have le: "?j \<le> length p" using 1(2) by simp
    have "\<exists>r m. ?z = Some r \<and> m \<le> 4 \<and> (r = 0 \<longleftrightarrow> a OR p ! ?j = 0 \<and> b OR p ! (?j + 1) = 0 \<and> c OR p ! (?j + 2) = 0 \<and> d OR p ! (?j + 3) = 0 \<and>
        (\<forall>k. m \<le> k \<and> k < ?j \<longrightarrow> p ! k = 0))" by (rule 1(1) [OF True refl rd le])
    then obtain r m where r: "?z = Some r" "m \<le> 4"
      "r = 0 \<longleftrightarrow> a OR p ! ?j = 0 \<and> b OR p ! (?j + 1) = 0 \<and> c OR p ! (?j + 2) = 0 \<and> d OR p ! (?j + 3) = 0 \<and> (\<forall>k. m \<le> k \<and> k < ?j \<longrightarrow> p ! k = 0)"
      by (elim exE conjE)
    have four: "k < ?j \<or> k = ?j \<or> k = ?j + 1 \<or> k = ?j + 2 \<or> k = ?j + 3" if "k < count" for k using that by auto
    have "zero_loop p count a b c d = Some r" using True r(1) rd by (subst zero_loop.simps) (simp add: Let_def)
    moreover have "r = 0 \<longleftrightarrow> a = 0 \<and> b = 0 \<and> c = 0 \<and> d = 0 \<and> (\<forall>k. min m ?j \<le> k \<and> k < count \<longrightarrow> p ! k = 0)"
    proof
      assume "r = 0"
      then have z: "a = 0" "b = 0" "c = 0" "d = 0" "p ! ?j = 0" "p ! (?j + 1) = 0" "p ! (?j + 2) = 0" "p ! (?j + 3) = 0"
        "\<And>k. m \<le> k \<Longrightarrow> k < ?j \<Longrightarrow> p ! k = 0" using r(3) by (auto simp: or_zero_iff)
      have "p ! k = 0" if "min m ?j \<le> k" "k < count" for k using four [OF that(2)] z that(1) by (auto simp: min_def split: if_splits)
      then show "a = 0 \<and> b = 0 \<and> c = 0 \<and> d = 0 \<and> (\<forall>k. min m ?j \<le> k \<and> k < count \<longrightarrow> p ! k = 0)" using z by blast
    next
      assume z: "a = 0 \<and> b = 0 \<and> c = 0 \<and> d = 0 \<and> (\<forall>k. min m ?j \<le> k \<and> k < count \<longrightarrow> p ! k = 0)"
      have top: "p ! (?j + i) = 0" if "i < 4" for i
      proof -
        have "min m ?j \<le> ?j + i" "?j + i < count" using that True by auto
        then show ?thesis using z by blast
      qed
      have "\<forall>k. m \<le> k \<and> k < ?j \<longrightarrow> p ! k = 0" using z by auto
      then show "r = 0" using r(3) z top [of 0] top [of 1] top [of 2] top [of 3] by (simp add: or_zero_iff)
    qed
    ultimately show ?thesis using r(2) by (intro exI [of _ r] exI [of _ "min m ?j"]) simp
  next
    case False
    then show ?thesis by (subst zero_loop.simps) (auto simp: or_zero_iff intro: exI [of _ 4])
  qed
qed

lemma memcmp_zero_aligned_iff:
  assumes "8 \<le> n" "n mod 8 = 0" "n div 8 \<le> length p"
  shows "\<exists>r. memcmp_zero_ptr_aligned_impl p n = Some r \<and> (r = 0 \<longleftrightarrow> (\<forall>w\<in>set (take (n div 8) p). w = 0))"
proof -
  obtain q where q: "n = 8 * q" "1 \<le> q" "q \<le> length p" using assms by (auto elim: dvdE simp: mod_eq_0_iff_dvd)
  have all: "(\<forall>w\<in>set (take (n div 8) p). w = 0) \<longleftrightarrow> (\<forall>k<q. p ! k = 0)" using q by (auto simp: all_set_conv_all_nth)
  have rd: "rd p k = Some (p ! k)" if "k < q" for k using that q by (simp add: rd_def)
  show ?thesis
  proof (cases "q < 4")
    case True
    then consider "q = 1" | "q = 2" | "q = 3" using q by linarith
    then show ?thesis
    proof cases
      case 1
      then show ?thesis unfolding all using rd [of 0] by (simp add: memcmp_zero_ptr_aligned_impl_def q(1))
    next
      case 2
      then show ?thesis
        unfolding all using rd [of 0] rd [of 1] by (simp add: memcmp_zero_ptr_aligned_impl_def q(1) or_zero_iff numeral_2_eq_2 All_less_Suc conj_commute)
    next
      case 3
      then show ?thesis
        unfolding all using rd [of 0] rd [of 1] rd [of 2]
        by (simp add: memcmp_zero_ptr_aligned_impl_def q(1) or_zero_iff numeral_3_eq_3 numeral_2_eq_2 All_less_Suc) blast
    qed
  next
    case False
    obtain r m where r: "zero_loop p q (p ! 0) (p ! 1) (p ! 2) (p ! 3) = Some r" "m \<le> 4"
      "r = 0 \<longleftrightarrow> p ! 0 = 0 \<and> p ! 1 = 0 \<and> p ! 2 = 0 \<and> p ! 3 = 0 \<and> (\<forall>k. m \<le> k \<and> k < q \<longrightarrow> p ! k = 0)"
      using zero_loop_eq [OF q(3), of "p ! 0" "p ! 1" "p ! 2" "p ! 3"] by (elim exE conjE)
    have "r = 0 \<longleftrightarrow> (\<forall>k<q. p ! k = 0)"
    proof
      assume z: "r = 0"
      have "p ! k = 0" if "k < q" for k
      proof (cases "m \<le> k")
        case False
        then have "k = 0 \<or> k = 1 \<or> k = 2 \<or> k = 3" using r(2) by linarith
        then show ?thesis using z r(3) by auto
      qed (use z r(3) that in blast)
      then show "\<forall>k<q. p ! k = 0" by blast
    qed (use r(3) False in simp)
    moreover have "memcmp_zero_ptr_aligned_impl p n = Some r" using False q r(1) rd by (simp add: memcmp_zero_ptr_aligned_impl_def)
    ultimately show ?thesis unfolding all by blast
  qed
qed

text \<open>C27. The comparison routines decide equality: \<open>strbufcmp\<close>, and with it \<open>strncmp\<close> and \<open>strlcmp\<close>, computes what
  \<open>strcmp\<close> does on the strings the two buffers hold, terminated or not; \<open>bcmp\<close>, which returns what is left of the
  64-bit count, and \<open>memcmp\<close> are zero exactly on equal bytes; and the unrolled \<open>memcmp_zero_ptr_aligned\<close> is zero
  exactly when every word is.\<close>
theorem comparisons_decide:
  assumes "n \<le> length a" "m \<le> length b"
  shows "(\<exists>r. strbufcmp_impl a n b m = Some r \<and> strcmp_impl (ctext (take n a) @ [NUL]) (ctext (take m b) @ [NUL]) = Some r \<and>
      (r = 0 \<longleftrightarrow> ctext (take n a) = ctext (take m b))) \<and>
    (\<forall>len. unat len \<le> min n m \<longrightarrow> (\<exists>r q. bcmp_impl a b len = Some r \<and> memcmp_impl a b (unat len) = Some q \<and>
      (r = 0 \<longleftrightarrow> take (unat len) a = take (unat len) b) \<and> (q = 0 \<longleftrightarrow> take (unat len) a = take (unat len) b))) \<and>
    (\<forall>p k. 0 < k \<and> k \<le> length p \<longrightarrow> (\<exists>r. memcmp_zero_ptr_aligned_impl p (8 * k) = Some r \<and> (r = 0 \<longleftrightarrow> set (take k p) \<subseteq> {0})))"
proof (intro conjI allI impI)
  show "\<exists>r. strbufcmp_impl a n b m = Some r \<and> strcmp_impl (ctext (take n a) @ [NUL]) (ctext (take m b) @ [NUL]) = Some r \<and>
      (r = 0 \<longleftrightarrow> ctext (take n a) = ctext (take m b))"
    using strcmp_texts [of "ctext (take n a)" "ctext (take m b)"] strbufcmp_impl_views [of n a m b] assms by auto
next
  fix len :: u64
  assume "unat len \<le> min n m"
  then have "unat len \<le> length a" "unat len \<le> length b" using assms by auto
  then show "\<exists>r q. bcmp_impl a b len = Some r \<and> memcmp_impl a b (unat len) = Some q \<and>
      (r = 0 \<longleftrightarrow> take (unat len) a = take (unat len) b) \<and> (q = 0 \<longleftrightarrow> take (unat len) a = take (unat len) b)"
    using bcmp_zero_iff memcmp_zero_iff by meson
next
  fix p :: "u64 list" and k :: nat
  assume "0 < k \<and> k \<le> length p"
  then show "\<exists>r. memcmp_zero_ptr_aligned_impl p (8 * k) = Some r \<and> (r = 0 \<longleftrightarrow> set (take k p) \<subseteq> {0})"
    using memcmp_zero_aligned_iff [of "8 * k" p] by auto
qed

theorem comparisons_decide_witness:
  "(\<exists>r. strbufcmp_impl ''abc'' 2 (''ab'' @ [NUL]) 3 = Some r \<and> r = 0) \<and>
   (\<exists>r. bcmp_impl ''abc'' (''ab'' @ [NUL]) 2 = Some r \<and> r = 0) \<and>
   (\<exists>r. memcmp_zero_ptr_aligned_impl [0, 0, 7] 24 = Some r \<and> r \<noteq> 0)"
proof -
  note c = comparisons_decide [of 2 "''abc''" 3 "''ab'' @ [NUL]"]
  have "\<exists>r. strbufcmp_impl ''abc'' 2 (''ab'' @ [NUL]) 3 = Some r \<and> r = 0"
    using c by (auto simp: numeral_eq_Suc)
  moreover have "\<exists>r. bcmp_impl ''abc'' (''ab'' @ [NUL]) 2 = Some r \<and> r = 0"
    using c [THEN conjunct2, THEN conjunct1, rule_format, of 2] by (auto simp: take_Cons')
  moreover have "\<exists>r. memcmp_zero_ptr_aligned_impl [0, 0, 7] 24 = Some r \<and> r \<noteq> 0"
    using c [THEN conjunct2, THEN conjunct2, rule_format, of 3 "[0, 0, 7]"] by auto
  ultimately show ?thesis
    by blast
qed

text \<open>The characters are compared as signed ones: a longer string is not always the larger one.\<close>

lemma strcmp_signed: "strcmp_impl [CHR ''a'', NUL] [CHR ''a'', CHR 0xFF, NUL] = Some 1"
  by (simp add: schar_def signed_take_bit_eq_take_bit_shift)

section \<open>Searching\<close>

lemma strncmp_zero_iff:
  assumes "len \<le> length s \<or> NUL \<in> set s" "len \<le> length f" "NUL \<notin> set (take len f)"
  shows "\<exists>r. strncmp_impl s f len = Some r \<and> (r = 0 \<longleftrightarrow> take len s = take len f)"
proof -
  have "ctext (take len f) = take len f" using assms(3) by (rule ctext_id)
  moreover have "take len s = take len f \<longleftrightarrow> ctext (take len s) = take len f"
  proof
    assume e: "ctext (take len s) = take len f"
    have "take len s = ctext (take len s)" using take_ctext [of len "take len s"] e assms(2) by simp
    then show "take len s = take len f" using e by simp
  qed (use calculation in simp)
  ultimately show ?thesis
    using strbufcmp_impl_views [of len s len f] assms(1,2) strcmp_texts [OF ctext_no_nul ctext_no_nul, of "take len s" "take len f"]
    by (auto simp: strncmp_impl_def)
qed

text \<open>The first occurrence of \<open>f\<close> in \<open>t\<close>, if any.\<close>

fun first_at :: "string \<Rightarrow> string \<Rightarrow> nat option \<Rightarrow> bool" where
  "first_at f t None \<longleftrightarrow> (\<forall>i. take (length f) (drop i t) \<noteq> f)"
| "first_at f t (Some j) \<longleftrightarrow> take (length f) (drop j t) = f \<and> (\<forall>i < j. take (length f) (drop i t) \<noteq> f)"

lemma first_at_Cons:
  assumes "take (length f) (x # t) \<noteq> f" "first_at f t r"
  shows "first_at f (x # t) (map_option Suc r)"
proof (cases r)
  case None
  have "take (length f) (drop i (x # t)) \<noteq> f" for i using None assms by (cases i) auto
  then show ?thesis using None by simp
next
  case (Some j)
  have "take (length f) (drop i (x # t)) \<noteq> f" if "i < Suc j" for i using Some assms that by (cases i) auto
  then show ?thesis using Some assms(2) by simp
qed

lemma first_at_short: "length t < length f \<Longrightarrow> first_at f t None"
proof -
  assume "length t < length f"
  then have "length (take (length f) (drop i t)) < length f" for i by simp
  then show ?thesis by (metis first_at.simps(1) less_irrefl)
qed

lemma strnstr_loop_shift: "strnstr_loop c f len (Suc k) s slen = map_option (map_option Suc) (strnstr_loop c f len k s slen)"
  by (induction c f len k s slen rule: strnstr_loop.induct) (auto simp: Let_def split: bind_splits)

lemma strnstr_loop_eq:
  assumes "NUL \<notin> set f" "length s > slen \<or> NUL \<in> set s"
  shows "\<exists>r. strnstr_loop c (f @ NUL # g) (length f) 0 s slen = Some r \<and> first_at (c # f) (ctext (take slen s)) r"
  using assms(2)
proof (induction s arbitrary: slen)
  case (Cons sc s)
  let ?loop = "strnstr_loop c (f @ NUL # g) (length f) 0" and ?t = "ctext (take (slen - 1) s)"
  show ?case
  proof (cases "sc = NUL \<or> slen < 1")
    case True
    then have "ctext (take slen (sc # s)) = []" by (auto simp: take_Cons')
    then show ?thesis using True first_at_short [of "[]" "c # f"] by auto
  next
    case False
    then have t: "ctext (take slen (sc # s)) = sc # ?t" by (auto simp: take_Cons')
    have pre: "length s > slen - 1 \<or> NUL \<in> set s" using Cons.prems False by auto
    obtain r where r: "?loop s (slen - 1) = Some r" "first_at (c # f) ?t r" using Cons.IH [OF pre] by blast
    have step: "strnstr_loop c (f @ NUL # g) (length f) (Suc 0) s (slen - 1) = Some (map_option Suc r)"
      using strnstr_loop_shift r(1) by simp
    consider "sc \<noteq> c" | "sc = c" "length f > slen - 1" | "sc = c" "length f \<le> slen - 1" by linarith
    then show ?thesis
    proof cases
      case 1
      then show ?thesis using False t step first_at_Cons [OF _ r(2), of sc] by auto
    next
      case 2
      have "length (sc # ?t) < length (c # f)" using 2 ctext_length(1) [of "take (slen - 1) s"] False by simp
      then show ?thesis using 2 False t first_at_short by auto
    next
      case 3
      have ok: "length f \<le> length s \<or> NUL \<in> set s" using pre 3 by auto
      obtain q where q: "strncmp_impl s (f @ NUL # g) (length f) = Some q" "q = 0 \<longleftrightarrow> take (length f) s = f"
        using strncmp_zero_iff [OF ok, of "f @ NUL # g"] assms(1) by auto
      have "take (length f) ?t = ctext (take (length f) s)" using 3 by (simp add: ctext_take min_absorb1)
      moreover have "ctext (take (length f) s) = f \<longleftrightarrow> take (length f) s = f"
        using assms(1) take_ctext [of "length f" "take (length f) s"] by (auto simp: ctext_id)
      ultimately have "take (length f) ?t = f \<longleftrightarrow> q = 0" using q(2) by simp
      then show ?thesis using 3 False q(1) t step first_at_Cons [OF _ r(2), of sc] by (cases "q = 0") auto
    qed
  qed
qed (use assms in simp)

text \<open>C28. \<open>strnstr\<close> finds the first occurrence: when the first \<open>slen + 1\<close> characters can be read or the string ends
  before, the result is the least position of the sought string in the first \<open>slen\<close> characters, or null when it
  does not occur there.\<close>
theorem strnstr_first:
  assumes "NUL \<in> set fnd" "slen < length s \<or> NUL \<in> set s"
  shows "\<exists>r. strnstr_impl s fnd slen = Some r \<and> first_at (ctext fnd) (ctext (take slen s)) r"
proof (cases fnd)
  case (Cons c f)
  show ?thesis
  proof (cases "c = NUL")
    case True
    then show ?thesis using Cons by (simp add: strnstr_impl_def rd_def)
  next
    case False
    then have f: "NUL \<in> set f" using assms(1) Cons by auto
    have "strnstr_impl s fnd slen = strnstr_loop c f (length (ctext f)) 0 s slen"
      using False Cons f by (simp add: strnstr_impl_def rd_def strlen_impl_eq)
    also have "\<dots> = strnstr_loop c (ctext f @ NUL # drop (Suc (length (ctext f))) f) (length (ctext f)) 0 s slen"
      using terminated_split [OF f] by (rule arg_cong)
    finally show ?thesis
      using strnstr_loop_eq [OF ctext_no_nul [of f] assms(2), where c = c] False Cons by auto
  qed
qed (use assms in simp)

theorem strnstr_first_witness:
  "\<exists>r. strnstr_impl (''xabyab'' @ [NUL]) (''ab'' @ [NUL]) 6 = Some r \<and> first_at ''ab'' ''xabyab'' r"
  using strnstr_first [of "''ab'' @ [NUL]" 6 "''xabyab'' @ [NUL]"] by auto

text \<open>It looks at a character before it looks at the count.\<close>

lemma strnstr_overread: "strnstr_impl ''ab'' [CHR ''x'', NUL] 2 = None"
  by (simp add: strnstr_impl_def rd_def)

section \<open>Numbers\<close>

lemma schar_to_char: "0 \<le> n \<Longrightarrow> n < 128 \<Longrightarrow> schar (to_char n) = n"
  by (simp add: schar_def to_char_def signed_take_bit_int_eq_self)

lemma itoa_digits_pos:
  "0 < n \<Longrightarrow> itoa_digits n = to_char (48 + n mod 10) # itoa_digits (n div 10)"
  by (subst itoa_digits.simps) (simp add: signed_divide_int_def signed_modulo_int_def minus_div_mult_eq_mod [symmetric])

lemma itoa_digits_zero: "itoa_digits 0 = []"
  by (subst itoa_digits.simps) simp

lemma itoa_length: "0 \<le> n \<Longrightarrow> n < 10 ^ k \<Longrightarrow> length (itoa_digits n) \<le> k"
proof (induction k arbitrary: n)
  case (Suc k)
  show ?case
  proof (cases "n = 0")
    case False
    then have "length (itoa_digits (n div 10)) \<le> k" using Suc by (intro Suc.IH) auto
    then show ?thesis using False Suc.prems(1) by (simp add: itoa_digits_pos)
  qed (simp add: itoa_digits_zero)
next
  case 0
  then have "n = 0" by simp
  then show ?case by (simp add: itoa_digits_zero)
qed

lemma atoi_digit: "0 \<le> d \<Longrightarrow> d < 10 \<Longrightarrow> w * 10 + d < 2 ^ 31 \<Longrightarrow> atoi_loop w (to_char (48 + d) # s) = atoi_loop (w * 10 + d) s"
  by (simp add: schar_to_char Let_def)

lemma atoi_itoa_digits:
  assumes "0 \<le> n" "0 \<le> a" "a * 10 ^ length (itoa_digits n) + n < 2 ^ 31"
  shows "atoi_loop a (rev (itoa_digits n) @ s) = atoi_loop (a * 10 ^ length (itoa_digits n) + n) s"
  using assms
proof (induction "nat n" arbitrary: n s rule: less_induct)
  case less
  show ?case
  proof (cases "n = 0")
    case False
    then have n: "0 < n" using less.prems by simp
    let ?k = "length (itoa_digits (n div 10))" let ?v = "a * 10 ^ ?k + n div 10"
    have v: "?v * 10 + n mod 10 = a * 10 ^ length (itoa_digits n) + n" using n by (simp add: itoa_digits_pos algebra_simps)
    have "0 \<le> ?v" using n less.prems(2) by (simp add: pos_imp_zdiv_nonneg_iff)
    moreover have "x \<le> x * 10 + y" if "0 \<le> x" "0 \<le> y" for x y :: int using that by simp
    ultimately have "?v \<le> ?v * 10 + n mod 10" by simp
    then have lt: "?v < 2 ^ 31" unfolding v using less.prems(3) by (rule order_le_less_trans)
    have "atoi_loop a (rev (itoa_digits (n div 10)) @ to_char (48 + n mod 10) # s) = atoi_loop ?v (to_char (48 + n mod 10) # s)"
      using n by (intro less.hyps [OF _ _ less.prems(2) lt]) auto
    also have "\<dots> = atoi_loop (?v * 10 + n mod 10) s" using less.prems(3) [folded v] by (intro atoi_digit) simp_all
    also have "\<dots> = atoi_loop (a * 10 ^ length (itoa_digits n) + n) s" unfolding v by (rule refl)
    finally show ?thesis using n by (simp add: itoa_digits_pos)
  qed (simp add: itoa_digits_zero)
qed

text \<open>C29. \<open>itoa\<close> and \<open>atoi\<close> are inverse on the non-negative integers, in a buffer of eleven characters.\<close>
theorem itoa_atoi:
  assumes "0 \<le> n" "n < 2 ^ 31" "11 \<le> length str"
  shows "\<exists>s. itoa n str = Some s \<and> length s = length str \<and> atoi s = Some n"
proof (cases "n = 0")
  case True
  have "schar CHR ''0'' = 48" by (simp add: schar_def signed_take_bit_int_eq_self)
  then show ?thesis using True assms(3) by (auto simp: itoa_def memcpy_impl_def atoi_def numeral_2_eq_2)
next
  case False
  let ?d = "itoa_digits n"
  have len: "length ?d \<le> 10" using assms(1,2) by (intro itoa_length) auto
  have "itoa n str = Some (rev ?d @ NUL # drop (length ?d + 1) str)"
    using False len assms(3) by (simp add: itoa_def memcpy_impl_def Let_def)
  moreover have "atoi_loop 0 (rev ?d @ NUL # drop (length ?d + 1) str) = Some n"
    using assms by (subst atoi_itoa_digits) auto
  ultimately show ?thesis using len assms(3) by (simp add: atoi_def)
qed

theorem itoa_atoi_witness: "\<exists>s. itoa 1234 (replicate 11 NUL) = Some s \<and> atoi s = Some 1234"
  using itoa_atoi [of 1234 "replicate 11 NUL"] by auto

text \<open>The digits of a negative number are computed with negative remainders.\<close>

lemma itoa_negative: "itoa (- 5) (replicate 11 NUL) = Some (CHR ''+'' # replicate 10 NUL)"
  by code_simp

end
