(* ===== verification/Kern_Printf.thy ===== *)
theory Kern_Printf
  imports Kern_Strings
begin

text \<open>
  Formatted output of the kernel: \<open>__doprnt\<close> and \<open>printnum\<close> of \<^verbatim>\<open>src/osfmk/kern/printf.c\<close>, and the functions of
  \<^verbatim>\<open>src/bsd/kern/subr_prf.c\<close> that print into a buffer.  The output routine \<open>putc\<close> acts on a state of any type; with
  it goes the count \<open>nprinted\<close>.  \<open>None\<close> is a read behind the end of the format or of a string argument, an argument
  that is missing or of the wrong kind, a division by zero, a digit outside the table, a shift by a wrong amount,
  or an overflow of an \<open>int\<close>.
\<close>

section \<open>Arguments\<close>

text \<open>An argument of a variadic call: a number in its register, or a pointer to characters, maybe null.\<close>

datatype va = VaInt u64 | VaPtr "string option"

fun va_word :: "va list \<Rightarrow> (u64 \<times> va list) option" where
  "va_word (VaInt w # args) = Some (w, args)"
| "va_word _ = None"

fun va_ptr :: "va list \<Rightarrow> (string option \<times> va list) option" where
  "va_ptr (VaPtr p # args) = Some (p, args)"
| "va_ptr _ = None"

text \<open>\<open>va_arg\<close> at the types \<open>int\<close>, \<open>unsigned int\<close>, \<open>long long\<close> and \<open>unsigned long long\<close>.\<close>

definition va_int :: "va list \<Rightarrow> (int \<times> va list) option" where
  "va_int args = map_option (\<lambda>(w, args). (sint (ucast w :: u32), args)) (va_word args)"

definition va_signed :: "bool \<Rightarrow> va list \<Rightarrow> (int \<times> va list) option" where
  "va_signed long_long args =
     (if long_long then map_option (\<lambda>(w, args). (sint w, args)) (va_word args) else va_int args)"

definition va_unsigned :: "bool \<Rightarrow> va list \<Rightarrow> (nat \<times> va list) option" where
  "va_unsigned long_long args =
     map_option (\<lambda>(w, args). (if long_long then unat w else unat (ucast w :: u32), args)) (va_word args)"

section \<open>Output\<close>

type_synonym 's out = "int \<times> 's"

text \<open>\<open>(*putc)(c, arg)\<close>, and the same with \<open>nprinted++\<close>.\<close>

definition putraw :: "(char \<Rightarrow> 's \<Rightarrow> 's) \<Rightarrow> char \<Rightarrow> 's out \<Rightarrow> 's out" where
  "putraw putc c = (\<lambda>(n, s). (n, putc c s))"

definition count :: "int \<Rightarrow> 's out \<Rightarrow> 's out" where
  "count k = (\<lambda>(n, s). (n + k, s))"

definition putch :: "(char \<Rightarrow> 's \<Rightarrow> 's) \<Rightarrow> char \<Rightarrow> 's out \<Rightarrow> 's out" where
  "putch putc c r = count 1 (putraw putc c r)"

fun putstr :: "(char \<Rightarrow> 's \<Rightarrow> 's) \<Rightarrow> string \<Rightarrow> 's out \<Rightarrow> 's out" where
  "putstr putc [] r = r"
| "putstr putc (c # cs) r = putstr putc cs (putch putc c r)"

fun putraws :: "(char \<Rightarrow> 's \<Rightarrow> 's) \<Rightarrow> string \<Rightarrow> 's out \<Rightarrow> 's out" where
  "putraws putc [] r = r"
| "putraws putc (c # cs) r = putraws putc cs (putraw putc c r)"

text \<open>The characters of a string argument up to its terminator.\<close>

fun cstring :: "string \<Rightarrow> string option" where
  "cstring [] = None"
| "cstring (c # s) = (if c = NUL then Some [] else map_option (\<lambda>r. c # r) (cstring s))"

section \<open>Numbers\<close>

definition digs :: string where "digs = ''0123456789abcdef''"
definition digits :: string where "digits = ''0123456789abcdef0123456789ABCDEF''"

text \<open>The loop that fills \<open>buf\<close> from its end with the digits of \<open>u\<close>.\<close>

function num_digits :: "string \<Rightarrow> nat \<Rightarrow> nat \<Rightarrow> nat \<Rightarrow> string option" where
  "num_digits table base capitals u =
     (if base = 0 then None
      else do {
        d \<leftarrow> rd table (u mod base + capitals);
        if u div base = 0 then Some [d]
        else if base = 1 then None
        else do { ds \<leftarrow> num_digits table base capitals (u div base); Some (ds @ [d]) }
      })"
  by pat_completeness auto
termination
proof (relation "measure (\<lambda>(_, _, _, u). u)", goal_cases)
  case (2 table base capitals u d)
  then have "0 < u" "1 < base"
    by (auto intro: gr0I)
  then show ?case
    by simp
qed simp

declare num_digits.simps [simp del]

definition printnum :: "(char \<Rightarrow> 's \<Rightarrow> 's) \<Rightarrow> nat \<Rightarrow> int \<Rightarrow> 's out \<Rightarrow> 's out option" where
  "printnum putc u base r = do {
     ds \<leftarrow> num_digits digs (nat (base mod 2 ^ 64)) 0 u;
     Some (putstr putc ds r)
   }"

section \<open>A conversion specification\<close>

datatype num_type = NumInt | NumShort | NumChar

record fmt_spec =
  long_long :: bool
  numeric_type :: num_type
  fmt_length :: int
  prec :: int
  ladjust :: bool
  padc :: char
  plus_sign :: "char option"
  altfmt :: bool

definition fmt_init :: fmt_spec where
  "fmt_init = \<lparr> long_long = False, numeric_type = NumInt, fmt_length = 0, prec = - 1, ladjust = False,
     padc = CHR '' '', plus_sign = None, altfmt = False \<rparr>"

fun fmt_flags :: "string \<Rightarrow> fmt_spec \<Rightarrow> (fmt_spec \<times> string) option" where
  "fmt_flags [] sp = None"
| "fmt_flags (c # fmt) sp =
     (if c = CHR ''#'' then fmt_flags fmt (sp\<lparr>altfmt := True\<rparr>)
      else if c = CHR ''-'' then fmt_flags fmt (sp\<lparr>ladjust := True\<rparr>)
      else if c = CHR ''+'' then fmt_flags fmt (sp\<lparr>plus_sign := Some (CHR ''+'')\<rparr>)
      else if c = CHR '' '' then
        fmt_flags fmt (if plus_sign sp = None then sp\<lparr>plus_sign := Some (CHR '' '')\<rparr> else sp)
      else Some (sp, c # fmt))"

definition isdigit :: "char \<Rightarrow> bool" where
  "isdigit d \<longleftrightarrow> schar d \<ge> 48 \<and> schar d \<le> 57"

text \<open>A decimal number of the format.\<close>

fun fmt_number :: "int \<Rightarrow> string \<Rightarrow> (int \<times> string) option" where
  "fmt_number v [] = None"
| "fmt_number v (c # fmt) =
     (if isdigit c then
        (let v = 10 * v + (schar c - 48) in if v < 2 ^ 31 then fmt_number v fmt else None)
      else Some (v, c # fmt))"

definition fmt_zero :: "string \<Rightarrow> fmt_spec \<Rightarrow> (fmt_spec \<times> string) option" where
  "fmt_zero fmt sp = (case fmt of
       [] \<Rightarrow> None
     | c # rest \<Rightarrow> if c = CHR ''0'' then Some (sp\<lparr>padc := CHR ''0''\<rparr>, rest) else Some (sp, fmt))"

definition fmt_width :: "string \<Rightarrow> va list \<Rightarrow> fmt_spec \<Rightarrow> (fmt_spec \<times> string \<times> va list) option" where
  "fmt_width fmt args sp = (case fmt of
       [] \<Rightarrow> None
     | c # rest \<Rightarrow>
         if isdigit c then do {
           (n, fmt) \<leftarrow> fmt_number 0 fmt;
           Some (sp\<lparr>fmt_length := n\<rparr>, fmt, args)
         }
         else if c = CHR ''*'' then do {
           (n, args) \<leftarrow> va_int args;
           if n < 0 then
             (if n = - (2 ^ 31) then None
              else Some (sp\<lparr>ladjust := \<not> ladjust sp, fmt_length := - n\<rparr>, rest, args))
           else Some (sp\<lparr>fmt_length := n\<rparr>, rest, args)
         }
         else Some (sp, fmt, args))"

definition fmt_prec :: "string \<Rightarrow> va list \<Rightarrow> fmt_spec \<Rightarrow> (fmt_spec \<times> string \<times> va list) option" where
  "fmt_prec fmt args sp = (case fmt of
       [] \<Rightarrow> None
     | c # rest \<Rightarrow>
         if c = CHR ''.'' then
           (case rest of
              [] \<Rightarrow> None
            | d # rest2 \<Rightarrow>
                if isdigit d then do {
                  (n, fmt) \<leftarrow> fmt_number 0 rest;
                  Some (sp\<lparr>prec := n\<rparr>, fmt, args)
                }
                else if d = CHR ''*'' then do {
                  (n, args) \<leftarrow> va_int args;
                  Some (sp\<lparr>prec := n\<rparr>, rest2, args)
                }
                else Some (sp, rest, args))
         else Some (sp, fmt, args))"

text \<open>The length modifiers; \<open>long\<close>, \<open>size_t\<close>, \<open>ptrdiff_t\<close> and \<open>intmax_t\<close> have 64 bits.\<close>

definition skip :: "char \<Rightarrow> string \<Rightarrow> (bool \<times> string) option" where
  "skip x fmt = (case fmt of [] \<Rightarrow> None | c # rest \<Rightarrow> if c = x then Some (True, rest) else Some (False, fmt))"

definition fmt_modifiers :: "string \<Rightarrow> fmt_spec \<Rightarrow> (fmt_spec \<times> string) option" where
  "fmt_modifiers fmt sp = (case fmt of
       [] \<Rightarrow> None
     | c # rest \<Rightarrow>
         if c = CHR ''l'' then do {
           (_, fmt) \<leftarrow> skip (CHR ''l'') rest;
           Some (sp\<lparr>long_long := True\<rparr>, fmt)
         }
         else if c = CHR ''h'' then do {
           (hh, fmt) \<leftarrow> skip (CHR ''h'') rest;
           Some (sp\<lparr>numeric_type := (if hh then NumChar else NumShort)\<rparr>, fmt)
         }
         else if c = CHR ''q'' \<or> c = CHR ''L'' then Some (sp\<lparr>long_long := True\<rparr>, rest)
         else Some (sp, fmt))"

definition fmt_sizes :: "string \<Rightarrow> fmt_spec \<Rightarrow> (fmt_spec \<times> string) option" where
  "fmt_sizes fmt sp = (case fmt of
       [] \<Rightarrow> None
     | c # rest \<Rightarrow>
         if c = CHR ''z'' \<or> c = CHR ''Z'' \<or> c = CHR ''t'' \<or> c = CHR ''j'' then Some (sp\<lparr>long_long := True\<rparr>, rest)
         else Some (sp, fmt))"

text \<open>The part of a specification before its conversion character.\<close>

definition fmt_parse :: "string \<Rightarrow> va list \<Rightarrow> (fmt_spec \<times> string \<times> va list) option" where
  "fmt_parse fmt args = do {
     (sp, fmt) \<leftarrow> fmt_flags fmt fmt_init;
     (sp, fmt) \<leftarrow> fmt_zero fmt sp;
     (sp, fmt, args) \<leftarrow> fmt_width fmt args sp;
     (sp, fmt, args) \<leftarrow> fmt_prec fmt args sp;
     (sp, fmt) \<leftarrow> fmt_modifiers fmt sp;
     (sp, fmt) \<leftarrow> fmt_sizes fmt sp;
     Some (sp, fmt, args)
   }"

section \<open>Conversions\<close>

text \<open>What \<open>__doprnt\<close> depends on besides its arguments: the two variables of \<^verbatim>\<open>printf.c\<close>, the range of kernel
  addresses, and its parameters \<open>radix\<close>, corrected at the start, and \<open>is_log\<close>.\<close>

record fmt_env =
  doprnt_truncates :: bool
  doprnt_hide_pointers :: bool
  kernel_min :: nat
  kernel_max :: nat
  fmt_radix :: int
  is_log :: bool

text \<open>\<open>while (--length >= 0)\<close>: the output and what is left of \<open>length\<close>.\<close>

definition pad :: "(char \<Rightarrow> 's \<Rightarrow> 's) \<Rightarrow> char \<Rightarrow> int \<Rightarrow> 's out \<Rightarrow> int \<times> 's out" where
  "pad putc c n r = (min (n - 1) (- 1), putstr putc (replicate (nat n) c) r)"

text \<open>The block at \<open>print_num\<close>.\<close>

definition print_num ::
  "fmt_env \<Rightarrow> (char \<Rightarrow> 's \<Rightarrow> 's) \<Rightarrow> fmt_spec \<Rightarrow> bool \<Rightarrow> nat \<Rightarrow> nat \<Rightarrow> char option \<Rightarrow> nat \<Rightarrow> 's out \<Rightarrow> 's out option" where
  "print_num env putc sp trunc base capitals sign_char u r =
     (let u = (if trunc then nat (sint (word_of_nat u :: u32) mod 2 ^ 64) else u)
      in if doprnt_hide_pointers env \<and> is_log env \<and> u \<ge> kernel_min env \<and> u \<le> kernel_max env
         then Some (count 5 (putraws putc ''<ptr>'' r))
         else do {
           let prefix = (if u \<noteq> 0 \<and> altfmt sp then (if base = 8 then ''0'' else if base = 16 then ''0x'' else '''') else '''');
           ds \<leftarrow> num_digits digits base capitals u;
           let len = fmt_length sp - int (length ds);
           let len = (if sign_char \<noteq> None then len - 1 else len);
           let len = len - int (length prefix);
           let (len, r) = (if padc sp = CHR '' '' \<and> \<not> ladjust sp then pad putc (CHR '' '') len r else (len, r));
           let r = (case sign_char of None \<Rightarrow> r | Some c \<Rightarrow> putch putc c r);
           let r = putstr putc prefix r;
           let (len, r) = (if padc sp = CHR ''0'' then pad putc (CHR ''0'') len r else (len, r));
           let r = putstr putc ds r;
           let (len, r) = (if ladjust sp then pad putc (CHR '' '') len r else (len, r));
           Some r
         })"

text \<open>From the labels \<open>print_signed\<close> and \<open>print_unsigned\<close> on.\<close>

definition print_signed ::
  "fmt_env \<Rightarrow> (char \<Rightarrow> 's \<Rightarrow> 's) \<Rightarrow> fmt_spec \<Rightarrow> bool \<Rightarrow> nat \<Rightarrow> va list \<Rightarrow> 's out \<Rightarrow> (va list \<times> 's out) option" where
  "print_signed env putc sp trunc base args r = do {
     (n, args) \<leftarrow> va_signed (long_long sp) args;
     let n = (case numeric_type sp of
         NumInt \<Rightarrow> n | NumShort \<Rightarrow> signed_take_bit 15 n | NumChar \<Rightarrow> signed_take_bit 7 n);
     r \<leftarrow> (if n = - (2 ^ 63) then None
           else if n \<ge> 0 then print_num env putc sp trunc base 0 (plus_sign sp) (nat n) r
           else print_num env putc sp trunc base 0 (Some (CHR ''-'')) (nat (- n)) r);
     Some (args, r)
   }"

definition print_unsigned ::
  "fmt_env \<Rightarrow> (char \<Rightarrow> 's \<Rightarrow> 's) \<Rightarrow> fmt_spec \<Rightarrow> bool \<Rightarrow> nat \<Rightarrow> nat \<Rightarrow> va list \<Rightarrow> 's out \<Rightarrow> (va list \<times> 's out) option" where
  "print_unsigned env putc sp trunc base capitals args r = do {
     (u, args) \<leftarrow> va_unsigned (long_long sp) args;
     let u = (case numeric_type sp of NumInt \<Rightarrow> u | NumShort \<Rightarrow> u mod 2 ^ 16 | NumChar \<Rightarrow> u mod 2 ^ 8);
     r \<leftarrow> print_num env putc sp trunc base capitals None u r;
     Some (args, r)
   }"

text \<open>Strings: the count before padding on the left, and the characters that are printed.\<close>

fun str_count :: "string \<Rightarrow> int \<Rightarrow> int \<Rightarrow> int option" where
  "str_count [] prc n = None"
| "str_count (c # p) prc n = (if c \<noteq> NUL \<and> n < prc then str_count p prc (n + 1) else Some n)"

fun print_chars ::
  "(char \<Rightarrow> 's \<Rightarrow> 's) \<Rightarrow> int \<Rightarrow> int \<Rightarrow> string \<Rightarrow> int \<Rightarrow> 's out \<Rightarrow> (int \<times> 's out) option" where
  "print_chars putc len prc [] n r = (if n < prc \<and> \<not> (len > 0 \<and> n \<ge> len) then None else Some (n, r))"
| "print_chars putc len prc (c # p) n r =
     (if n < prc \<and> \<not> (len > 0 \<and> n \<ge> len) then
        (if c = NUL then Some (n, r) else print_chars putc len prc p (n + 1) (putch putc c r))
      else Some (n, r))"

definition print_string ::
  "(char \<Rightarrow> 's \<Rightarrow> 's) \<Rightarrow> fmt_spec \<Rightarrow> string option \<Rightarrow> 's out \<Rightarrow> 's out option" where
  "print_string putc sp p r = do {
     let prc = (if prec sp = - 1 then 0x7FFFFFFF else prec sp);
     let p = (case p of None \<Rightarrow> [NUL] | Some p \<Rightarrow> p);
     let len = fmt_length sp;
     r \<leftarrow> (if len > 0 \<and> \<not> ladjust sp then do {
             n \<leftarrow> str_count p prc 0;
             Some (putstr putc (replicate (nat (len - n)) (CHR '' '')) r)
           }
           else Some r);
     (n, r) \<leftarrow> print_chars putc len prc p 0 r;
     Some (if n < len \<and> ladjust sp then putstr putc (replicate (nat (len - n)) (CHR '' '')) r else r)
   }"

text \<open>The hexadecimal dump \<open>%D\<close>.\<close>

fun print_dump :: "(char \<Rightarrow> 's \<Rightarrow> 's) \<Rightarrow> nat \<Rightarrow> string \<Rightarrow> string \<Rightarrow> 's out \<Rightarrow> 's out option" where
  "print_dump putc 0 up p r = Some r"
| "print_dump putc (Suc len) up p r = do {
     c \<leftarrow> rd up 0;
     hi \<leftarrow> rd digs (nat (uchar c div 16));
     lo \<leftarrow> rd digs (nat (uchar c mod 16));
     let r = count 2 (putraw putc lo (putraw putc hi r));
     if len \<noteq> 0 then do {
       q \<leftarrow> cstring p;
       print_dump putc len (tl up) p (putstr putc q r)
     }
     else Some r
   }"

text \<open>The names of register bits, \<open>%b\<close> and \<open>%B\<close>: a name ends at the first control character.\<close>

definition bit_name :: "string \<Rightarrow> (string \<times> string) option" where
  "bit_name p = (case dropWhile (\<lambda>c. schar c > 32) p of
       [] \<Rightarrow> None
     | rest \<Rightarrow> Some (takeWhile (\<lambda>c. schar c > 32) p, rest))"

definition shift_int :: "int \<Rightarrow> int \<Rightarrow> int option" where
  "shift_int v k = (if 0 \<le> k \<and> k < 32 then Some (signed_take_bit 31 (v * 2 ^ nat k)) else None)"

function print_bits ::
  "(char \<Rightarrow> 's \<Rightarrow> 's) \<Rightarrow> bool \<Rightarrow> nat \<Rightarrow> int \<Rightarrow> bool \<Rightarrow> string \<Rightarrow> 's out \<Rightarrow> (bool \<times> 's out) option" where
  "print_bits putc upper u base any [] r = None"
| "print_bits putc upper u base any (ci # p) r =
     (if ci = NUL then Some (any, r)
      else do {
        let i = (if upper then 33 - schar ci else schar ci);
        c \<leftarrow> rd p 0;
        if schar c \<le> 32 then do {
          let r = putch putc (if any then CHR '','' else CHR ''<'') r;
          let j = (if upper then 32 - schar c else schar c);
          (name, rest) \<leftarrow> bit_name (tl p);
          let r = putstr putc name r;
          m \<leftarrow> shift_int 2 (i - j);
          if 0 \<le> j - 1 \<and> j - 1 < 64 then do {
            r \<leftarrow> printnum putc (nat (take_bit 32 (int (u div 2 ^ nat (j - 1)) AND (m - 1)))) base r;
            print_bits putc upper u base True rest r
          }
          else None
        }
        else do {
          (name, rest) \<leftarrow> bit_name p;
          m \<leftarrow> shift_int 1 (i - 1);
          if int u AND m \<noteq> 0 then
            print_bits putc upper u base True rest (putstr putc name (putch putc (if any then CHR '','' else CHR ''<'') r))
          else print_bits putc upper u base any rest r
        }
      })"
  by pat_completeness auto
termination
proof -
  have le: "length rest \<le> length p" if "bit_name p = Some (name, rest)" for p name rest :: string
    using that by (auto simp: bit_name_def length_dropWhile_le split: list.splits)
  show ?thesis
    by (relation "measure (\<lambda>(_, _, _, _, _, p, _). length p)") (auto simp: less_Suc_eq_le dest!: le intro: le_trans)
qed

declare print_bits.simps(2) [simp del]

definition print_register ::
  "(char \<Rightarrow> 's \<Rightarrow> 's) \<Rightarrow> bool \<Rightarrow> nat \<Rightarrow> string \<Rightarrow> 's out \<Rightarrow> 's out option" where
  "print_register putc upper u p r = do {
     c \<leftarrow> rd p 0;
     r \<leftarrow> printnum putc u (schar c) r;
     if u = 0 then Some r
     else do {
       (any, r) \<leftarrow> print_bits putc upper u (schar c) False (tl p) r;
       Some (if any then putch putc (CHR ''>'') r else r)
     }
   }"

text \<open>The \<open>switch\<close>, for a conversion character other than NUL: the arguments that are left and the output.\<close>

definition convert ::
  "fmt_env \<Rightarrow> (char \<Rightarrow> 's \<Rightarrow> 's) \<Rightarrow> fmt_spec \<Rightarrow> char \<Rightarrow> va list \<Rightarrow> 's out \<Rightarrow> (va list \<times> 's out) option" where
  "convert env putc sp c args r =
     (let t = doprnt_truncates env; radix = nat (fmt_radix env)
      in if c = CHR ''b'' \<or> c = CHR ''B'' then do {
           (u, args) \<leftarrow> va_unsigned (long_long sp) args;
           (p, args) \<leftarrow> va_ptr args;
           p \<leftarrow> p;
           r \<leftarrow> print_register putc (c = CHR ''B'') u p r;
           Some (args, r)
         }
         else if c = CHR ''c'' then do {
           (n, args) \<leftarrow> va_int args;
           Some (args, putch putc (to_char n) r)
         }
         else if c = CHR ''s'' then do {
           (p, args) \<leftarrow> va_ptr args;
           r \<leftarrow> print_string putc sp p r;
           Some (args, r)
         }
         else if c = CHR ''o'' then print_unsigned env putc sp t 8 0 args r
         else if c = CHR ''O'' then print_unsigned env putc sp False 8 0 args r
         else if c = CHR ''D'' then do {
           (up, args) \<leftarrow> va_ptr args;
           (p, args) \<leftarrow> va_ptr args;
           let len = (if fmt_length sp = - 1 then 16 else fmt_length sp);
           if len = 0 then Some (args, r)
           else do {
             up \<leftarrow> up;
             r \<leftarrow> print_dump putc (nat len) up (case p of None \<Rightarrow> [] | Some p \<Rightarrow> p) r;
             Some (args, r)
           }
         }
         else if c = CHR ''d'' \<or> c = CHR ''i'' then print_signed env putc sp t 10 args r
         else if c = CHR ''u'' then print_unsigned env putc sp t 10 0 args r
         else if c = CHR ''U'' then print_unsigned env putc sp False 10 0 args r
         else if c = CHR ''p'' then print_unsigned env putc (sp\<lparr>altfmt := True, long_long := True\<rparr>) t 16 0 args r
         else if c = CHR ''x'' then print_unsigned env putc sp t 16 0 args r
         else if c = CHR ''X'' then print_unsigned env putc sp False 16 16 args r
         else if c = CHR ''r'' then print_signed env putc sp t radix args r
         else if c = CHR ''R'' then print_signed env putc sp False radix args r
         else if c = CHR ''n'' then print_unsigned env putc sp t radix 0 args r
         else if c = CHR ''N'' then print_unsigned env putc sp False radix 0 args r
         else Some (args, putch putc c r))"

text \<open>A specification is shorter than the format it is read from.\<close>

lemma fmt_flags_length: "fmt_flags fmt sp = Some (sp', fmt') \<Longrightarrow> length fmt' \<le> length fmt"
  by (induction fmt sp rule: fmt_flags.induct) (auto split: if_splits)

lemma fmt_number_length: "fmt_number v fmt = Some (n, fmt') \<Longrightarrow> length fmt' \<le> length fmt"
  by (induction v fmt rule: fmt_number.induct) (auto simp: Let_def split: if_splits)

lemma fmt_zero_length: "fmt_zero fmt sp = Some (sp', fmt') \<Longrightarrow> length fmt' \<le> length fmt"
  by (auto simp: fmt_zero_def split: list.splits if_splits)

lemma fmt_width_length: "fmt_width fmt args sp = Some (sp', fmt', args') \<Longrightarrow> length fmt' \<le> length fmt"
  by (auto simp: fmt_width_def bind_eq_Some_conv split: list.splits if_splits dest: fmt_number_length)

lemma fmt_prec_length: "fmt_prec fmt args sp = Some (sp', fmt', args') \<Longrightarrow> length fmt' \<le> length fmt"
  by (auto simp: fmt_prec_def bind_eq_Some_conv split: list.splits if_splits dest!: fmt_number_length)

lemma fmt_modifiers_length: "fmt_modifiers fmt sp = Some (sp', fmt') \<Longrightarrow> length fmt' \<le> length fmt"
  by (auto simp: fmt_modifiers_def skip_def bind_eq_Some_conv split: list.splits if_splits)

lemma fmt_sizes_length: "fmt_sizes fmt sp = Some (sp', fmt') \<Longrightarrow> length fmt' \<le> length fmt"
  by (auto simp: fmt_sizes_def split: list.splits if_splits)

lemma fmt_parse_length: "fmt_parse fmt args = Some (sp, fmt', args') \<Longrightarrow> length fmt' \<le> length fmt"
  by (auto simp: fmt_parse_def bind_eq_Some_conv
      dest!: fmt_flags_length fmt_zero_length fmt_width_length fmt_prec_length fmt_modifiers_length fmt_sizes_length)

section \<open>The formatter\<close>

function doprnt_loop ::
  "fmt_env \<Rightarrow> (char \<Rightarrow> 's \<Rightarrow> 's) \<Rightarrow> string \<Rightarrow> va list \<Rightarrow> 's out \<Rightarrow> 's out option" where
  "doprnt_loop env putc [] args r = None"
| "doprnt_loop env putc (c # fmt) args r =
     (if c = NUL then Some r
      else if c \<noteq> CHR ''%'' then doprnt_loop env putc fmt args (putch putc c r)
      else do {
        (sp, fmt, args) \<leftarrow> fmt_parse fmt args;
        case fmt of
          [] \<Rightarrow> None
        | c # rest \<Rightarrow>
            if c = NUL then doprnt_loop env putc fmt args r
            else do {
              (args, r) \<leftarrow> convert env putc sp c args r;
              doprnt_loop env putc rest args r
            }
      })"
  by pat_completeness auto
termination
  by (relation "measure (\<lambda>(_, _, fmt, _, _). length fmt)") (auto simp: less_Suc_eq_le dest!: fmt_parse_length)

declare doprnt_loop.simps(2) [simp del]

text \<open>\<open>__doprnt\<close>, for the variables and addresses of \<open>env\<close>: the result is \<open>nprinted\<close> and the state of the output.\<close>

definition doprnt ::
  "fmt_env \<Rightarrow> string \<Rightarrow> va list \<Rightarrow> (char \<Rightarrow> 's \<Rightarrow> 's) \<Rightarrow> 's \<Rightarrow> int \<Rightarrow> bool \<Rightarrow> 's out option" where
  "doprnt env fmt args putc s radix log =
     (let radix = (if radix < 2 \<or> radix > 36 then 10 else radix)
      in do {
        (n, s) \<leftarrow> doprnt_loop (env\<lparr>fmt_radix := radix, is_log := log\<rparr>) putc fmt args (0, s);
        if n < 2 ^ 31 then Some (n, s) else None
      })"

text \<open>\<open>_doprnt\<close> and \<open>_doprnt_log\<close> print through \<open>dummy_putc\<close>, which ignores a null routine.\<close>

definition dummy_putc :: "(char \<Rightarrow> 's \<Rightarrow> 's) option \<Rightarrow> char \<Rightarrow> 's \<Rightarrow> 's" where
  "dummy_putc real_putc c s = (case real_putc of None \<Rightarrow> s | Some f \<Rightarrow> f c s)"

definition doprnt_plain :: "fmt_env \<Rightarrow> string \<Rightarrow> va list \<Rightarrow> (char \<Rightarrow> 's \<Rightarrow> 's) option \<Rightarrow> int \<Rightarrow> 's \<Rightarrow> 's option" where
  "doprnt_plain env fmt args putc radix s = map_option snd (doprnt env fmt args (dummy_putc putc) s radix False)"

definition doprnt_log :: "fmt_env \<Rightarrow> string \<Rightarrow> va list \<Rightarrow> (char \<Rightarrow> 's \<Rightarrow> 's) option \<Rightarrow> int \<Rightarrow> 's \<Rightarrow> 's option" where
  "doprnt_log env fmt args putc radix s = map_option snd (doprnt env fmt args (dummy_putc putc) s radix True)"

section \<open>Printing into a buffer\<close>

text \<open>\<open>struct snprintf_arg\<close>, with the buffer that \<open>str\<close> points into and its position there.\<close>

record snprintf_arg =
  sn_buf :: string
  sn_str :: nat
  sn_remain :: nat

text \<open>The state of the output is \<open>None\<close> after a store outside the buffer.\<close>

definition snprintf_func :: "char \<Rightarrow> snprintf_arg option \<Rightarrow> snprintf_arg option" where
  "snprintf_func ch arg = do {
     info \<leftarrow> arg;
     if sn_remain info \<ge> 2 then do {
       buf \<leftarrow> put (sn_buf info) (sn_str info) ch;
       Some (info\<lparr>sn_buf := buf, sn_str := sn_str info + 1, sn_remain := sn_remain info - 1\<rparr>)
     }
     else Some info
   }"

definition vsnprintf :: "fmt_env \<Rightarrow> string \<Rightarrow> nat \<Rightarrow> string \<Rightarrow> va list \<Rightarrow> (int \<times> string) option" where
  "vsnprintf env str sz format ap = do {
     (retval, arg) \<leftarrow> doprnt env format ap snprintf_func (Some \<lparr> sn_buf = str, sn_str = 0, sn_remain = sz \<rparr>) 10 False;
     info \<leftarrow> arg;
     if sn_remain info \<ge> 1 then do {
       buf \<leftarrow> put (sn_buf info) (sn_str info) NUL;
       Some (retval, buf)
     }
     else Some (retval, sn_buf info)
   }"

definition vsprintf :: "fmt_env \<Rightarrow> string \<Rightarrow> string \<Rightarrow> va list \<Rightarrow> (int \<times> string) option" where
  "vsprintf env buf cfmt ap = do {
     (_, arg) \<leftarrow> doprnt env cfmt ap snprintf_func (Some \<lparr> sn_buf = buf, sn_str = 0, sn_remain = 999999 \<rparr>) 10 False;
     info \<leftarrow> arg;
     if sn_remain info \<ge> 1 then do {
       buf \<leftarrow> put (sn_buf info) (sn_str info) NUL;
       Some (0, buf)
     }
     else Some (0, sn_buf info)
   }"

definition snprintf :: "fmt_env \<Rightarrow> string \<Rightarrow> nat \<Rightarrow> string \<Rightarrow> va list \<Rightarrow> (int \<times> string) option" where
  "snprintf env str sz format args = vsnprintf env str sz format args"

text \<open>\<open>vtsnprintf\<close> returns the buffer, or null when it has no room at all.\<close>

definition vtsnprintf :: "fmt_env \<Rightarrow> string \<Rightarrow> nat \<Rightarrow> string \<Rightarrow> va list \<Rightarrow> (bool \<times> string) option" where
  "vtsnprintf env dst cnt fmt ap =
     (if cnt = 0 then Some (False, dst)
      else do {
        (_, dst) \<leftarrow> vsnprintf env dst cnt fmt ap;
        Some (True, dst)
      })"

definition tsnprintf :: "fmt_env \<Rightarrow> string \<Rightarrow> nat \<Rightarrow> string \<Rightarrow> va list \<Rightarrow> (bool \<times> string) option" where
  "tsnprintf env dst cnt fmt args = vtsnprintf env dst cnt fmt args"

definition vscnprintf :: "fmt_env \<Rightarrow> string \<Rightarrow> nat \<Rightarrow> string \<Rightarrow> va list \<Rightarrow> (int \<times> string) option" where
  "vscnprintf env buf sz fmt args = do {
     (i, buf) \<leftarrow> vsnprintf env buf sz fmt args;
     Some
       (if i mod 2 ^ 32 < int sz then i
        else if sz = 0 then 0
        else if int sz > 2 ^ 31 - 1 then 2 ^ 31 - 1
        else int (sz - 1), buf)
   }"

definition scnprintf :: "fmt_env \<Rightarrow> string \<Rightarrow> nat \<Rightarrow> string \<Rightarrow> va list \<Rightarrow> (int \<times> string) option" where
  "scnprintf env buf sz fmt args = vscnprintf env buf sz fmt args"

end
