(* ===== verification/Kern_Printf_Text.thy ===== *)
theory Kern_Printf_Text
  imports Kern_Printf
begin

text \<open>
  What a format prints does not depend on where it is printed to.  \<open>uniform\<close> says this of a piece of the formatter,
  and is proved for all of them; a device that keeps everything then gives the text, \<open>fmt_text\<close>, and
  \<open>vsnprintf\<close> stores a prefix of it.
\<close>

section \<open>The text does not depend on the output routine\<close>

text \<open>Two instances of a piece of the formatter, with outputs of any two types, print the same text or both fail;
  the count goes up by its length.\<close>

definition uniform ::
  "((char \<Rightarrow> 's \<Rightarrow> 's) \<Rightarrow> 's out \<Rightarrow> 's out option) \<Rightarrow> ((char \<Rightarrow> 't \<Rightarrow> 't) \<Rightarrow> 't out \<Rightarrow> 't out option) \<Rightarrow> bool" where
  "uniform F G \<longleftrightarrow> (\<exists>t. (\<forall>putc r. F putc r = map_option (\<lambda>out. putstr putc out r) t) \<and>
     (\<forall>putc r. G putc r = map_option (\<lambda>out. putstr putc out r) t))"

text \<open>The same for a piece that also returns a value, which is the same on both sides.\<close>

definition uniform_val ::
  "((char \<Rightarrow> 's \<Rightarrow> 's) \<Rightarrow> 's out \<Rightarrow> ('a \<times> 's out) option) \<Rightarrow> ((char \<Rightarrow> 't \<Rightarrow> 't) \<Rightarrow> 't out \<Rightarrow> ('a \<times> 't out) option) \<Rightarrow> bool" where
  "uniform_val F G \<longleftrightarrow> (\<exists>t. (\<forall>putc r. F putc r = map_option (\<lambda>(v, out). (v, putstr putc out r)) t) \<and>
     (\<forall>putc r. G putc r = map_option (\<lambda>(v, out). (v, putstr putc out r)) t))"

lemma putstr_append [simp]: "putstr putc (a @ b) r = putstr putc b (putstr putc a r)"
  by (induction a arbitrary: r) auto

lemma putch_putstr: "putch putc c r = putstr putc [c] r"
  by simp

lemma putstr_fold: "putstr putc out (n, s) = (n + int (length out), fold putc out s)"
  by (induction out arbitrary: n s) (auto simp: putch_def putraw_def count_def)

lemma uniformE:
  assumes "uniform F G"
  obtains t where "\<And>putc r. F putc r = map_option (\<lambda>out. putstr putc out r) t"
    "\<And>putc r. G putc r = map_option (\<lambda>out. putstr putc out r) t"
  using assms unfolding uniform_def by blast

lemma uniformI:
  assumes "\<And>putc r. F putc r = map_option (\<lambda>out. putstr putc out r) t"
    "\<And>putc r. G putc r = map_option (\<lambda>out. putstr putc out r) t"
  shows "uniform F G"
  using assms unfolding uniform_def by blast

lemma uniform_valE:
  assumes "uniform_val F G"
  obtains t where "\<And>putc r. F putc r = map_option (\<lambda>(v, out). (v, putstr putc out r)) t"
    "\<And>putc r. G putc r = map_option (\<lambda>(v, out). (v, putstr putc out r)) t"
  using assms unfolding uniform_val_def by blast

lemma uniform_valI':
  assumes "\<And>putc r. F putc r = map_option (\<lambda>(v, out). (v, putstr putc out r)) t"
    "\<And>putc r. G putc r = map_option (\<lambda>(v, out). (v, putstr putc out r)) t"
  shows "uniform_val F G"
  using assms unfolding uniform_val_def by blast

lemma uniform_None [intro!]: "uniform (\<lambda>putc r. None) (\<lambda>putc r. None)"
  by (rule uniformI [of _ None]) auto

lemma uniform_put [intro!]: "uniform (\<lambda>putc r. Some (putstr putc out r)) (\<lambda>putc r. Some (putstr putc out r))"
  by (rule uniformI [of _ "Some out"]) auto

lemma uniform_same [intro!]: "uniform (\<lambda>putc r. Some r) (\<lambda>putc r. Some r)"
  using uniform_put [of "[]"] by simp

lemma uniform_after:
  assumes "uniform F G"
  shows "uniform (\<lambda>putc r. F putc (putstr putc a r)) (\<lambda>putc r. G putc (putstr putc a r))"
  using assms
  by (rule uniformE) (rule uniformI [of _ "map_option ((@) a) _"], auto simp: option.map_comp comp_def)

lemma uniform_bind:
  assumes "uniform F G" "uniform F' G'"
  shows "uniform (\<lambda>putc r. F putc r \<bind> F' putc) (\<lambda>putc r. G putc r \<bind> G' putc)"
  apply (rule uniformE [OF assms(1)])
  apply (rule uniformE [OF assms(2)])
  subgoal for t t'
    by (rule uniformI [of _ "do { a \<leftarrow> t; b \<leftarrow> t'; Some (a @ b) }"]; cases t; cases t') simp_all
  done

lemma uniform_val_bind:
  assumes "uniform_val F G" "\<And>v. uniform (F' v) (G' v)"
  shows "uniform (\<lambda>putc r. F putc r \<bind> (\<lambda>(v, r). F' v putc r)) (\<lambda>putc r. G putc r \<bind> (\<lambda>(v, r). G' v putc r))"
proof -
  obtain g where g: "\<And>v putc r. F' v putc r = map_option (\<lambda>out. putstr putc out r) (g v)"
      "\<And>v putc r. G' v putc r = map_option (\<lambda>out. putstr putc out r) (g v)"
    using assms(2) unfolding uniform_def by metis
  from assms(1) show ?thesis
    apply (rule uniform_valE)
    subgoal for t
      by (rule uniformI [of _ "do { (v, a) \<leftarrow> t; b \<leftarrow> g v; Some (a @ b) }"]; cases t)
        (auto simp: g split_def map_option_case split: option.splits)
    done
qed

lemma uniform_pure:
  assumes "\<And>v. m = Some v \<Longrightarrow> uniform (F v) (G v)"
  shows "uniform (\<lambda>putc r. m \<bind> (\<lambda>v. F v putc r)) (\<lambda>putc r. m \<bind> (\<lambda>v. G v putc r))"
  using assms by (cases m) auto

lemma uniform_if:
  assumes "c \<Longrightarrow> uniform F G" "\<not> c \<Longrightarrow> uniform F' G'"
  shows "uniform (\<lambda>putc r. if c then F putc r else F' putc r) (\<lambda>putc r. if c then G putc r else G' putc r)"
  using assms by (cases c) simp_all

lemma uniform_val_if:
  assumes "c \<Longrightarrow> uniform_val F G" "\<not> c \<Longrightarrow> uniform_val F' G'"
  shows "uniform_val (\<lambda>putc r. if c then F putc r else F' putc r) (\<lambda>putc r. if c then G putc r else G' putc r)"
  using assms by (cases c) simp_all

lemma uniform_val_None: "uniform_val (\<lambda>putc r. None) (\<lambda>putc r. None)"
  by (rule uniform_valI' [of _ None]) auto

lemma uniform_valI:
  assumes "uniform F G"
  shows "uniform_val (\<lambda>putc r. F putc r \<bind> (\<lambda>r. Some (v, r))) (\<lambda>putc r. G putc r \<bind> (\<lambda>r. Some (v, r)))"
  apply (rule uniformE [OF assms])
  subgoal for t
    by (rule uniform_valI' [of _ "map_option (Pair v) t"]; cases t) auto
  done

lemma uniform_val_pure:
  assumes "\<And>v. m = Some v \<Longrightarrow> uniform_val (F v) (G v)"
  shows "uniform_val (\<lambda>putc r. m \<bind> (\<lambda>v. F v putc r)) (\<lambda>putc r. m \<bind> (\<lambda>v. G v putc r))"
  using assms by (cases m) (auto intro: uniform_val_None)

lemma uniform_val_put: "uniform_val (\<lambda>putc r. Some (v, putstr putc out r)) (\<lambda>putc r. Some (v, putstr putc out r))"
  using uniform_valI [OF uniform_put] by simp

lemma uniform_val_same: "uniform_val (\<lambda>putc r. Some (v, r)) (\<lambda>putc r. Some (v, r))"
  using uniform_val_put [of _ "[]"] by simp

lemma uniform_val_after:
  assumes "uniform_val F G"
  shows "uniform_val (\<lambda>putc r. F putc (putstr putc a r)) (\<lambda>putc r. G putc (putstr putc a r))"
  apply (rule uniform_valE [OF assms])
  subgoal for t
    by (rule uniform_valI' [of _ "map_option (\<lambda>(v, out). (v, a @ out)) t"]; cases t) (auto simp: split_def)
  done

lemma uniform_val_seq:
  assumes "uniform F G" "uniform_val F' G'"
  shows "uniform_val (\<lambda>putc r. F putc r \<bind> F' putc) (\<lambda>putc r. G putc r \<bind> G' putc)"
  apply (rule uniformE [OF assms(1)])
  apply (rule uniform_valE [OF assms(2)])
  subgoal for t t'
    by (rule uniform_valI' [of _ "do { a \<leftarrow> t; (v, b) \<leftarrow> t'; Some (v, a @ b) }"]; cases t; cases t') auto
  done

section \<open>The layout of a number\<close>

text \<open>The field of a number: blanks, sign, prefix, zeros, digits, blanks, as wide as the specification asks for.\<close>

definition layout :: "fmt_spec \<Rightarrow> string \<Rightarrow> string \<Rightarrow> string" where
  "layout sp front ds =
     (let k = nat (fmt_length sp - int (length front) - int (length ds))
      in if padc sp = CHR ''0'' then front @ replicate k (CHR ''0'') @ ds
         else if ladjust sp then front @ ds @ replicate k (CHR '' '')
         else if padc sp = CHR '' '' then replicate k (CHR '' '') @ front @ ds
         else front @ ds)"

definition num_prefix :: "fmt_spec \<Rightarrow> nat \<Rightarrow> nat \<Rightarrow> string" where
  "num_prefix sp base u = (if u \<noteq> 0 \<and> altfmt sp then (if base = 8 then ''0'' else if base = 16 then ''0x'' else '''') else '''')"

definition num_value :: "bool \<Rightarrow> nat \<Rightarrow> nat" where
  "num_value trunc u = (if trunc then nat (sint (word_of_nat u :: u32) mod 2 ^ 64) else u)"

definition hidden :: "fmt_env \<Rightarrow> nat \<Rightarrow> bool" where
  "hidden env u \<longleftrightarrow> doprnt_hide_pointers env \<and> is_log env \<and> u \<ge> kernel_min env \<and> u \<le> kernel_max env"

lemma count_raw_ptr: "count 5 (putraws putc ''<ptr>'' r) = putstr putc ''<ptr>'' r"
  by (cases r) (simp add: count_def putch_def putraw_def)

lemma pad_text:
  "snd (pad putc c n r) = putstr putc (replicate (nat n) c) r" "fst (pad putc c n r) < 0"
  "pad putc c n r = (min (n - 1) (- 1), putstr putc (replicate (nat n) c) r)"
  by (simp_all add: pad_def)

lemma print_num_visible:
  assumes "\<not> hidden env (num_value trunc u)"
  shows "print_num env putc sp trunc base capitals sign_char u r = do {
     ds \<leftarrow> num_digits digits base capitals (num_value trunc u);
     let front = (case sign_char of None \<Rightarrow> [] | Some c \<Rightarrow> [c]) @ num_prefix sp base (num_value trunc u);
     let len = fmt_length sp - int (length front) - int (length ds);
     let (len, r) = (if padc sp = CHR '' '' \<and> \<not> ladjust sp then pad putc (CHR '' '') len r else (len, r));
     let (len, r) = (if padc sp = CHR ''0'' then pad putc (CHR ''0'') len (putstr putc front r) else (len, putstr putc front r));
     let (len, r) = (if ladjust sp then pad putc (CHR '' '') len (putstr putc ds r) else (len, putstr putc ds r));
     Some r
   }"
proof -
  have len: "(if sign_char \<noteq> None then fmt_length sp - int (length ds) - 1 else fmt_length sp - int (length ds)) - int (length prefix) =
      fmt_length sp - int (length ((case sign_char of None \<Rightarrow> [] | Some c \<Rightarrow> [c]) @ prefix)) - int (length ds)" for ds prefix :: string
    by (cases sign_char) simp_all
  have front: "putstr putc prefix (case sign_char of None \<Rightarrow> r | Some c \<Rightarrow> putch putc c r) =
      putstr putc ((case sign_char of None \<Rightarrow> [] | Some c \<Rightarrow> [c]) @ prefix) r" for prefix :: string and r
    by (cases sign_char) simp_all
  show ?thesis
    using assms unfolding print_num_def num_value_def [symmetric] num_prefix_def [symmetric] hidden_def [symmetric] Let_def [of "num_value trunc u"]
    by (simp only: Let_def len front if_False split_beta)
qed

lemma print_num_text:
  "print_num env putc sp trunc base capitals sign_char u r =
     (if hidden env (num_value trunc u) then Some (putstr putc ''<ptr>'' r)
      else map_option (\<lambda>ds. putstr putc
          (layout sp ((case sign_char of None \<Rightarrow> [] | Some c \<Rightarrow> [c]) @ num_prefix sp base (num_value trunc u)) ds) r)
        (num_digits digits base capitals (num_value trunc u)))"
proof (cases "hidden env (num_value trunc u)")
  case True
  then show ?thesis
    unfolding print_num_def num_value_def [symmetric] hidden_def [symmetric] Let_def [of "num_value trunc u"]
    by (simp only: count_raw_ptr if_True)
next
  case False
  have "nat (min (n - 1) (- 1)) = 0" for n :: int
    by simp
  then show ?thesis
    using False unfolding print_num_visible [OF False] layout_def Let_def
    by (cases "num_digits digits base capitals (num_value trunc u)"; cases "ladjust sp")
      (simp_all add: pad_def)
qed


section \<open>Every conversion is uniform\<close>

lemma uniform_print_num:
  "uniform (\<lambda>putc r. print_num env putc sp trunc base capitals sign_char u r)
     (\<lambda>putc r. print_num env putc sp trunc base capitals sign_char u r)"
  unfolding print_num_text
  by (cases "hidden env (num_value trunc u)"; cases "num_digits digits base capitals (num_value trunc u)")
    (simp_all add: uniform_put uniform_None del: putstr.simps)

lemma uniform_printnum: "uniform (\<lambda>putc r. printnum putc u base r) (\<lambda>putc r. printnum putc u base r)"
  unfolding printnum_def by (intro uniform_pure uniform_put)

lemma uniform_print_signed:
  "uniform_val (\<lambda>putc r. print_signed env putc sp trunc base args r) (\<lambda>putc r. print_signed env putc sp trunc base args r)"
  unfolding print_signed_def split_def Let_def
  by (rule uniform_val_pure, rule uniform_valI) (intro uniform_if uniform_None uniform_print_num)

lemma uniform_print_unsigned:
  "uniform_val (\<lambda>putc r. print_unsigned env putc sp trunc base capitals args r)
     (\<lambda>putc r. print_unsigned env putc sp trunc base capitals args r)"
  unfolding print_unsigned_def split_def Let_def
  by (rule uniform_val_pure, rule uniform_valI) (rule uniform_print_num)

lemma uniform_print_chars:
  "uniform_val (\<lambda>putc r. print_chars putc len prc p n r) (\<lambda>putc r. print_chars putc len prc p n r)"
proof (induction p arbitrary: n)
  case Nil
  show ?case
    unfolding print_chars.simps by (intro uniform_val_if uniform_val_None uniform_val_same)
next
  case (Cons c p)
  show ?case
    unfolding print_chars.simps putch_putstr
    by (intro uniform_val_if uniform_val_same uniform_val_after Cons.IH)
qed

lemma uniform_print_string: "uniform (\<lambda>putc r. print_string putc sp p r) (\<lambda>putc r. print_string putc sp p r)"
proof -
  have left: "uniform (\<lambda>putc r. if c then m \<bind> (\<lambda>n. Some (putstr putc (t n) r)) else Some r)
      (\<lambda>putc r. if c then m \<bind> (\<lambda>n. Some (putstr putc (t n) r)) else Some r)" for c and m :: "int option" and t
    by (intro uniform_if uniform_pure uniform_put uniform_same)
  have right: "uniform (\<lambda>putc r. Some (if c then putstr putc t r else r)) (\<lambda>putc r. Some (if c then putstr putc t r else r))" for c t
    by (cases c) auto
  show ?thesis
    unfolding print_string_def Let_def
    by (rule uniform_bind [OF left], rule uniform_val_bind [OF uniform_print_chars right])
qed

lemma count_raw_two: "count 2 (putraw putc lo (putraw putc hi r)) = putstr putc [hi, lo] r"
  by (cases r) (simp add: count_def putraw_def putch_def)

lemma bit_name_length: "bit_name p = Some v \<Longrightarrow> length (snd v) \<le> length p"
  using length_dropWhile_le [of "\<lambda>c. 32 < schar c" p] by (auto simp: bit_name_def split: list.splits)

lemma uniform_print_dump: "uniform (\<lambda>putc r. print_dump putc n up p r) (\<lambda>putc r. print_dump putc n up p r)"
proof (induction n arbitrary: up)
  case 0
  show ?case by auto
next
  case (Suc n)
  show ?case
    unfolding print_dump.simps Let_def count_raw_two putstr_append [symmetric]
    by (intro uniform_pure uniform_if uniform_put uniform_after Suc.IH)
qed

lemma uniform_print_bits:
  "uniform_val (\<lambda>(putc :: char \<Rightarrow> 's \<Rightarrow> 's) r. print_bits putc upper u base any p r)
     (\<lambda>(putc :: char \<Rightarrow> 't \<Rightarrow> 't) r. print_bits putc upper u base any p r)"
proof (induction p arbitrary: any rule: length_induct)
  case (1 p)
  show ?case
  proof (cases p)
    case Nil
    then show ?thesis
      by (simp add: uniform_val_None)
  next
    case (Cons ci q)
    have IH: "uniform_val (\<lambda>(putc :: char \<Rightarrow> 's \<Rightarrow> 's) r. print_bits putc upper u base any rest r)
        (\<lambda>(putc :: char \<Rightarrow> 't \<Rightarrow> 't) r. print_bits putc upper u base any rest r)"
      if "length rest \<le> length q" for rest any
      using that Cons by (intro 1 [rule_format]) simp
    show ?thesis
      unfolding Cons print_bits.simps Let_def split_def putch_putstr putstr_append [symmetric]
      apply (rule uniform_val_if, rule uniform_val_same)
      apply (rule uniform_val_pure, rule uniform_val_if; (rule uniform_val_pure)+; rule uniform_val_if)
         apply (rule uniform_val_seq [OF uniform_after [OF uniform_printnum] IH])
         apply (frule bit_name_length, simp)
        apply (rule uniform_val_None)
       apply (rule uniform_val_after [OF IH], erule bit_name_length)
      apply (rule IH, erule bit_name_length)
      done
  qed
qed

lemma uniform_print_register:
  "uniform (\<lambda>putc r. print_register putc upper u p r) (\<lambda>putc r. print_register putc upper u p r)"
proof -
  have right: "uniform (\<lambda>putc r. Some (if c then putch putc t r else r)) (\<lambda>putc r. Some (if c then putch putc t r else r))" for c t
    unfolding putch_putstr by (cases c) (simp_all only: if_True if_False uniform_put uniform_same)
  show ?thesis
    unfolding print_register_def
    by (intro uniform_pure uniform_bind uniform_printnum uniform_if uniform_same uniform_val_bind uniform_print_bits right)
qed

lemma uniform_convert:
  "uniform_val (\<lambda>putc r. convert env putc sp c args r) (\<lambda>putc r. convert env putc sp c args r)"
  unfolding convert_def Let_def split_def putch_putstr
  by (intro uniform_val_if uniform_print_signed uniform_print_unsigned uniform_val_same uniform_val_put
      uniform_val_pure uniform_valI [OF uniform_print_register] uniform_valI [OF uniform_print_string]
      uniform_valI [OF uniform_print_dump])

lemma uniform_doprnt_loop:
  "uniform (\<lambda>(putc :: char \<Rightarrow> 's \<Rightarrow> 's) r. doprnt_loop env putc fmt args r)
     (\<lambda>(putc :: char \<Rightarrow> 't \<Rightarrow> 't) r. doprnt_loop env putc fmt args r)"
proof (induction fmt arbitrary: args rule: length_induct)
  case (1 fmt)
  show ?case
  proof (cases fmt)
    case Nil
    then show ?thesis
      by (simp add: uniform_None)
  next
    case (Cons c q)
    have IH: "uniform (\<lambda>(putc :: char \<Rightarrow> 's \<Rightarrow> 's) r. doprnt_loop env putc rest args r)
        (\<lambda>(putc :: char \<Rightarrow> 't \<Rightarrow> 't) r. doprnt_loop env putc rest args r)"
      if "length rest \<le> length q" for rest args
      using that Cons by (intro 1 [rule_format]) simp
    have conv: "uniform
        (\<lambda>(putc :: char \<Rightarrow> 's \<Rightarrow> 's) r. case rest of [] \<Rightarrow> None | c # rest2 \<Rightarrow> if c = NUL then doprnt_loop env putc rest args r
           else convert env putc sp c args r \<bind> (\<lambda>(args, r). doprnt_loop env putc rest2 args r))
        (\<lambda>(putc :: char \<Rightarrow> 't \<Rightarrow> 't) r. case rest of [] \<Rightarrow> None | c # rest2 \<Rightarrow> if c = NUL then doprnt_loop env putc rest args r
           else convert env putc sp c args r \<bind> (\<lambda>(args, r). doprnt_loop env putc rest2 args r))"
      if "length rest \<le> length q" for rest args sp
    proof (cases rest)
      case (Cons d rest2)
      show ?thesis
        unfolding Cons list.case
        by (rule uniform_if, rule IH, use that Cons in simp, rule uniform_val_bind [OF uniform_convert IH], use that Cons in simp)
    qed (simp add: uniform_None)
    show ?thesis
      unfolding Cons doprnt_loop.simps putch_putstr
      apply (rule uniform_if, rule uniform_same)
      apply (rule uniform_if, rule uniform_after [OF IH], rule order_refl)
      apply (rule uniform_pure)
      subgoal for v
        by (cases v) (auto dest: fmt_parse_length intro: conv)
      done
  qed
qed

text \<open>What a format and its arguments print: the characters that a device that keeps them all has received.\<close>

definition fmt_text :: "fmt_env \<Rightarrow> string \<Rightarrow> va list \<Rightarrow> int \<Rightarrow> bool \<Rightarrow> string option" where
  "fmt_text env fmt args radix log = map_option snd (doprnt env fmt args (\<lambda>c s. s @ [c]) [] radix log)"

lemma fold_snoc: "fold (\<lambda>c s. s @ [c]) out s = s @ out"
  by (induction out arbitrary: s) auto

lemma doprnt_device:
  "doprnt env fmt args putc s radix log =
     map_option (\<lambda>out. (int (length out), fold putc out s)) (fmt_text env fmt args radix log)"
proof -
  let ?radix = "if radix < 2 \<or> radix > 36 then 10 else radix"
  let ?env = "env\<lparr>fmt_radix := ?radix, is_log := log\<rparr>"
  from uniform_doprnt_loop [of ?env fmt args] show ?thesis
  proof (rule uniformE)
    fix t
    assume "\<And>(putc :: char \<Rightarrow> 'a \<Rightarrow> 'a) r. doprnt_loop ?env putc fmt args r = map_option (\<lambda>out. putstr putc out r) t"
      and "\<And>(putc :: char \<Rightarrow> string \<Rightarrow> string) r. doprnt_loop ?env putc fmt args r = map_option (\<lambda>out. putstr putc out r) t"
    then show ?thesis
      unfolding doprnt_def fmt_text_def Let_def
      by (cases t) (simp_all add: putstr_fold fold_snoc)
  qed
qed

section \<open>Printing into a buffer\<close>

lemma snprintf_func_fold:
  assumes "buf = done @ rest" "length done = pos" "rem \<le> length rest"
  shows "fold snprintf_func out (Some \<lparr> sn_buf = buf, sn_str = pos, sn_remain = rem \<rparr>) =
    (let t = take (rem - 1) out
     in Some \<lparr> sn_buf = done @ t @ drop (length t) rest, sn_str = pos + length t, sn_remain = rem - length t \<rparr>)"
  using assms
proof (induction out arbitrary: buf "done" rest pos rem)
  case Nil
  then show ?case by simp
next
  case (Cons c out)
  show ?case
  proof (cases "rem \<ge> 2")
    case True
    then obtain x rest' where rest: "rest = x # rest'" "rem - 1 \<le> length rest'"
      using Cons.prems by (cases rest) auto
    have "snprintf_func c (Some \<lparr> sn_buf = buf, sn_str = pos, sn_remain = rem \<rparr>) =
        Some \<lparr> sn_buf = (done @ [c]) @ rest', sn_str = pos + 1, sn_remain = rem - 1 \<rparr>"
      using True Cons.prems rest by (simp add: snprintf_func_def put_def list_update_append)
    moreover have "take (rem - 1) (c # out) = c # take (rem - 2) out"
      using True by (simp add: take_Cons' numeral_2_eq_2)
    ultimately show ?thesis
      using Cons.IH [of "(done @ [c]) @ rest'" "done @ [c]" rest' "pos + 1" "rem - 1"] True Cons.prems rest
      by (simp add: Let_def numeral_2_eq_2)
  next
    case False
    then have "snprintf_func c (Some \<lparr> sn_buf = buf, sn_str = pos, sn_remain = rem \<rparr>) =
        Some \<lparr> sn_buf = buf, sn_str = pos, sn_remain = rem \<rparr>"
      by (simp add: snprintf_func_def)
    then show ?thesis
      using False Cons.prems by (simp add: Cons.IH)
  qed
qed

lemma vsnprintf_buffer:
  assumes "sz \<le> length buf"
  shows "vsnprintf env buf sz fmt args = map_option (\<lambda>out. (int (length out),
     if sz = 0 then buf else take (sz - 1) out @ NUL # drop (Suc (min (sz - 1) (length out))) buf))
     (fmt_text env fmt args 10 False)"
proof (cases "fmt_text env fmt args 10 False")
  case (Some out)
  let ?t = "take (sz - 1) out"
  have fold: "fold snprintf_func out (Some \<lparr> sn_buf = buf, sn_str = 0, sn_remain = sz \<rparr>) =
      Some \<lparr> sn_buf = ?t @ drop (length ?t) buf, sn_str = length ?t, sn_remain = sz - length ?t \<rparr>"
    using snprintf_func_fold [of buf "[]" buf 0 sz out] assms by (simp add: Let_def)
  have "put (?t @ drop (length ?t) buf) (length ?t) NUL = Some (?t @ NUL # drop (Suc (length ?t)) buf)" if "sz \<noteq> 0"
    using that assms by (auto simp: put_def list_update_append Cons_nth_drop_Suc [symmetric] upd_conv_take_nth_drop)
  then show ?thesis
    using assms Some by (auto simp: vsnprintf_def doprnt_device fold min_def)
qed (simp add: vsnprintf_def doprnt_device)

end
