(* ===== verification/Kern_Printf_Types.thy ===== *)
theory Kern_Printf_Types
  imports Kern_Printf_Text "HOL-Library.Code_Target_Numeral"
begin

text \<open>
  A type system for formats: the kinds of arguments a format asks for, and that a format printed with such
  arguments cannot go wrong.
\<close>

section \<open>Typed formats\<close>

text \<open>The kinds of arguments: the value of a \<open>*\<close>, a number, a number that must have a negation of 64 bits, a string.\<close>

datatype va_kind = KStar | KNum | KLong | KStr

fun fits :: "va_kind \<Rightarrow> va \<Rightarrow> bool" where
  "fits KStar (VaInt w) \<longleftrightarrow> sint (ucast w :: u32) \<noteq> - (2 ^ 31)"
| "fits KNum (VaInt w) \<longleftrightarrow> True"
| "fits KLong (VaInt w) \<longleftrightarrow> sint w \<noteq> - (2 ^ 63)"
| "fits KStr (VaPtr p) \<longleftrightarrow> (case p of None \<Rightarrow> True | Some s \<Rightarrow> NUL \<in> set s)"
| "fits _ _ \<longleftrightarrow> False"

text \<open>The kinds of arguments that a format asks for; it has none when it uses \<open>%b\<close>, \<open>%B\<close> or \<open>%D\<close>, whose arguments
  are checked against each other, when it asks for digits the table does not have, or when a number in it overflows.\<close>

definition star_kinds :: "string \<Rightarrow> (va_kind list \<times> string) option" where
  "star_kinds fmt = (case fmt of
       [] \<Rightarrow> None
     | c # rest \<Rightarrow>
         if isdigit c then map_option (\<lambda>(n, fmt). ([], fmt)) (fmt_number 0 fmt)
         else if c = CHR ''*'' then Some ([KStar], rest)
         else Some ([], fmt))"

definition prec_kinds :: "string \<Rightarrow> (va_kind list \<times> string) option" where
  "prec_kinds fmt = (case fmt of
       [] \<Rightarrow> None
     | c # rest \<Rightarrow> if c = CHR ''.'' then star_kinds rest else Some ([], fmt))"

definition spec_kinds :: "string \<Rightarrow> (va_kind list \<times> fmt_spec \<times> string) option" where
  "spec_kinds fmt = do {
     (sp, fmt) \<leftarrow> fmt_flags fmt fmt_init;
     (sp, fmt) \<leftarrow> fmt_zero fmt sp;
     (ks, fmt) \<leftarrow> star_kinds fmt;
     (ks', fmt) \<leftarrow> prec_kinds fmt;
     (sp, fmt) \<leftarrow> fmt_modifiers fmt sp;
     (sp, fmt) \<leftarrow> fmt_sizes fmt sp;
     Some (ks @ ks', sp, fmt)
   }"

definition conv_kinds :: "int \<Rightarrow> fmt_spec \<Rightarrow> char \<Rightarrow> va_kind list option" where
  "conv_kinds radix sp c =
     (let signed = (if long_long sp \<and> numeric_type sp = NumInt then KLong else KNum)
      in if c \<in> set ''bBD'' then None
         else if c = CHR ''s'' then Some [KStr]
         else if c \<in> set ''di'' then Some [signed]
         else if c \<in> set ''coOuUpxX'' then Some [KNum]
         else if c \<in> set ''rR'' then (if radix \<le> 16 then Some [signed] else None)
         else if c \<in> set ''nN'' then (if radix \<le> 16 then Some [KNum] else None)
         else Some [])"

lemma star_kinds_length: "star_kinds fmt = Some (ks, fmt') \<Longrightarrow> length fmt' \<le> length fmt"
  by (auto simp: star_kinds_def split: list.splits if_splits dest: fmt_number_length)

lemma prec_kinds_length: "prec_kinds fmt = Some (ks, fmt') \<Longrightarrow> length fmt' \<le> length fmt"
  by (auto simp: prec_kinds_def split: list.splits if_splits dest: star_kinds_length)

lemma spec_kinds_length: "spec_kinds fmt = Some (ks, sp, fmt') \<Longrightarrow> length fmt' \<le> length fmt"
  by (auto simp: spec_kinds_def bind_eq_Some_conv
      dest!: fmt_flags_length fmt_zero_length star_kinds_length prec_kinds_length fmt_modifiers_length fmt_sizes_length)

function fmt_kinds :: "int \<Rightarrow> string \<Rightarrow> va_kind list option" where
  "fmt_kinds radix [] = None"
| "fmt_kinds radix (c # fmt) =
     (if c = NUL then Some []
      else if c \<noteq> CHR ''%'' then fmt_kinds radix fmt
      else do {
        (ks, sp, fmt) \<leftarrow> spec_kinds fmt;
        case fmt of
          [] \<Rightarrow> None
        | c # rest \<Rightarrow>
            if c = NUL then fmt_kinds radix fmt \<bind> (\<lambda>extra. Some (ks @ extra))
            else do {
              ks' \<leftarrow> conv_kinds radix sp c;
              extra \<leftarrow> fmt_kinds radix rest;
              Some (ks @ ks' @ extra)
            }
      })"
  by pat_completeness auto
termination
  by (relation "measure (\<lambda>(_, fmt). length fmt)") (auto simp: less_Suc_eq_le dest!: spec_kinds_length)

declare fmt_kinds.simps(2) [simp del]

subsection \<open>A specification with well-typed arguments is read\<close>

text \<open>The parts of a specification that the conversion's kinds depend on.\<close>

definition same_size :: "fmt_spec \<Rightarrow> fmt_spec \<Rightarrow> bool" where
  "same_size sp sp' \<longleftrightarrow> long_long sp' = long_long sp \<and> numeric_type sp' = numeric_type sp"

lemma same_size_refl: "same_size sp sp"
  by (simp add: same_size_def)

lemma fmt_width_typed:
  assumes "star_kinds fmt = Some (ks, fmt')" "list_all2 fits ks xs" "same_size sp sp2"
  shows "\<exists>sp'. fmt_width fmt (xs @ args) sp2 = Some (sp', fmt', args) \<and> same_size sp sp'"
proof (cases fmt)
  case (Cons c rest)
  show ?thesis
  proof (cases "isdigit c")
    case False
    then show ?thesis
      using assms Cons
      by (auto simp: star_kinds_def fmt_width_def same_size_def list_all2_Cons1 va_int_def elim!: fits.elims split: if_splits)
  qed (use assms Cons in \<open>auto simp: star_kinds_def fmt_width_def same_size_def simp del: fmt_number.simps\<close>)
qed (use assms in \<open>simp add: star_kinds_def\<close>)

lemma fmt_prec_typed:
  assumes "prec_kinds fmt = Some (ks, fmt')" "list_all2 fits ks xs" "same_size sp sp2"
  shows "\<exists>sp'. fmt_prec fmt (xs @ args) sp2 = Some (sp', fmt', args) \<and> same_size sp sp'"
proof (cases fmt)
  case (Cons c rest)
  then show ?thesis
    using assms
    by (auto simp: prec_kinds_def star_kinds_def fmt_prec_def same_size_def list_all2_Cons1 va_int_def
        simp del: fmt_number.simps elim!: fits.elims split: if_splits list.splits)
qed (use assms in \<open>simp add: prec_kinds_def\<close>)

lemma fmt_modifiers_typed:
  assumes "fmt_modifiers fmt sp = Some (sp', fmt')" "same_size sp sp2"
  shows "\<exists>sp3. fmt_modifiers fmt sp2 = Some (sp3, fmt') \<and> same_size sp' sp3"
  using assms by (auto simp: fmt_modifiers_def skip_def same_size_def split: list.splits if_splits)

lemma fmt_sizes_typed:
  assumes "fmt_sizes fmt sp = Some (sp', fmt')" "same_size sp sp2"
  shows "\<exists>sp3. fmt_sizes fmt sp2 = Some (sp3, fmt') \<and> same_size sp' sp3"
  using assms by (auto simp: fmt_sizes_def same_size_def split: list.splits if_splits)

lemma fmt_parse_typed:
  assumes "spec_kinds fmt = Some (ks, sp, fmt')" "list_all2 fits ks xs"
  shows "\<exists>sp'. fmt_parse fmt (xs @ args) = Some (sp', fmt', args) \<and> same_size sp sp'"
proof -
  obtain sp1 f1 sp2 f2 k1 f3 k2 f4 sp3 f5 where steps:
      "fmt_flags fmt fmt_init = Some (sp1, f1)" "fmt_zero f1 sp1 = Some (sp2, f2)" "star_kinds f2 = Some (k1, f3)"
      "prec_kinds f3 = Some (k2, f4)" "fmt_modifiers f4 sp2 = Some (sp3, f5)" "fmt_sizes f5 sp3 = Some (sp, fmt')" "ks = k1 @ k2"
    using assms(1) by (auto simp: spec_kinds_def bind_eq_Some_conv)
  obtain x1 x2 where xs: "xs = x1 @ x2" "list_all2 fits k1 x1" "list_all2 fits k2 x2"
    using assms(2) steps(7) by (auto simp: list_all2_append1)
  obtain s1 where s1: "fmt_width f2 (x1 @ x2 @ args) sp2 = Some (s1, f3, x2 @ args)" "same_size sp2 s1"
    using fmt_width_typed [OF steps(3) xs(2) same_size_refl] by blast
  obtain s2 where s2: "fmt_prec f3 (x2 @ args) s1 = Some (s2, f4, args)" "same_size sp2 s2"
    using fmt_prec_typed [OF steps(4) xs(3) s1(2)] by blast
  obtain s3 where s3: "fmt_modifiers f4 s2 = Some (s3, f5)" "same_size sp3 s3"
    using fmt_modifiers_typed [OF steps(5) s2(2)] by blast
  obtain s4 where "fmt_sizes f5 s3 = Some (s4, fmt')" "same_size sp s4"
    using fmt_sizes_typed [OF steps(6) s3(2)] by blast
  then show ?thesis
    using steps s1 s2 s3 xs by (simp add: fmt_parse_def)
qed

subsection \<open>A conversion with well-typed arguments succeeds\<close>

lemma num_digits_defined:
  assumes "2 \<le> base" "base + capitals \<le> length table"
  shows "num_digits table base capitals u \<noteq> None"
  using assms
proof (induction u rule: less_induct)
  case (less u)
  have "u mod base + capitals < length table"
    using less.prems mod_less_divisor [of base u] by linarith
  moreover have "num_digits table base capitals (u div base) \<noteq> None" if "u div base \<noteq> 0"
  proof (rule less.IH)
    show "u div base < u"
      using that less.prems by (cases u) auto
  qed (use less.prems in auto)
  ultimately show ?case
    using less.prems by (subst num_digits.simps) (auto simp: rd_def)
qed

lemma print_num_defined:
  assumes "2 \<le> base" "base \<le> 16" "capitals \<le> 16"
  shows "print_num env putc sp trunc base capitals sign_char u r \<noteq> None"
proof -
  have "length digits = 32"
    by (simp add: digits_def)
  then show ?thesis
    using num_digits_defined [of base capitals digits "num_value trunc u"] assms
    by (simp add: print_num_text del: not_None_eq)
qed

lemma print_unsigned_typed:
  assumes "2 \<le> base" "base \<le> 16" "capitals \<le> 16" "fits KNum x"
  shows "\<exists>r'. print_unsigned env putc sp trunc base capitals (x # args) r = Some (args, r')"
proof -
  obtain w where x: "x = VaInt w"
    using assms(4) by (cases x) auto
  show ?thesis
    using print_num_defined [OF assms(1-3)]
    by (simp add: x print_unsigned_def va_unsigned_def Let_def bind_eq_Some_conv) blast
qed


lemma print_signed_typed:
  assumes "2 \<le> base" "base \<le> 16"
    and "fits (if long_long sp \<and> numeric_type sp = NumInt then KLong else KNum) x"
  shows "\<exists>r'. print_signed env putc sp trunc base (x # args) r = Some (args, r')"
proof -
  obtain w where x: "x = VaInt w"
    using assms(3) by (cases x) (auto split: if_splits)
  define n where "n = (case numeric_type sp of NumInt \<Rightarrow> (if long_long sp then sint w else sint (ucast w :: u32))
      | NumShort \<Rightarrow> signed_take_bit 15 (if long_long sp then sint w else sint (ucast w :: u32))
      | NumChar \<Rightarrow> signed_take_bit 7 (if long_long sp then sint w else sint (ucast w :: u32)))"
  have eq: "print_signed env putc sp trunc base (x # args) r =
      (if n = - (2 ^ 63) then None
       else if n \<ge> 0 then print_num env putc sp trunc base 0 (plus_sign sp) (nat n) r
       else print_num env putc sp trunc base 0 (Some (CHR ''-'')) (nat (- n)) r) \<bind> (\<lambda>r. Some (args, r))"
    by (cases "long_long sp") (simp_all add: x print_signed_def va_signed_def va_int_def n_def)
  have n: "n \<noteq> - (2 ^ 63)"
  proof (cases "numeric_type sp")
    case NumInt
    then show ?thesis
      using assms(3) x sint_greater_eq [of "ucast w :: u32"] by (auto simp: n_def)
  next
    case NumShort
    have "signed_take_bit 15 k \<noteq> - (2 ^ 63)" for k :: int
      using signed_take_bit_int_greater_eq_minus_exp [of 15 k] by auto
    then show ?thesis
      using NumShort by (simp add: n_def)
  next
    case NumChar
    have "signed_take_bit 7 k \<noteq> - (2 ^ 63)" for k :: int
      using signed_take_bit_int_greater_eq_minus_exp [of 7 k] by auto
    then show ?thesis
      using NumChar by (simp add: n_def)
  qed
  have "print_num env putc sp trunc base 0 sg u r \<noteq> None" for sg u
    using assms(1,2) by (intro print_num_defined) auto
  then show ?thesis
    using n by (auto simp: eq bind_eq_Some_conv)
qed

lemma str_count_defined: "NUL \<in> set p \<Longrightarrow> str_count p prc n \<noteq> None"
  by (induction p arbitrary: n) (auto simp del: not_None_eq)

lemma print_chars_defined: "NUL \<in> set p \<Longrightarrow> print_chars putc len prc p n r \<noteq> None"
proof (induction p arbitrary: n r)
  case (Cons c p)
  then show ?case
    by (cases "c = NUL") (simp_all del: not_None_eq)
qed simp

lemma print_string_typed:
  assumes "fits KStr (VaPtr p)"
  shows "print_string putc sp p r \<noteq> None"
proof -
  define s where "s = (case p of None \<Rightarrow> [NUL] | Some p \<Rightarrow> p)"
  have s: "NUL \<in> set s"
    using assms by (auto simp: s_def split: option.splits)
  have left: "(if b then str_count s prc 0 \<bind> (\<lambda>n. Some (f n)) else Some r) \<noteq> None" for b prc and f :: "int \<Rightarrow> 'a out"
    using str_count_defined [OF s, of prc 0] by auto
  have both: "a \<bind> (\<lambda>r. g r \<bind> (\<lambda>(n, r). Some (h n r))) \<noteq> None"
    if "a \<noteq> None" "\<And>r. g r \<noteq> None" for a g and h :: "int \<Rightarrow> 'a out \<Rightarrow> 'a out"
    using that by (auto simp: bind_eq_None_conv split_def)
  show ?thesis
    unfolding print_string_def Let_def s_def [symmetric]
    by (rule both [OF left print_chars_defined [OF s]])
qed

lemma convert_typed:
  assumes "conv_kinds (fmt_radix env) sp c = Some ks" "list_all2 fits ks xs" "same_size sp sp'" "2 \<le> fmt_radix env"
  shows "\<exists>r'. convert env putc sp' c (xs @ args) r = Some (args, r')"
proof -
  have sgn: "\<exists>r'. print_signed env putc sp' t base (xs @ args) r = Some (args, r')"
    if ks: "ks = [if long_long sp \<and> numeric_type sp = NumInt then KLong else KNum]" and base: "2 \<le> base" "base \<le> 16" for t base
  proof -
    obtain x where "xs = [x]" "fits (if long_long sp' \<and> numeric_type sp' = NumInt then KLong else KNum) x"
      using ks assms(2,3) by (auto simp: list_all2_Cons1 same_size_def)
    then show ?thesis
      using print_signed_typed [OF base] by simp
  qed
  have uns: "\<exists>r'. print_unsigned env putc s t base capitals (xs @ args) r = Some (args, r')"
    if ks: "ks = [KNum]" and base: "2 \<le> base" "base \<le> 16" "capitals \<le> 16" for t base capitals s
  proof -
    obtain x where "xs = [x]" "fits KNum x"
      using ks assms(2) by (auto simp: list_all2_Cons1)
    then show ?thesis
      using print_unsigned_typed [OF base] by simp
  qed
  have radix: "2 \<le> nat (fmt_radix env)" "fmt_radix env \<le> 16 \<Longrightarrow> nat (fmt_radix env) \<le> 16"
    using assms(4) by auto
  consider (str) "c = CHR ''s''" "ks = [KStr]"
    | (signed) "c \<in> set ''di''" "ks = [if long_long sp \<and> numeric_type sp = NumInt then KLong else KNum]"
    | (unsigned) "c \<in> set ''coOuUpxX''" "ks = [KNum]"
    | (rsigned) "c \<in> set ''rR''" "ks = [if long_long sp \<and> numeric_type sp = NumInt then KLong else KNum]" "fmt_radix env \<le> 16"
    | (runsigned) "c \<in> set ''nN''" "ks = [KNum]" "fmt_radix env \<le> 16"
    | (other) "c \<notin> set ''bBD''" "c \<noteq> CHR ''s''" "c \<notin> set ''di''" "c \<notin> set ''coOuUpxX''" "c \<notin> set ''rR''" "c \<notin> set ''nN''" "ks = []"
    using assms(1) unfolding conv_kinds_def Let_def
    by (simp only: option.inject option.distinct split: if_split_asm) (blast+)?
  then show ?thesis
  proof cases
    case str
    then obtain p where "xs = [VaPtr p]" "fits KStr (VaPtr p)"
      using assms(2) by (auto simp: list_all2_Cons1 elim!: fits.elims)
    then show ?thesis
      using print_string_typed [of p putc sp' r] str by (auto simp: convert_def)
  next
    case signed
    then show ?thesis
      by (simp only: list.set insert_iff empty_iff, elim disjE)
        (simp_all add: convert_def sgn [OF signed(2)] del: split_paired_Ex)
  next
    case unsigned
    have chr: "\<exists>r'. (do { (n, args) \<leftarrow> va_int (xs @ args); Some (args, putch putc (to_char n) r) }) = Some (args, r')"
      using unsigned(2) assms(2) by (auto simp: list_all2_Cons1 va_int_def elim!: fits.elims)
    from unsigned(1) show ?thesis
      by (simp only: list.set insert_iff empty_iff, elim disjE)
        (simp_all add: convert_def chr uns [OF unsigned(2)] del: split_paired_Ex)
  next
    case rsigned
    then show ?thesis
      by (simp only: list.set insert_iff empty_iff, elim disjE)
        (simp_all add: convert_def sgn [OF rsigned(2)] radix del: split_paired_Ex)
  next
    case runsigned
    then show ?thesis
      by (simp only: list.set insert_iff empty_iff, elim disjE)
        (simp_all add: convert_def uns [OF runsigned(2)] radix del: split_paired_Ex)
  next
    case other
    then show ?thesis
      using assms(2) by (simp add: convert_def Let_def)
  qed
qed

section \<open>Properties\<close>

lemma list_all2_appendE:
  assumes "list_all2 P (as @ bs) xs"
  obtains us vs where "xs = us @ vs" "list_all2 P as us" "list_all2 P bs vs"
  using assms by (auto simp: list_all2_append1)

lemma doprnt_loop_typed:
  assumes "fmt_kinds (fmt_radix env) fmt = Some ks" "list_all2 fits ks args" "2 \<le> fmt_radix env"
  shows "doprnt_loop env putc fmt (args @ extra) r \<noteq> None"
  using assms
proof (induction fmt arbitrary: ks args r rule: length_induct)
  case (1 fmt)
  obtain c q where fmt: "fmt = c # q"
    using 1(2) by (cases fmt) auto
  have IH: "doprnt_loop env putc rest (xs @ extra) r' \<noteq> None"
    if "length rest \<le> length q" "fmt_kinds (fmt_radix env) rest = Some l" "list_all2 fits l xs" for rest xs r' l
    using 1(1) that 1(4) fmt less_Suc_eq_le by (metis length_Cons)
  show ?case
  proof (cases "c = NUL \<or> c \<noteq> CHR ''%''")
    case True
    then show ?thesis
      using 1(2,3) IH [OF order_refl] by (auto simp: fmt fmt_kinds.simps doprnt_loop.simps simp del: not_None_eq split: if_splits)
  next
    case False
    then obtain k1 sp f where spec0: "spec_kinds q = Some (k1, sp, f)"
      and k: "(case f of [] \<Rightarrow> None | d # rest \<Rightarrow>
        if d = NUL then fmt_kinds (fmt_radix env) f \<bind> (\<lambda>l. Some (k1 @ l))
        else do { a \<leftarrow> conv_kinds (fmt_radix env) sp d; b \<leftarrow> fmt_kinds (fmt_radix env) rest; Some (k1 @ a @ b) }) = Some ks"
      using 1(2) unfolding fmt fmt_kinds.simps by (auto simp only: bind_eq_Some_conv if_False split: if_splits)
    then obtain d rest where f: "f = d # rest"
      by (cases f) auto
    note spec = spec0 [unfolded f]
    obtain k2 where ks: "ks = k1 @ k2"
      and k2: "if d = NUL then fmt_kinds (fmt_radix env) (d # rest) = Some k2
        else \<exists>a b. conv_kinds (fmt_radix env) sp d = Some a \<and> fmt_kinds (fmt_radix env) rest = Some b \<and> k2 = a @ b"
      using k unfolding f list.case by (cases "d = NUL") (auto simp: bind_eq_Some_conv)
    obtain x1 x2 where x: "args = x1 @ x2" "list_all2 fits k1 x1" "list_all2 fits k2 x2"
      using 1(3) unfolding ks by (rule list_all2_appendE)
    obtain sp' where parse: "fmt_parse q (x1 @ x2 @ extra) = Some (sp', d # rest, x2 @ extra)" and size: "same_size sp sp'"
      using fmt_parse_typed [OF spec x(2)] by blast
    have len: "length (d # rest) \<le> length q"
      using fmt_parse_length [OF parse] .
    show ?thesis
    proof (cases "d = NUL")
      case True
      then show ?thesis
        using False parse k2 IH [OF len _ x(3)] by (simp add: fmt x(1) doprnt_loop.simps(2) del: not_None_eq)
    next
      case nz: False
      then obtain a b where ab: "conv_kinds (fmt_radix env) sp d = Some a" "fmt_kinds (fmt_radix env) rest = Some b" "k2 = a @ b"
        using k2 by auto
      obtain y1 y2 where y: "x2 = y1 @ y2" "list_all2 fits a y1" "list_all2 fits b y2"
        using x(3) unfolding ab(3) by (rule list_all2_appendE)
      obtain r' where "convert env putc sp' d (y1 @ y2 @ extra) r = Some (y2 @ extra, r')"
        using convert_typed [OF ab(1) y(2) size 1(4)] by blast
      then show ?thesis
        using False nz parse y len IH [OF _ ab(2) y(3)] by (simp add: fmt x(1) doprnt_loop.simps(2) del: not_None_eq)
    qed
  qed
qed


text \<open>C16. A format whose arguments have the kinds it asks for, with any further arguments behind them, is printed to the
  end: no conversion reads a missing argument, runs behind the end of the format or of a string, or takes a digit
  outside the digit table.\<close>

theorem printf_type_sound:
  assumes "fmt_kinds (fmt_radix env) fmt = Some ks" "list_all2 fits ks args" "2 \<le> fmt_radix env"
  shows "\<exists>n s'. doprnt_loop env putc fmt (args @ extra) (0, s) = Some (n, s')"
  using doprnt_loop_typed [OF assms, of putc extra "(0, s)"] by auto

definition sample_env :: fmt_env where
  "sample_env = \<lparr> doprnt_truncates = False, doprnt_hide_pointers = True, kernel_min = 0xFFFFFF7F80000000,
     kernel_max = 0xFFFFFFFFFFFFEFFF, fmt_radix = 10, is_log = False \<rparr>"

theorem printf_type_sound_witness:
  "fmt_kinds 10 (''%d: %*s %#llx%c'' @ [NUL]) = Some [KNum, KStar, KStr, KNum, KNum] \<and>
   (\<exists>n s'. doprnt_loop sample_env (\<lambda>c s. s @ [c]) (''%d: %*s %#llx%c'' @ [NUL])
      ([VaInt (- 3), VaInt 8, VaPtr (Some (''mach'' @ [NUL])), VaInt 0xFEEDFACE, VaInt 10] @ []) (0, []) = Some (n, s'))"
proof
  show kinds: "fmt_kinds 10 (''%d: %*s %#llx%c'' @ [NUL]) = Some [KNum, KStar, KStr, KNum, KNum]"
    by code_simp
  show "\<exists>n s'. doprnt_loop sample_env (\<lambda>c s. s @ [c]) (''%d: %*s %#llx%c'' @ [NUL])
      ([VaInt (- 3), VaInt 8, VaPtr (Some (''mach'' @ [NUL])), VaInt 0xFEEDFACE, VaInt 10] @ []) (0, []) = Some (n, s')"
    by (rule printf_type_sound [where ks = "[KNum, KStar, KStr, KNum, KNum]"]) (use kinds in \<open>simp_all add: sample_env_def\<close>)
qed

end
