(* ===== verification/Kern_Printf_Facts.thy ===== *)
theory Kern_Printf_Facts
  imports Kern_Printf_Types
begin

text \<open>
  Printed numbers read back as what they were, and the places where the formatter departs from its description.
\<close>

section \<open>Numbers read back\<close>

definition digit_value :: "char \<Rightarrow> nat" where
  "digit_value c = nat (if isdigit c then uchar c - 48 else if uchar c \<ge> 97 then uchar c - 87 else uchar c - 55)"

definition digits_value :: "nat \<Rightarrow> string \<Rightarrow> nat" where
  "digits_value base ds = foldl (\<lambda>v d. v * base + digit_value d) 0 ds"

lemma digit_value_digits:
  assumes "k < 16"
  shows "digit_value (digits ! k) = k" "digit_value (digits ! (k + 16)) = k"
    "digits ! k = CHR ''0'' \<longleftrightarrow> k = 0" "digits ! (k + 16) = CHR ''0'' \<longleftrightarrow> k = 0"
proof -
  have "\<forall>k\<in>{..<16}. digit_value (digits ! k) = k \<and> digit_value (digits ! (k + 16)) = k \<and>
      (digits ! k = CHR ''0'' \<longleftrightarrow> k = 0) \<and> (digits ! (k + 16) = CHR ''0'' \<longleftrightarrow> k = 0)"
    by code_simp
  then show "digit_value (digits ! k) = k" "digit_value (digits ! (k + 16)) = k"
    "digits ! k = CHR ''0'' \<longleftrightarrow> k = 0" "digits ! (k + 16) = CHR ''0'' \<longleftrightarrow> k = 0"
    using assms by auto
qed

lemma digits_value_snoc: "digits_value base (ds @ [d]) = digits_value base ds * base + digit_value d"
  by (simp add: digits_value_def)

lemma num_digits_value:
  assumes "2 \<le> base" "base \<le> 16" "capitals = 0 \<or> capitals = 16"
  shows "\<exists>ds. num_digits digits base capitals u = Some ds \<and> digits_value base ds = u \<and>
    ds \<noteq> [] \<and> (hd ds = CHR ''0'' \<longrightarrow> u = 0 \<and> length ds = 1)"
proof (induction u rule: less_induct)
  case (less u)
  define d where "d = digits ! (u mod base + capitals)"
  have "u mod base < 16"
    using assms mod_less_divisor [of base u] by linarith
  then have d: "rd digits (u mod base + capitals) = Some d" "digit_value d = u mod base" "d = CHR ''0'' \<longleftrightarrow> u mod base = 0"
    using assms(3) digit_value_digits [of "u mod base"] by (auto simp: d_def rd_def digits_def)
  show ?case
  proof (cases "u div base = 0")
    case True
    then show ?thesis
      using d assms by (subst num_digits.simps) (auto simp: digits_value_def div_eq_0_iff)
  next
    case False
    then have "u div base < u"
      using assms(1) by (cases u) auto
    then obtain ds where ds: "num_digits digits base capitals (u div base) = Some ds" "digits_value base ds = u div base"
        "ds \<noteq> []" "hd ds = CHR ''0'' \<longrightarrow> u div base = 0 \<and> length ds = 1"
      using less.IH by blast
    then show ?thesis
      using d assms False by (subst num_digits.simps) (auto simp: digits_value_snoc)
  qed
qed

lemma num_digits_length:
  assumes "num_digits table base capitals u = Some ds" "2 \<le> base" "u < 2 ^ k" "0 < k"
  shows "length ds \<le> k"
  using assms
proof (induction k arbitrary: u ds)
  case (Suc k)
  show ?case
  proof (cases "u div base = 0")
    case True
    then show ?thesis
      using Suc.prems(1) by (subst (asm) num_digits.simps) (auto simp: bind_eq_Some_conv split: if_splits)
  next
    case False
    then obtain ds' d where ds: "ds = ds' @ [d]" "num_digits table base capitals (u div base) = Some ds'"
      using Suc.prems(1,2) by (subst (asm) num_digits.simps) (auto simp: bind_eq_Some_conv split: if_splits)
    have "u div base \<le> u div 2"
      using Suc.prems(2) by (intro div_le_mono2) auto
    moreover have "u div 2 < 2 ^ k"
      using Suc.prems(3) by auto
    moreover have "0 < k"
    proof (rule gr0I)
      assume "k = 0"
      then show False
        using False Suc.prems(2,3) by auto
    qed
    ultimately show ?thesis
      using Suc.IH [OF ds(2) Suc.prems(2)] ds(1) by simp
  qed
qed simp

lemma layout_length:
  "padc sp = CHR '' '' \<or> padc sp = CHR ''0'' \<Longrightarrow>
    int (length (layout sp front ds)) = max (fmt_length sp) (int (length front + length ds))"
  by (auto simp: layout_def Let_def)

text \<open>C25. A number is printed as a field at least as wide as asked for and no wider than that or than its characters: sign
  and prefix in front of digits that, read in the base of the conversion, give the number back, without leading
  zeros other than padding, and never more of them than the 64 places of \<open>buf\<close>.  A kernel address in a log is
  printed as \<open><ptr>\<close> instead.\<close>

theorem printed_number_reads_back:
  assumes "2 \<le> base" "base \<le> 16" "capitals = 0 \<or> capitals = 16" "u < 2 ^ 64" "padc sp = CHR '' '' \<or> padc sp = CHR ''0''"
  shows "if doprnt_hide_pointers env \<and> is_log env \<and> kernel_min env \<le> u \<and> u \<le> kernel_max env
    then print_num env putc sp False base capitals sign_char u r = Some (putstr putc ''<ptr>'' r)
    else \<exists>front ds text. print_num env putc sp False base capitals sign_char u r = Some (putstr putc text r) \<and>
      text = layout sp front ds \<and> int (length text) = max (fmt_length sp) (int (length front + length ds)) \<and>
      front = (case sign_char of None \<Rightarrow> [] | Some c \<Rightarrow> [c]) @ num_prefix sp base u \<and>
      digits_value base ds = u \<and> (hd ds \<noteq> CHR ''0'' \<or> ds = ''0'') \<and> length ds \<le> 64"
proof -
  obtain ds where ds: "num_digits digits base capitals u = Some ds" "digits_value base ds = u" "ds \<noteq> []"
      "hd ds = CHR ''0'' \<longrightarrow> u = 0 \<and> length ds = 1"
    using num_digits_value [OF assms(1-3)] by blast
  moreover have "length ds \<le> 64"
    using num_digits_length [OF ds(1) assms(1,4)] by simp
  moreover have "hd ds \<noteq> CHR ''0'' \<or> ds = ''0''"
    using ds(3,4) by (cases ds) auto
  ultimately show ?thesis
    using layout_length [OF assms(5)] by (auto simp: print_num_text num_value_def hidden_def)
qed

theorem printed_number_reads_back_witness:
  "\<exists>front ds text. print_num sample_env (\<lambda>c s. s @ [c]) (fmt_init\<lparr>fmt_length := 12, altfmt := True, padc := CHR ''0''\<rparr>) False 16 16 None 0xFEEDFACE (0, []) =
      Some (putstr (\<lambda>c s. s @ [c]) text (0, [])) \<and> text = ''0x00FEEDFACE'' \<and> digits_value 16 ds = 0xFEEDFACE \<and> front = ''0x''"
proof -
  let ?sp = "fmt_init\<lparr>fmt_length := 12, altfmt := True, padc := CHR ''0''\<rparr>"
  have "layout ?sp ''0x'' ''FEEDFACE'' = ''0x00FEEDFACE''"
    by code_simp
  moreover have "num_digits digits 16 16 0xFEEDFACE = Some ''FEEDFACE''"
    by code_simp
  moreover have "num_prefix ?sp 16 0xFEEDFACE = ''0x''"
    by code_simp
  ultimately show ?thesis
    using printed_number_reads_back [of 16 16 "0xFEEDFACE" ?sp sample_env "\<lambda>c s. s @ [c]" None "(0, [])"]
    by (simp add: sample_env_def fmt_init_def print_num_text num_value_def hidden_def) blast
qed

text \<open>C17. A format and its arguments print one text, whatever the output routine does with its characters, and
  \<open>__doprnt\<close> returns its length.  \<open>vsnprintf\<close> returns the same length and stores the first \<open>size - 1\<close> characters with a
  terminator behind them, changing nothing else and nothing at all when \<open>size\<close> is 0; \<open>vscnprintf\<close> returns how many of
  them it stored.\<close>

theorem printf_one_text:
  assumes "sz \<le> length buf"
  shows "\<exists>text.
     (\<forall>putc s. doprnt env fmt args putc (s :: 's) 10 False = map_option (\<lambda>out. (int (length out), fold putc out s)) text) \<and>
     vsnprintf env buf sz fmt args = map_option (\<lambda>out. (int (length out), if sz = 0 then buf
       else take (sz - 1) out @ NUL # drop (Suc (min (sz - 1) (length out))) buf)) text \<and>
     vscnprintf env buf sz fmt args = map_option (\<lambda>out. (int (min (sz - 1) (length out)), if sz = 0 then buf
       else take (sz - 1) out @ NUL # drop (Suc (min (sz - 1) (length out))) buf)) text"
proof -
  have small: "length out < 2 ^ 31" if "fmt_text env fmt args 10 False = Some out" for out
  proof -
    have "doprnt env fmt args (\<lambda>c s. s @ [c]) [] 10 False = Some (int (length out), out)"
      using that doprnt_device [of env fmt args "\<lambda>c s. s @ [c]" "[]" 10 False] by (simp add: fold_snoc)
    then show ?thesis
      by (auto simp: doprnt_def bind_eq_Some_conv split: if_splits)
  qed
  show ?thesis
    by (rule exI [of _ "fmt_text env fmt args 10 False"]; cases "fmt_text env fmt args 10 False")
      (use small in \<open>auto simp: doprnt_device vsnprintf_buffer [OF assms] vscnprintf_def\<close>)
qed

theorem printf_one_text_witness:
  "\<exists>text. (\<forall>putc s. doprnt sample_env (''%s=%u'' @ [NUL]) [VaPtr (Some (''maxproc'' @ [NUL])), VaInt 532] putc (s :: string) 10 False =
       map_option (\<lambda>out. (int (length out), fold putc out s)) text) \<and>
     text = Some ''maxproc=532'' \<and>
     vsnprintf sample_env (replicate 9 (CHR ''.'')) 8 (''%s=%u'' @ [NUL]) [VaPtr (Some (''maxproc'' @ [NUL])), VaInt 532] =
       Some (11, ''maxproc'' @ [NUL, CHR ''.'']) \<and>
     vscnprintf sample_env (replicate 9 (CHR ''.'')) 8 (''%s=%u'' @ [NUL]) [VaPtr (Some (''maxproc'' @ [NUL])), VaInt 532] =
       Some (7, ''maxproc'' @ [NUL, CHR ''.''])"
proof -
  let ?fmt = "''%s=%u'' @ [NUL]" and ?args = "[VaPtr (Some (''maxproc'' @ [NUL])), VaInt 532]"
  have run: "doprnt sample_env ?fmt ?args (\<lambda>c s. s @ [c]) [] 10 False = Some (11, ''maxproc=532'')"
    by code_simp
  obtain tx where t: "\<forall>putc s. doprnt sample_env ?fmt ?args putc (s :: string) 10 False =
         map_option (\<lambda>out. (int (length out), fold putc out s)) tx"
      "vsnprintf sample_env (replicate 9 (CHR ''.'')) 8 ?fmt ?args = map_option (\<lambda>out. (int (length out), if (8 :: nat) = 0 then replicate 9 (CHR ''.'')
         else take (8 - 1) out @ NUL # drop (Suc (min (8 - 1) (length out))) (replicate 9 (CHR ''.'')))) tx"
      "vscnprintf sample_env (replicate 9 (CHR ''.'')) 8 ?fmt ?args = map_option (\<lambda>out. (int (min (8 - 1) (length out)), if (8 :: nat) = 0 then replicate 9 (CHR ''.'')
         else take (8 - 1) out @ NUL # drop (Suc (min (8 - 1) (length out))) (replicate 9 (CHR ''.'')))) tx"
    using printf_one_text [of 8 "replicate 9 (CHR ''.'')" sample_env ?fmt ?args] by auto
  have "tx = Some ''maxproc=532''"
    using t(1) [rule_format, of "\<lambda>c s. s @ [c]" "[]"] run by (cases tx) (auto simp: fold_snoc)
  then show ?thesis
    using t by (intro exI [of _ tx]) (simp add: numeral_eq_Suc)
qed

section \<open>Where the code departs from its description\<close>

abbreviation prints :: "string \<Rightarrow> va list \<Rightarrow> string option" where
  "prints fmt args \<equiv> fmt_text sample_env (fmt @ [NUL]) args 10 False"

text \<open>A width cuts a string off, where it should only be a minimum.\<close>

lemma string_width_truncates: "prints ''[%3s]'' [VaPtr (Some (''kernel'' @ [NUL]))] = Some ''[ker]''"
  by code_simp

text \<open>With a width, a precision does not keep the code from reading one character too many.\<close>

lemma string_precision_overread:
  "prints ''%.3s'' [VaPtr (Some ''abc'')] = Some ''abc''" "prints ''%5.3s'' [VaPtr (Some ''abc'')] = None"
  by code_simp+

text \<open>The two register examples of the comment at the top of \<^verbatim>\<open>printf.c\<close>: the first is as described, the second
  prints octal digits and names the second bit.\<close>

lemma register_examples:
  "prints ''%b'' [VaInt 3, VaPtr (Some (CHR 0x08 # CHR 0x02 # ''BITTWO'' @ CHR 0x01 # ''BITONE'' @ [NUL]))] =
     Some ''3<BITTWO,BITONE>''"
  "prints ''%b'' [VaInt 0xB, VaPtr (Some (CHR 0x08 # CHR 0x04 # CHR 0x03 # ''FIELD1='' @ CHR 0x02 # ''BITTWO'' @ CHR 0x01 # ''BITONE'' @ [NUL]))] =
     Some ''13<FIELD1=2,BITTWO,BITONE>''"
  by code_simp+

text \<open>The prefix of \<open>%#X\<close> is in lower case; a precision has no effect on a number; the default length of \<open>%D\<close> is 0.\<close>

lemma number_quirks:
  "prints ''%#X'' [VaInt 0xAB] = Some ''0xAB''"
  "prints ''%.4d'' [VaInt 7] = Some ''7''"
  "prints ''%D'' [VaPtr (Some (''abcdefghijklmnop'' @ [NUL])), VaPtr (Some ('':'' @ [NUL]))] = Some ''''"
  by code_simp+

text \<open>A default radix above 16 is accepted but the digits above the table's are wrong: in base 36, the number 20 prints as 4.\<close>

lemma radix_beyond_table:
  "map_option snd (doprnt sample_env (''%n'' @ [NUL]) [VaInt 20] (\<lambda>c s. s @ [c]) [] 36 False) = Some ''4''"
  "doprnt sample_env (''%n'' @ [NUL]) [VaInt 35] (\<lambda>c s. s @ [c]) [] 36 False = None"
  by code_simp+

end
