(* ===== verification/Spec2Isabelle.thy ===== *)
theory Spec2Isabelle
  imports Xnuxx_Probes Boot_Platform Boot_Sha256_Vectors Native_Kernel_Facts Sysv_Sem_Ids Sysv_Msg_Races Sysv_Shm_Facts Kern_Strings_Facts Kern_Printf_Facts
begin

text \<open>
  A verification library for xnu++: the boot path and native kernel that this repository adds to XNU,
  and the System V IPC facilities of the BSD layer.

  \<^bold>\<open>The program.\<close>  A multiboot loader enters the assembly under \<^verbatim>\<open>src/boot\<close>, which calls \<open>boot_entry\<close>
  (\<^verbatim>\<open>src/boot/boot_entry.c\<close>).  That initialises the platform of the virtual machine
  (\<^verbatim>\<open>src/boot/boot_platform.c\<close>: console, SHA-256, callbacks), runs the secure bootloader
  (\<^verbatim>\<open>src/security/bootloader.c\<close>) on a static image and enters \<open>kernel_main\<close>
  (\<^verbatim>\<open>src/kernel/kernel.c\<close>), which sets up descriptor tables, interrupt controller and keyboard, looks for
  an XNU provider and otherwise runs a console of its own.  The System V facilities
  (\<^verbatim>\<open>src/bsd/kern/sysv_ipc.c\<close>, \<^verbatim>\<open>sysv_sem.c\<close>, \<^verbatim>\<open>sysv_msg.c\<close>, \<^verbatim>\<open>sysv_shm.c\<close>) serve the system calls
  of user processes from tables shared by all of them, under one lock per facility.  Below all of it are support
  routines: strings (\<^verbatim>\<open>src/osfmk/device/subrs.c\<close>) and formatted output (\<^verbatim>\<open>src/osfmk/kern/printf.c\<close>,
  \<^verbatim>\<open>src/bsd/kern/subr_prf.c\<close>).

  \<^bold>\<open>Conventions.\<close>  Machine integers are words of their width, or \<open>int\<close> where the C type is signed and the
  value is small, with the truncations of the source written out.  An operation that can fault (an access
  outside a buffer or table, a null pointer, a \<open>panic\<close>) returns an option, \<open>None\<close> being the fault; an error
  number is a value.  Pointers into a table are indices.  What the sources only call (platform
  callbacks, weak XNU symbols, \<open>copyin\<close> and \<open>copyout\<close>, the policy checks, credentials, allocation, the
  clock, the result of a sleep, the operations of the virtual memory system) is a parameter, a field of the environment records; what a theorem needs of it
  is a hypothesis.  Error branches and early returns are branches of the definitions.

  \<^bold>\<open>The theories.\<close>

  \<^item> \<open>Xnu_Prelude\<close>: widths, C strings, the loop combinator \<open>for_each\<close>, facts on lists and words.

  \<^item> \<open>Xnuxx_Probes\<close>: the inline probes of \<^verbatim>\<open>include/xnu++/compat.h\<close> and \<^verbatim>\<open>features.h\<close>.

  \<^item> \<open>Boot_String\<close>: \<open>strlen\<close>, \<open>memcmp\<close>, \<open>memset\<close>, \<open>memcpy\<close> of \<^verbatim>\<open>boot/string.c\<close> and the private copies of the
    bootloader.  The locale \<open>mem_compare\<close> is the contract of a comparison of buffers, interpreted for both.

  \<^item> \<open>Bootloader\<close>, \<open>Bootloader_Gates\<close>: \<open>xnuxx_bootloader_start\<close> over an arbitrary platform.  The callbacks
    are logged and the log is a run of an automaton, the boot protocol; from it follow the order of the
    gates, failing closed, and the exact condition under which an image is accepted.

  \<^item> \<open>Boot_Sha256\<close>, \<open>Boot_Sha256_Vectors\<close>: the measurement routine equals SHA-256 as FIPS 180-4 defines it,
    for all payloads; the constant tables are the roots of primes they should be.

  \<^item> \<open>Boot_Platform\<close>: the platform, its image, and \<open>boot_entry\<close>; on the shipped configuration a rejection
    has no consequence.

  \<^item> \<open>Vga_Console\<close>: the text console of the kernel refines an array of rows; the locale \<open>char_device\<close> lifts the
    contract of one character to strings.

  \<^item> \<open>Descriptor_Tables\<close>, \<open>Native_Kernel\<close>, \<open>Native_Kernel_Facts\<close>: the rest of \<^verbatim>\<open>kernel.c\<close>.  Port output and
    input act on an explicit state of the two interrupt controllers and the keyboard controller.

  \<^item> \<open>Sysv_Ipc\<close>: permissions and identifiers.

  \<^item> \<open>Sysv_Sem\<close>, \<open>Sysv_Sem_Calls\<close>: state and operations of \<^verbatim>\<open>sysv_sem.c\<close>.  \<open>Sysv_Sem_Facts\<close>: a pass of
    \<open>semop\<close> is all or nothing, up to the exception it proves.  \<open>Sysv_Sem_Ids\<close>: the pool of semaphores refines
    a partial map from identifiers to lists of values (locale \<open>id_table\<close>).

  \<^item> \<open>Sysv_Msg\<close>, \<open>Sysv_Msg_Calls\<close>: state and operations of \<^verbatim>\<open>sysv_msg.c\<close>.  A call is cut where it releases the
    lock; each piece is one definition and says where the call goes on.  \<open>Sysv_Msg_Heap\<close>: linked cells in arrays
    (locale \<open>linked_cells\<close>, for headers and for segments) and the invariant \<open>msg_wf\<close>: who owns which
    header and which segment.  \<open>Sysv_Msg_Ops\<close>, \<open>Sysv_Msg_Frames\<close>, \<open>Sysv_Msg_Send\<close>, \<open>Sysv_Msg_Receive\<close>,
    \<open>Sysv_Msg_Control\<close>: every piece keeps the invariant and the messages of the other threads.
    \<open>Sysv_Msg_Threads\<close>: configurations of any number of threads, the specification \<open>mq_step\<close>, and the
    simulation.  \<open>Sysv_Msg_Delivery\<close>: the theorems on reachable configurations, and whole calls.
    \<open>Sysv_Msg_Races\<close>: the run that the safety theorem has to exclude.

  \<^item> \<open>Sysv_Shm\<close>, \<open>Sysv_Shm_Calls\<close>: state and operations of \<^verbatim>\<open>sysv_shm.c\<close>; the virtual memory system answers
    through the environment, and what it did is logged.  \<open>Sysv_Shm_Inv\<close>: attachments counted over all tables, the
    protocol of memory entries, the invariant \<open>shm_ok\<close>.  \<open>Sysv_Shm_Ops\<close>, \<open>Sysv_Shm_Get\<close>: every call keeps it.
    \<open>Sysv_Shm_Reach\<close>: the states that calls of any processes reach from boot.  \<open>Sysv_Shm_Facts\<close>: in them the
    books balance and no call crashes; attaching and detaching cancel out; what a failed allocation leaves
    behind.

  \<^item> \<open>Kern_Strings\<close>, \<open>Kern_Strings_Facts\<close>: the string routines; a pointer is the list of the characters behind it.
    Bounded copies truncate and terminate, comparisons decide equality, \<open>strnstr\<close> finds the first occurrence.

  \<^item> \<open>Kern_Printf\<close>: \<open>__doprnt\<close> over any output routine, and printing into a buffer.  \<open>Kern_Printf_Text\<close>: what
    is printed depends on the format and the arguments only.  \<open>Kern_Printf_Types\<close>: the kinds of arguments a format
    asks for, and that such arguments suffice.  \<open>Kern_Printf_Facts\<close>: numbers read back, the buffer, and departures
    from the description.

  \<^bold>\<open>Bounds and fuel.\<close>  The loops of \<^verbatim>\<open>sysv_msg.c\<close> over linked cells are partial functions, and that they
  return is part of the theorems.  The walks over the undo lists of \<^verbatim>\<open>sysv_sem.c\<close> carry as fuel one more than
  the number of undo structures, each of which is on the list at most once.  The theorems on message
  queues are for the limits the kernel is compiled with (40 queues, 40 headers, 2048 segments of 8 bytes),
  which nothing in the sources changes after \<open>msginit\<close> has checked them.  The loops of \<^verbatim>\<open>sysv_shm.c\<close> that may not end
  (making the chunks of a segment, looking a key up again after a sleep) are partial functions too.

  \<^bold>\<open>Not modelled.\<close>  \<^verbatim>\<open>src/kernel/kernel64.c\<close>, a copy of \<^verbatim>\<open>kernel.c\<close> that does not compile as it stands; the boot
  assembly and linker scripts; the wrappers that only add a
  cancellation point to a call; the interface headers of \<^verbatim>\<open>src/include/xnu++\<close> that declare
  functions nobody defines; the console and log front ends of \<^verbatim>\<open>subr_prf.c\<close>; and upstream XNU outside the files
  named above (Mach, virtual memory, file systems, network, I/O Kit), which they reach only through the
  parameters.  Timing,
  caches and the memory model are below the level of the C sources: the threads interleave at the
  points where a call releases its lock.
\<close>

end
